(* ===== verification/Prelude.thy ===== *)
theory Prelude
  imports Complex_Main "HOL-Library.Word" "HOL-Library.Sublist" "HOL-Library.Multiset" "HOL-Library.List_Lexorder"
begin

text \<open>
  Shared vocabulary of the development: JavaScript strings as sequences of UTF-16 code units,
  the string operations the sources call, JSON values with \<open>JSON.stringify\<close>, and JavaScript's
  insertion-ordered \<open>Map\<close> as an association list, with the interface its clients rely on
  stated as the locale \<open>ordered_map\<close>.
\<close>

named_theorems str_simps \<open>evaluation of the string operations\<close>

section \<open>Strings\<close>

text \<open>
  A JavaScript string is a sequence of 16-bit code units: \<open>length\<close> counts units, slices cut
  between units, equality compares units. String literals of the source are written
  \<open>js ''...''\<close>.
\<close>

type_synonym unit16 = "16 word"
type_synonym jstr = "unit16 list"

definition js :: "string \<Rightarrow> jstr" where
  "js s = map (\<lambda>c. of_nat (of_char c)) s"

abbreviation NL :: unit16 where "NL \<equiv> 10"
abbreviation CR :: unit16 where "CR \<equiv> 13"

text \<open>\<open>parts.join(sep)\<close>.\<close>

fun join :: "jstr \<Rightarrow> jstr list \<Rightarrow> jstr" where
  "join sep [] = []"
| "join sep [x] = x"
| "join sep (x # y # ys) = x @ sep @ join sep (y # ys)"

text \<open>\<open>s.split(c)\<close> for a one-unit separator \<open>c\<close>: always at least one piece.\<close>

fun split_on :: "unit16 \<Rightarrow> jstr \<Rightarrow> jstr list" where
  "split_on c [] = [[]]"
| "split_on c (x # xs) =
     (if x = c then [] # split_on c xs
      else (x # hd (split_on c xs)) # tl (split_on c xs))"

text \<open>\<open>s.startsWith(p)\<close>, \<open>s.endsWith(p)\<close>, \<open>s.indexOf(p)\<close> (\<open>None\<close> is -1).\<close>

definition starts_with :: "jstr \<Rightarrow> jstr \<Rightarrow> bool" where
  "starts_with s p \<longleftrightarrow> take (length p) s = p"

definition ends_with :: "jstr \<Rightarrow> jstr \<Rightarrow> bool" where
  "ends_with s p \<longleftrightarrow> length p \<le> length s \<and> drop (length s - length p) s = p"

fun index_of :: "jstr \<Rightarrow> jstr \<Rightarrow> nat option" where
  "index_of [] p = (if p = [] then Some 0 else None)"
| "index_of (x # xs) p =
     (if starts_with (x # xs) p then Some 0 else map_option Suc (index_of xs p))"

text \<open>
  The units \<open>trim\<close> removes: ECMAScript white space and line terminators, all in the Basic
  Multilingual Plane.
\<close>

definition is_ws :: "unit16 \<Rightarrow> bool" where
  "is_ws c \<longleftrightarrow> (9 \<le> c \<and> c \<le> 13) \<or> c = 32 \<or> c = 0xA0 \<or> c = 0x1680 \<or>
     (0x2000 \<le> c \<and> c \<le> 0x200A) \<or> c = 0x2028 \<or> c = 0x2029 \<or> c = 0x202F \<or> c = 0x205F \<or>
     c = 0x3000 \<or> c = 0xFEFF"

definition trim_start :: "jstr \<Rightarrow> jstr" where
  "trim_start s = dropWhile is_ws s"

definition trim_end :: "jstr \<Rightarrow> jstr" where
  "trim_end s = rev (dropWhile is_ws (rev s))"

definition trim :: "jstr \<Rightarrow> jstr" where
  "trim s = trim_start (trim_end s)"

text \<open>\<open>String(n)\<close> for a natural number: decimal digits.\<close>

fun nat_str :: "nat \<Rightarrow> jstr" where
  "nat_str n = (if n < 10 then [of_nat (48 + n)] else nat_str (n div 10) @ [of_nat (48 + n mod 10)])"

declare nat_str.simps [simp del]

definition int_str :: "int \<Rightarrow> jstr" where
  "int_str i = (if i < 0 then js ''-'' @ nat_str (nat (- i)) else nat_str (nat i))"

lemma js_Nil [simp]: "js [] = []"
  by (simp add: js_def)

lemma js_append [simp]: "js (a @ b) = js a @ js b"
  by (simp add: js_def)

lemma length_js [simp]: "length (js s) = length s"
  by (simp add: js_def)

lemma split_on_ne [simp]: "split_on c s \<noteq> []"
  by (cases s) auto

lemma join_Cons_ne: "ys \<noteq> [] \<Longrightarrow> join sep (x # ys) = x @ sep @ join sep ys"
  by (cases ys) auto

text \<open>Splitting and joining on the same unit are inverse.\<close>

lemma join_split_on: "join [c] (split_on c s) = s"
proof (induction s)
  case Nil
  then show ?case by simp
next
  case (Cons x xs)
  obtain p ps where ps: "split_on c xs = p # ps"
    by (cases "split_on c xs") auto
  show ?case
  proof (cases "x = c")
    case True
    with Cons ps show ?thesis by (simp add: join_Cons_ne)
  next
    case False
    with Cons ps show ?thesis by (cases ps) auto
  qed
qed

lemma split_on_pieces: "\<forall>p \<in> set (split_on c s). c \<notin> set p"
proof (induction s)
  case (Cons x xs)
  obtain p ps where "split_on c xs = p # ps"
    by (cases "split_on c xs") auto
  with Cons show ?case by auto
qed simp

lemma split_on_no_sep: "c \<notin> set s \<Longrightarrow> split_on c s = [s]"
  by (induction s) auto

lemma split_on_append_sep: "c \<notin> set p \<Longrightarrow> split_on c (p @ c # s) = p # split_on c s"
  by (induction p) auto

lemma split_on_join:
  "ls \<noteq> [] \<Longrightarrow> \<forall>l \<in> set ls. c \<notin> set l \<Longrightarrow> split_on c (join [c] ls) = ls"
proof (induction "[c]" ls rule: join.induct)
  case (3 x y ys)
  then show ?case by (simp add: split_on_append_sep)
qed (simp_all add: split_on_no_sep)

lemma length_join_ge: "x \<in> set xs \<Longrightarrow> length x \<le> length (join sep xs)"
  by (induction sep xs rule: join.induct) auto

text \<open>\<open>indexOf\<close> returns the first occurrence.\<close>

lemma index_of_Some:
  "index_of s p = Some i \<Longrightarrow> i + length p \<le> length s \<and> take (length p) (drop i s) = p"
proof (induction s arbitrary: i)
  case Nil
  then show ?case by (simp split: if_splits)
next
  case (Cons x xs)
  show ?case
  proof (cases "starts_with (x # xs) p")
    case True
    with Cons.prems have "i = 0" by simp
    moreover from True have "take (length p) (x # xs) = p" by (simp add: starts_with_def)
    moreover from this have "length p \<le> length (x # xs)"
      by (metis length_take min.cobounded1)
    ultimately show ?thesis by simp
  next
    case False
    with Cons.prems obtain j where "index_of xs p = Some j" "i = Suc j" by auto
    with Cons.IH show ?thesis by fastforce
  qed
qed

lemma index_of_first:
  "index_of s p = Some i \<Longrightarrow> j < i \<Longrightarrow> take (length p) (drop j s) \<noteq> p"
proof (induction s arbitrary: i j)
  case Nil
  then show ?case by (simp split: if_splits)
next
  case (Cons x xs)
  then show ?case
    by (cases j) (auto simp: starts_with_def split: if_splits)
qed

lemma index_of_None:
  "index_of s p = None \<Longrightarrow> take (length p) (drop j s) \<noteq> p"
proof (induction s arbitrary: j)
  case Nil
  then show ?case by (simp split: if_splits)
next
  case (Cons x xs)
  then show ?case
    by (cases j) (auto simp: starts_with_def split: if_splits)
qed

text \<open>Decimal rendering is short: \<open>k\<close> digits hold every number below \<open>10 ^ k\<close>.\<close>

lemma length_nat_str: "0 < k \<Longrightarrow> n < 10 ^ k \<Longrightarrow> length (nat_str n) \<le> k"
proof (induction n arbitrary: k rule: nat_str.induct)
  case (1 n)
  show ?case
  proof (cases "n < 10")
    case True
    with 1 show ?thesis by (simp add: nat_str.simps [of n])
  next
    case False
    with 1 obtain m where k: "k = Suc m" by (cases k) auto
    with False 1 have m: "0 < m" by (cases m) auto
    from k 1 have "n div 10 < 10 ^ m" by (simp add: less_mult_imp_div_less mult.commute)
    with False 1 m have "length (nat_str (n div 10)) \<le> m" by simp
    with False k show ?thesis by (simp add: nat_str.simps [of n])
  qed
qed

lemma nat_str_ne [simp]: "nat_str n \<noteq> []"
  by (simp add: nat_str.simps [of n])


section \<open>JSON values\<close>

text \<open>
  A number is represented by the text JavaScript prints for it, which determines the value.
  An object is the list of its properties in enumeration order.
\<close>

datatype json =
    JNull
  | JBool bool
  | JNum jstr
  | JStr jstr
  | JArr "json list"
  | JObj "(jstr \<times> json) list"

definition is_high :: "unit16 \<Rightarrow> bool" where
  "is_high c \<longleftrightarrow> 0xD800 \<le> c \<and> c \<le> 0xDBFF"

definition is_low :: "unit16 \<Rightarrow> bool" where
  "is_low c \<longleftrightarrow> 0xDC00 \<le> c \<and> c \<le> 0xDFFF"

definition hex_digit :: "nat \<Rightarrow> unit16" where
  "hex_digit n = (if n < 10 then of_nat (48 + n) else of_nat (87 + n))"

definition unicode_escape :: "unit16 \<Rightarrow> jstr" where
  "unicode_escape c =
     (let n = unat c in
      js [CHR 0x5C, CHR ''u''] @
      [hex_digit (n div 4096), hex_digit (n div 256 mod 16), hex_digit (n div 16 mod 16),
       hex_digit (n mod 16)])"

definition escape_unit :: "unit16 \<Rightarrow> jstr" where
  "escape_unit c =
     (if c = 8 then js [CHR 0x5C, CHR ''b'']
      else if c = 9 then js [CHR 0x5C, CHR ''t'']
      else if c = 10 then js [CHR 0x5C, CHR ''n'']
      else if c = 12 then js [CHR 0x5C, CHR ''f'']
      else if c = 13 then js [CHR 0x5C, CHR ''r'']
      else if c = 34 then js [CHR 0x5C, CHR 0x22]
      else if c = 92 then js [CHR 0x5C, CHR 0x5C]
      else if c < 32 \<or> is_high c \<or> is_low c then unicode_escape c
      else [c])"

text \<open>A surrogate pair is printed as it is, a lone surrogate is escaped.\<close>

fun escape_units :: "jstr \<Rightarrow> jstr" where
  "escape_units [] = []"
| "escape_units [c] = escape_unit c"
| "escape_units (c # d # cs) =
     (if is_high c \<and> is_low d then c # d # escape_units cs
      else escape_unit c @ escape_units (d # cs))"

definition json_quote :: "jstr \<Rightarrow> jstr" where
  "json_quote s = [34] @ escape_units s @ [34]"

text \<open>\<open>JSON.stringify(v)\<close> without indentation.\<close>

fun stringify :: "json \<Rightarrow> jstr" where
  "stringify JNull = js ''null''"
| "stringify (JBool b) = (if b then js ''true'' else js ''false'')"
| "stringify (JNum t) = t"
| "stringify (JStr s) = json_quote s"
| "stringify (JArr vs) = js ''['' @ join (js '','') (map stringify vs) @ js '']''"
| "stringify (JObj kvs) =
     js ''{'' @ join (js '','') (map (\<lambda>kv. json_quote (fst kv) @ js '':'' @ stringify (snd kv)) kvs)
       @ js ''}''"

section \<open>Insertion-ordered maps\<close>

text \<open>
  A JavaScript \<open>Map\<close>: \<open>set\<close> on a present key keeps its position, on a new key appends it;
  \<open>delete\<close> removes the key; iteration follows insertion order.
\<close>

type_synonym ('k, 'v) omap = "('k \<times> 'v) list"

abbreviation omap_get :: "('k, 'v) omap \<Rightarrow> 'k \<Rightarrow> 'v option" where
  "omap_get \<equiv> map_of"

fun omap_set :: "'k \<Rightarrow> 'v \<Rightarrow> ('k, 'v) omap \<Rightarrow> ('k, 'v) omap" where
  "omap_set k v [] = [(k, v)]"
| "omap_set k v ((k', v') # m) =
     (if k' = k then (k, v) # m else (k', v') # omap_set k v m)"

definition omap_delete :: "'k \<Rightarrow> ('k, 'v) omap \<Rightarrow> ('k, 'v) omap" where
  "omap_delete k m = filter (\<lambda>kv. fst kv \<noteq> k) m"

definition omap_has :: "('k, 'v) omap \<Rightarrow> 'k \<Rightarrow> bool" where
  "omap_has m k \<longleftrightarrow> k \<in> set (map fst m)"

definition omap_ok :: "('k, 'v) omap \<Rightarrow> bool" where
  "omap_ok m \<longleftrightarrow> distinct (map fst m)"

definition omap_values :: "('k, 'v) omap \<Rightarrow> 'v list" where
  "omap_values m = map snd m"

lemma keys_omap_set: "set (map fst (omap_set k v m)) = insert k (set (map fst m))"
  by (induction k v m rule: omap_set.induct) auto

lemma omap_set_new: "k \<notin> set (map fst m) \<Longrightarrow> omap_set k v m = m @ [(k, v)]"
  by (induction k v m rule: omap_set.induct) auto

lemma get_omap_set: "omap_get (omap_set k v m) j = (if j = k then Some v else omap_get m j)"
  by (induction k v m rule: omap_set.induct) auto

lemma get_omap_delete: "omap_get (omap_delete k m) j = (if j = k then None else omap_get m j)"
  unfolding omap_delete_def by (induction m) auto

lemma ok_omap_set: "omap_ok m \<Longrightarrow> omap_ok (omap_set k v m)"
  unfolding omap_ok_def by (induction k v m rule: omap_set.induct) (auto simp: keys_omap_set [simplified])

lemma ok_omap_delete: "omap_ok m \<Longrightarrow> omap_ok (omap_delete k m)"
  unfolding omap_ok_def omap_delete_def by (induction m) auto

text \<open>What the clients of a \<open>Map\<close> rely on.\<close>

locale ordered_map =
  fixes empty :: 'm
    and get :: "'m \<Rightarrow> 'k \<Rightarrow> 'v option"
    and put :: "'k \<Rightarrow> 'v \<Rightarrow> 'm \<Rightarrow> 'm"
    and del :: "'k \<Rightarrow> 'm \<Rightarrow> 'm"
    and entries :: "'m \<Rightarrow> ('k \<times> 'v) list"
    and invar :: "'m \<Rightarrow> bool"
  assumes get_empty: "get empty k = None"
    and get_put: "invar m \<Longrightarrow> get (put k v m) j = (if j = k then Some v else get m j)"
    and get_del: "invar m \<Longrightarrow> get (del k m) j = (if j = k then None else get m j)"
    and get_entries: "invar m \<Longrightarrow> map_of (entries m) k = get m k"
    and distinct_entries: "invar m \<Longrightarrow> distinct (map fst (entries m))"
    and invar_empty: "invar empty"
    and invar_put: "invar m \<Longrightarrow> invar (put k v m)"
    and invar_del: "invar m \<Longrightarrow> invar (del k m)"
begin

lemma invar_puts: "invar m \<Longrightarrow> invar (fold (\<lambda>x. put (f x) (g x)) xs m)"
  by (induction xs arbitrary: m) (auto simp: invar_put)

lemma invar_dels: "invar m \<Longrightarrow> invar (fold (\<lambda>x. del (f x)) xs m)"
  by (induction xs arbitrary: m) (auto simp: invar_del)

text \<open>A run of insertions: the last one of each key wins.\<close>

lemma get_puts:
  "invar m \<Longrightarrow> get (fold (\<lambda>x. put (f x) (g x)) xs m) k =
     (case map_of (rev (map (\<lambda>x. (f x, g x)) xs)) k of Some v \<Rightarrow> Some v | None \<Rightarrow> get m k)"
proof (induction xs arbitrary: m)
  case (Cons x xs)
  then show ?case
    by (simp add: invar_put get_put map_add_def map_of_append split: option.splits)
qed simp

text \<open>A run of deletions.\<close>

lemma get_dels:
  "invar m \<Longrightarrow> get (fold (\<lambda>x. del (f x)) xs m) k = (if k \<in> f ` set xs then None else get m k)"
  by (induction xs arbitrary: m) (auto simp: invar_del get_del)

lemma in_entries: "invar m \<Longrightarrow> (k, v) \<in> set (entries m) \<longleftrightarrow> get m k = Some v"
  by (metis distinct_entries get_entries map_of_eq_Some_iff)

end

interpretation om: ordered_map "[]" omap_get omap_set omap_delete "\<lambda>m. m" omap_ok
  by unfold_locales
    (auto simp: get_omap_set get_omap_delete omap_ok_def
      ok_omap_set [unfolded omap_ok_def] ok_omap_delete [unfolded omap_ok_def])

lemma fold_omap_set_fresh:
  "distinct (map f xs) \<Longrightarrow> set (map f xs) \<inter> set (map fst m) = {} \<Longrightarrow>
     fold (\<lambda>x. omap_set (f x) (g x)) xs m = m @ map (\<lambda>x. (f x, g x)) xs"
  by (induction xs arbitrary: m) (auto simp: omap_set_new)

lemma omap_has_get: "omap_has m k \<longleftrightarrow> omap_get m k \<noteq> None"
  by (auto simp: omap_has_def map_of_eq_None_iff)


section \<open>Searching lists\<close>

text \<open>\<open>xs.findIndex(p)\<close> (\<open>None\<close> is -1).\<close>

fun find_index :: "('a \<Rightarrow> bool) \<Rightarrow> 'a list \<Rightarrow> nat option" where
  "find_index P [] = None"
| "find_index P (x # xs) = (if P x then Some 0 else map_option Suc (find_index P xs))"

text \<open>The last element that satisfies a predicate, as a loop that overwrites a variable finds it.\<close>

definition find_last :: "('a \<Rightarrow> bool) \<Rightarrow> 'a list \<Rightarrow> 'a option" where
  "find_last P xs = find P (rev xs)"

lemma find_index_Some: "find_index P xs = Some i \<Longrightarrow> i < length xs \<and> P (xs ! i) \<and> (\<forall>j < i. \<not> P (xs ! j))"
proof (induction xs arbitrary: i)
  case (Cons x xs)
  then show ?case
    by (cases i) (auto simp: less_Suc_eq_0_disj split: if_splits)
qed simp

lemma find_index_None: "find_index P xs = None \<longleftrightarrow> (\<forall>x \<in> set xs. \<not> P x)"
  by (induction xs) auto

lemma find_index_append:
  "\<forall>x \<in> set xs. \<not> P x \<Longrightarrow> find_index P (xs @ ys) = map_option (\<lambda>i. length xs + i) (find_index P ys)"
  by (cases "find_index P ys"; induction xs) auto

lemma find_last_snoc [simp]:
  "find_last P (xs @ [x]) = (if P x then Some x else find_last P xs)"
  by (simp add: find_last_def)

lemma find_last_Nil [simp]: "find_last P [] = None"
  by (simp add: find_last_def)

lemma find_last_None: "find_last P xs = None \<longleftrightarrow> (\<forall>x \<in> set xs. \<not> P x)"
  by (auto simp: find_last_def find_None_iff)

lemma find_last_at:
  "P c \<Longrightarrow> \<forall>z \<in> set post. \<not> P z \<Longrightarrow> find_last P (pre @ c # post) = Some c"
proof (induction post rule: rev_induct)
  case (snoc x xs)
  then show ?case using find_last_snoc [of P "pre @ c # xs" x] by simp
qed simp

lemma find_last_split:
  assumes "find_last P xs = Some x"
  shows "\<exists>ys zs. xs = ys @ x # zs \<and> P x \<and> (\<forall>z \<in> set zs. \<not> P z)"
  using assms
proof (induction xs rule: rev_induct)
  case (snoc y xs)
  show ?case
  proof (cases "P y")
    case True
    with snoc.prems show ?thesis by (intro exI [of _ xs] exI [of _ "[]"]) auto
  next
    case False
    with snoc obtain ys zs where "xs = ys @ x # zs" "P x" "\<forall>z \<in> set zs. \<not> P z" by auto
    with False show ?thesis by (intro exI [of _ ys] exI [of _ "zs @ [y]"]) auto
  qed
qed simp

end
