(* ===== verification/Transcript.thy ===== *)
theory Transcript
  imports Prelude
begin

text \<open>
  Messages exchanged with a model (packages/ai/src/types.ts), and the replay of system messages
  into the current prompt and tool set (packages/ai/src/utils/transcript.ts, utils/text.ts).
  The tool replay is a client of the interface \<open>ordered_map\<close>.
\<close>

section \<open>Data\<close>

record tool_call =
  tc_id :: jstr
  tc_name :: jstr
  tc_arguments :: "(jstr \<times> json) list"
  tc_thoughtSignature :: "jstr option"
  tc_namespace :: "jstr option"
  tc_argumentsError :: "jstr option"

datatype content =
    Text (tx_text: jstr) (textSignature: "jstr option")
  | Thinking (tx_thinking: jstr) (thinkingSignature: "jstr option") (redacted: bool)
  | Image (image_data: jstr) (mimeType: jstr)
  | ToolCall (toolCall: tool_call)

text \<open>\<open>string | Content[]\<close>, the content of a message.\<close>

datatype content_value = CStr jstr | CBlocks "content list"

record usage_cost =
  co_input :: rat
  co_output :: rat
  co_cacheRead :: rat
  co_cacheWrite :: rat
  co_total :: rat
  co_totalFromProvider :: bool

record usage =
  u_input :: int
  u_output :: int
  u_cacheRead :: int
  u_cacheWrite :: int
  u_cacheWrite1h :: "int option"
  u_reasoning :: "int option"
  u_totalTokens :: int
  u_cost :: usage_cost

datatype stop_reason = PendingStop | Stop | LengthStop | ToolUse | ErrorStop | AbortedStop | DeferredStop

text \<open>The declaration of a tool; a runtime tool extends it with executable fields.\<close>

record tool =
  t_name :: jstr
  t_description :: jstr
  t_parameters :: json
  t_constrainedSampling :: "json option"

text \<open>
  Session files are parsed without validation, so the content of a stored message can be
  \<open>null\<close>: \<open>None\<close>. \<open>sy_sections\<close> lists the named sections in enumeration order; a section set to
  \<open>null\<close> is \<open>None\<close>. An absent tool list is \<open>[]\<close>: every writer of \<open>toolsAdded\<close> and
  \<open>toolsRemoved\<close> leaves an empty list out.
\<close>

record system_message =
  sy_content :: "content_value option"
  sy_sections :: "(jstr \<times> jstr option) list"
  sy_toolsAdded :: "tool list"
  sy_toolsRemoved :: "jstr list"
  sy_timestamp :: int

record user_message =
  us_content :: "content_value option"
  us_timestamp :: int

record assistant_message =
  as_content :: "content list option"
  as_api :: jstr
  as_provider :: jstr
  as_model :: jstr
  as_responseModel :: "jstr option"
  as_responseId :: "jstr option"
  as_providerThinkingLevel :: "jstr option"
  as_thinkingLevel :: "jstr option"
  as_diagnostics :: "json option"
  as_usage :: "usage option"
  as_stopReason :: stop_reason
  as_deferred :: "json option"
  as_errorMessage :: "jstr option"
  as_rawStopReason :: "jstr option"
  as_endTurn :: "bool option"
  as_timestamp :: int
  as_durationMs :: "int option"

record nested_call =
  nc_id :: jstr
  nc_name :: jstr
  nc_arguments :: "(jstr \<times> json) list option"

record tool_result_message =
  tr_toolCallId :: jstr
  tr_toolName :: jstr
  tr_content :: "content list option"
  tr_details :: "json option"
  tr_usage :: "usage option"
  tr_nestedCalls :: "nested_call list"
  tr_isError :: bool
  tr_timestamp :: int
  tr_durationMs :: "int option"

datatype message =
    SystemM system_message
  | UserM user_message
  | AssistantM assistant_message
  | ToolResultM tool_result_message

section \<open>Text of messages (utils/text.ts)\<close>

fun block_text :: "content \<Rightarrow> jstr option" where
  "block_text (Text t _) = Some t"
| "block_text _ = None"

definition contentText :: "jstr \<Rightarrow> content_value \<Rightarrow> jstr" where
  "contentText separator c =
     (case c of CStr s \<Rightarrow> s | CBlocks bs \<Rightarrow> join separator (List.map_filter block_text bs))"

abbreviation newline :: jstr where "newline \<equiv> [NL]"
abbreviation blank_line :: jstr where "blank_line \<equiv> [NL, NL]"

text \<open>
  A \<open>null\<close> content is turned into the empty string by the session projection before any of
  these functions sees it; the model reads it as empty.
\<close>

definition system_text :: "system_message \<Rightarrow> jstr" where
  "system_text m = (case sy_content m of None \<Rightarrow> [] | Some c \<Rightarrow> contentText newline c)"

definition getSystemMessageText :: "system_message \<Rightarrow> jstr" where
  "getSystemMessageText m =
     join blank_line
       (filter (\<lambda>part. part \<noteq> []) (system_text m # List.map_filter snd (sy_sections m)))"

definition renderSystemMessageUpdate :: "system_message \<Rightarrow> jstr" where
  "renderSystemMessageUpdate m =
     join blank_line
       ((if system_text m = [] then [] else [system_text m]) @
        map (\<lambda>(name, value). case value of
              None \<Rightarrow> js ''Removed system prompt section '' @ [34] @ name @ [34] @ js ''.''
            | Some v \<Rightarrow> js ''Updated system prompt section '' @ [34] @ name @ [34] @ js '':'' @ blank_line @ v)
          (sy_sections m))"

section \<open>Replay of system messages (utils/transcript.ts)\<close>

record llm_context =
  cx_systemPrompt :: "jstr option"
  cx_messages :: "message list"
  cx_tools :: "tool list option"

definition createInitialSystemMessage :: "jstr option \<Rightarrow> tool list option \<Rightarrow> system_message option" where
  "createInitialSystemMessage systemPrompt tools =
     (let hasSystemPrompt = (case systemPrompt of None \<Rightarrow> False | Some p \<Rightarrow> p \<noteq> []);
          hasTools = (case tools of None \<Rightarrow> False | Some ts \<Rightarrow> ts \<noteq> [])
      in if \<not> hasSystemPrompt \<and> \<not> hasTools then None
         else Some \<lparr>sy_content = Some (CStr (case systemPrompt of None \<Rightarrow> [] | Some p \<Rightarrow> p)),
                    sy_sections = [],
                    sy_toolsAdded = (if hasTools then the tools else []),
                    sy_toolsRemoved = [],
                    sy_timestamp = 0\<rparr>)"

definition normalizeContext :: "llm_context \<Rightarrow> message list" where
  "normalizeContext c =
     (case createInitialSystemMessage (cx_systemPrompt c) (cx_tools c) of
        None \<Rightarrow> cx_messages c
      | Some m \<Rightarrow> SystemM m # cx_messages c)"

fun as_system :: "message \<Rightarrow> system_message option" where
  "as_system (SystemM m) = Some m"
| "as_system _ = None"

text \<open>
  The replay helpers read only the entries whose role is \<open>system\<close>; a transcript is given to
  them as the list of those entries.
\<close>

definition getInitialSystemMessage :: "message list \<Rightarrow> system_message option" where
  "getInitialSystemMessage ms = (case ms of [] \<Rightarrow> None | m # _ \<Rightarrow> as_system m)"

definition withoutInitialSystemMessage :: "message list \<Rightarrow> message list" where
  "withoutInitialSystemMessage ms =
     (case getInitialSystemMessage ms of None \<Rightarrow> ms | Some _ \<Rightarrow> drop 1 ms)"

type_synonym tool_map = "(jstr, tool) omap"

definition replay_tools :: "system_message \<Rightarrow> tool_map \<Rightarrow> tool_map" where
  "replay_tools m tools =
     fold (\<lambda>t. omap_set (t_name t) t) (sy_toolsAdded m)
       (fold (\<lambda>name. omap_delete name) (sy_toolsRemoved m) tools)"

definition getCurrentTools :: "system_message list \<Rightarrow> tool list" where
  "getCurrentTools ms = omap_values (fold replay_tools ms [])"

definition patch_section :: "jstr \<times> jstr option \<Rightarrow> (jstr, jstr) omap \<Rightarrow> (jstr, jstr) omap" where
  "patch_section nv secs =
     (case snd nv of None \<Rightarrow> omap_delete (fst nv) secs | Some v \<Rightarrow> omap_set (fst nv) v secs)"

definition getCurrentSystemMessage :: "system_message list \<Rightarrow> system_message option" where
  "getCurrentSystemMessage ms =
     (let texts = filter (\<lambda>t. t \<noteq> []) (map system_text ms);
          sections = fold (\<lambda>m. fold patch_section (sy_sections m)) ms [];
          timestamp = (case ms of [] \<Rightarrow> None | m # _ \<Rightarrow> Some (sy_timestamp m));
          tools = getCurrentTools ms
      in if timestamp = None \<and> tools = [] then None
         else Some \<lparr>sy_content = Some (CStr (join blank_line texts)),
                    sy_sections = map (\<lambda>(n, v). (n, Some v)) sections,
                    sy_toolsAdded = tools,
                    sy_toolsRemoved = [],
                    sy_timestamp = (case timestamp of None \<Rightarrow> 0 | Some t \<Rightarrow> t)\<rparr>)"

definition getCurrentSystemPrompt :: "system_message list \<Rightarrow> jstr" where
  "getCurrentSystemPrompt ms =
     (case getCurrentSystemMessage ms of None \<Rightarrow> [] | Some m \<Rightarrow> getSystemMessageText m)"

definition system_messages :: "message list \<Rightarrow> system_message list" where
  "system_messages ms = List.map_filter as_system ms"

definition collapseSystemMessages :: "message list \<Rightarrow> message list" where
  "collapseSystemMessages ms =
     (let head = getCurrentSystemMessage (system_messages ms);
          messages = filter (\<lambda>m. as_system m = None) ms
      in case head of None \<Rightarrow> messages | Some h \<Rightarrow> SystemM h # messages)"

definition resolveTranscript :: "message list \<Rightarrow> bool \<Rightarrow> message list" where
  "resolveTranscript ms supportsMidConvoSystemMessages =
     (if supportsMidConvoSystemMessages then ms else collapseSystemMessages ms)"

section \<open>Tool declarations and their changes\<close>

text \<open>
  The JSON round trip of the parameters is the identity on JSON values; the record truncation
  drops the executable fields of a runtime tool.
\<close>

definition toToolDeclaration :: "'a tool_scheme \<Rightarrow> tool" where
  "toToolDeclaration t =
     \<lparr>t_name = t_name t, t_description = t_description t, t_parameters = t_parameters t,
      t_constrainedSampling = t_constrainedSampling t\<rparr>"

definition tool_json :: "tool \<Rightarrow> json" where
  "tool_json t =
     JObj ([(js ''name'', JStr (t_name t)), (js ''description'', JStr (t_description t)),
            (js ''parameters'', t_parameters t)] @
           (case t_constrainedSampling t of None \<Rightarrow> [] | Some c \<Rightarrow> [(js ''constrainedSampling'', c)]))"

definition declarationsEqual :: "'a tool_scheme \<Rightarrow> 'b tool_scheme \<Rightarrow> bool" where
  "declarationsEqual left right \<longleftrightarrow>
     stringify (tool_json (toToolDeclaration left)) = stringify (tool_json (toToolDeclaration right))"

record tool_changes =
  toolsAdded :: "tool list"
  toolsRemoved :: "jstr list"

definition tools_by_name :: "tool list \<Rightarrow> tool_map" where
  "tools_by_name ts = fold (\<lambda>t. omap_set (t_name t) t) ts []"

definition differs_in :: "tool_map \<Rightarrow> tool \<Rightarrow> bool" where
  "differs_in m t =
     (case omap_get m (t_name t) of None \<Rightarrow> True | Some t' \<Rightarrow> \<not> declarationsEqual t' t)"

definition getToolStateChanges :: "tool list \<Rightarrow> tool list \<Rightarrow> tool_changes" where
  "getToolStateChanges previous current =
     \<lparr>toolsAdded = map toToolDeclaration (filter (differs_in (tools_by_name previous)) current),
      toolsRemoved = map t_name (filter (differs_in (tools_by_name current)) previous)\<rparr>"

definition getDeclaredTools :: "system_message list \<Rightarrow> tool list" where
  "getDeclaredTools ms =
     omap_values (fold (\<lambda>m. fold (\<lambda>t. omap_set (t_name t) t) (sy_toolsAdded m)) ms [])"

text \<open>The inner loop of \<open>hasToolRedefinitions\<close>: \<open>None\<close> is its early return of \<open>true\<close>.\<close>

fun redefines :: "tool_map \<Rightarrow> tool list \<Rightarrow> tool_map option" where
  "redefines declared [] = Some declared"
| "redefines declared (t # ts) =
     (if (case omap_get declared (t_name t) of None \<Rightarrow> False | Some p \<Rightarrow> \<not> declarationsEqual p t)
      then None
      else redefines (omap_set (t_name t) t declared) ts)"

fun hasToolRedefinitions_from :: "tool_map \<Rightarrow> system_message list \<Rightarrow> bool" where
  "hasToolRedefinitions_from declared [] = False"
| "hasToolRedefinitions_from declared (m # ms) =
     (case redefines declared (sy_toolsAdded m) of
        None \<Rightarrow> True
      | Some d \<Rightarrow> hasToolRedefinitions_from d ms)"

definition hasToolRedefinitions :: "system_message list \<Rightarrow> bool" where
  "hasToolRedefinitions ms = hasToolRedefinitions_from [] ms"

text \<open>
  \<open>findLastNonAdditiveToolChange\<close>: the scan keeps the declared names and the index of the last
  message with a removal or a redeclaration.
\<close>

fun nonadditive_adds :: "jstr list \<Rightarrow> tool list \<Rightarrow> bool \<times> jstr list" where
  "nonadditive_adds declared [] = (False, declared)"
| "nonadditive_adds declared (t # ts) =
     (let (later, d) = nonadditive_adds (List.insert (t_name t) declared) ts
      in (t_name t \<in> set declared \<or> later, d))"

fun nonadditive_scan :: "nat \<Rightarrow> jstr list \<Rightarrow> int \<Rightarrow> system_message list \<Rightarrow> int" where
  "nonadditive_scan index declared lastIdx [] = lastIdx"
| "nonadditive_scan index declared lastIdx (m # ms) =
     (let last1 = (if sy_toolsRemoved m \<noteq> [] then int index else lastIdx);
          (redeclared, d) = nonadditive_adds declared (sy_toolsAdded m)
      in nonadditive_scan (Suc index) d (if redeclared then int index else last1) ms)"

definition findLastNonAdditiveToolChange :: "system_message list \<Rightarrow> int" where
  "findLastNonAdditiveToolChange ms = nonadditive_scan 0 [] (-1) ms"

definition hasNonAdditiveToolChanges :: "message list \<Rightarrow> bool" where
  "hasNonAdditiveToolChanges ms \<longleftrightarrow> findLastNonAdditiveToolChange (system_messages ms) \<ge> 0"

datatype tool_support = SupportNone | SupportAdditions | SupportChanges

record transcript_tools =
  requestTools :: "tool list"
  foldedSystemMessages :: nat

definition resolveTranscriptTools :: "message list \<Rightarrow> tool_support \<Rightarrow> transcript_tools" where
  "resolveTranscriptTools ms support =
     (let sys = system_messages ms in
      case support of
        SupportNone \<Rightarrow> \<lparr>requestTools = getCurrentTools sys, foldedSystemMessages = length sys\<rparr>
      | SupportChanges \<Rightarrow> \<lparr>requestTools = [], foldedSystemMessages = 0\<rparr>
      | SupportAdditions \<Rightarrow>
          (let folded = nat (max (if getInitialSystemMessage ms = None then 0 else 1)
                                 (findLastNonAdditiveToolChange sys + 1))
           in \<lparr>requestTools = getCurrentTools (take folded sys), foldedSystemMessages = folded\<rparr>))"


section \<open>Properties of the replay\<close>

definition tool_map_ok :: "tool_map \<Rightarrow> bool" where
  "tool_map_ok m \<longleftrightarrow> omap_ok m \<and> (\<forall>kt \<in> set m. t_name (snd kt) = fst kt)"

lemma tool_map_ok_Nil [simp]: "tool_map_ok []"
  by (simp add: tool_map_ok_def omap_ok_def)

lemma tool_map_ok_set: "tool_map_ok m \<Longrightarrow> tool_map_ok (omap_set (t_name t) t m)"
proof -
  assume "tool_map_ok m"
  moreover have "set (omap_set k v m) \<subseteq> insert (k, v) (set m)" for k :: jstr and v :: tool
    by (induction k v m rule: omap_set.induct) auto
  ultimately show ?thesis
    by (fastforce simp: tool_map_ok_def ok_omap_set)
qed

lemma tool_map_ok_delete: "tool_map_ok m \<Longrightarrow> tool_map_ok (omap_delete k m)"
  by (auto simp: tool_map_ok_def ok_omap_delete) (auto simp: omap_delete_def)

lemma tool_map_ok_sets: "tool_map_ok m \<Longrightarrow> tool_map_ok (fold (\<lambda>t. omap_set (t_name t) t) ts m)"
  by (induction ts arbitrary: m) (auto simp: tool_map_ok_set)

lemma tool_map_ok_deletes: "tool_map_ok m \<Longrightarrow> tool_map_ok (fold (\<lambda>k. omap_delete k) ks m)"
  by (induction ks arbitrary: m) (auto simp: tool_map_ok_delete)

lemma tool_map_ok_replay [intro]: "tool_map_ok m \<Longrightarrow> tool_map_ok (fold replay_tools ms m)"
  by (induction ms arbitrary: m) (auto simp: replay_tools_def tool_map_ok_sets tool_map_ok_deletes)

lemma omap_of_values:
  assumes "tool_map_ok m"
  shows "fold (\<lambda>t. omap_set (t_name t) t) (omap_values m) [] = m"
proof -
  have eq: "map (\<lambda>t. (t_name t, t)) (omap_values m) = m"
    using assms by (auto simp: tool_map_ok_def omap_values_def intro!: map_idI)
  then have "distinct (map t_name (omap_values m))"
    using assms by (metis (no_types, lifting) map_map comp_apply fst_conv map_eq_conv omap_ok_def tool_map_ok_def)
  with eq show ?thesis by (simp add: fold_omap_set_fresh)
qed

lemma tools_by_name_values: "tool_map_ok m \<Longrightarrow> tools_by_name (omap_values m) = m"
  by (simp add: tools_by_name_def omap_of_values)

lemma get_tools_by_name:
  "omap_get (tools_by_name ts) n = map_of (rev (map (\<lambda>t. (t_name t, t)) ts)) n"
  by (simp add: tools_by_name_def om.get_puts om.invar_empty split: option.splits)

lemma get_replay_tools:
  assumes "omap_ok m"
  shows "omap_get (replay_tools d m) n =
     (case map_of (rev (map (\<lambda>t. (t_name t, t)) (sy_toolsAdded d))) n of
        Some t \<Rightarrow> Some t
      | None \<Rightarrow> if n \<in> set (sy_toolsRemoved d) then None else omap_get m n)"
  using om.get_puts [of "fold (\<lambda>name. omap_delete name) (sy_toolsRemoved d) m" t_name "\<lambda>t. t" "sy_toolsAdded d" n]
    om.get_dels [of m "\<lambda>n. n" "sy_toolsRemoved d" n] om.invar_dels [of m "\<lambda>n. n" "sy_toolsRemoved d"] assms
  by (auto simp: replay_tools_def split: option.splits)


lemma find_values:
  assumes "tool_map_ok m"
  shows "find (\<lambda>t. t_name t = n) (omap_values m) = omap_get m n"
  using assms unfolding tool_map_ok_def omap_values_def
  by (induction m) (auto simp: omap_ok_def)

lemma find_tools_map_of: "find (\<lambda>t. t_name t = n) ts = map_of (map (\<lambda>t. (t_name t, t)) ts) n"
  by (induction ts) auto

lemma map_of_rev_names:
  "distinct (map t_name ts) \<Longrightarrow>
     map_of (rev (map (\<lambda>t. (t_name t, t)) ts)) n = map_of (map (\<lambda>t. (t_name t, t)) ts) n"
  by (intro map_of_inject_set [THEN iffD2, THEN fun_cong])
    (auto simp: rev_map [symmetric] comp_def distinct_rev)

lemma map_of_named_SomeD: "map_of (map (\<lambda>t. (t_name t, t)) ts) n = Some t \<Longrightarrow> t_name t = n \<and> t \<in> set ts"
  by (induction ts) (auto split: if_splits)

lemma map_of_named_filter:
  "distinct (map t_name ts) \<Longrightarrow>
     map_of (map (\<lambda>t. (t_name t, t)) (filter P ts)) n =
       (case map_of (map (\<lambda>t. (t_name t, t)) ts) n of
          None \<Rightarrow> None | Some t \<Rightarrow> if P t then Some t else None)"
  by (induction ts) (auto simp: map_of_eq_None_iff split: option.splits dest: map_of_named_SomeD)

lemma toToolDeclaration_id [simp]: "toToolDeclaration t = t" for t :: tool
  by (simp add: toToolDeclaration_def)

lemma declarationsEqual_refl [simp]: "declarationsEqual t t" for t :: tool
  by (simp add: declarationsEqual_def)

lemma declarationsEqual_sym: "declarationsEqual a b \<longleftrightarrow> declarationsEqual b a"
  by (auto simp: declarationsEqual_def)

lemma tool_map_name: "tool_map_ok m \<Longrightarrow> omap_get m n = Some t \<Longrightarrow> t_name t = n"
  by (force simp: tool_map_ok_def dest: map_of_SomeD)

lemma removed_names:
  assumes "tool_map_ok m"
  shows "n \<in> set (map t_name (filter P (omap_values m))) \<longleftrightarrow>
     (case omap_get m n of None \<Rightarrow> False | Some t \<Rightarrow> P t)"
proof -
  from assms have d: "distinct (map fst m)" and nm: "\<And>k t. (k, t) \<in> set m \<Longrightarrow> t_name t = k"
    by (auto simp: tool_map_ok_def omap_ok_def)
  have "n \<in> set (map t_name (filter P (omap_values m))) \<longleftrightarrow> (\<exists>t. (n, t) \<in> set m \<and> P t)"
    using nm by (force simp: omap_values_def)
  also have "\<dots> \<longleftrightarrow> (case omap_get m n of None \<Rightarrow> False | Some t \<Rightarrow> P t)"
    by (cases "omap_get m n") (auto simp flip: map_of_eq_Some_iff [OF d])
  finally show ?thesis .
qed

text \<open>
  One delta computed by \<open>getToolStateChanges\<close> moves any tool state to the wanted one.
\<close>

lemma delta_reaches_target:
  assumes m: "tool_map_ok m" and cur: "distinct (map t_name current)"
    and added: "sy_toolsAdded d = toolsAdded (getToolStateChanges (omap_values m) current)"
    and removed: "sy_toolsRemoved d = toolsRemoved (getToolStateChanges (omap_values m) current)"
  shows "rel_option declarationsEqual (omap_get (replay_tools d m) n)
     (map_of (map (\<lambda>t. (t_name t, t)) current) n)"
proof -
  let ?c = "map_of (map (\<lambda>t. (t_name t, t)) current)"
  let ?adds = "filter (differs_in m) current"
  have tm: "tools_by_name (omap_values m) = m" using m by (rule tools_by_name_values)
  have tc: "omap_get (tools_by_name current) = ?c"
    by (rule ext) (simp add: get_tools_by_name map_of_rev_names [OF cur])
  have da: "distinct (map t_name ?adds)" using cur by (rule distinct_map_filter)
  have adds: "map_of (rev (map (\<lambda>t. (t_name t, t)) (sy_toolsAdded d))) n =
     (case ?c n of None \<Rightarrow> None | Some t \<Rightarrow> if differs_in m t then Some t else None)"
    using map_of_rev_names [OF da] map_of_named_filter [OF cur, of "differs_in m" n]
    by (simp add: added getToolStateChanges_def tm comp_def)
  have rem: "n \<in> set (sy_toolsRemoved d) \<longleftrightarrow>
     (case omap_get m n of None \<Rightarrow> False | Some t \<Rightarrow> differs_in (tools_by_name current) t)"
    using removed_names [OF m] by (simp add: removed getToolStateChanges_def)
  have ok: "omap_ok m" using m by (simp add: tool_map_ok_def)
  show ?thesis
  proof (cases "?c n")
    case None
    then show ?thesis
      unfolding get_replay_tools [OF ok] adds rem using tool_map_name [OF m, of n]
      by (cases "omap_get m n") (simp_all add: differs_in_def tc)
  next
    case (Some t)
    then have "t_name t = n" by (auto dest: map_of_named_SomeD)
    then show ?thesis
      unfolding get_replay_tools [OF ok] adds rem using tool_map_name [OF m, of n] Some
      by (cases "omap_get m n")
        (simp_all add: differs_in_def tc declarationsEqual_sym [of t])
  qed
qed

lemma getCurrentTools_snoc:
  "getCurrentTools (ms @ [d]) = omap_values (replay_tools d (fold replay_tools ms []))"
  by (simp add: getCurrentTools_def)


text \<open>Replaying one delta from a replayed state.\<close>

lemma getCurrentTools_delta:
  assumes "distinct (map t_name current)"
    and "sy_toolsAdded d = toolsAdded (getToolStateChanges (getCurrentTools ms) current)"
    and "sy_toolsRemoved d = toolsRemoved (getToolStateChanges (getCurrentTools ms) current)"
  shows "rel_option declarationsEqual
     (find (\<lambda>t. t_name t = n) (getCurrentTools (ms @ [d]))) (find (\<lambda>t. t_name t = n) current)"
proof -
  have ok: "tool_map_ok (fold replay_tools ms [])" by auto
  have "tool_map_ok (replay_tools d (fold replay_tools ms []))"
    using tool_map_ok_replay [OF ok, of "[d]"] by simp
  then show ?thesis
    using delta_reaches_target [OF ok assms(1)] assms(2,3)
    by (simp add: getCurrentTools_snoc find_values find_tools_map_of [of n current] getCurrentTools_def)
qed

subsection \<open>Collapsing system messages\<close>

lemma fold_patch_Some:
  "omap_ok secs \<Longrightarrow> fold patch_section (map (\<lambda>(n, v). (n, Some v)) secs) [] = secs"
proof -
  assume ok: "omap_ok secs"
  have "fold patch_section (map (\<lambda>(n, v). (n, Some v)) xs) m = fold (\<lambda>x. omap_set (fst x) (snd x)) xs m"
    for xs m :: "(jstr, jstr) omap"
    by (induction xs arbitrary: m) (auto simp: patch_section_def)
  then show ?thesis
    using ok fold_omap_set_fresh [of fst secs "[]" snd] by (simp add: omap_ok_def)
qed

lemma omap_ok_patches: "omap_ok m \<Longrightarrow> omap_ok (fold patch_section xs m)"
  by (induction xs arbitrary: m) (auto simp: patch_section_def ok_omap_set ok_omap_delete split: option.splits)

lemma omap_ok_sections: "omap_ok m \<Longrightarrow> omap_ok (fold (\<lambda>d. fold patch_section (sy_sections d)) ms m)"
  by (induction ms arbitrary: m) (auto simp: omap_ok_patches)

lemma getCurrentTools_replayed:
  assumes "sy_toolsAdded h = getCurrentTools ms" and "sy_toolsRemoved h = []"
  shows "getCurrentTools [h] = getCurrentTools ms"
proof -
  have "tool_map_ok (fold replay_tools ms [])" by auto
  then show ?thesis
    by (simp add: getCurrentTools_def replay_tools_def assms omap_of_values)
qed

text \<open>The replayed message, replayed alone, is itself.\<close>

lemma getCurrentSystemMessage_replayed:
  assumes "getCurrentSystemMessage ms = Some h"
  shows "getCurrentSystemMessage [h] = Some h"
proof -
  let ?secs = "fold (\<lambda>m. fold patch_section (sy_sections m)) ms []"
  have secs: "omap_ok ?secs" by (rule omap_ok_sections) (simp add: omap_ok_def)
  from assms have h: "sy_toolsAdded h = getCurrentTools ms" "sy_toolsRemoved h = []"
    "sy_sections h = map (\<lambda>(n, v). (n, Some v)) ?secs"
    "\<exists>t. sy_content h = Some (CStr t)"
    by (auto simp: getCurrentSystemMessage_def Let_def split: if_splits)
  have tools: "getCurrentTools [h] = getCurrentTools ms"
    using h(1,2) by (rule getCurrentTools_replayed)
  from h(4) obtain t where t: "sy_content h = Some (CStr t)" ..
  have "fold patch_section (sy_sections h) [] = ?secs"
    using fold_patch_Some [OF secs] h(3) by simp
  with h(1-3) tools t show ?thesis
    by (cases h) (simp add: getCurrentSystemMessage_def system_text_def contentText_def)
qed

lemma system_messages_Cons [simp]:
  "system_messages [] = []"
  "system_messages (m # ms) = (case as_system m of None \<Rightarrow> system_messages ms | Some s \<Rightarrow> s # system_messages ms)"
  by (simp_all add: system_messages_def map_filter_def split: option.splits)

lemma system_messages_filter [simp]: "system_messages (filter (\<lambda>m. as_system m = None) ms) = []"
  by (induction ms) auto

lemma system_messages_append: "system_messages (xs @ ys) = system_messages xs @ system_messages ys"
  by (induction xs) (auto split: option.splits)

text \<open>
  C17. Collapsing the system messages of a transcript into one leading message keeps the current
  prompt and tool set: the replayed system message of the collapsed transcript is that of the
  original, every other message is kept in order, and collapsing again changes nothing.
\<close>

theorem collapse_preserves_replay:
  "getCurrentSystemMessage (system_messages (collapseSystemMessages ms)) =
     getCurrentSystemMessage (system_messages ms) \<and>
   filter (\<lambda>m. as_system m = None) (collapseSystemMessages ms) = filter (\<lambda>m. as_system m = None) ms \<and>
   collapseSystemMessages (collapseSystemMessages ms) = collapseSystemMessages ms"
proof (cases "getCurrentSystemMessage (system_messages ms)")
  case None
  then have "getCurrentSystemMessage [] = None"
    by (simp add: getCurrentSystemMessage_def getCurrentTools_def omap_values_def)
  with None show ?thesis by (simp add: collapseSystemMessages_def)
next
  case (Some h)
  then show ?thesis
    by (simp add: collapseSystemMessages_def getCurrentSystemMessage_replayed)
qed


subsection \<open>Splitting tool declarations for an addition-only transport\<close>

definition added_names :: "system_message list \<Rightarrow> jstr list" where
  "added_names ms = concat (map (\<lambda>m. map t_name (sy_toolsAdded m)) ms)"

definition additive :: "jstr set \<Rightarrow> system_message list \<Rightarrow> bool" where
  "additive D ms \<longleftrightarrow> (\<forall>m \<in> set ms. sy_toolsRemoved m = []) \<and> distinct (added_names ms) \<and>
     set (added_names ms) \<inter> D = {}"

lemma added_names_simps [simp]:
  "added_names [] = []"
  "added_names (m # ms) = map t_name (sy_toolsAdded m) @ added_names ms"
  by (simp_all add: added_names_def)

lemma nonadditive_adds_spec:
  "set (snd (nonadditive_adds d ts)) = set d \<union> t_name ` set ts \<and>
   (fst (nonadditive_adds d ts) \<longleftrightarrow>
      \<not> (distinct (map t_name ts) \<and> t_name ` set ts \<inter> set d = {}))"
proof (induction ts arbitrary: d)
  case (Cons t ts)
  obtain later d' where a: "nonadditive_adds (List.insert (t_name t) d) ts = (later, d')"
    by (cases "nonadditive_adds (List.insert (t_name t) d) ts")
  with Cons.IH [of "List.insert (t_name t) d"] show ?case
    by (auto simp: a)
qed simp

lemma nonadditive_scan_spec:
  "(nonadditive_scan idx d l0 ms = l0 \<and> additive (set d) ms) \<or>
   (\<exists>j < length ms. nonadditive_scan idx d l0 ms = int (idx + j) \<and>
      additive (set d \<union> set (added_names (take (Suc j) ms))) (drop (Suc j) ms))"
proof (induction ms arbitrary: idx d l0)
  case Nil
  then show ?case by (simp add: additive_def)
next
  case (Cons m ms)
  obtain r d' where a: "nonadditive_adds d (sy_toolsAdded m) = (r, d')"
    by (cases "nonadditive_adds d (sy_toolsAdded m)")
  have d': "set d' = set d \<union> t_name ` set (sy_toolsAdded m)"
    and r: "r \<longleftrightarrow> \<not> (distinct (map t_name (sy_toolsAdded m)) \<and> t_name ` set (sy_toolsAdded m) \<inter> set d = {})"
    using nonadditive_adds_spec [of d "sy_toolsAdded m"] by (simp_all add: a)
  define l1 where "l1 = (if r \<or> sy_toolsRemoved m \<noteq> [] then int idx else l0)"
  have step: "nonadditive_scan idx d l0 (m # ms) = nonadditive_scan (Suc idx) d' l1 ms"
    by (simp add: a l1_def)
  consider (same) "nonadditive_scan (Suc idx) d' l1 ms = l1" "additive (set d') ms"
    | (later) j where "j < length ms" "nonadditive_scan (Suc idx) d' l1 ms = int (Suc idx + j)"
        "additive (set d' \<union> set (added_names (take (Suc j) ms))) (drop (Suc j) ms)"
    using Cons.IH [of "Suc idx" d' l1] by blast
  then show ?case
  proof cases
    case later
    with d' step show ?thesis by (intro disjI2 exI [of _ "Suc j"]) (auto simp: Un_assoc)
  next
    case same
    show ?thesis
    proof (cases "r \<or> sy_toolsRemoved m \<noteq> []")
      case True
      with same d' step show ?thesis by (intro disjI2 exI [of _ 0]) (auto simp: l1_def)
    next
      case False
      with same d' step r show ?thesis by (intro disjI1) (auto simp: l1_def additive_def simp del: nonadditive_scan.simps)
    qed
  qed
qed

lemma findLast_additive:
  assumes "findLastNonAdditiveToolChange ms < int k"
  shows "additive (set (added_names (take k ms))) (drop k ms)"
proof -
  have sub: "additive (D \<union> set (added_names (take i xs))) (drop i xs)"
    if "additive D xs" for D i and xs :: "system_message list"
  proof -
    have "added_names xs = added_names (take i xs) @ added_names (drop i xs)"
      by (metis added_names_def append_take_drop_id concat_append map_append)
    with that show ?thesis by (auto simp: additive_def dest: in_set_dropD)
  qed
  consider "additive {} ms" |
    j where "j < k" "additive (set (added_names (take (Suc j) ms))) (drop (Suc j) ms)"
    using nonadditive_scan_spec [of 0 "[]" "-1" ms] assms
    by (fastforce simp: findLastNonAdditiveToolChange_def)
  then show ?thesis
  proof cases
    case 1
    then show ?thesis using sub [of "{}"] by simp
  next
    case 2
    then obtain i where k: "k = Suc j + i" by (metis Suc_leI le_iff_add)
    have "set (added_names (take (Suc j) ms)) \<union> set (added_names (take i (drop (Suc j) ms))) =
        set (added_names (take k ms))"
      by (simp only: k take_add added_names_def) auto
    moreover have "drop i (drop (Suc j) ms) = drop k ms" by (simp only: k drop_drop add.commute)
    ultimately show ?thesis using sub [OF 2(2), of i] by metis
  qed
qed

text \<open>
  For a transport that can only add tools in place, the split is correct: replaying the system
  messages after the folded prefix on top of the top-level tools yields exactly the current tools,
  and those later messages remove nothing and declare only names that were never declared before.
\<close>

theorem resolve_additions_correct:
  "let r = resolveTranscriptTools ms SupportAdditions;
       folded = take (foldedSystemMessages r) (system_messages ms);
       later = drop (foldedSystemMessages r) (system_messages ms)
   in omap_values (fold replay_tools later (tools_by_name (requestTools r))) =
        getCurrentTools (system_messages ms) \<and>
      list_all (\<lambda>m. sy_toolsRemoved m = []) later \<and>
      distinct (added_names later) \<and> set (added_names later) \<inter> set (added_names folded) = {}"
proof -
  let ?r = "resolveTranscriptTools ms SupportAdditions"
  let ?s = "system_messages ms"
  let ?k = "foldedSystemMessages ?r"
  have k: "findLastNonAdditiveToolChange ?s < int ?k"
    by (auto simp: resolveTranscriptTools_def Let_def max_def)
  have "tool_map_ok (fold replay_tools (take ?k ?s) [])" by auto
  then have t: "tools_by_name (requestTools ?r) = fold replay_tools (take ?k ?s) []"
    by (simp add: resolveTranscriptTools_def Let_def getCurrentTools_def tools_by_name_values)
  have "fold replay_tools (drop ?k ?s) (fold replay_tools (take ?k ?s) []) = fold replay_tools ?s []"
    by (metis append_take_drop_id fold_append comp_apply)
  then show ?thesis
    using findLast_additive [OF k]
    by (simp add: Let_def t getCurrentTools_def additive_def list_all_iff)
qed

end
