(* ===== verification/Messages.thy ===== *)
theory Messages
  imports Transcript
begin

text \<open>
  The message types of the coding agent and their conversion to messages a model understands
  (packages/coding-agent/src/core/messages.ts).
\<close>

section \<open>Message types\<close>

record bash_execution =
  be_command :: jstr
  be_output :: jstr
  be_exitCode :: "int option"
  be_cancelled :: bool
  be_truncated :: bool
  be_fullOutputPath :: "jstr option"
  be_timestamp :: int
  be_excludeFromContext :: bool

record custom_message =
  cm_customType :: jstr
  cm_content :: content_value
  cm_display :: bool
  cm_details :: "json option"
  cm_timestamp :: int

record branch_summary_message =
  bs_summary :: jstr
  bs_fromId :: "jstr option"
  bs_timestamp :: int

record compaction_summary_message =
  cs_summary :: jstr
  cs_tokensBefore :: int
  cs_timestamp :: int

text \<open>
  \<open>OtherRole\<close> is a stored message whose role the program does not know, such as the legacy role
  \<open>hookMessage\<close>: the default case of every switch over roles.
\<close>

datatype agent_message =
    Msg message
  | BashExecution bash_execution
  | Custom custom_message
  | BranchSummary branch_summary_message
  | CompactionSummary compaction_summary_message
  | OtherRole jstr custom_message

abbreviation "System m \<equiv> Msg (SystemM m)"
abbreviation "User m \<equiv> Msg (UserM m)"
abbreviation "Assistant m \<equiv> Msg (AssistantM m)"
abbreviation "ToolResult m \<equiv> Msg (ToolResultM m)"

fun message_role :: "message \<Rightarrow> jstr" where
  "message_role (SystemM _) = js ''system''"
| "message_role (UserM _) = js ''user''"
| "message_role (AssistantM _) = js ''assistant''"
| "message_role (ToolResultM _) = js ''toolResult''"

fun role :: "agent_message \<Rightarrow> jstr" where
  "role (Msg m) = message_role m"
| "role (BashExecution _) = js ''bashExecution''"
| "role (Custom _) = js ''custom''"
| "role (BranchSummary _) = js ''branchSummary''"
| "role (CompactionSummary _) = js ''compactionSummary''"
| "role (OtherRole r _) = r"

fun is_system :: "agent_message \<Rightarrow> bool" where
  "is_system (System _) = True"
| "is_system _ = False"

fun is_assistant :: "agent_message \<Rightarrow> bool" where
  "is_assistant (Assistant _) = True"
| "is_assistant _ = False"

fun is_tool_result :: "agent_message \<Rightarrow> bool" where
  "is_tool_result (ToolResult _) = True"
| "is_tool_result _ = False"

text \<open>The content of a message is \<open>null\<close>: readers that expect a string or a list would throw.\<close>

fun null_content :: "agent_message \<Rightarrow> bool" where
  "null_content (System m) = (sy_content m = None)"
| "null_content (User m) = (us_content m = None)"
| "null_content (Assistant m) = (as_content m = None)"
| "null_content (ToolResult m) = (tr_content m = None)"
| "null_content _ = False"

fun agent_system :: "agent_message \<Rightarrow> system_message option" where
  "agent_system (System m) = Some m"
| "agent_system _ = None"

definition agent_system_messages :: "agent_message list \<Rightarrow> system_message list" where
  "agent_system_messages ms = List.map_filter agent_system ms"

section \<open>Conversion to model messages\<close>

definition COMPACTION_SUMMARY_PREFIX :: jstr where
  "COMPACTION_SUMMARY_PREFIX =
     js ''The conversation history before this point was compacted into the following summary:'' @
     blank_line @ js ''<summary>'' @ newline"

definition COMPACTION_SUMMARY_SUFFIX :: jstr where
  "COMPACTION_SUMMARY_SUFFIX = newline @ js ''</summary>''"

definition BRANCH_SUMMARY_PREFIX :: jstr where
  "BRANCH_SUMMARY_PREFIX =
     js ''The following is a summary of a branch that this conversation came back from:'' @
     blank_line @ js ''<summary>'' @ newline"

definition BRANCH_SUMMARY_SUFFIX :: jstr where
  "BRANCH_SUMMARY_SUFFIX = js ''</summary>''"

abbreviation backtick :: jstr where "backtick \<equiv> [96]"
abbreviation fence :: jstr where "fence \<equiv> [96, 96, 96]"

definition bashExecutionToText :: "bash_execution \<Rightarrow> jstr" where
  "bashExecutionToText m =
     js ''Ran '' @ backtick @ be_command m @ backtick @ newline @
     (if be_output m \<noteq> [] then fence @ newline @ be_output m @ newline @ fence else js ''(no output)'') @
     (if be_cancelled m then blank_line @ js ''(command cancelled)''
      else case be_exitCode m of
             None \<Rightarrow> []
           | Some c \<Rightarrow> if c \<noteq> 0 then blank_line @ js ''Command exited with code '' @ int_str c else []) @
     (case be_fullOutputPath m of
        None \<Rightarrow> []
      | Some p \<Rightarrow> if be_truncated m \<and> p \<noteq> []
                 then blank_line @ js ''[Output truncated. Full output: '' @ p @ js '']'' else [])"

definition createBranchSummaryMessage :: "jstr \<Rightarrow> jstr \<Rightarrow> int \<Rightarrow> agent_message" where
  "createBranchSummaryMessage summary fromId timestamp =
     BranchSummary \<lparr>bs_summary = summary, bs_fromId = Some fromId, bs_timestamp = timestamp\<rparr>"

definition createCompactionSummaryMessage :: "jstr \<Rightarrow> int \<Rightarrow> int \<Rightarrow> agent_message" where
  "createCompactionSummaryMessage summary tokensBefore timestamp =
     CompactionSummary \<lparr>cs_summary = summary, cs_tokensBefore = tokensBefore, cs_timestamp = timestamp\<rparr>"

definition createCustomMessage ::
    "jstr \<Rightarrow> content_value \<Rightarrow> bool \<Rightarrow> json option \<Rightarrow> int \<Rightarrow> agent_message" where
  "createCustomMessage customType cnt display details timestamp =
     Custom \<lparr>cm_customType = customType, cm_content = cnt, cm_display = display,
             cm_details = details, cm_timestamp = timestamp\<rparr>"

definition user_text :: "jstr \<Rightarrow> int \<Rightarrow> message" where
  "user_text t timestamp =
     UserM \<lparr>us_content = Some (CBlocks [Text t None]), us_timestamp = timestamp\<rparr>"

fun convert_message :: "agent_message \<Rightarrow> message option" where
  "convert_message (BashExecution m) =
     (if be_excludeFromContext m then None
      else Some (user_text (bashExecutionToText m) (be_timestamp m)))"
| "convert_message (Custom m) =
     Some (UserM \<lparr>us_content = Some (case cm_content m of
                                       CStr s \<Rightarrow> CBlocks [Text s None]
                                     | CBlocks bs \<Rightarrow> CBlocks bs),
                  us_timestamp = cm_timestamp m\<rparr>)"
| "convert_message (BranchSummary m) =
     Some (user_text (BRANCH_SUMMARY_PREFIX @ bs_summary m @ BRANCH_SUMMARY_SUFFIX) (bs_timestamp m))"
| "convert_message (CompactionSummary m) =
     Some (user_text (COMPACTION_SUMMARY_PREFIX @ cs_summary m @ COMPACTION_SUMMARY_SUFFIX) (cs_timestamp m))"
| "convert_message (Msg m) = Some m"
| "convert_message (OtherRole _ _) = None"

definition convertToLlm :: "agent_message list \<Rightarrow> message list" where
  "convertToLlm ms = List.map_filter convert_message ms"

lemma convertToLlm_append: "convertToLlm (xs @ ys) = convertToLlm xs @ convertToLlm ys"
  by (simp add: convertToLlm_def map_filter_def)

lemma convertToLlm_Cons:
  "convertToLlm (m # ms) = (case convert_message m of None \<Rightarrow> convertToLlm ms | Some l \<Rightarrow> l # convertToLlm ms)"
  by (simp add: convertToLlm_def map_filter_def split: option.splits)

lemma convertToLlm_Nil [simp]: "convertToLlm [] = []"
  by (simp add: convertToLlm_def map_filter_def)

lemma agent_system_messages_simps [simp]:
  "agent_system_messages [] = []"
  "agent_system_messages (m # ms) =
     (case agent_system m of None \<Rightarrow> agent_system_messages ms | Some s \<Rightarrow> s # agent_system_messages ms)"
  by (simp_all add: agent_system_messages_def map_filter_def split: option.splits)

lemma agent_system_messages_append:
  "agent_system_messages (xs @ ys) = agent_system_messages xs @ agent_system_messages ys"
  by (simp add: agent_system_messages_def map_filter_def)

text \<open>Conversion touches neither system messages nor their order.\<close>

lemma system_messages_convertToLlm: "system_messages (convertToLlm ms) = agent_system_messages ms"
proof (induction ms)
  case (Cons m ms)
  have "(case convert_message m of None \<Rightarrow> None | Some l \<Rightarrow> as_system l) = agent_system m"
  proof (cases m)
    case (Msg x)
    then show ?thesis by (cases x) auto
  qed (auto simp: user_text_def)
  with Cons show ?case
    by (cases "convert_message m"; cases "agent_system m") (auto simp: convertToLlm_Cons)
qed simp

end
