(* ===== verification/Session.thy ===== *)
theory Session
  imports Messages
begin

text \<open>
  Session entries and the pure functions over them: the path from the root to a leaf, the
  compaction-aware list of context entries, and the projection of entries into the messages a
  model sees (packages/coding-agent/src/core/session-manager.ts, module level).

  Entry timestamps are ISO strings in the program and are only converted to instants; they are
  represented here by the instant in milliseconds.
\<close>

section \<open>Entries\<close>

record compaction_data =
  cp_summary :: jstr
  cp_firstKeptEntryId :: jstr
  cp_tokensBefore :: int
  cp_details :: "json option"
  cp_usage :: "usage option"
  cp_fromHook :: bool
  cp_systemMessage :: "system_message option"
  cp_firstKeptEntryIndex :: "nat option"

record branch_summary_data =
  br_fromId :: jstr
  br_summary :: jstr
  br_details :: "json option"
  br_usage :: "usage option"
  br_fromHook :: bool

record custom_message_data =
  cd_customType :: jstr
  cd_content :: "content_value option"
  cd_details :: "json option"
  cd_display :: bool

record usage_data =
  ud_kind :: jstr
  ud_provider :: jstr
  ud_model :: jstr
  ud_usage :: usage
  ud_note :: "jstr option"

datatype entry_data =
    MessageE agent_message
  | ThinkingLevelChangeE jstr
  | ModelChangeE jstr jstr
  | UsageE usage_data
  | CompactionE compaction_data
  | BranchSummaryE branch_summary_data
  | CustomE jstr "json option"
  | CustomMessageE custom_message_data
  | ContextEditE jstr "content_value option"
  | LabelE jstr "jstr option"
  | SessionInfoE "jstr option"

record session_entry =
  se_id :: jstr
  se_parentId :: "jstr option"
  se_timestamp :: int
  se_data :: entry_data

record session_header =
  sh_version :: "nat option"
  sh_id :: jstr
  sh_timestamp :: int
  sh_cwd :: jstr
  sh_parentSession :: "jstr option"

datatype file_entry = Header session_header | Entry session_entry

definition is_compaction :: "session_entry \<Rightarrow> bool" where
  "is_compaction e = (case se_data e of CompactionE _ \<Rightarrow> True | _ \<Rightarrow> False)"

definition is_label :: "session_entry \<Rightarrow> bool" where
  "is_label e = (case se_data e of LabelE _ _ \<Rightarrow> True | _ \<Rightarrow> False)"

definition is_system_entry :: "session_entry \<Rightarrow> bool" where
  "is_system_entry e = (case se_data e of MessageE m \<Rightarrow> is_system m | _ \<Rightarrow> False)"

fun entry_of :: "file_entry \<Rightarrow> session_entry option" where
  "entry_of (Header _) = None"
| "entry_of (Entry e) = Some e"

definition entries_of :: "file_entry list \<Rightarrow> session_entry list" where
  "entries_of fs = List.map_filter entry_of fs"

type_synonym entry_map = "(jstr, session_entry) omap"

section \<open>Paths in the entry tree\<close>

definition getLatestCompactionEntry :: "session_entry list \<Rightarrow> session_entry option" where
  "getLatestCompactionEntry es = find_last is_compaction es"

definition buildEntryIndex :: "session_entry list \<Rightarrow> entry_map option \<Rightarrow> entry_map" where
  "buildEntryIndex es byId =
     (case byId of Some m \<Rightarrow> m | None \<Rightarrow> fold (\<lambda>e. omap_set (se_id e) e) es [])"

text \<open>\<open>current.parentId ? index.get(current.parentId) : undefined\<close>: an empty id is falsy.\<close>

definition parent_entry :: "entry_map \<Rightarrow> session_entry \<Rightarrow> session_entry option" where
  "parent_entry index e =
     (case se_parentId e of None \<Rightarrow> None | Some p \<Rightarrow> if p = [] then None else omap_get index p)"

text \<open>
  The walk from an entry to its root. It does not return on a cyclic parent chain: \<open>None\<close>. The
  program pushes each entry and reverses at the end, the accumulator is the reversed path.
\<close>

partial_function (option) walk_up ::
    "entry_map \<Rightarrow> session_entry option \<Rightarrow> session_entry list \<Rightarrow> session_entry list option" where
  "walk_up index current path =
     (case current of
        None \<Rightarrow> Some path
      | Some e \<Rightarrow> walk_up index (parent_entry index e) (e # path))"

text \<open>The optional argument \<open>leafId?: string | null\<close>.\<close>

datatype leaf_arg = LeafUndefined | LeafNull | LeafId jstr

definition last_option :: "'a list \<Rightarrow> 'a option" where
  "last_option xs = (if xs = [] then None else Some (last xs))"

definition buildSessionPath ::
    "session_entry list \<Rightarrow> leaf_arg \<Rightarrow> entry_map option \<Rightarrow> session_entry list option" where
  "buildSessionPath es leafId byId =
     (let index = buildEntryIndex es byId;
          selected = (case leafId of
                        LeafId i \<Rightarrow> if i = [] then None else omap_get index i
                      | _ \<Rightarrow> None);
          leaf = (case selected of Some e \<Rightarrow> Some e | None \<Rightarrow> last_option es)
      in if leafId = LeafNull then Some [] else walk_up index leaf [])"

section \<open>Context settings and context messages\<close>

record context_settings =
  ss_thinkingLevel :: jstr
  ss_model :: "(jstr \<times> jstr) option"

definition settings_step :: "session_entry \<Rightarrow> context_settings \<Rightarrow> context_settings" where
  "settings_step e s =
     (case se_data e of
        ThinkingLevelChangeE l \<Rightarrow> s\<lparr>ss_thinkingLevel := l\<rparr>
      | ModelChangeE p m \<Rightarrow> s\<lparr>ss_model := Some (p, m)\<rparr>
      | MessageE (Assistant a) \<Rightarrow> s\<lparr>ss_model := Some (as_provider a, as_model a)\<rparr>
      | _ \<Rightarrow> s)"

definition getSessionContextSettings :: "session_entry list \<Rightarrow> context_settings" where
  "getSessionContextSettings path =
     fold settings_step path \<lparr>ss_thinkingLevel = js ''off'', ss_model = None\<rparr>"

fun normalize_null :: "agent_message \<Rightarrow> agent_message" where
  "normalize_null (System m) =
     (if sy_content m = None then System (m\<lparr>sy_content := Some (CStr [])\<rparr>) else System m)"
| "normalize_null (User m) =
     (if us_content m = None then User (m\<lparr>us_content := Some (CBlocks [])\<rparr>) else User m)"
| "normalize_null (Assistant m) =
     (if as_content m = None then Assistant (m\<lparr>as_content := Some []\<rparr>) else Assistant m)"
| "normalize_null (ToolResult m) =
     (if tr_content m = None then ToolResult (m\<lparr>tr_content := Some []\<rparr>) else ToolResult m)"
| "normalize_null m = m"

definition sessionEntryToContextMessages :: "session_entry \<Rightarrow> agent_message list" where
  "sessionEntryToContextMessages e =
     (case se_data e of
        MessageE m \<Rightarrow> [normalize_null m]
      | CustomMessageE c \<Rightarrow>
          [createCustomMessage (cd_customType c)
             (case cd_content c of None \<Rightarrow> CBlocks [] | Some v \<Rightarrow> v)
             (cd_display c) (cd_details c) (se_timestamp e)]
      | BranchSummaryE b \<Rightarrow>
          if br_summary b = [] then []
          else [createBranchSummaryMessage (br_summary b) (br_fromId b) (se_timestamp e)]
      | CompactionE c \<Rightarrow>
          (let summary = createCompactionSummaryMessage (cp_summary c) (cp_tokensBefore c) (se_timestamp e)
           in case cp_systemMessage c of None \<Rightarrow> [summary] | Some s \<Rightarrow> [System s, summary])
      | _ \<Rightarrow> [])"

section \<open>Compaction-aware context entries\<close>

text \<open>
  The loop over the entries before the compaction: entries are kept from the first kept id on,
  except system messages, whose state the compaction entry carries.
\<close>

fun kept_entries :: "jstr \<Rightarrow> bool \<Rightarrow> session_entry list \<Rightarrow> session_entry list" where
  "kept_entries firstKept found [] = []"
| "kept_entries firstKept found (e # es) =
     (let found' = (found \<or> se_id e = firstKept)
      in if found' \<and> \<not> is_system_entry e then e # kept_entries firstKept found' es
         else kept_entries firstKept found' es)"

definition firstKept_of :: "session_entry \<Rightarrow> jstr" where
  "firstKept_of e = (case se_data e of CompactionE c \<Rightarrow> cp_firstKeptEntryId c | _ \<Rightarrow> [])"

definition context_entries_of_path :: "session_entry list \<Rightarrow> session_entry list" where
  "context_entries_of_path path =
     (case find_last is_compaction path of
        None \<Rightarrow> path
      | Some c \<Rightarrow>
          (case find_index (\<lambda>e. se_id e = se_id c) path of
             None \<Rightarrow> path
           | Some i \<Rightarrow> c # kept_entries (firstKept_of c) False (take i path) @ drop (Suc i) path))"

definition buildContextEntries ::
    "session_entry list \<Rightarrow> leaf_arg \<Rightarrow> entry_map option \<Rightarrow> session_entry list option" where
  "buildContextEntries es leafId byId =
     map_option context_entries_of_path (buildSessionPath es leafId byId)"

section \<open>Projection\<close>

definition replaced_blocks :: "content_value \<Rightarrow> content list" where
  "replaced_blocks c = (case c of CStr s \<Rightarrow> [Text s None] | CBlocks bs \<Rightarrow> bs)"

fun replace_content :: "content_value \<Rightarrow> agent_message \<Rightarrow> agent_message" where
  "replace_content c (User m) = User (m\<lparr>us_content := Some c\<rparr>)"
| "replace_content c (Assistant m) = Assistant (m\<lparr>as_content := Some (replaced_blocks c)\<rparr>)"
| "replace_content c (ToolResult m) = ToolResult (m\<lparr>tr_content := Some (replaced_blocks c)\<rparr>)"
| "replace_content c (Custom m) = Custom (m\<lparr>cm_content := c\<rparr>)"
| "replace_content c m = m"

text \<open>
  An edit is the replacement of a context edit entry: \<open>None\<close> there omits the target. No edit at
  all is the outer \<open>None\<close>.
\<close>

definition projectContextEntry :: "session_entry \<Rightarrow> content_value option option \<Rightarrow> agent_message list" where
  "projectContextEntry e edit =
     (let messages = sessionEntryToContextMessages e in
      case edit of
        None \<Rightarrow> messages
      | Some None \<Rightarrow> []
      | Some (Some c) \<Rightarrow> map (replace_content c) messages)"

record projected_entry =
  pe_source :: session_entry
  pe_messages :: "agent_message list"

record session_projection =
  sp_entries :: "projected_entry list"
  sp_messages :: "agent_message list"
  sp_settings :: context_settings

type_synonym edit_map = "(jstr, content_value option) omap"

definition collect_edit :: "session_entry \<Rightarrow> edit_map \<Rightarrow> edit_map" where
  "collect_edit e m = (case se_data e of ContextEditE t r \<Rightarrow> omap_set t r m | _ \<Rightarrow> m)"

definition context_edits :: "session_entry list \<Rightarrow> edit_map" where
  "context_edits es = fold collect_edit es []"

definition project_at :: "edit_map \<Rightarrow> nat \<Rightarrow> session_entry \<Rightarrow> projected_entry" where
  "project_at edits i e =
     \<lparr>pe_source = e,
      pe_messages = (if is_compaction e \<and> 0 < i then []
                     else projectContextEntry e (omap_get edits (se_id e)))\<rparr>"

definition project_entries :: "session_entry list \<Rightarrow> projected_entry list" where
  "project_entries es =
     map (\<lambda>(i, e). project_at (context_edits es) i e) (enumerate 0 es)"

definition projection_of_path :: "session_entry list \<Rightarrow> session_projection" where
  "projection_of_path path =
     (let projected = project_entries (context_entries_of_path path)
      in \<lparr>sp_entries = projected,
          sp_messages = concat (map pe_messages projected),
          sp_settings = getSessionContextSettings path\<rparr>)"

definition buildSessionProjection ::
    "session_entry list \<Rightarrow> leaf_arg \<Rightarrow> entry_map option \<Rightarrow> session_projection option" where
  "buildSessionProjection es leafId byId =
     map_option projection_of_path (buildSessionPath es leafId byId)"

record session_context =
  sc_messages :: "agent_message list"
  sc_settings :: context_settings

definition buildSessionContext ::
    "session_entry list \<Rightarrow> leaf_arg \<Rightarrow> entry_map option \<Rightarrow> session_context option" where
  "buildSessionContext es leafId byId =
     map_option (\<lambda>p. \<lparr>sc_messages = sp_messages p, sc_settings = sp_settings p\<rparr>)
       (buildSessionProjection es leafId byId)"


section \<open>Well-formed entry lists and root paths\<close>

text \<open>
  Append-only histories: ids are non-empty and distinct, and every parent is an earlier entry.
\<close>

fun wf_from :: "jstr list \<Rightarrow> session_entry list \<Rightarrow> bool" where
  "wf_from seen [] = True"
| "wf_from seen (e # es) \<longleftrightarrow>
     se_id e \<noteq> [] \<and> se_id e \<notin> set seen \<and>
     (case se_parentId e of None \<Rightarrow> True | Some p \<Rightarrow> p \<in> set seen) \<and>
     wf_from (seen @ [se_id e]) es"

definition wf_entries :: "session_entry list \<Rightarrow> bool" where
  "wf_entries es = wf_from [] es"

definition entry_index :: "session_entry list \<Rightarrow> entry_map" where
  "entry_index es = map (\<lambda>e. (se_id e, e)) es"

inductive root_path :: "entry_map \<Rightarrow> session_entry \<Rightarrow> session_entry list \<Rightarrow> bool" for index where
  at_root: "parent_entry index e = None \<Longrightarrow> root_path index e [e]"
| below: "parent_entry index e = Some q \<Longrightarrow> root_path index q p \<Longrightarrow> root_path index e (p @ [e])"

inductive_cases root_path_Nil: "root_path index e []"

text \<open>Consecutive entries of a path are linked by their parent ids.\<close>

fun linked :: "session_entry list \<Rightarrow> bool" where
  "linked (x # y # ys) \<longleftrightarrow> se_parentId y = Some (se_id x) \<and> linked (y # ys)"
| "linked _ = True"

lemma wf_from_append:
  "wf_from seen (xs @ ys) \<longleftrightarrow> wf_from seen xs \<and> wf_from (seen @ map se_id xs) ys"
  by (induction xs arbitrary: seen) auto

lemma wf_entries_snoc:
  "wf_entries (es @ [e]) \<longleftrightarrow>
     wf_entries es \<and> se_id e \<noteq> [] \<and> se_id e \<notin> set (map se_id es) \<and>
     (case se_parentId e of None \<Rightarrow> True | Some p \<Rightarrow> p \<in> set (map se_id es))"
  by (simp add: wf_entries_def wf_from_append)

lemma wf_entries_Nil [simp]: "wf_entries []"
  by (simp add: wf_entries_def)

lemma wf_entries_distinct: "wf_entries es \<Longrightarrow> distinct (map se_id es)"
  by (induction es rule: rev_induct) (auto simp: wf_entries_snoc)

lemma wf_entries_ids: "wf_entries es \<Longrightarrow> e \<in> set es \<Longrightarrow> se_id e \<noteq> []"
  by (induction es rule: rev_induct) (auto simp: wf_entries_snoc)

lemma get_entry_index:
  "distinct (map se_id es) \<Longrightarrow> e \<in> set es \<Longrightarrow> omap_get (entry_index es) (se_id e) = Some e"
  by (simp add: entry_index_def map_of_eq_Some_iff comp_def)

lemma get_entry_index_SomeD: "omap_get (entry_index es) i = Some e \<Longrightarrow> e \<in> set es \<and> se_id e = i"
  by (auto simp: entry_index_def dest!: map_of_SomeD)

lemma get_entry_index_None: "omap_get (entry_index es) i = None \<longleftrightarrow> i \<notin> set (map se_id es)"
  by (simp add: entry_index_def map_of_eq_None_iff image_image)

lemma get_entry_index_snoc:
  "se_id e \<notin> set (map se_id es) \<Longrightarrow>
     omap_get (entry_index (es @ [e])) i = (if i = se_id e then Some e else omap_get (entry_index es) i)"
  using get_entry_index_None [of es "se_id e"]
  by (auto simp: entry_index_def map_add_def split: option.splits)

lemma fold_index: "distinct (map se_id es) \<Longrightarrow> fold (\<lambda>e. omap_set (se_id e) e) es [] = entry_index es"
  using fold_omap_set_fresh [of se_id es "[]" "\<lambda>e. e"] by (simp add: entry_index_def)

lemma buildEntryIndex_wf:
  "wf_entries es \<Longrightarrow> byId = None \<or> byId = Some (entry_index es) \<Longrightarrow> buildEntryIndex es byId = entry_index es"
  by (auto simp: buildEntryIndex_def fold_index wf_entries_distinct)

lemma wf_from_parent:
  "wf_from seen es \<Longrightarrow> e \<in> set es \<Longrightarrow> se_parentId e = Some p \<Longrightarrow> p \<in> set seen \<union> set (map se_id es)"
  by (induction es arbitrary: seen) fastforce+

lemma wf_entries_parent:
  assumes "wf_entries es" and "e \<in> set es" and "se_parentId e = Some p"
  shows "p \<in> set (map se_id es)" and "p \<noteq> []"
proof -
  show p: "p \<in> set (map se_id es)"
    using wf_from_parent [of "[]" es e p] assms by (simp add: wf_entries_def)
  then show "p \<noteq> []" using wf_entries_ids [OF assms(1)] by force
qed

lemma parent_entry_wf:
  assumes "wf_entries es" and "e \<in> set es"
  shows "parent_entry (entry_index es) e = None \<longleftrightarrow> se_parentId e = None"
  using wf_entries_parent [OF assms] get_entry_index_None [of es]
  by (fastforce simp: parent_entry_def split: option.splits)

lemma parent_entry_SomeD:
  "parent_entry (entry_index es) e = Some q \<Longrightarrow> q \<in> set es \<and> se_parentId e = Some (se_id q)"
  by (auto simp: parent_entry_def split: option.splits if_splits dest!: get_entry_index_SomeD)

text \<open>The walk computes the root path.\<close>

lemma walk_up_root_path: "root_path index e p \<Longrightarrow> walk_up index (Some e) acc = Some (p @ acc)"
proof (induction arbitrary: acc rule: root_path.induct)
  case (at_root e)
  then show ?case by (simp add: walk_up.simps [of index "Some e"] walk_up.simps [of index None])
next
  case (below e q p)
  then show ?case by (simp add: walk_up.simps [of index "Some e"])
qed

lemma root_path_mono:
  assumes "root_path (entry_index es) e p" and "wf_entries (es @ [x])" and "e \<in> set es"
  shows "root_path (entry_index (es @ [x])) e p"
  using assms(1,3)
proof (induction rule: root_path.induct)
  have fresh: "se_id x \<notin> set (map se_id es)" and wf: "wf_entries es"
    using assms(2) by (auto simp: wf_entries_snoc)
  have eq: "parent_entry (entry_index (es @ [x])) d = parent_entry (entry_index es) d" if "d \<in> set es" for d
    using wf_entries_parent(1) [OF wf that] fresh
    by (auto simp: parent_entry_def get_entry_index_snoc split: option.splits)
  {
    case (at_root e)
    then show ?case by (intro root_path.at_root) (simp add: eq)
  next
    case (below e q p)
    then show ?case
      using parent_entry_SomeD by (intro root_path.below [of _ _ q]) (auto simp: eq)
  }
qed

lemma root_path_exists: "wf_entries es \<Longrightarrow> e \<in> set es \<Longrightarrow> \<exists>p. root_path (entry_index es) e p"
proof (induction es arbitrary: e rule: rev_induct)
  case (snoc x xs)
  note wf = snoc.prems(1)
  have old: "\<exists>p. root_path (entry_index (xs @ [x])) d p" if "d \<in> set xs" for d
    using snoc.IH [of d] wf that root_path_mono [OF _ wf] by (auto simp: wf_entries_snoc)
  show ?case
  proof (cases "e \<in> set xs")
    case False
    with snoc.prems have e: "e = x" by simp
    show ?thesis
    proof (cases "se_parentId x")
      case None
      then show ?thesis
        by (intro exI [of _ "[e]"] root_path.at_root) (simp add: e parent_entry_def)
    next
      case (Some i)
      with wf obtain q where q: "q \<in> set xs" "i = se_id q" by (auto simp: wf_entries_snoc)
      have "parent_entry (entry_index (xs @ [x])) x = Some q"
        using Some q wf_entries_parent(2) [OF wf, of x i] get_entry_index [OF wf_entries_distinct [OF wf], of q]
        by (simp add: parent_entry_def)
      then show ?thesis using old [OF q(1)] e by (auto intro: root_path.below)
    qed
  qed (rule old)
qed simp

lemma root_path_props:
  assumes "root_path (entry_index es) e p" and "wf_entries es" and "e \<in> set es"
  shows "linked p \<and> set p \<subseteq> set es \<and> p \<noteq> [] \<and> last p = e \<and> se_parentId (hd p) = None"
  using assms(1,3)
proof (induction rule: root_path.induct)
  case (at_root e)
  then show ?case using parent_entry_wf [OF assms(2)] by simp
next
  case (below e q p)
  from below.hyps(1) have q: "q \<in> set es" "se_parentId e = Some (se_id q)"
    using parent_entry_SomeD by auto
  have link: "linked (xs @ [y])" if "linked xs" "xs \<noteq> [] \<Longrightarrow> se_parentId y = Some (se_id (last xs))" for xs y
    using that by (induction xs rule: linked.induct) auto
  from below.IH q below.prems show ?case by (auto intro!: link)
qed

text \<open>The ids on a root path are distinct: its entries occur in history order.\<close>

lemma root_path_subseq:
  assumes "wf_entries es" and "e \<in> set es" and "root_path (entry_index es) e p"
  shows "subseq p es"
  using assms
proof (induction es arbitrary: e p rule: rev_induct)
  case (snoc x xs)
  note wf = snoc.prems(1)
  have det: "p = p'" if "root_path (entry_index (xs @ [x])) d p" "root_path (entry_index (xs @ [x])) d p'" for d p p'
    using that [THEN walk_up_root_path, of "[]"] by simp
  have wf': "wf_entries xs" using wf by (simp add: wf_entries_snoc)
  have old: "subseq p xs" if d: "d \<in> set xs" and p: "root_path (entry_index (xs @ [x])) d p" for d p
  proof -
    from root_path_exists [OF wf' d] obtain p' where p': "root_path (entry_index xs) d p'" ..
    with snoc.IH [OF wf' d p'] det [OF p root_path_mono [OF p' wf d]] show ?thesis by simp
  qed
  show ?case
  proof (cases "e \<in> set xs")
    case True
    with old [OF True snoc.prems(3)] show ?thesis by (simp add: subseq_rev_drop_many)
  next
    case False
    with snoc.prems have e: "e = x" by simp
    from snoc.prems(3) show ?thesis
    proof cases
      case at_root
      with e show ?thesis by (simp add: subseq_drop_many)
    next
      case (below q p')
      from below(2) have "q \<in> set (xs @ [x])" "se_parentId e = Some (se_id q)"
        using parent_entry_SomeD by blast+
      moreover have "q \<noteq> x" using calculation(2) e wf by (auto simp: wf_entries_snoc)
      ultimately have "q \<in> set xs" by simp
      with old [OF this below(3)] below(1) e show ?thesis by simp
    qed
  qed
qed simp


section \<open>Context entries and projection: lemmas\<close>

lemma kept_entries_True: "kept_entries fk True es = filter (\<lambda>e. \<not> is_system_entry e) es"
  by (induction es) (auto simp: Let_def)

lemma kept_entries_eq:
  "kept_entries fk False es = filter (\<lambda>e. \<not> is_system_entry e) (dropWhile (\<lambda>e. se_id e \<noteq> fk) es)"
  by (induction es) (auto simp: Let_def kept_entries_True)

lemma find_index_self:
  "distinct (map se_id (pre @ c # post)) \<Longrightarrow>
     find_index (\<lambda>e. se_id e = se_id c) (pre @ c # post) = Some (length pre)"
  by (subst find_index_append) (auto simp: image_iff)

lemma find_last_compaction:
  "is_compaction c \<Longrightarrow> \<not> list_ex is_compaction post \<Longrightarrow> find_last is_compaction (pre @ c # post) = Some c"
  by (rule find_last_at) (auto simp: list_ex_iff)

text \<open>The context entries of a path whose newest compaction is \<open>c\<close>.\<close>

lemma context_entries_compacted:
  assumes "distinct (map se_id (pre @ c # post))" and "is_compaction c"
    and "\<not> list_ex is_compaction post"
  shows "context_entries_of_path (pre @ c # post) =
     c # filter (\<lambda>e. \<not> is_system_entry e) (dropWhile (\<lambda>e. se_id e \<noteq> firstKept_of c) pre) @ post"
  using find_last_compaction [OF assms(2,3), of pre] find_index_self [OF assms(1)]
  by (simp add: context_entries_of_path_def kept_entries_eq)

lemma context_entries_plain:
  "\<not> list_ex is_compaction path \<Longrightarrow> context_entries_of_path path = path"
proof -
  assume "\<not> list_ex is_compaction path"
  then have "find_last is_compaction path = None"
    by (auto simp: find_last_None list_ex_iff)
  then show ?thesis by (simp add: context_entries_of_path_def)
qed

lemma context_entries_subset: "set (context_entries_of_path path) \<subseteq> set path"
proof (cases "find_last is_compaction path")
  case None
  then show ?thesis by (simp add: context_entries_of_path_def)
next
  case (Some c)
  then obtain ys zs where "path = ys @ c # zs" by (auto dest: find_last_split)
  then have "c \<in> set path" by simp
  then show ?thesis
    unfolding context_entries_of_path_def Some kept_entries_eq
    by (auto split: option.splits dest!: set_dropWhileD in_set_takeD in_set_dropD)
qed

lemma normalize_null_not_null: "\<not> null_content (normalize_null m)"
  by (induction m rule: normalize_null.induct) auto

lemma entry_messages_not_null:
  assumes "case cp of CompactionE c \<Rightarrow> (case cp_systemMessage c of Some s \<Rightarrow> sy_content s \<noteq> None | None \<Rightarrow> True) | _ \<Rightarrow> True"
    and "se_data e = cp" and "m \<in> set (sessionEntryToContextMessages e)"
  shows "\<not> null_content m"
  using assms normalize_null_not_null
  by (auto simp: sessionEntryToContextMessages_def createCustomMessage_def createBranchSummaryMessage_def
      createCompactionSummaryMessage_def Let_def split: entry_data.splits option.splits if_splits)

lemma replace_content_not_null: "\<not> null_content m \<Longrightarrow> \<not> null_content (replace_content c m)"
  by (induction c m rule: replace_content.induct) auto

lemma length_project_entries [simp]: "length (project_entries es) = length es"
  by (simp add: project_entries_def)

lemma nth_project_entries:
  "i < length es \<Longrightarrow> project_entries es ! i = project_at (context_edits es) i (es ! i)"
  by (simp add: project_entries_def nth_enumerate_eq)

lemma sources_project_entries [simp]: "map pe_source (project_entries es) = es"
  by (rule nth_equalityI) (simp_all add: nth_project_entries project_at_def)

lemma project_entries_Cons_messages:
  "concat (map pe_messages (project_entries (c # es))) =
     projectContextEntry c (omap_get (context_edits (c # es)) (se_id c)) @
     concat (map (\<lambda>e. if is_compaction e then []
                      else projectContextEntry e (omap_get (context_edits (c # es)) (se_id e))) es)"
proof -
  have "map (\<lambda>(i, e). pe_messages (project_at edits i e)) (enumerate (Suc k) es) =
      map (\<lambda>e. if is_compaction e then [] else projectContextEntry e (omap_get edits (se_id e))) es" for edits k
    by (induction es arbitrary: k) (auto simp: project_at_def)
  from this [of "context_edits (c # es)" 0] show ?thesis
    by (simp add: project_entries_def project_at_def comp_def case_prod_beta')
qed

lemma get_context_edits:
  "omap_get (context_edits es) t =
     (case find_last (\<lambda>e. \<exists>r. se_data e = ContextEditE t r) es of
        None \<Rightarrow> None
      | Some e \<Rightarrow> (case se_data e of ContextEditE _ r \<Rightarrow> Some r | _ \<Rightarrow> None))"
proof (induction es rule: rev_induct)
  case (snoc e es)
  then show ?case
    by (cases "se_data e") (auto simp: context_edits_def collect_edit_def get_omap_set)
qed (simp add: context_edits_def)

lemma walk_up_self_parent:
  assumes "omap_get index (se_id e) = Some e" and "se_parentId e = Some (se_id e)" and "se_id e \<noteq> []"
  shows "walk_up index (Some e) acc = None"
proof (rule ccontr)
  assume "walk_up index (Some e) acc \<noteq> None"
  then obtain r where "walk_up index (Some e) acc = Some r" by auto
  then have "Some e = Some e \<and> index = index \<longrightarrow> False"
  proof (rule walk_up.raw_induct [where P = "\<lambda>i c _ _. c = Some e \<and> i = index \<longrightarrow> False", rotated])
    fix f i c path y
    assume IH: "\<And>i c path y. f i c path = Some y \<Longrightarrow> c = Some e \<and> i = index \<longrightarrow> False"
      and eq: "(case c of None \<Rightarrow> Some path | Some e \<Rightarrow> f i (parent_entry i e) (e # path)) = Some y"
    show "c = Some e \<and> i = index \<longrightarrow> False"
    proof (intro impI)
      assume c: "c = Some e \<and> i = index"
      have "parent_entry index e = Some e" using assms by (simp add: parent_entry_def)
      with c eq have "f index (Some e) (e # path) = Some y" by simp
      with IH show False by blast
    qed
  qed
  then show False by simp
qed

section \<open>Session properties\<close>

text \<open>
  C18. On an append-only history the walk from any entry to its root returns, and the path it
  returns starts at a root entry, ends at the requested leaf, links each entry to its parent, and
  lists entries in history order.
\<close>

theorem session_path_returns:
  assumes "wf_entries es" and "leaf \<in> set es" and "byId = None \<or> byId = Some (entry_index es)"
  shows "\<exists>p. buildSessionPath es (LeafId (se_id leaf)) byId = Some p \<and> p \<noteq> [] \<and> last p = leaf \<and>
     se_parentId (hd p) = None \<and> linked p \<and> subseq p es"
proof -
  obtain p where p: "root_path (entry_index es) leaf p"
    using root_path_exists [OF assms(1,2)] by blast
  have idx: "buildEntryIndex es byId = entry_index es" using assms(1,3) by (rule buildEntryIndex_wf)
  have "buildSessionPath es (LeafId (se_id leaf)) byId = Some p"
    using walk_up_root_path [OF p, of "[]"] wf_entries_ids [OF assms(1,2)]
      get_entry_index [OF wf_entries_distinct [OF assms(1)] assms(2)]
    by (simp add: buildSessionPath_def idx)
  then show ?thesis
    using root_path_props [OF p assms(1,2)] root_path_subseq [OF assms(1,2) p] by auto
qed

definition demo_entry :: "string \<Rightarrow> string option \<Rightarrow> entry_data \<Rightarrow> session_entry" where
  "demo_entry i p d = \<lparr>se_id = js i, se_parentId = map_option js p, se_timestamp = 0, se_data = d\<rparr>"

theorem session_path_returns_witness:
  "\<exists>p. buildSessionPath [demo_entry ''a'' None (SessionInfoE None), demo_entry ''b'' (Some ''a'') (SessionInfoE None)]
      (LeafId (js ''b'')) None = Some p \<and> p \<noteq> [] \<and> se_parentId (hd p) = None \<and> linked p"
proof -
  let ?a = "demo_entry ''a'' None (SessionInfoE None)"
  let ?b = "demo_entry ''b'' (Some ''a'') (SessionInfoE None)"
  have "wf_entries [?a, ?b]" by (simp add: wf_entries_def demo_entry_def js_def)
  then show ?thesis
    using session_path_returns [of "[?a, ?b]" ?b None] by (auto simp: demo_entry_def)
qed

text \<open>
  C21. A stored entry that names itself as its parent, which the tree view treats as a root, makes
  the path walk run forever: no path, and hence no model context, is ever returned.
\<close>

theorem self_parent_path_diverges:
  assumes "wf_entries es" and "se_id e \<notin> set (map se_id es)" and "se_id e \<noteq> []"
    and "se_parentId e = Some (se_id e)"
  shows "buildSessionPath (es @ [e]) LeafUndefined None = None \<and>
         buildSessionContext (es @ [e]) LeafUndefined None = None"
proof -
  have d: "distinct (map se_id (es @ [e]))" using assms(1,2) wf_entries_distinct by auto
  have "omap_get (entry_index (es @ [e])) (se_id e) = Some e"
    using get_entry_index [OF d, of e] by simp
  then have "walk_up (entry_index (es @ [e])) (Some e) [] = None"
    using assms(3,4) by (intro walk_up_self_parent) auto
  then have "buildSessionPath (es @ [e]) LeafUndefined None = None"
    by (simp add: buildSessionPath_def buildEntryIndex_def fold_index [OF d] last_option_def
        del: fold_append map_append)
  then show ?thesis by (simp add: buildSessionContext_def buildSessionProjection_def)
qed

theorem self_parent_path_diverges_witness:
  "buildSessionPath ([] @ [demo_entry ''a'' (Some ''a'') (SessionInfoE None)]) LeafUndefined None = None"
  using self_parent_path_diverges [of "[]" "demo_entry ''a'' (Some ''a'') (SessionInfoE None)"]
  by (simp add: demo_entry_def js_def)

text \<open>
  C16. The model context of a compacted path is the newest compaction's own messages (the stored
  system state and the summary), then the retained entries from the first kept id on without
  system messages, then everything after the compaction; older compactions contribute nothing and
  every entry is projected through the latest context edit that names it.
\<close>

theorem compacted_context:
  assumes "distinct (map se_id (pre @ c # post))" and "is_compaction c" and "\<not> list_ex is_compaction post"
    and "kept = filter (\<lambda>e. \<not> is_system_entry e) (dropWhile (\<lambda>e. se_id e \<noteq> firstKept_of c) pre)"
    and "edit = (\<lambda>e. omap_get (context_edits (c # kept @ post)) (se_id e))"
  shows "map pe_source (sp_entries (projection_of_path (pre @ c # post))) = c # kept @ post \<and>
     sp_messages (projection_of_path (pre @ c # post)) =
       projectContextEntry c (edit c) @
       concat (map (\<lambda>e. if is_compaction e then [] else projectContextEntry e (edit e)) (kept @ post))"
proof -
  have ce: "context_entries_of_path (pre @ c # post) = c # kept @ post"
    using context_entries_compacted [OF assms(1-3)] assms(4) by simp
  show ?thesis
    unfolding projection_of_path_def Let_def ce assms(5)
    by (simp add: project_entries_Cons_messages del: concat_append map_append)
qed

definition demo_compaction :: compaction_data where
  "demo_compaction =
     \<lparr>cp_summary = js ''s'', cp_firstKeptEntryId = js ''b'', cp_tokensBefore = 10, cp_details = None,
      cp_usage = None, cp_fromHook = False, cp_systemMessage = None, cp_firstKeptEntryIndex = None\<rparr>"

definition demo_user :: "string \<Rightarrow> agent_message" where
  "demo_user t = User \<lparr>us_content = Some (CStr (js t)), us_timestamp = 0\<rparr>"

theorem compacted_context_witness:
  "map pe_source (sp_entries (projection_of_path
     ([demo_entry ''a'' None (MessageE (demo_user ''x'')), demo_entry ''b'' (Some ''a'') (MessageE (demo_user ''y''))] @
      demo_entry ''c'' (Some ''b'') (CompactionE demo_compaction) # []))) =
   [demo_entry ''c'' (Some ''b'') (CompactionE demo_compaction), demo_entry ''b'' (Some ''a'') (MessageE (demo_user ''y''))]"
proof -
  let ?pre = "[demo_entry ''a'' None (MessageE (demo_user ''x'')), demo_entry ''b'' (Some ''a'') (MessageE (demo_user ''y''))]"
  let ?c = "demo_entry ''c'' (Some ''b'') (CompactionE demo_compaction)"
  have "distinct (map se_id (?pre @ ?c # []))" by (simp add: demo_entry_def js_def)
  moreover have "is_compaction ?c" by (simp add: is_compaction_def demo_entry_def)
  ultimately show ?thesis
    using compacted_context [of ?pre ?c "[]", OF _ _ _ refl refl]
    by (simp add: demo_entry_def firstKept_of_def demo_compaction_def js_def is_system_entry_def demo_user_def)
qed


definition demo_null :: agent_message where
  "demo_null = ToolResult \<lparr>tr_toolCallId = js ''t'', tr_toolName = js ''n'', tr_content = None, tr_details = None,
     tr_usage = None, tr_nestedCalls = [], tr_isError = False, tr_timestamp = 0, tr_durationMs = None\<rparr>"


end
