(* ===== verification/Summary_Text.thy ===== *)
theory Summary_Text
  imports Session
begin

text \<open>
  Text and file bookkeeping for summaries (packages/coding-agent/src/core/compaction/utils.ts) and
  usage arithmetic (packages/coding-agent/src/core/usage-totals.ts): the files a conversation has
  read and modified, the serialization of a conversation into a prompt, and sums of usage.
\<close>

section \<open>File operations\<close>

text \<open>A JavaScript \<open>Set\<close> of strings: the distinct elements in insertion order.\<close>

definition set_add :: "jstr \<Rightarrow> jstr list \<Rightarrow> jstr list" where
  "set_add x xs = (if x \<in> set xs then xs else xs @ [x])"

record file_operations =
  fo_read :: "jstr list"
  fo_written :: "jstr list"
  fo_edited :: "jstr list"

definition createFileOps :: file_operations where
  "createFileOps = \<lparr>fo_read = [], fo_written = [], fo_edited = []\<rparr>"

text \<open>\<open>typeof args?.path === "string" ? args.path : undefined\<close>.\<close>

definition path_argument :: "(jstr \<times> json) list option \<Rightarrow> jstr option" where
  "path_argument args =
     (case args of
        None \<Rightarrow> None
      | Some kvs \<Rightarrow> (case map_of kvs (js ''path'') of Some (JStr p) \<Rightarrow> Some p | _ \<Rightarrow> None))"

definition addFileOp :: "jstr \<Rightarrow> (jstr \<times> json) list option \<Rightarrow> file_operations \<Rightarrow> file_operations" where
  "addFileOp toolName args ops =
     (case path_argument args of
        None \<Rightarrow> ops
      | Some p \<Rightarrow>
          if p = [] then ops
          else if toolName = js ''read'' then ops\<lparr>fo_read := set_add p (fo_read ops)\<rparr>
          else if toolName = js ''write'' then ops\<lparr>fo_written := set_add p (fo_written ops)\<rparr>
          else if toolName = js ''edit'' then ops\<lparr>fo_edited := set_add p (fo_edited ops)\<rparr>
          else ops)"

definition block_file_op :: "content \<Rightarrow> file_operations \<Rightarrow> file_operations" where
  "block_file_op b ops =
     (case b of ToolCall c \<Rightarrow> addFileOp (tc_name c) (Some (tc_arguments c)) ops | _ \<Rightarrow> ops)"

fun extractFileOpsFromMessage :: "agent_message \<Rightarrow> file_operations \<Rightarrow> file_operations" where
  "extractFileOpsFromMessage (ToolResult m) ops =
     fold (\<lambda>c. addFileOp (nc_name c) (nc_arguments c)) (tr_nestedCalls m) ops"
| "extractFileOpsFromMessage (Assistant m) ops =
     (case as_content m of None \<Rightarrow> ops | Some bs \<Rightarrow> fold block_file_op bs ops)"
| "extractFileOpsFromMessage _ ops = ops"

definition computeFileLists :: "file_operations \<Rightarrow> jstr list \<times> jstr list" where
  "computeFileLists ops =
     (let modified = fold set_add (fo_edited ops @ fo_written ops) [];
          readOnly = sort (filter (\<lambda>f. f \<notin> set modified) (fo_read ops))
      in (readOnly, sort modified))"

definition formatFileOperations :: "jstr list \<Rightarrow> jstr list \<Rightarrow> jstr" where
  "formatFileOperations readFiles modifiedFiles =
     (let sections =
        (if readFiles \<noteq> []
         then [js ''<read-files>'' @ newline @ join newline readFiles @ newline @ js ''</read-files>''] else []) @
        (if modifiedFiles \<noteq> []
         then [js ''<modified-files>'' @ newline @ join newline modifiedFiles @ newline @ js ''</modified-files>''] else [])
      in if sections = [] then [] else blank_line @ join blank_line sections)"

section \<open>Serialization of a conversation\<close>

definition TOOL_RESULT_MAX_CHARS :: nat where
  "TOOL_RESULT_MAX_CHARS = 2000"

definition truncateForSummary :: "jstr \<Rightarrow> nat \<Rightarrow> jstr" where
  "truncateForSummary t maxChars =
     (if length t \<le> maxChars then t
      else take maxChars t @ blank_line @ js ''[... '' @ nat_str (length t - maxChars) @ js '' more characters truncated]'')"

definition call_text :: "tool_call \<Rightarrow> jstr" where
  "call_text c =
     tc_name c @ js ''('' @ join (js '', '') (map (\<lambda>(k, v). k @ js ''='' @ stringify v) (tc_arguments c)) @ js '')''"

fun tool_call_of :: "content \<Rightarrow> tool_call option" where
  "tool_call_of (ToolCall c) = Some c"
| "tool_call_of _ = None"

definition blocks_of :: "content list option \<Rightarrow> content list" where
  "blocks_of c = (case c of None \<Rightarrow> [] | Some bs \<Rightarrow> bs)"

text \<open>The parts one message adds. Messages reach it through the projection, so no content is \<open>null\<close>.\<close>

fun serialize_message :: "message \<Rightarrow> jstr list" where
  "serialize_message (UserM m) =
     (let t = (case us_content m of None \<Rightarrow> [] | Some c \<Rightarrow> contentText [] c)
      in if t \<noteq> [] then [js ''[User]: '' @ t] else [])"
| "serialize_message (AssistantM m) =
     (let bs = blocks_of (as_content m);
          toolCalls = map call_text (List.map_filter tool_call_of bs)
      in (if list_ex (\<lambda>b. block_text b \<noteq> None) bs then [js ''[Assistant]: '' @ contentText newline (CBlocks bs)] else []) @
         (if toolCalls \<noteq> [] then [js ''[Assistant tool calls]: '' @ join (js ''; '') toolCalls] else []))"
| "serialize_message (ToolResultM m) =
     (let t = contentText [] (CBlocks (blocks_of (tr_content m)))
      in if t \<noteq> [] then [js ''[Tool result]: '' @ truncateForSummary t TOOL_RESULT_MAX_CHARS] else [])"
| "serialize_message (SystemM m) = []"

definition serializeConversation :: "message list \<Rightarrow> jstr" where
  "serializeConversation ms = join blank_line (concat (map serialize_message ms))"

definition SUMMARIZATION_SYSTEM_PROMPT :: jstr where
  \<open>SUMMARIZATION_SYSTEM_PROMPT =
     join newline
      [js ''You are a context summarization assistant. Your task is to read a conversation between a user and an AI assistant, then produce a structured summary following the exact format specified.'',
       [],
       js ''Do NOT continue the conversation. Do NOT respond to any questions in the conversation. ONLY output the structured summary.'']\<close>

section \<open>Usage totals\<close>

record usage_totals =
  ut_input :: int
  ut_output :: int
  ut_cacheRead :: int
  ut_cacheWrite :: int
  ut_cost :: rat

definition createUsageTotals :: usage_totals where
  "createUsageTotals = \<lparr>ut_input = 0, ut_output = 0, ut_cacheRead = 0, ut_cacheWrite = 0, ut_cost = 0\<rparr>"

definition addUsageToTotals :: "usage_totals \<Rightarrow> usage \<Rightarrow> usage_totals" where
  "addUsageToTotals t u =
     \<lparr>ut_input = ut_input t + u_input u, ut_output = ut_output t + u_output u,
      ut_cacheRead = ut_cacheRead t + u_cacheRead u, ut_cacheWrite = ut_cacheWrite t + u_cacheWrite u,
      ut_cost = ut_cost t + co_total (u_cost u)\<rparr>"

definition add_optional :: "int option \<Rightarrow> int option \<Rightarrow> int option" where
  "add_optional a b =
     (if a = None \<and> b = None then None
      else Some ((case a of None \<Rightarrow> 0 | Some x \<Rightarrow> x) + (case b of None \<Rightarrow> 0 | Some y \<Rightarrow> y)))"

definition combineUsage :: "usage \<Rightarrow> usage \<Rightarrow> usage" where
  "combineUsage a b =
     \<lparr>u_input = u_input a + u_input b, u_output = u_output a + u_output b,
      u_cacheRead = u_cacheRead a + u_cacheRead b, u_cacheWrite = u_cacheWrite a + u_cacheWrite b,
      u_cacheWrite1h = add_optional (u_cacheWrite1h a) (u_cacheWrite1h b),
      u_reasoning = add_optional (u_reasoning a) (u_reasoning b),
      u_totalTokens = u_totalTokens a + u_totalTokens b,
      u_cost = \<lparr>co_input = co_input (u_cost a) + co_input (u_cost b),
                co_output = co_output (u_cost a) + co_output (u_cost b),
                co_cacheRead = co_cacheRead (u_cost a) + co_cacheRead (u_cost b),
                co_cacheWrite = co_cacheWrite (u_cost a) + co_cacheWrite (u_cost b),
                co_total = co_total (u_cost a) + co_total (u_cost b),
                co_totalFromProvider = (co_totalFromProvider (u_cost a) \<and> co_totalFromProvider (u_cost b))\<rparr>\<rparr>"

text \<open>The usage an entry is charged with and the bucket it is charged to.\<close>

definition usage_key :: "session_entry \<Rightarrow> (jstr \<times> usage) option" where
  "usage_key e =
     (case se_data e of
        MessageE (Assistant m) \<Rightarrow>
          map_option (\<lambda>u. (as_provider m @ js ''/'' @
            (case as_responseModel m of None \<Rightarrow> as_model m | Some r \<Rightarrow> r), u)) (as_usage m)
      | UsageE d \<Rightarrow> Some (ud_provider d @ js ''/'' @ ud_model d, ud_usage d)
      | MessageE (ToolResult m) \<Rightarrow> map_option (\<lambda>u. (js ''Tools/summaries'', u)) (tr_usage m)
      | BranchSummaryE b \<Rightarrow> map_option (\<lambda>u. (js ''Tools/summaries'', u)) (br_usage b)
      | CompactionE c \<Rightarrow> map_option (\<lambda>u. (js ''Tools/summaries'', u)) (cp_usage c)
      | _ \<Rightarrow> None)"

definition charge :: "session_entry \<Rightarrow> (jstr, usage_totals) omap \<Rightarrow> (jstr, usage_totals) omap" where
  "charge e m =
     (case usage_key e of
        None \<Rightarrow> m
      | Some (k, u) \<Rightarrow>
          omap_set k (addUsageToTotals (case omap_get m k of None \<Rightarrow> createUsageTotals | Some t \<Rightarrow> t) u) m)"

record usage_cost_entry =
  uc_key :: jstr
  uc_cost :: rat
  uc_tokens :: int

definition breakdown_entry :: "jstr \<times> usage_totals \<Rightarrow> usage_cost_entry" where
  "breakdown_entry kt =
     \<lparr>uc_key = fst kt, uc_cost = ut_cost (snd kt),
      uc_tokens = ut_input (snd kt) + ut_output (snd kt) + ut_cacheRead (snd kt) + ut_cacheWrite (snd kt)\<rparr>"

definition getUsageCostBreakdown :: "session_entry list \<Rightarrow> usage_cost_entry list" where
  "getUsageCostBreakdown es =
     sort_key (\<lambda>x. - uc_cost x)
       (filter (\<lambda>x. 0 < uc_cost x \<or> 0 < uc_tokens x) (map breakdown_entry (fold charge es [])))"

end
