(* ===== verification/Compaction.thy ===== *)
theory Compaction
  imports Summary_Text
begin

text \<open>
  Context compaction (packages/coding-agent/src/core/compaction/compaction.ts): token estimates,
  the choice of the cut point, and the preparation of a compaction. Token counts are natural
  numbers; \<open>Math.ceil(chars / 4)\<close> is \<open>(chars + 3) div 4\<close>.
\<close>

section \<open>Token estimates\<close>

record compaction_settings =
  cs_enabled :: bool
  cs_reserveTokens :: int
  cs_keepRecentTokens :: nat

definition DEFAULT_COMPACTION_SETTINGS :: compaction_settings where
  "DEFAULT_COMPACTION_SETTINGS = \<lparr>cs_enabled = True, cs_reserveTokens = 16384, cs_keepRecentTokens = 20000\<rparr>"

definition calculateContextTokens :: "usage \<Rightarrow> int" where
  "calculateContextTokens u =
     (if u_totalTokens u \<noteq> 0 then u_totalTokens u
      else u_input u + u_output u + u_cacheRead u + u_cacheWrite u)"

fun getAssistantUsage :: "agent_message \<Rightarrow> usage option" where
  "getAssistantUsage (Assistant m) =
     (case as_usage m of
        None \<Rightarrow> None
      | Some u \<Rightarrow> if as_stopReason m \<noteq> AbortedStop \<and> as_stopReason m \<noteq> ErrorStop \<and> 0 < calculateContextTokens u
                 then Some u else None)"
| "getAssistantUsage _ = None"

definition getLastAssistantUsage :: "session_entry list \<Rightarrow> usage option" where
  "getLastAssistantUsage es =
     (case find_last (\<lambda>e. case se_data e of MessageE m \<Rightarrow> getAssistantUsage m \<noteq> None | _ \<Rightarrow> False) es of
        None \<Rightarrow> None
      | Some e \<Rightarrow> (case se_data e of MessageE m \<Rightarrow> getAssistantUsage m | _ \<Rightarrow> None))"

definition ESTIMATED_IMAGE_CHARS :: nat where
  "ESTIMATED_IMAGE_CHARS = 4800"

definition block_chars :: "content \<Rightarrow> nat" where
  "block_chars b = (case b of Text t _ \<Rightarrow> length t | Image _ _ \<Rightarrow> ESTIMATED_IMAGE_CHARS | _ \<Rightarrow> 0)"

definition estimateTextAndImageContentChars :: "content_value \<Rightarrow> nat" where
  "estimateTextAndImageContentChars c =
     (case c of CStr s \<Rightarrow> length s | CBlocks bs \<Rightarrow> sum_list (map block_chars bs))"

definition assistant_block_chars :: "content \<Rightarrow> nat" where
  "assistant_block_chars b =
     (case b of
        Text t _ \<Rightarrow> length t
      | Thinking t _ _ \<Rightarrow> length t
      | ToolCall c \<Rightarrow> length (tc_name c) + length (stringify (JObj (tc_arguments c)))
      | Image _ _ \<Rightarrow> 0)"

definition content_chars :: "content_value option \<Rightarrow> nat" where
  "content_chars c = (case c of None \<Rightarrow> 0 | Some v \<Rightarrow> estimateTextAndImageContentChars v)"

definition ceil4 :: "nat \<Rightarrow> nat" where
  "ceil4 n = (n + 3) div 4"

text \<open>On \<open>null\<close> content the program throws; the messages of a projection never have it.\<close>

fun estimateTokens :: "agent_message \<Rightarrow> nat" where
  "estimateTokens (System m) =
     ceil4 (content_chars (sy_content m) +
            sum_list (map (\<lambda>s. case snd s of None \<Rightarrow> 0 | Some t \<Rightarrow> length t) (sy_sections m)) +
            (if sy_toolsAdded m = [] then 0 else length (stringify (JArr (map tool_json (sy_toolsAdded m))))))"
| "estimateTokens (User m) = ceil4 (content_chars (us_content m))"
| "estimateTokens (Assistant m) = ceil4 (sum_list (map assistant_block_chars (blocks_of (as_content m))))"
| "estimateTokens (Custom m) = ceil4 (estimateTextAndImageContentChars (cm_content m))"
| "estimateTokens (ToolResult m) = ceil4 (content_chars (map_option CBlocks (tr_content m)))"
| "estimateTokens (BashExecution m) = ceil4 (length (be_command m) + length (be_output m))"
| "estimateTokens (BranchSummary m) = ceil4 (length (bs_summary m))"
| "estimateTokens (CompactionSummary m) = ceil4 (length (cs_summary m))"
| "estimateTokens (OtherRole _ _) = 0"

definition tokens_of :: "agent_message list \<Rightarrow> nat" where
  "tokens_of ms = sum_list (map estimateTokens ms)"

record context_usage_estimate =
  ce_tokens :: int
  ce_usageTokens :: int
  ce_trailingTokens :: int
  ce_lastUsageIndex :: "nat option"

fun last_usage :: "nat \<Rightarrow> agent_message list \<Rightarrow> (usage \<times> nat) option" where
  "last_usage 0 ms = None"
| "last_usage (Suc i) ms =
     (case getAssistantUsage (ms ! i) of Some u \<Rightarrow> Some (u, i) | None \<Rightarrow> last_usage i ms)"

definition getLastAssistantUsageInfo :: "agent_message list \<Rightarrow> (usage \<times> nat) option" where
  "getLastAssistantUsageInfo ms = last_usage (length ms) ms"

definition estimateContextTokens :: "agent_message list \<Rightarrow> context_usage_estimate" where
  "estimateContextTokens ms =
     (case getLastAssistantUsageInfo ms of
        None \<Rightarrow> \<lparr>ce_tokens = int (tokens_of ms), ce_usageTokens = 0, ce_trailingTokens = int (tokens_of ms),
                 ce_lastUsageIndex = None\<rparr>
      | Some (u, i) \<Rightarrow>
          (let usageTokens = calculateContextTokens u;
               trailing = int (tokens_of (drop (Suc i) ms))
           in \<lparr>ce_tokens = usageTokens + trailing, ce_usageTokens = usageTokens, ce_trailingTokens = trailing,
               ce_lastUsageIndex = Some i\<rparr>))"

text \<open>The entry that produced the message at a given index of the projection.\<close>

fun entry_at_message :: "nat \<Rightarrow> projected_entry list \<Rightarrow> jstr option" where
  "entry_at_message i [] = None"
| "entry_at_message i (e # es) =
     (if i < length (pe_messages e) then Some (se_id (pe_source e))
      else entry_at_message (i - length (pe_messages e)) es)"

definition index_or_minus1 :: "nat option \<Rightarrow> int" where
  "index_or_minus1 i = (case i of None \<Rightarrow> -1 | Some n \<Rightarrow> int n)"

fun find_last_index :: "('a \<Rightarrow> bool) \<Rightarrow> nat \<Rightarrow> 'a list \<Rightarrow> nat option" where
  "find_last_index P 0 xs = None"
| "find_last_index P (Suc i) xs = (if P (xs ! i) then Some i else find_last_index P i xs)"

definition is_context_edit :: "session_entry \<Rightarrow> bool" where
  "is_context_edit e = (case se_data e of ContextEditE _ _ \<Rightarrow> True | _ \<Rightarrow> False)"

definition estimateProjectedContextTokens ::
    "session_projection \<Rightarrow> session_entry list \<Rightarrow> context_usage_estimate" where
  "estimateProjectedContextTokens projection branchEntries =
     (let estimate = estimateContextTokens (sp_messages projection);
          trusted = (case ce_lastUsageIndex estimate of
             None \<Rightarrow> False
           | Some i \<Rightarrow>
               (let usageEntryIndex =
                      (case entry_at_message i (sp_entries projection) of
                         None \<Rightarrow> -1
                       | Some eid \<Rightarrow> if eid = [] then -1
                                    else index_or_minus1 (find_index (\<lambda>e. se_id e = eid) branchEntries));
                    invalidating = index_or_minus1
                      (find_last_index (\<lambda>e. is_context_edit e \<or> is_compaction e) (length branchEntries) branchEntries)
                in invalidating < usageEntryIndex))
      in if trusted then estimate
         else let systemTokens = (case getCurrentSystemMessage (agent_system_messages (sp_messages projection)) of
                                    None \<Rightarrow> 0 | Some m \<Rightarrow> estimateTokens (System m));
                  tokens = int (systemTokens + tokens_of (filter (\<lambda>m. \<not> is_system m) (sp_messages projection)))
              in \<lparr>ce_tokens = tokens, ce_usageTokens = 0, ce_trailingTokens = tokens, ce_lastUsageIndex = None\<rparr>)"

definition shouldCompact :: "int \<Rightarrow> int \<Rightarrow> compaction_settings \<Rightarrow> bool" where
  "shouldCompact contextTokens contextWindow settings \<longleftrightarrow>
     cs_enabled settings \<and> contextTokens > contextWindow - cs_reserveTokens settings"

section \<open>Cut points\<close>

fun isCutPointMessage :: "agent_message \<Rightarrow> bool" where
  "isCutPointMessage (User _) = True"
| "isCutPointMessage (Assistant _) = True"
| "isCutPointMessage (BashExecution _) = True"
| "isCutPointMessage (Custom _) = True"
| "isCutPointMessage (BranchSummary _) = True"
| "isCutPointMessage (CompactionSummary _) = True"
| "isCutPointMessage (ToolResult _) = False"
| "isCutPointMessage (System _) = False"
| "isCutPointMessage (OtherRole _ _) = False"

fun isTurnStartMessage :: "agent_message \<Rightarrow> bool" where
  "isTurnStartMessage (User _) = True"
| "isTurnStartMessage (BashExecution _) = True"
| "isTurnStartMessage (Custom _) = True"
| "isTurnStartMessage (BranchSummary _) = True"
| "isTurnStartMessage (CompactionSummary _) = True"
| "isTurnStartMessage (Assistant _) = False"
| "isTurnStartMessage (ToolResult _) = False"
| "isTurnStartMessage (System _) = False"
| "isTurnStartMessage (OtherRole _ _) = False"

record cut_point_result =
  cr_firstKeptEntryIndex :: nat
  cr_turnStartIndex :: "nat option"
  cr_isSplitTurn :: bool

text \<open>
  The backward walk over the entries: an entry without tokens is passed over, and the walk stops at
  the first entry with which the budget is reached. \<open>None\<close>: the budget is never reached.
\<close>

fun budget_walk :: "(nat \<Rightarrow> nat) \<Rightarrow> nat \<Rightarrow> nat \<Rightarrow> nat \<Rightarrow> nat \<Rightarrow> nat option" where
  "budget_walk tokens start keep 0 acc = None"
| "budget_walk tokens start keep (Suc i) acc =
     (if i < start then None
      else if tokens i = 0 then budget_walk tokens start keep i acc
      else if keep \<le> acc + tokens i then Some i
      else budget_walk tokens start keep i (acc + tokens i))"

text \<open>\<open>cutPoints.find(c => c >= i) ?? cutPoints[cutPoints.length - 1]\<close>, and the first cut point when the budget holds.\<close>

definition budget_cut :: "nat list \<Rightarrow> nat option \<Rightarrow> nat" where
  "budget_cut cutPoints stop =
     (case stop of
        None \<Rightarrow> hd cutPoints
      | Some i \<Rightarrow> (case find (\<lambda>c. i \<le> c) cutPoints of Some c \<Rightarrow> c | None \<Rightarrow> last cutPoints))"

text \<open>The scan back from the cut over entries that add nothing to the context.\<close>

fun back_up :: "(nat \<Rightarrow> bool) \<Rightarrow> nat \<Rightarrow> nat \<Rightarrow> nat" where
  "back_up stops start 0 = 0"
| "back_up stops start (Suc i) = (if i < start then Suc i else if stops i then Suc i else back_up stops start i)"

text \<open>\<open>for (i = entryIndex; i >= startIndex; i--) if (starts(i)) return i; return -1\<close>.\<close>

fun turn_start_before :: "(nat \<Rightarrow> bool) \<Rightarrow> nat \<Rightarrow> nat \<Rightarrow> nat option" where
  "turn_start_before starts start 0 = (if start = 0 \<and> starts 0 then Some 0 else None)"
| "turn_start_before starts start (Suc i) =
     (if Suc i < start then None else if starts (Suc i) then Some (Suc i) else turn_start_before starts start i)"

definition cut_result :: "(nat \<Rightarrow> bool) \<Rightarrow> nat \<Rightarrow> nat \<Rightarrow> cut_point_result" where
  "cut_result starts start cutIndex =
     (let startsTurn = starts cutIndex;
          turnStart = (if startsTurn then None else turn_start_before starts start cutIndex)
      in \<lparr>cr_firstKeptEntryIndex = cutIndex, cr_turnStartIndex = turnStart,
          cr_isSplitTurn = (\<not> startsTurn \<and> turnStart \<noteq> None)\<rparr>)"

subsection \<open>Over session entries\<close>

definition isTurnStartEntry :: "session_entry \<Rightarrow> bool" where
  "isTurnStartEntry e \<longleftrightarrow> \<not> is_compaction e \<and> list_ex isTurnStartMessage (sessionEntryToContextMessages e)"

definition findValidCutPoints :: "session_entry list \<Rightarrow> nat \<Rightarrow> nat \<Rightarrow> nat list" where
  "findValidCutPoints es start end' =
     filter (\<lambda>i. \<not> is_compaction (es ! i) \<and> list_ex isCutPointMessage (sessionEntryToContextMessages (es ! i)))
       [start..<end']"

definition findTurnStartIndex :: "session_entry list \<Rightarrow> nat \<Rightarrow> nat \<Rightarrow> nat option" where
  "findTurnStartIndex es entryIndex start = turn_start_before (\<lambda>i. isTurnStartEntry (es ! i)) start entryIndex"

definition findCutPoint :: "session_entry list \<Rightarrow> nat \<Rightarrow> nat \<Rightarrow> nat \<Rightarrow> cut_point_result" where
  "findCutPoint es start end' keep =
     (let cutPoints = findValidCutPoints es start end' in
      if cutPoints = [] then \<lparr>cr_firstKeptEntryIndex = start, cr_turnStartIndex = None, cr_isSplitTurn = False\<rparr>
      else
        let stop = budget_walk (\<lambda>i. tokens_of (sessionEntryToContextMessages (es ! i))) start keep end' 0;
            cutIndex = budget_cut cutPoints stop;
            cutIndex = back_up (\<lambda>i. is_compaction (es ! i) \<or> sessionEntryToContextMessages (es ! i) \<noteq> []) start cutIndex
        in cut_result (\<lambda>i. isTurnStartEntry (es ! i)) start cutIndex)"

subsection \<open>Over projected entries\<close>

abbreviation source_compaction :: "projected_entry \<Rightarrow> bool" where
  "source_compaction e \<equiv> is_compaction (pe_source e)"

definition isProjectedTurnStart :: "projected_entry \<Rightarrow> bool" where
  "isProjectedTurnStart e \<longleftrightarrow> \<not> source_compaction e \<and> list_ex isTurnStartMessage (pe_messages e)"

definition findProjectedTurnStartIndex :: "projected_entry list \<Rightarrow> nat \<Rightarrow> nat \<Rightarrow> nat option" where
  "findProjectedTurnStartIndex es entryIndex start = turn_start_before (\<lambda>i. isProjectedTurnStart (es ! i)) start entryIndex"

definition projected_cut_points :: "projected_entry list \<Rightarrow> nat \<Rightarrow> nat \<Rightarrow> nat list" where
  "projected_cut_points es start end' =
     filter (\<lambda>i. \<not> source_compaction (es ! i) \<and> list_ex isCutPointMessage (pe_messages (es ! i))) [start..<end']"

definition isIntrinsicallyVisible :: "projected_entry \<Rightarrow> bool" where
  "isIntrinsicallyVisible e \<longleftrightarrow>
     \<not> is_context_edit (pe_source e) \<and> sessionEntryToContextMessages (pe_source e) \<noteq> []"

definition isOmitted :: "projected_entry \<Rightarrow> bool" where
  "isOmitted e \<longleftrightarrow> isIntrinsicallyVisible e \<and> pe_messages e = []"

definition is_assistant_entry :: "session_entry \<Rightarrow> bool" where
  "is_assistant_entry e = (case se_data e of MessageE m \<Rightarrow> is_assistant m | _ \<Rightarrow> False)"

definition hasExternalReplacement :: "projected_entry list \<Rightarrow> bool" where
  "hasExternalReplacement tail =
     (let omittedSuffixIds = map (\<lambda>e. se_id (pe_source e)) (filter isOmitted tail)
      in list_ex (\<lambda>e. case se_data (pe_source e) of
                        ContextEditE target (Some _) \<Rightarrow> target \<notin> set omittedSuffixIds
                      | _ \<Rightarrow> False) tail)"

definition isRecoveryOmissionSuffix :: "bool \<Rightarrow> projected_entry list \<Rightarrow> bool" where
  "isRecoveryOmissionSuffix exceededBudget tail \<longleftrightarrow>
     exceededBudget \<and> \<not> hasExternalReplacement tail \<and>
     list_ex (\<lambda>e. is_assistant_entry (pe_source e) \<and> isOmitted e) tail \<and>
     list_all (\<lambda>e. \<not> source_compaction e \<and> (\<not> isIntrinsicallyVisible e \<or> isOmitted e)) tail"

definition findProjectedCutPoint :: "projected_entry list \<Rightarrow> nat \<Rightarrow> nat \<Rightarrow> nat \<Rightarrow> cut_point_result" where
  "findProjectedCutPoint es start end' keep =
     (let cutPoints = projected_cut_points es start end' in
      if cutPoints = [] then \<lparr>cr_firstKeptEntryIndex = start, cr_turnStartIndex = None, cr_isSplitTurn = False\<rparr>
      else
        let stop = budget_walk (\<lambda>i. tokens_of (pe_messages (es ! i))) start keep end' 0;
            cutIndex = budget_cut cutPoints stop;
            tail = drop (Suc cutIndex) (take end' es);
            cutIndex = (if isRecoveryOmissionSuffix (stop \<noteq> None) tail then Suc cutIndex else cutIndex);
            cutIndex = back_up (\<lambda>i. source_compaction (es ! i) \<or> pe_messages (es ! i) \<noteq> []) start cutIndex
        in cut_result (\<lambda>i. isProjectedTurnStart (es ! i)) start cutIndex)"

section \<open>Preparation\<close>

text \<open>\<open>details.readFiles\<close> and \<open>details.modifiedFiles\<close> of an earlier compaction, arrays of strings.\<close>

definition detail_files :: "string \<Rightarrow> json option \<Rightarrow> jstr list" where
  "detail_files key details =
     (case details of
        Some (JObj kvs) \<Rightarrow>
          (case map_of kvs (js key) of
             Some (JArr vs) \<Rightarrow> List.map_filter (\<lambda>v. case v of JStr s \<Rightarrow> Some s | _ \<Rightarrow> None) vs
           | _ \<Rightarrow> [])
      | _ \<Rightarrow> [])"

definition extractFileOperations ::
    "agent_message list \<Rightarrow> session_entry list \<Rightarrow> nat option \<Rightarrow> file_operations" where
  "extractFileOperations ms es prevCompactionIndex =
     (let ops = (case prevCompactionIndex of
            None \<Rightarrow> createFileOps
          | Some i \<Rightarrow>
              (case se_data (es ! i) of
                 CompactionE c \<Rightarrow>
                   if cp_fromHook c then createFileOps
                   else createFileOps\<lparr>fo_read := fold set_add (detail_files ''readFiles'' (cp_details c)) [],
                                      fo_edited := fold set_add (detail_files ''modifiedFiles'' (cp_details c)) []\<rparr>
               | _ \<Rightarrow> createFileOps))
      in fold extractFileOpsFromMessage ms ops)"

definition getMessagesFromProjectedEntryForCompaction :: "projected_entry \<Rightarrow> agent_message list" where
  "getMessagesFromProjectedEntryForCompaction e =
     (if source_compaction e then [] else filter (\<lambda>m. \<not> is_system m) (pe_messages e))"

record compaction_preparation =
  pr_firstKeptEntryId :: jstr
  pr_messagesToSummarize :: "agent_message list"
  pr_turnPrefixMessages :: "agent_message list"
  pr_isSplitTurn :: bool
  pr_tokensBefore :: int
  pr_previousSummary :: "jstr option"
  pr_fileOps :: file_operations
  pr_settings :: compaction_settings

abbreviation compaction_messages :: "projected_entry list \<Rightarrow> agent_message list" where
  "compaction_messages es \<equiv> concat (map getMessagesFromProjectedEntryForCompaction es)"

text \<open>The part of \<open>prepareCompaction\<close> that follows the projection.\<close>

definition prepare_projection ::
    "session_projection \<Rightarrow> session_entry list \<Rightarrow> compaction_settings \<Rightarrow> compaction_preparation option" where
  "prepare_projection projection pathEntries settings =
     (let projected = sp_entries projection;
          sources = map pe_source projected;
          prevCompactionIndex = find_index (\<lambda>e. source_compaction e \<and> pe_messages e \<noteq> []) projected;
          previousSummary = (case prevCompactionIndex of
             None \<Rightarrow> None
           | Some i \<Rightarrow> (case se_data (sources ! i) of CompactionE c \<Rightarrow> Some (cp_summary c) | _ \<Rightarrow> None));
          boundaryStart = (case prevCompactionIndex of None \<Rightarrow> 0 | Some i \<Rightarrow> Suc i);
          boundaryEnd = length projected;
          tokensBefore = ce_tokens (estimateProjectedContextTokens projection pathEntries);
          cut = findProjectedCutPoint projected boundaryStart boundaryEnd (cs_keepRecentTokens settings);
          firstKept = cr_firstKeptEntryIndex cut
      in if boundaryEnd \<le> firstKept then None
         else if se_id (sources ! firstKept) = [] then None
         else
           let historyEnd = (if cr_isSplitTurn cut then the (cr_turnStartIndex cut) else firstKept);
               messagesToSummarize = compaction_messages (drop boundaryStart (take historyEnd projected));
               turnPrefix = (if cr_isSplitTurn cut
                             then compaction_messages (drop (the (cr_turnStartIndex cut)) (take firstKept projected)) else []);
               fileOps = extractFileOperations messagesToSummarize sources prevCompactionIndex;
               fileOps = (if cr_isSplitTurn cut then fold extractFileOpsFromMessage turnPrefix fileOps else fileOps)
           in if messagesToSummarize = [] \<and> turnPrefix = [] then None
              else Some \<lparr>pr_firstKeptEntryId = se_id (sources ! firstKept), pr_messagesToSummarize = messagesToSummarize,
                         pr_turnPrefixMessages = turnPrefix, pr_isSplitTurn = cr_isSplitTurn cut,
                         pr_tokensBefore = tokensBefore, pr_previousSummary = previousSummary,
                         pr_fileOps = fileOps, pr_settings = settings\<rparr>)"

text \<open>The outer \<open>None\<close>: the walk over the path does not return. The inner one: nothing to compact.\<close>

definition prepareCompaction ::
    "session_entry list \<Rightarrow> compaction_settings \<Rightarrow> compaction_preparation option option" where
  "prepareCompaction pathEntries settings =
     (if pathEntries \<noteq> [] \<and> is_compaction (last pathEntries) then Some None
      else case buildSessionProjection pathEntries LeafUndefined None of
             None \<Rightarrow> None
           | Some projection \<Rightarrow> Some (prepare_projection projection pathEntries settings))"

end
