(* ===== verification/Session_Manager.thy ===== *)
theory Session_Manager
  imports Session
begin

text \<open>
  The class \<open>SessionManager\<close> (packages/coding-agent/src/core/session-manager.ts): an append-only
  tree of entries with a leaf pointer, its index and labels, and the session file. Every operation
  that changes state is a function from the state, and from what the runtime supplies (clock,
  random ids, outcome of the file write), to an error or a result, each with the state left
  behind. A session file is the list of entries its lines hold; a failing rewrite leaves a prefix
  of the lines, a failing append leaves the file as it was.
\<close>

section \<open>State\<close>

record session_manager =
  sm_sessionId :: jstr
  sm_sessionFile :: "jstr option"
  sm_sessionDir :: jstr
  sm_cwd :: jstr
  sm_persist :: bool
  sm_flushed :: bool
  sm_fileEntries :: "file_entry list"
  sm_byId :: entry_map
  sm_labelsById :: "(jstr, jstr) omap"
  sm_labelTimestampsById :: "(jstr, int) omap"
  sm_leafId :: "jstr option"
  sm_files :: "jstr \<rightharpoonup> file_entry list"

datatype io = IoOk | IoFail nat

text \<open>\<open>rt_uuid k i\<close> is the \<open>i\<close>-th value \<open>randomUUID()\<close> gives to the \<open>k\<close>-th call of \<open>generateId\<close>.\<close>

record runtime =
  rt_now :: int
  rt_iso :: jstr
  rt_uuid :: "nat \<Rightarrow> nat \<Rightarrow> jstr"
  rt_sessionUuid :: jstr
  rt_io :: io

datatype session_error =
    EntryNotFound jstr
  | NotOnActiveBranch jstr
  | NotEditable jstr
  | InvalidSessionId
  | InvalidSessionFile jstr
  | WriteFailed

type_synonym 'a outcome = "(session_error \<times> session_manager) + ('a \<times> session_manager)"

definition CURRENT_SESSION_VERSION :: nat where
  "CURRENT_SESSION_VERSION = 3"

section \<open>Identifiers\<close>

definition is_alnum :: "unit16 \<Rightarrow> bool" where
  "is_alnum c \<longleftrightarrow> (48 \<le> c \<and> c \<le> 57) \<or> (65 \<le> c \<and> c \<le> 90) \<or> (97 \<le> c \<and> c \<le> 122)"

definition assertValidSessionId :: "jstr \<Rightarrow> bool" where
  "assertValidSessionId i \<longleftrightarrow>
     i \<noteq> [] \<and> is_alnum (hd i) \<and> is_alnum (last i) \<and>
     list_all (\<lambda>c. is_alnum c \<or> c = 46 \<or> c = 95 \<or> c = 45) i"

fun try_ids :: "nat \<Rightarrow> nat \<Rightarrow> (nat \<Rightarrow> jstr) \<Rightarrow> (jstr \<Rightarrow> bool) \<Rightarrow> jstr option" where
  "try_ids i 0 uuid taken = None"
| "try_ids i (Suc k) uuid taken =
     (let candidate = take 8 (uuid i)
      in if taken candidate then try_ids (Suc i) k uuid taken else Some candidate)"

definition generateId :: "(nat \<Rightarrow> jstr) \<Rightarrow> (jstr \<Rightarrow> bool) \<Rightarrow> jstr" where
  "generateId uuid taken =
     (case try_ids 0 100 uuid taken of Some i \<Rightarrow> i | None \<Rightarrow> uuid 100)"

section \<open>Migration of old session files\<close>

definition set_entry_id :: "jstr \<Rightarrow> jstr option \<Rightarrow> session_entry \<Rightarrow> session_entry" where
  "set_entry_id i p e = e\<lparr>se_id := i, se_parentId := p\<rparr>"

text \<open>
  \<open>firstKeptEntryIndex\<close> is resolved against the file as it is at that moment: entries before the
  compaction and the compaction itself have their new ids already, later ones their old ids.
\<close>

definition resolve_first_kept :: "file_entry list \<Rightarrow> session_entry \<Rightarrow> session_entry" where
  "resolve_first_kept current e =
     (case se_data e of
        CompactionE c \<Rightarrow>
          (case cp_firstKeptEntryIndex c of
             None \<Rightarrow> e
           | Some i \<Rightarrow>
               (let c' = (if i < length current
                          then case current ! i of Header _ \<Rightarrow> c | Entry t \<Rightarrow> c\<lparr>cp_firstKeptEntryId := se_id t\<rparr>
                          else c)
                in e\<lparr>se_data := CompactionE (c'\<lparr>cp_firstKeptEntryIndex := None\<rparr>)\<rparr>))
      | _ \<Rightarrow> e)"

text \<open>
  The set of ids handed to \<open>generateId\<close> is created empty and never filled, so no candidate is ever
  rejected.
\<close>

fun migrateV1ToV2_from ::
    "(nat \<Rightarrow> nat \<Rightarrow> jstr) \<Rightarrow> nat \<Rightarrow> jstr option \<Rightarrow> file_entry list \<Rightarrow> file_entry list \<Rightarrow> file_entry list" where
  "migrateV1ToV2_from uuid k prevId done [] = done"
| "migrateV1ToV2_from uuid k prevId done (Header h # rest) =
     migrateV1ToV2_from uuid k prevId (done @ [Header (h\<lparr>sh_version := Some 2\<rparr>)]) rest"
| "migrateV1ToV2_from uuid k prevId done (Entry e # rest) =
     (let e1 = set_entry_id (generateId (uuid k) (\<lambda>_. False)) prevId e;
          e2 = resolve_first_kept (done @ Entry e1 # rest) e1
      in migrateV1ToV2_from uuid (Suc k) (Some (se_id e1)) (done @ [Entry e2]) rest)"

definition migrateV1ToV2 :: "(nat \<Rightarrow> nat \<Rightarrow> jstr) \<Rightarrow> file_entry list \<Rightarrow> file_entry list" where
  "migrateV1ToV2 uuid es = migrateV1ToV2_from uuid 0 None [] es"

fun rename_hook_role :: "agent_message \<Rightarrow> agent_message" where
  "rename_hook_role (OtherRole r m) = (if r = js ''hookMessage'' then Custom m else OtherRole r m)"
| "rename_hook_role m = m"

fun migrateV2ToV3_entry :: "file_entry \<Rightarrow> file_entry" where
  "migrateV2ToV3_entry (Header h) = Header (h\<lparr>sh_version := Some 3\<rparr>)"
| "migrateV2ToV3_entry (Entry e) =
     Entry (case se_data e of MessageE m \<Rightarrow> e\<lparr>se_data := MessageE (rename_hook_role m)\<rparr> | _ \<Rightarrow> e)"

definition migrateV2ToV3 :: "file_entry list \<Rightarrow> file_entry list" where
  "migrateV2ToV3 es = map migrateV2ToV3_entry es"

fun header_of :: "file_entry \<Rightarrow> session_header option" where
  "header_of (Header h) = Some h"
| "header_of (Entry _) = None"

definition find_header :: "file_entry list \<Rightarrow> session_header option" where
  "find_header es = (case List.map_filter header_of es of [] \<Rightarrow> None | h # _ \<Rightarrow> Some h)"

definition file_version :: "file_entry list \<Rightarrow> nat" where
  "file_version es =
     (case find_header es of None \<Rightarrow> 1 | Some h \<Rightarrow> (case sh_version h of None \<Rightarrow> 1 | Some v \<Rightarrow> v))"

definition migrateToCurrentVersion ::
    "(nat \<Rightarrow> nat \<Rightarrow> jstr) \<Rightarrow> file_entry list \<Rightarrow> bool \<times> file_entry list" where
  "migrateToCurrentVersion uuid es =
     (let version = file_version es in
      if version \<ge> CURRENT_SESSION_VERSION then (False, es)
      else let es1 = (if version < 2 then migrateV1ToV2 uuid es else es)
           in (True, if version < 3 then migrateV2ToV3 es1 else es1))"

section \<open>Index, file and append\<close>

definition getEntries :: "session_manager \<Rightarrow> session_entry list" where
  "getEntries st = entries_of (sm_fileEntries st)"

definition label_truthy :: "jstr option \<Rightarrow> bool" where
  "label_truthy l = (case l of None \<Rightarrow> False | Some t \<Rightarrow> t \<noteq> [])"

definition set_label :: "jstr \<Rightarrow> jstr option \<Rightarrow> int \<Rightarrow> session_manager \<Rightarrow> session_manager" where
  "set_label target label timestamp st =
     (if label_truthy label
      then st\<lparr>sm_labelsById := omap_set target (the label) (sm_labelsById st),
              sm_labelTimestampsById := omap_set target timestamp (sm_labelTimestampsById st)\<rparr>
      else st\<lparr>sm_labelsById := omap_delete target (sm_labelsById st),
              sm_labelTimestampsById := omap_delete target (sm_labelTimestampsById st)\<rparr>)"

definition index_entry :: "session_entry \<Rightarrow> session_manager \<Rightarrow> session_manager" where
  "index_entry e st =
     (let st1 = st\<lparr>sm_byId := omap_set (se_id e) e (sm_byId st), sm_leafId := Some (se_id e)\<rparr>
      in case se_data e of
           LabelE target label \<Rightarrow> set_label target label (se_timestamp e) st1
         | _ \<Rightarrow> st1)"

definition buildIndex :: "session_manager \<Rightarrow> session_manager" where
  "buildIndex st =
     fold index_entry (getEntries st)
       (st\<lparr>sm_byId := [], sm_labelsById := [], sm_labelTimestampsById := [], sm_leafId := None\<rparr>)"

text \<open>\<open>!this.persist || !this.sessionFile\<close>: no file to write.\<close>

definition session_file :: "session_manager \<Rightarrow> jstr option" where
  "session_file st =
     (if sm_persist st then case sm_sessionFile st of None \<Rightarrow> None | Some p \<Rightarrow> if p = [] then None else Some p
      else None)"

definition write_lines :: "io \<Rightarrow> jstr \<Rightarrow> session_manager \<Rightarrow> unit outcome" where
  "write_lines io p st =
     (case io of
        IoOk \<Rightarrow> Inr ((), st\<lparr>sm_files := (sm_files st)(p \<mapsto> sm_fileEntries st)\<rparr>)
      | IoFail n \<Rightarrow> Inl (WriteFailed, st\<lparr>sm_files := (sm_files st)(p \<mapsto> take n (sm_fileEntries st))\<rparr>))"

definition rewriteFile :: "runtime \<Rightarrow> session_manager \<Rightarrow> unit outcome" where
  "rewriteFile rt st =
     (case session_file st of None \<Rightarrow> Inr ((), st) | Some p \<Rightarrow> write_lines (rt_io rt) p st)"

text \<open>\<open>writeFileSync(path, header, { flag: "wx" })\<close>: fails when the file exists.\<close>

definition create_file :: "io \<Rightarrow> jstr \<Rightarrow> file_entry \<Rightarrow> session_manager \<Rightarrow> unit outcome" where
  "create_file io p h st =
     (if sm_files st p \<noteq> None then Inl (WriteFailed, st)
      else case io of
             IoOk \<Rightarrow> Inr ((), st\<lparr>sm_files := (sm_files st)(p \<mapsto> [h])\<rparr>)
           | IoFail _ \<Rightarrow> Inl (WriteFailed, st\<lparr>sm_files := (sm_files st)(p \<mapsto> [])\<rparr>))"

definition persist_entry :: "runtime \<Rightarrow> session_entry \<Rightarrow> session_manager \<Rightarrow> unit outcome" where
  "persist_entry rt e st =
     (case session_file st of
        None \<Rightarrow> Inr ((), st)
      | Some p \<Rightarrow>
          if \<not> sm_flushed st then
            (case write_lines (rt_io rt) p st of
               Inl err \<Rightarrow> Inl err
             | Inr (_, st') \<Rightarrow> Inr ((), st'\<lparr>sm_flushed := True\<rparr>))
          else
            (case rt_io rt of
               IoOk \<Rightarrow>
                 (let old = (case sm_files st p of None \<Rightarrow> [] | Some ls \<Rightarrow> ls)
                  in Inr ((), st\<lparr>sm_files := (sm_files st)(p \<mapsto> old @ [Entry e])\<rparr>))
             | IoFail _ \<Rightarrow> Inl (WriteFailed, st)))"

definition appendEntry :: "runtime \<Rightarrow> session_entry \<Rightarrow> session_manager \<Rightarrow> unit outcome" where
  "appendEntry rt e st =
     (let previousLeafId = sm_leafId st;
          st1 = st\<lparr>sm_fileEntries := sm_fileEntries st @ [Entry e],
                   sm_byId := omap_set (se_id e) e (sm_byId st),
                   sm_leafId := Some (se_id e)\<rparr>
      in case persist_entry rt e st1 of
           Inr r \<Rightarrow> Inr r
         | Inl (err, st2) \<Rightarrow>
             Inl (err, st2\<lparr>sm_fileEntries := butlast (sm_fileEntries st2),
                           sm_byId := omap_delete (se_id e) (sm_byId st2),
                           sm_leafId := previousLeafId\<rparr>))"

definition next_id :: "runtime \<Rightarrow> session_manager \<Rightarrow> jstr" where
  "next_id rt st = generateId (rt_uuid rt 0) (omap_has (sm_byId st))"

definition child_entry :: "runtime \<Rightarrow> entry_data \<Rightarrow> session_manager \<Rightarrow> session_entry" where
  "child_entry rt d st =
     \<lparr>se_id = next_id rt st, se_parentId = sm_leafId st, se_timestamp = rt_now rt, se_data = d\<rparr>"

text \<open>Append a child of the leaf and return its id: the common shape of the append operations.\<close>

definition append_child :: "runtime \<Rightarrow> entry_data \<Rightarrow> session_manager \<Rightarrow> jstr outcome" where
  "append_child rt d st =
     (let e = child_entry rt d st
      in case appendEntry rt e st of Inl err \<Rightarrow> Inl err | Inr (_, st') \<Rightarrow> Inr (se_id e, st'))"

section \<open>Append operations\<close>

definition appendMessage :: "runtime \<Rightarrow> agent_message \<Rightarrow> session_manager \<Rightarrow> jstr outcome" where
  "appendMessage rt m = append_child rt (MessageE m)"

definition appendThinkingLevelChange :: "runtime \<Rightarrow> jstr \<Rightarrow> session_manager \<Rightarrow> jstr outcome" where
  "appendThinkingLevelChange rt level = append_child rt (ThinkingLevelChangeE level)"

definition appendModelChange :: "runtime \<Rightarrow> jstr \<Rightarrow> jstr \<Rightarrow> session_manager \<Rightarrow> jstr outcome" where
  "appendModelChange rt provider modelId = append_child rt (ModelChangeE provider modelId)"

definition appendUsage ::
    "runtime \<Rightarrow> jstr \<Rightarrow> jstr \<Rightarrow> jstr \<Rightarrow> usage \<Rightarrow> jstr option \<Rightarrow> session_manager \<Rightarrow> jstr outcome" where
  "appendUsage rt kind provider model u note =
     append_child rt (UsageE \<lparr>ud_kind = kind, ud_provider = provider, ud_model = model, ud_usage = u,
       ud_note = (case note of None \<Rightarrow> None | Some n \<Rightarrow> if n = [] then None else Some n)\<rparr>)"

definition appendCustomEntry :: "runtime \<Rightarrow> jstr \<Rightarrow> json option \<Rightarrow> session_manager \<Rightarrow> jstr outcome" where
  "appendCustomEntry rt customType data = append_child rt (CustomE customType data)"

text \<open>\<open>name.replace(/[\r\n]+/g, " ")\<close>.\<close>

fun replace_breaks :: "bool \<Rightarrow> jstr \<Rightarrow> jstr" where
  "replace_breaks inRun [] = []"
| "replace_breaks inRun (c # cs) =
     (if c = CR \<or> c = NL then (if inRun then [] else [32]) @ replace_breaks True cs
      else c # replace_breaks False cs)"

definition appendSessionInfo :: "runtime \<Rightarrow> jstr \<Rightarrow> session_manager \<Rightarrow> jstr outcome" where
  "appendSessionInfo rt name = append_child rt (SessionInfoE (Some (trim (replace_breaks False name))))"

definition appendCustomMessageEntry ::
    "runtime \<Rightarrow> jstr \<Rightarrow> content_value \<Rightarrow> bool \<Rightarrow> json option \<Rightarrow> session_manager \<Rightarrow> jstr outcome" where
  "appendCustomMessageEntry rt customType cnt display details =
     append_child rt (CustomMessageE \<lparr>cd_customType = customType, cd_content = Some cnt,
       cd_details = details, cd_display = display\<rparr>)"

definition appendLabelChange :: "runtime \<Rightarrow> jstr \<Rightarrow> jstr option \<Rightarrow> session_manager \<Rightarrow> jstr outcome" where
  "appendLabelChange rt targetId label st =
     (if \<not> omap_has (sm_byId st) targetId then Inl (EntryNotFound targetId, st)
      else case append_child rt (LabelE targetId label) st of
             Inl err \<Rightarrow> Inl err
           | Inr (i, st') \<Rightarrow> Inr (i, set_label targetId label (rt_now rt) st'))"

section \<open>Tree traversal\<close>

definition getEntry :: "session_manager \<Rightarrow> jstr \<Rightarrow> session_entry option" where
  "getEntry st i = omap_get (sm_byId st) i"

definition getLeafEntry :: "session_manager \<Rightarrow> session_entry option" where
  "getLeafEntry st =
     (case sm_leafId st of None \<Rightarrow> None | Some i \<Rightarrow> if i = [] then None else omap_get (sm_byId st) i)"

definition getChildren :: "session_manager \<Rightarrow> jstr \<Rightarrow> session_entry list" where
  "getChildren st parentId = filter (\<lambda>e. se_parentId e = Some parentId) (omap_values (sm_byId st))"

definition getBranch :: "session_manager \<Rightarrow> jstr option \<Rightarrow> session_entry list option" where
  "getBranch st fromId =
     (let startId = (case fromId of Some i \<Rightarrow> Some i | None \<Rightarrow> sm_leafId st);
          start = (case startId of None \<Rightarrow> None | Some i \<Rightarrow> if i = [] then None else omap_get (sm_byId st) i)
      in walk_up (sm_byId st) start [])"

definition leaf_argument :: "session_manager \<Rightarrow> leaf_arg" where
  "leaf_argument st = (case sm_leafId st of None \<Rightarrow> LeafNull | Some i \<Rightarrow> LeafId i)"

definition manager_projection :: "session_manager \<Rightarrow> session_projection option" where
  "manager_projection st = buildSessionProjection (getEntries st) (leaf_argument st) (Some (sm_byId st))"

definition manager_context :: "session_manager \<Rightarrow> session_context option" where
  "manager_context st =
     map_option (\<lambda>p. \<lparr>sc_messages = sp_messages p, sc_settings = sp_settings p\<rparr>) (manager_projection st)"

definition getSessionName :: "session_manager \<Rightarrow> jstr option" where
  "getSessionName st =
     (case find_last (\<lambda>e. case e of Entry s \<Rightarrow> (\<exists>n. se_data s = SessionInfoE n) | Header _ \<Rightarrow> False) (sm_fileEntries st) of
        Some (Entry s) \<Rightarrow>
          (case se_data s of
             SessionInfoE (Some n) \<Rightarrow> if trim n = [] then None else Some (trim n)
           | _ \<Rightarrow> None)
      | _ \<Rightarrow> None)"

text \<open>Operations that walk the tree return \<open>None\<close> when the walk does not return.\<close>

definition appendCompaction ::
    "runtime \<Rightarrow> jstr \<Rightarrow> jstr option \<Rightarrow> int \<Rightarrow> json option \<Rightarrow> bool \<Rightarrow> usage option \<Rightarrow> session_manager \<Rightarrow>
     jstr outcome option" where
  "appendCompaction rt summary firstKeptEntryId tokensBefore details fromHook usg st =
     (case manager_projection st of
        None \<Rightarrow> None
      | Some p \<Rightarrow>
          (let systemMessage = getCurrentSystemMessage (agent_system_messages (sp_messages p));
               i = next_id rt st
           in Some (append_child rt (CompactionE
                \<lparr>cp_summary = summary,
                 cp_firstKeptEntryId = (case firstKeptEntryId of None \<Rightarrow> i | Some f \<Rightarrow> f),
                 cp_tokensBefore = tokensBefore, cp_details = details, cp_usage = usg, cp_fromHook = fromHook,
                 cp_systemMessage = map_option (\<lambda>m. m\<lparr>sy_timestamp := rt_now rt\<rparr>) systemMessage,
                 cp_firstKeptEntryIndex = None\<rparr>) st)))"

definition editable :: "session_entry \<Rightarrow> bool" where
  "editable e =
     (case se_data e of
        CustomMessageE _ \<Rightarrow> True
      | MessageE (User _) \<Rightarrow> True
      | MessageE (Assistant _) \<Rightarrow> True
      | MessageE (ToolResult _) \<Rightarrow> True
      | _ \<Rightarrow> False)"

definition normalized_replacement :: "session_entry \<Rightarrow> content_value option \<Rightarrow> content_value option" where
  "normalized_replacement target r =
     (case se_data target of
        MessageE (Assistant _) \<Rightarrow> map_option (\<lambda>c. CBlocks (replaced_blocks c)) r
      | MessageE (ToolResult _) \<Rightarrow> map_option (\<lambda>c. CBlocks (replaced_blocks c)) r
      | _ \<Rightarrow> r)"

definition appendContextEdit ::
    "runtime \<Rightarrow> jstr \<Rightarrow> content_value option \<Rightarrow> session_manager \<Rightarrow> jstr outcome option" where
  "appendContextEdit rt targetId replacement st =
     (case omap_get (sm_byId st) targetId of
        None \<Rightarrow> Some (Inl (EntryNotFound targetId, st))
      | Some target \<Rightarrow>
          (case getBranch st None of
             None \<Rightarrow> None
           | Some b \<Rightarrow> Some
               (if \<not> list_ex (\<lambda>e. se_id e = targetId) b then Inl (NotOnActiveBranch targetId, st)
                else if \<not> editable target then Inl (NotEditable targetId, st)
                else append_child rt (ContextEditE targetId (normalized_replacement target replacement)) st)))"

section \<open>Branching\<close>

definition branch :: "jstr \<Rightarrow> session_manager \<Rightarrow> unit outcome" where
  "branch branchFromId st =
     (if \<not> omap_has (sm_byId st) branchFromId then Inl (EntryNotFound branchFromId, st)
      else Inr ((), st\<lparr>sm_leafId := Some branchFromId\<rparr>))"

definition resetLeaf :: "session_manager \<Rightarrow> session_manager" where
  "resetLeaf st = st\<lparr>sm_leafId := None\<rparr>"

definition branchWithSummary ::
    "runtime \<Rightarrow> jstr option \<Rightarrow> jstr \<Rightarrow> json option \<Rightarrow> bool \<Rightarrow> usage option \<Rightarrow> session_manager \<Rightarrow> jstr outcome" where
  "branchWithSummary rt branchFromId summary details fromHook usg st =
     (case branchFromId of
        Some b \<Rightarrow> if \<not> omap_has (sm_byId st) b then Inl (EntryNotFound b, st) else
          append_child rt (BranchSummaryE \<lparr>br_fromId = (case sm_leafId st of None \<Rightarrow> js ''root'' | Some l \<Rightarrow> l),
            br_summary = summary, br_details = details, br_usage = usg, br_fromHook = fromHook\<rparr>)
            (st\<lparr>sm_leafId := branchFromId\<rparr>)
      | None \<Rightarrow>
          append_child rt (BranchSummaryE \<lparr>br_fromId = (case sm_leafId st of None \<Rightarrow> js ''root'' | Some l \<Rightarrow> l),
            br_summary = summary, br_details = details, br_usage = usg, br_fromHook = fromHook\<rparr>)
            (st\<lparr>sm_leafId := None\<rparr>))"


section \<open>Sessions and their files\<close>

text \<open>\<open>timestamp.replace(/[:.]/g, "-")\<close> and the path of a new session file.\<close>

definition file_timestamp :: "jstr \<Rightarrow> jstr" where
  "file_timestamp stamp = map (\<lambda>c. if c = 58 \<or> c = 46 then 45 else c) stamp"

definition new_session_path :: "runtime \<Rightarrow> session_manager \<Rightarrow> jstr \<Rightarrow> jstr" where
  "new_session_path rt st sid =
     sm_sessionDir st @ js ''/'' @ file_timestamp (rt_iso rt) @ js ''_'' @ sid @ js ''.jsonl''"

definition newSession :: "runtime \<Rightarrow> jstr option \<Rightarrow> jstr option \<Rightarrow> session_manager \<Rightarrow> jstr option outcome" where
  "newSession rt reqId parentSession st =
     (if (case reqId of None \<Rightarrow> False | Some i \<Rightarrow> \<not> assertValidSessionId i) then Inl (InvalidSessionId, st)
      else
        let sid = (case reqId of None \<Rightarrow> rt_sessionUuid rt | Some i \<Rightarrow> i);
            header = Header \<lparr>sh_version = Some CURRENT_SESSION_VERSION, sh_id = sid, sh_timestamp = rt_now rt,
                             sh_cwd = sm_cwd st, sh_parentSession = parentSession\<rparr>;
            st1 = st\<lparr>sm_sessionId := sid, sm_fileEntries := [header], sm_byId := [], sm_labelsById := [],
                     sm_labelTimestampsById := [], sm_leafId := None, sm_flushed := False\<rparr>
        in if sm_persist st then
             (let p = new_session_path rt st sid;
                  st2 = st1\<lparr>sm_sessionFile := Some p\<rparr>
              in case create_file (rt_io rt) p header st2 of
                   Inl err \<Rightarrow> Inl err
                 | Inr (_, st3) \<Rightarrow> Inr (Some p, st3))
           else Inr (sm_sessionFile st1, st1))"

definition load_entries ::
    "runtime \<Rightarrow> file_entry list \<Rightarrow> jstr option \<Rightarrow> jstr option \<Rightarrow> session_manager \<Rightarrow> unit outcome" where
  "load_entries rt es reqId parentSession st =
     (case find_header es of
        Some h \<Rightarrow>
          (let (migrated, es') = migrateToCurrentVersion (rt_uuid rt) es;
               st1 = st\<lparr>sm_fileEntries := es', sm_sessionId := sh_id h\<rparr>
           in case (if migrated then rewriteFile rt st1 else Inr ((), st1)) of
                Inl err \<Rightarrow> Inl err
              | Inr (_, st2) \<Rightarrow> Inr ((), buildIndex st2))
      | None \<Rightarrow>
          (case newSession rt reqId parentSession st of
             Inl err \<Rightarrow> Inl err
           | Inr (_, st1) \<Rightarrow> Inr ((), buildIndex (st1\<lparr>sm_fileEntries := sm_fileEntries st1 @ es\<rparr>))))"

text \<open>
  \<open>loadEntriesFromFile\<close>, on the parsed lines of the file: a file whose first entry is not a
  session header is no session.
\<close>

definition loadEntriesFromFile :: "session_manager \<Rightarrow> jstr \<Rightarrow> file_entry list" where
  "loadEntriesFromFile st p =
     (case sm_files st p of
        Some (Header h # es) \<Rightarrow> Header h # es
      | _ \<Rightarrow> [])"

definition setSessionFile :: "runtime \<Rightarrow> jstr \<Rightarrow> session_manager \<Rightarrow> unit outcome" where
  "setSessionFile rt p st0 =
     (let st = st0\<lparr>sm_sessionFile := Some p\<rparr> in
      case sm_files st p of
        Some lines \<Rightarrow>
          (let es = loadEntriesFromFile st p in
           if es = [] then
             if lines \<noteq> [] then Inl (InvalidSessionFile p, st)
             else
               (case newSession rt None None st of
                  Inl err \<Rightarrow> Inl err
                | Inr (_, st1) \<Rightarrow>
                    (case rewriteFile rt (st1\<lparr>sm_sessionFile := Some p\<rparr>) of
                       Inl err \<Rightarrow> Inl err
                     | Inr (_, st2) \<Rightarrow> Inr ((), st2\<lparr>sm_flushed := True\<rparr>)))
           else
             (case load_entries rt es None None st of
                Inl err \<Rightarrow> Inl err
              | Inr (_, st1) \<Rightarrow> Inr ((), st1\<lparr>sm_flushed := True\<rparr>)))
      | None \<Rightarrow>
          (case newSession rt None None st of
             Inl err \<Rightarrow> Inl err
           | Inr (_, st1) \<Rightarrow> Inr ((), st1\<lparr>sm_sessionFile := Some p\<rparr>)))"

subsection \<open>Extracting one path into a new session\<close>

text \<open>
  The re-chaining loop of \<open>createBranchedSession\<close>: label entries are dropped, every other entry
  becomes a child of the previous kept one, and a compaction that named a label as its first kept
  entry names the entry that follows the label.
\<close>

definition retarget :: "(jstr, jstr) omap \<Rightarrow> session_entry \<Rightarrow> entry_data" where
  "retarget replacement e =
     (case se_data e of
        CompactionE c \<Rightarrow>
          CompactionE (c\<lparr>cp_firstKeptEntryId :=
            (if cp_firstKeptEntryId c = se_id e then se_id e
             else case omap_get replacement (cp_firstKeptEntryId c) of
                    Some r \<Rightarrow> r
                  | None \<Rightarrow> cp_firstKeptEntryId c)\<rparr>)
      | d \<Rightarrow> d)"

fun rechain ::
    "jstr option \<Rightarrow> (jstr, jstr) omap \<Rightarrow> jstr list \<Rightarrow> session_entry list \<Rightarrow> session_entry list" where
  "rechain parent replacement pending [] = []"
| "rechain parent replacement pending (e # es) =
     (if is_label e then rechain parent replacement (pending @ [se_id e]) es
      else let replacement' = fold (\<lambda>l. omap_set l (se_id e)) pending replacement
           in e\<lparr>se_parentId := parent, se_data := retarget replacement' e\<rparr> #
              rechain (Some (se_id e)) replacement' [] es)"

text \<open>The labels of the path, written again as a chain of label entries after it.\<close>

fun label_entries ::
    "(nat \<Rightarrow> nat \<Rightarrow> jstr) \<Rightarrow> nat \<Rightarrow> jstr list \<Rightarrow> jstr option \<Rightarrow> (jstr \<times> jstr \<times> int) list \<Rightarrow> session_entry list" where
  "label_entries uuid k ids parent [] = []"
| "label_entries uuid k ids parent ((target, label, timestamp) # rest) =
     (let i = generateId (uuid k) (\<lambda>x. x \<in> set ids)
      in \<lparr>se_id = i, se_parentId = parent, se_timestamp = timestamp, se_data = LabelE target (Some label)\<rparr> #
         label_entries uuid (Suc k) (ids @ [i]) (Some i) rest)"

definition labels_to_write :: "session_manager \<Rightarrow> jstr list \<Rightarrow> (jstr \<times> jstr \<times> int) list" where
  "labels_to_write st ids =
     map (\<lambda>(t, l). (t, l, the (omap_get (sm_labelTimestampsById st) t)))
       (filter (\<lambda>(t, l). t \<in> set ids) (sm_labelsById st))"

definition has_assistant :: "file_entry list \<Rightarrow> bool" where
  "has_assistant es =
     list_ex (\<lambda>f. case f of Entry e \<Rightarrow> (case se_data e of MessageE m \<Rightarrow> is_assistant m | _ \<Rightarrow> False) | _ \<Rightarrow> False) es"

definition branched_entries :: "runtime \<Rightarrow> session_manager \<Rightarrow> session_entry list \<Rightarrow> session_entry list" where
  "branched_entries rt st path =
     (let kept = rechain None [] [] path;
          ids = map se_id kept;
          lastId = (if kept = [] then None else if se_id (last kept) = [] then None else Some (se_id (last kept)))
      in kept @ label_entries (rt_uuid rt) 0 ids lastId (labels_to_write st ids))"

definition branched_header :: "runtime \<Rightarrow> session_manager \<Rightarrow> file_entry" where
  "branched_header rt st =
     Header \<lparr>sh_version = Some CURRENT_SESSION_VERSION, sh_id = rt_sessionUuid rt, sh_timestamp = rt_now rt,
             sh_cwd = sm_cwd st, sh_parentSession = (if sm_persist st then sm_sessionFile st else None)\<rparr>"

definition branched_state :: "runtime \<Rightarrow> session_manager \<Rightarrow> session_entry list \<Rightarrow> session_manager" where
  "branched_state rt st path =
     buildIndex (st\<lparr>sm_fileEntries := branched_header rt st # map Entry (branched_entries rt st path),
       sm_sessionId := rt_sessionUuid rt,
       sm_sessionFile := (if sm_persist st then Some (new_session_path rt st (rt_sessionUuid rt)) else sm_sessionFile st)\<rparr>)"

definition createBranchedSession :: "runtime \<Rightarrow> jstr \<Rightarrow> session_manager \<Rightarrow> jstr option outcome option" where
  "createBranchedSession rt leafId st =
     (case getBranch st (Some leafId) of
        None \<Rightarrow> None
      | Some path \<Rightarrow> Some
          (if path = [] then Inl (EntryNotFound leafId, st)
           else
             let newFile = new_session_path rt st (rt_sessionUuid rt);
                 st1 = branched_state rt st path
             in if sm_persist st then
                  if has_assistant (sm_fileEntries st1) then
                    (case rewriteFile rt st1 of
                       Inl err \<Rightarrow> Inl err
                     | Inr (_, st2) \<Rightarrow> Inr (Some newFile, st2\<lparr>sm_flushed := True\<rparr>))
                  else
                    (case create_file (rt_io rt) newFile (branched_header rt st) st1 of
                       Inl err \<Rightarrow> Inl err
                     | Inr (_, st2) \<Rightarrow> Inr (Some newFile, st2\<lparr>sm_flushed := False\<rparr>))
                else Inr (None, st1)))"


section \<open>Invariant\<close>

text \<open>The state left behind by an operation, whether it threw or returned.\<close>

definition final :: "'a outcome \<Rightarrow> session_manager" where
  "final r = (case r of Inl (_, st) \<Rightarrow> st | Inr (_, st) \<Rightarrow> st)"

type_synonym label_maps = "(jstr, jstr) omap \<times> (jstr, int) omap"

definition label_update :: "jstr \<Rightarrow> jstr option \<Rightarrow> int \<Rightarrow> label_maps \<Rightarrow> label_maps" where
  "label_update target label timestamp m =
     (if label_truthy label then (omap_set target (the label) (fst m), omap_set target timestamp (snd m))
      else (omap_delete target (fst m), omap_delete target (snd m)))"

definition label_step :: "session_entry \<Rightarrow> label_maps \<Rightarrow> label_maps" where
  "label_step e m =
     (case se_data e of LabelE target label \<Rightarrow> label_update target label (se_timestamp e) m | _ \<Rightarrow> m)"

definition labels_of :: "session_entry list \<Rightarrow> label_maps" where
  "labels_of es = fold label_step es ([], [])"

text \<open>
  The file begins with the header, the entries form a well-formed history, the index and the label
  maps are those of the entries, the leaf is an entry, and a flushed session's file holds exactly
  the entries in memory.
\<close>

definition sm_inv :: "session_manager \<Rightarrow> bool" where
  "sm_inv st \<longleftrightarrow>
     (\<exists>h. sm_fileEntries st = Header h # map Entry (getEntries st)) \<and>
     wf_entries (getEntries st) \<and>
     sm_byId st = entry_index (getEntries st) \<and>
     (sm_labelsById st, sm_labelTimestampsById st) = labels_of (getEntries st) \<and>
     (case sm_leafId st of None \<Rightarrow> True | Some l \<Rightarrow> l \<in> set (map se_id (getEntries st))) \<and>
     (sm_flushed st \<longrightarrow> (case session_file st of None \<Rightarrow> True | Some p \<Rightarrow> sm_files st p = Some (sm_fileEntries st)))"

text \<open>\<open>randomUUID()\<close> returns 36-unit strings, and its 101st value is not an id in use.\<close>

definition uuid_ok :: "runtime \<Rightarrow> session_manager \<Rightarrow> bool" where
  "uuid_ok rt st \<longleftrightarrow> (\<forall>k i. length (rt_uuid rt k i) = 36) \<and> \<not> omap_has (sm_byId st) (rt_uuid rt 0 100)"

lemma try_ids_Some: "try_ids i k uuid taken = Some x \<Longrightarrow> \<not> taken x \<and> (\<exists>j. x = take 8 (uuid j))"
  by (induction i k uuid taken rule: try_ids.induct) (auto simp: Let_def split: if_splits)

lemma generateId_fresh:
  assumes "\<And>i. length (uuid i) = 36" and "\<not> taken (uuid 100)"
  shows "\<not> taken (generateId uuid taken)" and "generateId uuid taken \<noteq> []"
proof -
  have ne: "take 8 (uuid j) \<noteq> []" "uuid j \<noteq> []" for j
    using assms(1) [of j] by auto
  show "\<not> taken (generateId uuid taken)" and "generateId uuid taken \<noteq> []"
    using assms(2) try_ids_Some [of 0 100 uuid taken] ne
    by (auto simp: generateId_def split: option.splits)
qed

lemma next_id_fresh:
  assumes "uuid_ok rt st" and "sm_byId st = entry_index (getEntries st)"
  shows "next_id rt st \<notin> set (map se_id (getEntries st))" and "next_id rt st \<noteq> []"
proof -
  have "\<not> omap_has (sm_byId st) (next_id rt st)" and "next_id rt st \<noteq> []"
    using generateId_fresh [of "rt_uuid rt 0" "omap_has (sm_byId st)"] assms(1)
    by (auto simp: next_id_def uuid_ok_def)
  then show "next_id rt st \<notin> set (map se_id (getEntries st))" and "next_id rt st \<noteq> []"
    using assms(2) by (simp_all add: omap_has_def entry_index_def comp_def)
qed

lemma entries_of_simps [simp]:
  "entries_of [] = []"
  "entries_of (Header h # fs) = entries_of fs"
  "entries_of (Entry e # fs) = e # entries_of fs"
  "entries_of (fs @ gs) = entries_of fs @ entries_of gs"
  by (simp_all add: entries_of_def map_filter_def)

lemma entries_of_map [simp]: "entries_of (map Entry es) = es"
  by (induction es) auto

text \<open>Writing the file touches only the file and the flushed flag.\<close>

lemma persist_entry_Inr:
  "persist_entry rt e st = Inr (u, st') \<Longrightarrow> st' = st\<lparr>sm_files := sm_files st', sm_flushed := sm_flushed st'\<rparr>"
  by (cases st) (auto simp: persist_entry_def write_lines_def Let_def split: option.splits if_splits io.splits sum.splits)

lemma persist_entry_Inl:
  "persist_entry rt e st = Inl (err, st') \<Longrightarrow> err = WriteFailed \<and> st' = st\<lparr>sm_files := sm_files st'\<rparr>"
  by (cases st) (auto simp: persist_entry_def write_lines_def Let_def split: option.splits if_splits io.splits sum.splits)

lemma persist_entry_file:
  assumes "persist_entry rt e st = Inr (u, st')" and "session_file st = Some p"
    and "sm_flushed st \<Longrightarrow> sm_files st p = Some old \<and> sm_fileEntries st = old @ [Entry e]"
  shows "sm_flushed st' \<and> sm_files st' p = Some (sm_fileEntries st)"
  using assms
  by (auto simp: persist_entry_def write_lines_def Let_def split: option.splits if_splits io.splits sum.splits)

lemma persist_entry_Inl_flushed:
  "persist_entry rt e st = Inl (err, st') \<Longrightarrow> sm_flushed st \<Longrightarrow> sm_files st' = sm_files st"
  by (auto simp: persist_entry_def write_lines_def Let_def split: option.splits if_splits io.splits sum.splits)

lemma appendEntry_Inr:
  assumes "appendEntry rt e st = Inr (u, st')"
  shows "st' = st\<lparr>sm_fileEntries := sm_fileEntries st @ [Entry e], sm_byId := omap_set (se_id e) e (sm_byId st),
     sm_leafId := Some (se_id e), sm_files := sm_files st', sm_flushed := sm_flushed st'\<rparr>"
  using assms by (auto simp: appendEntry_def Let_def split: sum.splits dest: persist_entry_Inr)

lemma omap_delete_set_fresh: "k \<notin> set (map fst m) \<Longrightarrow> omap_delete k (omap_set k v m) = m"
  by (auto simp: omap_set_new omap_delete_def image_iff intro!: filter_True)

text \<open>A failed write leaves memory as it was before the append.\<close>

lemma appendEntry_Inl:
  assumes "appendEntry rt e st = Inl (err, st')" and "se_id e \<notin> set (map fst (sm_byId st))"
  shows "err = WriteFailed \<and> st' = st\<lparr>sm_files := sm_files st'\<rparr> \<and> (sm_flushed st \<longrightarrow> sm_files st' = sm_files st)"
proof -
  let ?st1 = "st\<lparr>sm_fileEntries := sm_fileEntries st @ [Entry e], sm_byId := omap_set (se_id e) e (sm_byId st),
     sm_leafId := Some (se_id e)\<rparr>"
  from assms(1) obtain st2 where p: "persist_entry rt e ?st1 = Inl (err, st2)"
    and st': "st' = st2\<lparr>sm_fileEntries := butlast (sm_fileEntries st2),
       sm_byId := omap_delete (se_id e) (sm_byId st2), sm_leafId := sm_leafId st\<rparr>"
    by (auto simp: appendEntry_def Let_def split: sum.splits)
  from persist_entry_Inl [OF p] have err: "err = WriteFailed" and st2: "st2 = ?st1\<lparr>sm_files := sm_files st2\<rparr>"
    by auto
  have "st' = st\<lparr>sm_files := sm_files st2\<rparr>"
    unfolding st' by (subst (1 2 3) st2) (simp add: omap_delete_set_fresh [OF assms(2)])
  moreover have "sm_flushed st \<longrightarrow> sm_files st2 = sm_files st"
    using persist_entry_Inl_flushed [OF p] by simp
  ultimately show ?thesis using err by simp
qed

lemma append_child_Inr:
  assumes "append_child rt d st = Inr (i, st')"
  shows "i = next_id rt st \<and>
     st' = st\<lparr>sm_fileEntries := sm_fileEntries st @ [Entry (child_entry rt d st)],
       sm_byId := omap_set i (child_entry rt d st) (sm_byId st),
       sm_leafId := Some i, sm_files := sm_files st', sm_flushed := sm_flushed st'\<rparr>"
  using assms appendEntry_Inr [of rt "child_entry rt d st" st]
  by (auto simp: append_child_def Let_def child_entry_def split: sum.splits)

lemma append_child_Inl:
  assumes "append_child rt d st = Inl (err, st')" and "sm_inv st" and "uuid_ok rt st"
  shows "err = WriteFailed \<and> st' = st\<lparr>sm_files := sm_files st'\<rparr> \<and> (sm_flushed st \<longrightarrow> sm_files st' = sm_files st)"
proof -
  have idx: "sm_byId st = entry_index (getEntries st)" using assms(2) by (simp add: sm_inv_def)
  have "next_id rt st \<notin> set (map fst (sm_byId st))"
    using next_id_fresh(1) [OF assms(3) idx] by (simp add: idx entry_index_def comp_def)
  then show ?thesis
    using assms(1) appendEntry_Inl [of rt "child_entry rt d st" st err st']
    by (auto simp: append_child_def Let_def child_entry_def split: sum.splits)
qed


subsection \<open>Preservation by the append operations\<close>

lemma labels_of_snoc: "labels_of (es @ [e]) = label_step e (labels_of es)"
  by (simp add: labels_of_def)

lemma getEntries_update [simp]:
  "getEntries (st\<lparr>sm_byId := a\<rparr>) = getEntries st" "getEntries (st\<lparr>sm_leafId := l\<rparr>) = getEntries st"
  "getEntries (st\<lparr>sm_files := f\<rparr>) = getEntries st" "getEntries (st\<lparr>sm_flushed := b\<rparr>) = getEntries st"
  "getEntries (st\<lparr>sm_labelsById := x\<rparr>) = getEntries st"
  "getEntries (st\<lparr>sm_labelTimestampsById := y\<rparr>) = getEntries st"
  "getEntries (st\<lparr>sm_sessionFile := p\<rparr>) = getEntries st"
  "getEntries (st\<lparr>sm_fileEntries := fs\<rparr>) = entries_of fs"
  by (simp_all add: getEntries_def)

lemma session_file_update [simp]:
  "session_file (st\<lparr>sm_byId := a\<rparr>) = session_file st" "session_file (st\<lparr>sm_leafId := l\<rparr>) = session_file st"
  "session_file (st\<lparr>sm_files := f\<rparr>) = session_file st" "session_file (st\<lparr>sm_flushed := b\<rparr>) = session_file st"
  "session_file (st\<lparr>sm_labelsById := x\<rparr>) = session_file st"
  "session_file (st\<lparr>sm_labelTimestampsById := y\<rparr>) = session_file st"
  "session_file (st\<lparr>sm_fileEntries := fs\<rparr>) = session_file st"
  by (simp_all add: session_file_def)

lemma sm_invD:
  assumes "sm_inv st"
  shows "wf_entries (getEntries st)" and "sm_byId st = entry_index (getEntries st)"
    and "(sm_labelsById st, sm_labelTimestampsById st) = labels_of (getEntries st)"
    and "sm_leafId st = Some l \<Longrightarrow> l \<in> set (map se_id (getEntries st))"
    and "sm_flushed st \<Longrightarrow> session_file st = Some p \<Longrightarrow> sm_files st p = Some (sm_fileEntries st)"
    and "\<exists>h. sm_fileEntries st = Header h # map Entry (getEntries st)"
  using assms by (auto simp: sm_inv_def split: option.splits)

lemma omap_set_index:
  "se_id e \<notin> set (map se_id es) \<Longrightarrow> omap_set (se_id e) e (entry_index es) = entry_index (es @ [e])"
  by (subst omap_set_new) (auto simp: entry_index_def)

lemma child_entry_wf:
  assumes "sm_inv st" and "uuid_ok rt st"
  shows "wf_entries (getEntries st @ [child_entry rt d st])"
  using sm_invD(1,2,4) [OF assms(1)] next_id_fresh [OF assms(2)]
  by (auto simp: wf_entries_snoc child_entry_def split: option.splits)

lemma append_child_success:
  assumes "append_child rt d st = Inr (i, st')" and "sm_inv st" and "uuid_ok rt st"
  shows "getEntries st' = getEntries st @ [child_entry rt d st]"
    and "sm_fileEntries st' = sm_fileEntries st @ [Entry (child_entry rt d st)]"
    and "sm_byId st' = entry_index (getEntries st')" and "sm_leafId st' = Some i"
    and "sm_labelsById st' = sm_labelsById st" and "sm_labelTimestampsById st' = sm_labelTimestampsById st"
    and "session_file st' = session_file st" and "se_id (child_entry rt d st) = i"
proof -
  note st' = append_child_Inr [OF assms(1), THEN conjunct2] append_child_Inr [OF assms(1), THEN conjunct1]
  have idx: "sm_byId st = entry_index (getEntries st)" by (rule sm_invD(2) [OF assms(2)])
  show i: "se_id (child_entry rt d st) = i" using st'(2) by (simp add: child_entry_def)
  show e: "getEntries st' = getEntries st @ [child_entry rt d st]"
    by (subst st'(1)) (simp add: getEntries_def)
  show "sm_fileEntries st' = sm_fileEntries st @ [Entry (child_entry rt d st)]" by (subst st'(1)) simp
  have "se_id (child_entry rt d st) \<notin> set (map se_id (getEntries st))"
    using next_id_fresh(1) [OF assms(3) idx] by (simp add: child_entry_def)
  from omap_set_index [OF this] show "sm_byId st' = entry_index (getEntries st')"
    unfolding e by (subst st'(1)) (simp add: idx i)
  show "sm_leafId st' = Some i" "sm_labelsById st' = sm_labelsById st"
    "sm_labelTimestampsById st' = sm_labelTimestampsById st" "session_file st' = session_file st"
    by (subst st'(1), simp)+
qed

text \<open>A successful append with a session file leaves exactly the entries in memory in the file.\<close>

lemma append_child_durable:
  assumes "append_child rt d st = Inr (i, st')" and "sm_inv st" and "uuid_ok rt st"
    and "session_file st = Some p"
  shows "sm_flushed st' \<and> sm_files st' p = Some (sm_fileEntries st')"
proof -
  let ?e = "child_entry rt d st"
  let ?st1 = "st\<lparr>sm_fileEntries := sm_fileEntries st @ [Entry ?e], sm_byId := omap_set (se_id ?e) ?e (sm_byId st),
     sm_leafId := Some (se_id ?e)\<rparr>"
  have "persist_entry rt ?e ?st1 = Inr ((), st')"
    using assms(1) by (auto simp: append_child_def appendEntry_def Let_def split: sum.splits)
  moreover have "session_file ?st1 = Some p" using assms(4) by simp
  ultimately have "sm_flushed st' \<and> sm_files st' p = Some (sm_fileEntries ?st1)"
    using sm_invD(5) [OF assms(2) _ assms(4)] by (intro persist_entry_file) auto
  then show ?thesis using append_child_success(2) [OF assms(1-3)] by simp
qed

lemma sm_inv_files:
  assumes "sm_inv st" and "\<not> sm_flushed st \<or> sm_files st' = sm_files st" and "st' = st\<lparr>sm_files := sm_files st'\<rparr>"
  shows "sm_inv st'"
proof -
  have "sm_inv (st\<lparr>sm_files := f\<rparr>)" if "\<not> sm_flushed st \<or> f = sm_files st" for f
    using assms(1) that by (auto simp: sm_inv_def split: option.splits)
  then show ?thesis using assms(2,3) by metis
qed

lemma append_child_fail_inv:
  assumes "append_child rt d st = Inl (err, st')" and "sm_inv st" and "uuid_ok rt st"
  shows "sm_inv st'"
  using append_child_Inl [OF assms] sm_inv_files [OF assms(2), of st'] by auto

lemma append_child_inv_labels:
  assumes "append_child rt d st = Inr (i, st')" and "sm_inv st" and "uuid_ok rt st"
    and "(ls, ts) = label_step (child_entry rt d st) (labels_of (getEntries st))"
  shows "sm_inv (st'\<lparr>sm_labelsById := ls, sm_labelTimestampsById := ts\<rparr>)"
proof -
  note s = append_child_success [OF assms(1-3)]
  obtain h where "sm_fileEntries st = Header h # map Entry (getEntries st)"
    using sm_invD(6) [OF assms(2)] by blast
  moreover have "wf_entries (getEntries st')" unfolding s(1) by (rule child_entry_wf [OF assms(2,3)])
  ultimately show ?thesis
    using append_child_durable [OF assms(1-3)] s assms(4) sm_invD(3) [OF assms(2)]
    by (auto simp: sm_inv_def labels_of_snoc split: option.splits)
qed

lemma append_child_inv:
  assumes "sm_inv st" and "uuid_ok rt st" and "\<And>t l. d \<noteq> LabelE t l"
  shows "sm_inv (final (append_child rt d st))"
proof (cases "append_child rt d st")
  case (Inl p)
  then show ?thesis using append_child_fail_inv [OF _ assms(1,2)] by (cases p) (simp add: final_def)
next
  case (Inr p)
  then obtain i st' where a: "append_child rt d st = Inr (i, st')" by (cases p) auto
  have "label_step (child_entry rt d st) m = m" for m
    using assms(3) by (auto simp: label_step_def child_entry_def split: entry_data.splits)
  then have "sm_inv (st'\<lparr>sm_labelsById := sm_labelsById st, sm_labelTimestampsById := sm_labelTimestampsById st\<rparr>)"
    using append_child_inv_labels [OF a assms(1,2)] sm_invD(3) [OF assms(1)] by simp
  moreover have "st'\<lparr>sm_labelsById := sm_labelsById st, sm_labelTimestampsById := sm_labelTimestampsById st\<rparr> = st'"
    using append_child_success(5,6) [OF a assms(1,2)] by (cases st') simp
  ultimately show ?thesis by (simp add: final_def a)
qed

lemma set_label_eq:
  "set_label target label timestamp st =
     st\<lparr>sm_labelsById := fst (label_update target label timestamp (sm_labelsById st, sm_labelTimestampsById st)),
        sm_labelTimestampsById := snd (label_update target label timestamp (sm_labelsById st, sm_labelTimestampsById st))\<rparr>"
  by (simp add: set_label_def label_update_def)

lemma appendLabelChange_inv:
  assumes "sm_inv st" and "uuid_ok rt st"
  shows "sm_inv (final (appendLabelChange rt target label st))"
proof (cases "omap_has (sm_byId st) target")
  case False
  with assms show ?thesis by (simp add: appendLabelChange_def final_def)
next
  case True
  show ?thesis
  proof (cases "append_child rt (LabelE target label) st")
    case (Inl p)
    with True show ?thesis
      using append_child_fail_inv [OF _ assms] by (cases p) (simp add: appendLabelChange_def final_def)
  next
    case (Inr p)
    then obtain i st' where a: "append_child rt (LabelE target label) st = Inr (i, st')" by (cases p) auto
    note s = append_child_success [OF a assms]
    have "label_update target label (rt_now rt) (sm_labelsById st', sm_labelTimestampsById st') =
        label_step (child_entry rt (LabelE target label) st) (labels_of (getEntries st))"
      using s(5,6) sm_invD(3) [OF assms(1)] by (simp add: label_step_def child_entry_def)
    then have "sm_inv (set_label target label (rt_now rt) st')"
      unfolding set_label_eq by (intro append_child_inv_labels [OF a assms]) simp
    with True a show ?thesis by (simp add: appendLabelChange_def final_def)
  qed
qed

end
