(* ===== verification/Session_History.thy ===== *)
theory Session_History
  imports Session_Manager
begin

text \<open>
  Histories of a session manager (packages/coding-agent/src/core/session-manager.ts): the step
  relation whose steps are the operations on one open session, the invariant of every reachable
  state, the append-only law for entries and ancestor paths, the effect of an append on the active
  branch, and what is read back when the session file is opened again.
\<close>

section \<open>Step relation\<close>

inductive sm_step :: "session_manager \<Rightarrow> session_manager \<Rightarrow> bool" where
  message: "uuid_ok rt st \<Longrightarrow> sm_step st (final (appendMessage rt m st))"
| thinking: "uuid_ok rt st \<Longrightarrow> sm_step st (final (appendThinkingLevelChange rt l st))"
| model: "uuid_ok rt st \<Longrightarrow> sm_step st (final (appendModelChange rt p m st))"
| usage: "uuid_ok rt st \<Longrightarrow> sm_step st (final (appendUsage rt k p m u n st))"
| custom: "uuid_ok rt st \<Longrightarrow> sm_step st (final (appendCustomEntry rt t dat st))"
| custom_message: "uuid_ok rt st \<Longrightarrow> sm_step st (final (appendCustomMessageEntry rt t c disp det st))"
| info: "uuid_ok rt st \<Longrightarrow> sm_step st (final (appendSessionInfo rt name st))"
| label: "uuid_ok rt st \<Longrightarrow> sm_step st (final (appendLabelChange rt target lab st))"
| compaction: "uuid_ok rt st \<Longrightarrow> appendCompaction rt s f t det fh usg st = Some r \<Longrightarrow> sm_step st (final r)"
| context_edit: "uuid_ok rt st \<Longrightarrow> appendContextEdit rt target rep st = Some r \<Longrightarrow> sm_step st (final r)"
| branching: "sm_step st (final (branch b st))"
| reset: "sm_step st (resetLeaf st)"
| summary: "uuid_ok rt st \<Longrightarrow> sm_step st (final (branchWithSummary rt bf s det fh usg st))"

inductive reachable :: "session_manager \<Rightarrow> bool" where
  start: "newSession rt reqId parent st0 = Inr (p, st) \<Longrightarrow> reachable st"
| step: "reachable st \<Longrightarrow> sm_step st st' \<Longrightarrow> reachable st'"

lemmas append_ops = appendMessage_def appendThinkingLevelChange_def appendModelChange_def appendUsage_def
  appendCustomEntry_def appendCustomMessageEntry_def appendSessionInfo_def

lemma sm_inv_leaf:
  assumes "sm_inv st" and "case l of None \<Rightarrow> True | Some i \<Rightarrow> omap_has (sm_byId st) i"
  shows "sm_inv (st\<lparr>sm_leafId := l\<rparr>)"
  using assms by (auto simp: sm_inv_def omap_has_def entry_index_def split: option.splits)

lemma newSession_inv:
  assumes "newSession rt reqId parent st0 = Inr (p, st)"
  shows "sm_inv st \<and> getEntries st = []"
  using assms
  by (auto simp: newSession_def create_file_def sm_inv_def getEntries_def labels_of_def entry_index_def
      Let_def split: if_splits option.splits sum.splits io.splits)

lemma uuid_ok_leaf [simp]: "uuid_ok rt (st\<lparr>sm_leafId := l\<rparr>) = uuid_ok rt st"
  by (simp add: uuid_ok_def)

text \<open>
  Every step either leaves the entries alone or appends one child: its relation to the entries,
  which the invariant and the history law share.
\<close>

definition extends :: "session_manager \<Rightarrow> session_manager \<Rightarrow> bool" where
  "extends st st' \<longleftrightarrow> sm_inv st' \<and> (\<exists>es. getEntries st' = getEntries st @ es) \<and>
     (\<exists>fs. sm_fileEntries st' = sm_fileEntries st @ fs) \<and> sm_sessionId st' = sm_sessionId st"

lemma extends_same:
  "sm_inv st' \<Longrightarrow> getEntries st' = getEntries st \<Longrightarrow> sm_fileEntries st' = sm_fileEntries st \<Longrightarrow>
     sm_sessionId st' = sm_sessionId st \<Longrightarrow> extends st st'"
  by (simp add: extends_def)

lemma append_child_sessionId: "sm_sessionId (final (append_child rt d st)) = sm_sessionId st"
proof -
  let ?e = "child_entry rt d st"
  let ?st1 = "st\<lparr>sm_fileEntries := sm_fileEntries st @ [Entry ?e], sm_byId := omap_set (se_id ?e) ?e (sm_byId st),
     sm_leafId := Some (se_id ?e)\<rparr>"
  show ?thesis
  proof (cases "persist_entry rt ?e ?st1")
    case (Inl p)
    obtain err st2 where p: "p = (err, st2)" by (cases p)
    have "sm_sessionId st2 = sm_sessionId st"
      by (subst persist_entry_Inl [OF Inl [unfolded p], THEN conjunct2]) simp
    then show ?thesis using Inl p by (simp add: append_child_def appendEntry_def final_def)
  next
    case (Inr p)
    obtain u st2 where p: "p = (u, st2)" by (cases p)
    have "sm_sessionId st2 = sm_sessionId st" by (subst persist_entry_Inr [OF Inr [unfolded p]]) simp
    then show ?thesis using Inr p by (simp add: append_child_def appendEntry_def final_def)
  qed
qed

lemma extends_append_child:
  assumes "sm_inv st" and "uuid_ok rt st" and "\<And>t l. d \<noteq> LabelE t l"
  shows "extends st (final (append_child rt d st))"
proof (cases "append_child rt d st")
  case (Inl p)
  obtain err st' where p: "p = (err, st')" by (cases p)
  have "st' = st\<lparr>sm_files := sm_files st'\<rparr>" using append_child_Inl [OF Inl [unfolded p] assms(1,2)] by simp
  then have "getEntries st' = getEntries st" "sm_fileEntries st' = sm_fileEntries st"
    by (metis getEntries_update(3), metis session_manager.select_convs(7) session_manager.surjective
        session_manager.update_convs(12))
  then show ?thesis
    using append_child_inv [OF assms] append_child_sessionId [of rt d st] by (simp add: extends_def final_def Inl p)
next
  case (Inr p)
  then show ?thesis
    using append_child_inv [OF assms] append_child_success(1,2) [OF _ assms(1,2)] append_child_sessionId [of rt d st]
    by (cases p) (auto simp: extends_def final_def)
qed

lemma extends_label:
  assumes "sm_inv st" and "uuid_ok rt st"
  shows "extends st (final (appendLabelChange rt target lab st))"
proof (cases "append_child rt (LabelE target lab) st")
  case (Inl p)
  obtain err st' where p: "p = (err, st')" by (cases p)
  have "st' = st\<lparr>sm_files := sm_files st'\<rparr>" using append_child_Inl [OF Inl [unfolded p] assms] by simp
  then have "getEntries st' = getEntries st" "sm_fileEntries st' = sm_fileEntries st"
    by (metis getEntries_update(3), metis session_manager.select_convs(7) session_manager.surjective
        session_manager.update_convs(12))
  then show ?thesis
    using appendLabelChange_inv [OF assms, of target lab] assms(1) append_child_sessionId [of rt "LabelE target lab" st]
    by (auto simp: extends_def final_def appendLabelChange_def Inl p split: if_splits)
next
  case (Inr p)
  then show ?thesis
    using appendLabelChange_inv [OF assms, of target lab] append_child_success(1,2) [OF _ assms] assms(1)
      append_child_sessionId [of rt "LabelE target lab" st]
    by (cases p) (auto simp: extends_def final_def appendLabelChange_def set_label_eq split: if_splits)
qed

lemma sm_step_extends: "sm_step st st' \<Longrightarrow> sm_inv st \<Longrightarrow> extends st st'"
proof (induction rule: sm_step.induct)
  case (label rt st target lab)
  then show ?case by (simp add: extends_label)
next
  case (compaction rt st s f t det fh usg r)
  then show ?case
    by (auto simp: appendCompaction_def Let_def split: option.splits intro!: extends_append_child)
next
  case (context_edit rt st target rep r)
  then show ?case
    by (auto simp: appendContextEdit_def final_def [of "Inl _"] extends_def [of st st]
        split: option.splits if_splits intro!: extends_append_child)
next
  case (branching st b)
  then show ?case by (auto simp: branch_def final_def intro!: extends_same sm_inv_leaf)
next
  case (reset st)
  then show ?case by (auto simp: resetLeaf_def intro!: extends_same sm_inv_leaf)
next
  case (summary rt st bf s det fh usg)
  have sub: "extends (st\<lparr>sm_leafId := l\<rparr>) st2 \<Longrightarrow> extends st st2" for l st2
    by (simp add: extends_def)
  show ?case
  proof (cases "case bf of None \<Rightarrow> True | Some i \<Rightarrow> omap_has (sm_byId st) i")
    case True
    then have "sm_inv (st\<lparr>sm_leafId := bf\<rparr>)" using sm_inv_leaf [OF summary.prems] by simp
    from extends_append_child [OF this] summary.hyps True show ?thesis
      by (auto simp: branchWithSummary_def split: option.splits intro!: sub)
  next
    case False
    with summary.prems show ?thesis
      by (auto simp: branchWithSummary_def final_def extends_def split: option.splits)
  qed
qed (simp_all add: append_ops extends_append_child)

lemma sm_steps_extends:
  assumes "sm_step\<^sup>*\<^sup>* st st'" and "sm_inv st"
  shows "extends st st'"
  using assms
proof (induction rule: rtranclp_induct)
  case base
  then show ?case by (simp add: extends_def)
next
  case (step y z)
  then have y: "extends st y" by simp
  with sm_step_extends [OF step.hyps(2)] show ?case by (auto simp: extends_def)
qed


section \<open>Paths along a history\<close>

lemma root_path_mono_list:
  assumes "root_path (entry_index es) e p" and "wf_entries (es @ xs)" and "e \<in> set es"
  shows "root_path (entry_index (es @ xs)) e p"
  using assms(2)
proof (induction xs rule: rev_induct)
  case (snoc x xs)
  then have "root_path (entry_index (es @ xs)) e p"
    using wf_entries_snoc [of "es @ xs" x] by simp
  then show ?case using root_path_mono [of "es @ xs" e p x] snoc.prems assms(3) by simp
qed (simp add: assms)

lemma getBranch_root_path:
  assumes "sm_inv st" and "root_path (entry_index (getEntries st)) e p" and "e \<in> set (getEntries st)"
  shows "getBranch st (Some (se_id e)) = Some p"
proof -
  note wf = sm_invD(1) [OF assms(1)]
  show ?thesis
    using wf_entries_ids [OF wf assms(3)] get_entry_index [OF wf_entries_distinct [OF wf] assms(3)]
      walk_up_root_path [OF assms(2), of "[]"]
    by (simp add: getBranch_def sm_invD(2) [OF assms(1)])
qed

lemma getBranch_exists:
  assumes "sm_inv st" and "e \<in> set (getEntries st)"
  obtains p where "root_path (entry_index (getEntries st)) e p" and "getBranch st (Some (se_id e)) = Some p"
  using root_path_exists [OF sm_invD(1) [OF assms(1)] assms(2)] getBranch_root_path [OF assms(1) _ assms(2)]
  by blast

lemma getBranch_None_leaf: "getBranch st None = (case sm_leafId st of None \<Rightarrow> Some [] | Some i \<Rightarrow> getBranch st (Some i))"
  by (simp add: getBranch_def walk_up.simps [of _ None] split: option.splits)

lemma getBranch_extends:
  assumes "extends st st'" and "sm_inv st" and "e \<in> set (getEntries st)"
  shows "getBranch st' (Some (se_id e)) = getBranch st (Some (se_id e))"
proof -
  obtain p where p: "root_path (entry_index (getEntries st)) e p" "getBranch st (Some (se_id e)) = Some p"
    using getBranch_exists [OF assms(2,3)] .
  from assms(1) obtain es where es: "getEntries st' = getEntries st @ es" and inv: "sm_inv st'"
    by (auto simp: extends_def)
  have "root_path (entry_index (getEntries st')) e p"
    using root_path_mono_list [OF p(1) _ assms(3)] sm_invD(1) [OF inv] unfolding es by blast
  from getBranch_root_path [OF inv this] show ?thesis using assms(3) es p(2) by simp
qed

lemma byId_entry:
  assumes "sm_inv st" and "omap_has (sm_byId st) i"
  obtains e where "e \<in> set (getEntries st)" and "se_id e = i"
  using assms by (auto simp: sm_inv_def omap_has_def entry_index_def)

lemma getBranch_leaf_exists:
  assumes "sm_inv st"
  obtains b where "getBranch st None = Some b" and "b = [] \<longleftrightarrow> sm_leafId st = None"
    and "b \<noteq> [] \<Longrightarrow> sm_leafId st = Some (se_id (last b))" and "set b \<subseteq> set (getEntries st)"
proof (cases "sm_leafId st")
  case None
  then show ?thesis using that [of "[]"] by (simp add: getBranch_None_leaf)
next
  case (Some i)
  then obtain e where e: "e \<in> set (getEntries st)" "se_id e = i"
    using sm_invD(4) [OF assms] by auto
  from getBranch_exists [OF assms e(1)] obtain p
    where p: "root_path (entry_index (getEntries st)) e p" "getBranch st (Some (se_id e)) = Some p" .
  show ?thesis
    using that [of p] root_path_props [OF p(1) sm_invD(1) [OF assms] e(1)] p(2) Some e
    by (simp add: getBranch_None_leaf)
qed

text \<open>A successful append makes the new entry the tip of the active branch.\<close>

lemma append_child_branch:
  assumes "append_child rt d st = Inr (i, st')" and "sm_inv st" and "uuid_ok rt st" and "sm_inv st'"
    and "getBranch st None = Some b"
  shows "getBranch st' None = Some (b @ [child_entry rt d st])"
proof -
  let ?c = "child_entry rt d st" and ?es = "getEntries st"
  note s = append_child_success [OF assms(1-3)]
  have wf': "wf_entries (?es @ [?c])" using sm_invD(1) [OF assms(4)] s(1) by simp
  have "root_path (entry_index (?es @ [?c])) ?c (b @ [?c])"
  proof (cases "sm_leafId st")
    case None
    then have "b = []" using assms(5) by (simp add: getBranch_None_leaf)
    then show ?thesis
      using root_path.at_root [of "entry_index (?es @ [?c])" ?c] None
      by (simp add: parent_entry_def child_entry_def)
  next
    case (Some l)
    then obtain e where e: "e \<in> set ?es" "se_id e = l" using sm_invD(4) [OF assms(2)] by auto
    from getBranch_exists [OF assms(2) e(1)] obtain p
      where p: "root_path (entry_index ?es) e p" "getBranch st (Some (se_id e)) = Some p" .
    have "parent_entry (entry_index (?es @ [?c])) ?c = Some e"
      using Some e get_entry_index [OF wf_entries_distinct [OF wf'], of e] wf_entries_ids [OF wf', of e]
      by (auto simp: parent_entry_def child_entry_def)
    then show ?thesis
      using root_path.below root_path_mono [OF p(1) wf' e(1)] p(2) assms(5) Some e
      by (auto simp: getBranch_None_leaf)
  qed
  from getBranch_root_path [OF assms(4), of ?c] this s show ?thesis
    by (simp add: getBranch_None_leaf)
qed


section \<open>Rebuilding the index\<close>

lemma index_entry_eq:
  "index_entry e st =
     st\<lparr>sm_byId := omap_set (se_id e) e (sm_byId st), sm_leafId := Some (se_id e),
        sm_labelsById := fst (label_step e (sm_labelsById st, sm_labelTimestampsById st)),
        sm_labelTimestampsById := snd (label_step e (sm_labelsById st, sm_labelTimestampsById st))\<rparr>"
  by (simp add: index_entry_def label_step_def set_label_eq split: entry_data.splits)

lemma fold_index_entry:
  "fold index_entry es st =
     st\<lparr>sm_byId := fold (\<lambda>e. omap_set (se_id e) e) es (sm_byId st),
        sm_leafId := (if es = [] then sm_leafId st else Some (se_id (last es))),
        sm_labelsById := fst (fold label_step es (sm_labelsById st, sm_labelTimestampsById st)),
        sm_labelTimestampsById := snd (fold label_step es (sm_labelsById st, sm_labelTimestampsById st))\<rparr>"
  by (induction es rule: rev_induct) (simp_all add: index_entry_eq)

lemma buildIndex_wf:
  assumes "wf_entries (getEntries st)"
  shows "buildIndex st =
     st\<lparr>sm_byId := entry_index (getEntries st),
        sm_leafId := (if getEntries st = [] then None else Some (se_id (last (getEntries st)))),
        sm_labelsById := fst (labels_of (getEntries st)),
        sm_labelTimestampsById := snd (labels_of (getEntries st))\<rparr>"
  by (simp add: buildIndex_def fold_index_entry fold_index [OF wf_entries_distinct [OF assms]] labels_of_def)

text \<open>The header of an open session: its version is current and its id is the session id.\<close>

definition header_ok :: "session_manager \<Rightarrow> bool" where
  "header_ok st =
     (case sm_fileEntries st of
        Header h # _ \<Rightarrow> sh_version h = Some CURRENT_SESSION_VERSION \<and> sh_id h = sm_sessionId st
      | _ \<Rightarrow> False)"

lemma newSession_header: "newSession rt reqId parent st0 = Inr (p, st) \<Longrightarrow> header_ok st"
  by (auto simp: newSession_def create_file_def header_ok_def Let_def
      split: if_splits option.splits sum.splits io.splits)

lemma header_ok_extends: "header_ok st \<Longrightarrow> extends st st' \<Longrightarrow> header_ok st'"
  by (auto simp: header_ok_def extends_def split: list.splits file_entry.splits)

lemma reachable_ok: "reachable st \<Longrightarrow> sm_inv st \<and> header_ok st"
proof (induction rule: reachable.induct)
  case (step st st')
  then show ?case using sm_step_extends [of st st'] header_ok_extends by (auto simp: extends_def)
qed (auto dest: newSession_inv newSession_header)

lemma setSessionFile_reload:
  assumes "sm_inv st" and "header_ok st" and "sm_files other p = Some (sm_fileEntries st)"
  shows "setSessionFile rt p other =
     Inr ((), other\<lparr>sm_sessionFile := Some p, sm_fileEntries := sm_fileEntries st, sm_sessionId := sm_sessionId st,
       sm_byId := sm_byId st,
       sm_leafId := (if getEntries st = [] then None else Some (se_id (last (getEntries st)))),
       sm_labelsById := sm_labelsById st, sm_labelTimestampsById := sm_labelTimestampsById st,
       sm_flushed := True\<rparr>)"
proof -
  obtain h where h: "sm_fileEntries st = Header h # map Entry (getEntries st)" using sm_invD(6) [OF assms(1)] by blast
  have fh: "find_header (sm_fileEntries st) = Some h" by (simp add: h find_header_def map_filter_def)
  have hv: "sh_version h = Some CURRENT_SESSION_VERSION" "sh_id h = sm_sessionId st"
    using assms(2) by (simp_all add: header_ok_def h)
  have mig: "migrateToCurrentVersion (rt_uuid rt) (sm_fileEntries st) = (False, sm_fileEntries st)"
    by (simp add: migrateToCurrentVersion_def file_version_def fh hv)
  let ?st1 = "other\<lparr>sm_sessionFile := Some p, sm_fileEntries := sm_fileEntries st, sm_sessionId := sm_sessionId st\<rparr>"
  have ge: "getEntries ?st1 = getEntries st" by (simp add: getEntries_def)
  have "loadEntriesFromFile (other\<lparr>sm_sessionFile := Some p\<rparr>) p = sm_fileEntries st"
    by (simp add: loadEntriesFromFile_def assms(3) h)
  moreover have "load_entries rt (sm_fileEntries st) None None (other\<lparr>sm_sessionFile := Some p\<rparr>) = Inr ((), buildIndex ?st1)"
    by (simp add: load_entries_def fh mig hv)
  moreover have "buildIndex ?st1 = ?st1\<lparr>sm_byId := sm_byId st,
       sm_leafId := (if getEntries st = [] then None else Some (se_id (last (getEntries st)))),
       sm_labelsById := sm_labelsById st, sm_labelTimestampsById := sm_labelTimestampsById st\<rparr>"
    using buildIndex_wf [of ?st1] sm_invD(1) [OF assms(1)] sm_invD(3) [OF assms(1), symmetric]
    by (simp only: ge sm_invD(2) [OF assms(1)] fst_conv snd_conv)
  ultimately show ?thesis
    using assms(3) h by (simp add: setSessionFile_def)
qed

section \<open>Theorems\<close>

definition demo_uuid :: "nat \<Rightarrow> jstr" where
  "demo_uuid n = replicate 36 (of_nat (65 + n))"

definition demo_rt :: "nat \<Rightarrow> io \<Rightarrow> runtime" where
  "demo_rt n w = \<lparr>rt_now = int n, rt_iso = js ''2026-01-01T00:00:00.000Z'', rt_uuid = (\<lambda>k i. demo_uuid n),
     rt_sessionUuid = js ''sid'', rt_io = w\<rparr>"

definition demo_blank :: session_manager where
  "demo_blank = \<lparr>sm_sessionId = [], sm_sessionFile = None, sm_sessionDir = js ''d'', sm_cwd = js ''c'', sm_persist = True,
     sm_flushed = False, sm_fileEntries = [], sm_byId = [], sm_labelsById = [], sm_labelTimestampsById = [],
     sm_leafId = None, sm_files = (\<lambda>_. None)\<rparr>"

definition demo_open :: session_manager where
  "demo_open = final (newSession (demo_rt 0 IoOk) (Some (js ''s'')) None demo_blank)"

definition demo_said :: session_manager where
  "demo_said = final (appendMessage (demo_rt 0 IoOk) (demo_user ''hi'') demo_open)"

lemma demo_open_eq:
  "newSession (demo_rt 0 IoOk) (Some (js ''s'')) None demo_blank =
     Inr (Some (new_session_path (demo_rt 0 IoOk) demo_blank (js ''s'')), demo_open)"
  by (simp add: demo_open_def newSession_def create_file_def demo_blank_def final_def Let_def assertValidSessionId_def
      is_alnum_def js_def demo_rt_def)

lemma demo_open_reachable: "reachable demo_open"
  using demo_open_eq by (rule reachable.start)

lemma demo_open_ids: "sm_byId demo_open = []"
  by (simp add: demo_open_def newSession_def create_file_def demo_blank_def final_def Let_def assertValidSessionId_def
      is_alnum_def js_def demo_rt_def)

lemma demo_uuid_ok: "uuid_ok (demo_rt n w) demo_open"
  by (simp add: uuid_ok_def demo_rt_def demo_uuid_def omap_has_def demo_open_ids)



text \<open>
  C2. The history is append-only: whatever sequence of operations follows, the entries already
  there keep their place at the front of the list, and the path from the root to every entry that
  was there exists and stays the same.
\<close>

theorem append_only_history:
  assumes "reachable st" and "sm_step\<^sup>*\<^sup>* st st'"
  shows "prefix (sm_fileEntries st) (sm_fileEntries st') \<and>
    list_all (\<lambda>e. getBranch st (Some (se_id e)) \<noteq> None \<and>
      getBranch st' (Some (se_id e)) = getBranch st (Some (se_id e))) (getEntries st)"
proof -
  have inv: "sm_inv st" using reachable_ok [OF assms(1)] by simp
  note ext = sm_steps_extends [OF assms(2) inv]
  have "getBranch st (Some (se_id e)) \<noteq> None" if "e \<in> set (getEntries st)" for e
    using getBranch_exists [OF inv that] by auto
  then show ?thesis
    using getBranch_extends [OF ext inv] ext by (auto simp: extends_def list_all_iff)
qed

theorem append_only_history_witness: "prefix (sm_fileEntries demo_open) (sm_fileEntries demo_said)"
proof -
  have "sm_step\<^sup>*\<^sup>* demo_open demo_said"
    unfolding demo_said_def by (intro r_into_rtranclp sm_step.message demo_uuid_ok)
  from append_only_history [OF demo_open_reachable this] show ?thesis by blast
qed





end
