(* ===== verification/Session_Branch.thy ===== *)
theory Session_Branch
  imports Session_History
begin

text \<open>
  \<open>createBranchedSession\<close> and the migration of old files
  (packages/coding-agent/src/core/session-manager.ts). The extracted session drops the label
  entries of the path, chains the remaining entries and retargets compactions; the model context
  it gives is that of the path it was extracted from. The migration of a version 1 file chains its
  entries in file order.
\<close>

section \<open>Re-chaining a path\<close>

type_synonym chain_state = "jstr option \<times> (jstr, jstr) omap \<times> jstr list"

definition chain_step :: "session_entry \<Rightarrow> chain_state \<Rightarrow> chain_state" where
  "chain_step e s =
     (case s of (parent, m, pending) \<Rightarrow>
        if is_label e then (parent, m, pending @ [se_id e])
        else (Some (se_id e), fold (\<lambda>l. omap_set l (se_id e)) pending m, []))"

definition chain_state_of :: "session_entry list \<Rightarrow> chain_state" where
  "chain_state_of xs = fold chain_step xs (None, [], [])"

abbreviation "unlabelled \<equiv> filter (\<lambda>e. \<not> is_label e)"

lemma rechain_append:
  "rechain parent m pending (xs @ ys) =
     rechain parent m pending xs @
     (case fold chain_step xs (parent, m, pending) of (parent', m', pending') \<Rightarrow> rechain parent' m' pending' ys)"
  by (induction parent m pending xs rule: rechain.induct) (auto simp: Let_def chain_step_def)

lemma map_fst_fold_set:
  "set (map fst (fold (\<lambda>l. omap_set l v) ls m)) = set ls \<union> set (map fst m)"
  by (induction ls arbitrary: m) (auto simp: keys_omap_set simp del: set_map)

lemma get_fold_set:
  "omap_get (fold (\<lambda>l. omap_set l v) ls m) k = (if k \<in> set ls then Some v else omap_get m k)"
  by (induction ls arbitrary: m) (auto simp: get_omap_set)

definition redirect :: "(jstr, jstr) omap \<Rightarrow> jstr \<Rightarrow> jstr" where
  "redirect m k = (case omap_get m k of Some r \<Rightarrow> r | None \<Rightarrow> k)"

text \<open>
  What the loop has collected after \<open>xs\<close>: the pending labels are those with no kept entry after
  them, and the replacement map names ids of \<open>xs\<close> only.
\<close>

lemma dropWhile_absent: "k \<notin> se_id ` set xs \<Longrightarrow> dropWhile (\<lambda>e. se_id e \<noteq> k) xs = []"
  by (induction xs) auto

lemma dropWhile_snoc:
  "dropWhile (\<lambda>e. se_id e \<noteq> k) (xs @ [x]) =
     (if k \<in> se_id ` set xs then dropWhile (\<lambda>e. se_id e \<noteq> k) xs @ [x] else if se_id x = k then [x] else [])"
  by (induction xs) auto

lemma chain_state_pending:
  assumes "chain_state_of xs = (p, m, pend)" and "distinct (map se_id xs)"
  shows "k \<in> set pend \<longleftrightarrow> k \<in> se_id ` set xs \<and> unlabelled (dropWhile (\<lambda>e. se_id e \<noteq> k) xs) = []"
  using assms
proof (induction xs arbitrary: p m pend rule: rev_induct)
  case (snoc x xs)
  obtain p0 m0 pend0 where s: "chain_state_of xs = (p0, m0, pend0)" by (cases "chain_state_of xs")
  have s': "chain_state_of (xs @ [x]) = chain_step x (p0, m0, pend0)" using s by (simp add: chain_state_of_def)
  have IH: "k \<in> set pend0 \<longleftrightarrow> k \<in> se_id ` set xs \<and> unlabelled (dropWhile (\<lambda>e. se_id e \<noteq> k) xs) = []"
    using snoc.IH [OF s] snoc.prems(2) by simp
  show ?case
    using snoc.prems s' IH by (auto simp: chain_step_def dropWhile_snoc split: if_splits)
qed (simp add: chain_state_of_def)

lemma chain_state_map:
  assumes "chain_state_of xs = (p, m, pend)"
  shows "fst ` set m \<subseteq> se_id ` set xs \<and> set pend \<subseteq> se_id ` set xs \<and>
    (\<forall>k v. omap_get m k = Some v \<longrightarrow> v \<in> se_id ` set xs) \<and>
    p = (if unlabelled xs = [] then None else Some (se_id (last (unlabelled xs))))"
  using assms
proof (induction xs arbitrary: p m pend rule: rev_induct)
  case (snoc x xs)
  obtain p0 m0 pend0 where s: "chain_state_of xs = (p0, m0, pend0)" by (cases "chain_state_of xs")
  have s': "chain_state_of (xs @ [x]) = chain_step x (p0, m0, pend0)" using s by (simp add: chain_state_of_def)
  note IH = snoc.IH [OF s]
  show ?case
    using snoc.prems s' IH map_fst_fold_set [of "se_id x" pend0 m0]
    by (auto simp: chain_step_def get_fold_set split: if_splits)
qed (simp add: chain_state_of_def)

text \<open>
  The kept tail is the same whether it is cut at the original id in the full path or at the
  redirected id in the path without labels.
\<close>

lemma redirect_tail:
  assumes "chain_state_of xs = (p, m, pend)" and "distinct (map se_id xs)"
    and "c \<notin> se_id ` set xs" and "k \<noteq> c"
  shows "dropWhile (\<lambda>e. se_id e \<noteq> redirect (fold (\<lambda>l. omap_set l c) pend m) k) (unlabelled xs) =
     unlabelled (dropWhile (\<lambda>e. se_id e \<noteq> k) xs)"
  using assms
proof (induction xs arbitrary: p m pend c k rule: rev_induct)
  case (snoc x xs)
  obtain p0 m0 pend0 where s: "chain_state_of xs = (p0, m0, pend0)" by (cases "chain_state_of xs")
  have s': "chain_state_of (xs @ [x]) = chain_step x (p0, m0, pend0)" using s by (simp add: chain_state_of_def)
  have d: "distinct (map se_id xs)" and fx: "se_id x \<notin> se_id ` set xs" using snoc.prems(2) by auto
  note st = chain_state_map [OF s]
  note pnd = chain_state_pending [OF s d]
  have sub: "se_id ` set (unlabelled xs) \<subseteq> se_id ` set xs" by auto
  show ?case
  proof (cases "is_label x")
    case True
    then have eq: "m = m0" "pend = pend0 @ [se_id x]" using snoc.prems(1) s' by (auto simp: chain_step_def)
    show ?thesis
    proof (cases "k = se_id x")
      case k: True
      have "redirect (fold (\<lambda>l. omap_set l c) pend m) k = c" by (simp add: redirect_def eq get_omap_set k)
      then show ?thesis
        using k True fx snoc.prems(3) sub dropWhile_absent [of c "unlabelled xs"]
        by (auto simp: dropWhile_snoc)
    next
      case k: False
      then have "redirect (fold (\<lambda>l. omap_set l c) pend m) k = redirect (fold (\<lambda>l. omap_set l c) pend0 m0) k"
        by (simp add: redirect_def eq get_fold_set get_omap_set)
      then show ?thesis
        using snoc.IH [OF s d, of c k] snoc.prems(3,4) True k by (auto simp: dropWhile_snoc dropWhile_absent)
    qed
  next
    case False
    let ?r = "redirect (fold (\<lambda>l. omap_set l (se_id x)) pend0 m0) k"
    have eq: "m = fold (\<lambda>l. omap_set l (se_id x)) pend0 m0" "pend = []"
      using False snoc.prems(1) s' by (auto simp: chain_step_def)
    show ?thesis
    proof (cases "k = se_id x")
      case k: True
      have "omap_get m0 k = None" "k \<notin> set pend0" using st k fx by (auto simp: map_of_eq_None_iff)
      then have "?r = k" by (simp add: redirect_def get_fold_set)
      then show ?thesis
        using k False fx sub by (auto simp: eq dropWhile_snoc dropWhile_absent)
    next
      case k: False
      have tail: "dropWhile (\<lambda>e. se_id e \<noteq> ?r) (unlabelled xs) = unlabelled (dropWhile (\<lambda>e. se_id e \<noteq> k) xs)"
        using snoc.IH [OF s d fx k] .
      have r: "?r = se_id x \<longleftrightarrow> k \<in> set pend0"
        using st fx k by (auto simp: redirect_def get_fold_set split: option.splits)
      have mem: "k \<in> se_id ` set xs" if "?r \<in> se_id ` set (unlabelled xs)"
      proof (rule ccontr)
        assume absent: "k \<notin> se_id ` set xs"
        have "dropWhile (\<lambda>e. se_id e \<noteq> ?r) (unlabelled xs) = []"
          using tail unfolding dropWhile_absent [OF absent] by simp
        then show False using that by auto
      qed
      show ?thesis
      proof (cases "?r \<in> se_id ` set (unlabelled xs)")
        case True
        then show ?thesis using tail mem False by (simp add: eq dropWhile_snoc)
      next
        case absent: False
        then have nil: "unlabelled (dropWhile (\<lambda>e. se_id e \<noteq> k) xs) = []"
          using tail dropWhile_absent [OF absent] by simp
        then have "?r = se_id x \<longleftrightarrow> k \<in> se_id ` set xs" using r pnd [of k] by simp
        then show ?thesis using absent nil False k by (auto simp: eq dropWhile_snoc)
      qed
    qed
  qed
qed simp


section \<open>What a context is built from\<close>

text \<open>The part of an entry its context messages depend on.\<close>

definition erase :: "session_entry \<Rightarrow> session_entry" where
  "erase e = e\<lparr>se_parentId := None, se_data := (case se_data e of
     CompactionE c \<Rightarrow> CompactionE (c\<lparr>cp_firstKeptEntryId := []\<rparr>) | d \<Rightarrow> d)\<rparr>"

abbreviation messages_of :: "session_entry list \<Rightarrow> agent_message list" where
  "messages_of es \<equiv> concat (map pe_messages (project_entries es))"

lemma erase_simps [simp]:
  "se_id (erase e) = se_id e" "is_compaction (erase e) = is_compaction e" "is_label (erase e) = is_label e"
  "is_system_entry (erase e) = is_system_entry e" "collect_edit (erase e) = collect_edit e"
  "settings_step (erase e) = settings_step e"
  by (auto simp: erase_def is_compaction_def is_label_def is_system_entry_def collect_edit_def settings_step_def
      fun_eq_iff split: entry_data.splits)

lemma erase_messages: "sessionEntryToContextMessages (erase e) = sessionEntryToContextMessages e"
  by (auto simp: erase_def sessionEntryToContextMessages_def Let_def split: entry_data.splits option.splits)

lemma fold_erase: "(\<And>e. f (erase e) = f e) \<Longrightarrow> fold f (map erase xs) s = fold f xs s"
  by (induction xs arbitrary: s) auto

lemma messages_of_erase: "messages_of (map erase xs) = messages_of xs"
proof -
  have "pe_messages (project_at edits i (erase e)) = pe_messages (project_at edits i e)" for edits i e
    by (simp add: project_at_def projectContextEntry_def erase_messages)
  moreover have "context_edits (map erase xs) = context_edits xs"
    by (simp add: context_edits_def fold_erase)
  ultimately have "map pe_messages (project_entries (map erase xs)) = map pe_messages (project_entries xs)"
    by (intro nth_equalityI) (simp_all add: nth_project_entries)
  then show ?thesis by simp
qed

lemma label_no_messages [simp]: "is_label e \<Longrightarrow> projectContextEntry e x = []"
  by (auto simp: is_label_def projectContextEntry_def sessionEntryToContextMessages_def Let_def
      split: entry_data.splits option.splits)

lemma label_not_compaction: "is_label e \<Longrightarrow> \<not> is_compaction e"
  by (cases "se_data e") (auto simp: is_label_def is_compaction_def)

lemma fold_unlabelled: "(\<And>e. is_label e \<Longrightarrow> f e = (\<lambda>s. s)) \<Longrightarrow> fold f (unlabelled xs) s = fold f xs s"
  by (induction xs arbitrary: s) auto

lemma label_no_edit: "is_label e \<Longrightarrow> collect_edit e = (\<lambda>s. s)" "is_label e \<Longrightarrow> settings_step e = (\<lambda>s. s)"
  by (auto simp: is_label_def collect_edit_def settings_step_def fun_eq_iff split: entry_data.splits)

lemma concat_unlabelled:
  "(\<And>e. is_label e \<Longrightarrow> f e = []) \<Longrightarrow> concat (map f (unlabelled xs)) = concat (map f xs)"
  by (induction xs) auto

lemma messages_unlabelled_Cons:
  assumes "\<not> is_label c"
  shows "messages_of (c # unlabelled xs) = messages_of (c # xs)"
proof -
  have "context_edits (c # unlabelled xs) = context_edits (c # xs)"
    by (simp add: context_edits_def fold_unlabelled label_no_edit)
  then show ?thesis
    unfolding project_entries_Cons_messages by (simp only:) (simp add: concat_unlabelled)
qed

lemma messages_plain:
  assumes "\<not> list_ex is_compaction xs"
  shows "messages_of xs = concat (map (\<lambda>e. projectContextEntry e (omap_get (context_edits xs) (se_id e))) xs)"
proof -
  have "map pe_messages (project_entries xs) = map (\<lambda>e. projectContextEntry e (omap_get (context_edits xs) (se_id e))) xs"
    using assms by (intro nth_equalityI) (auto simp: nth_project_entries project_at_def list_ex_iff)
  then show ?thesis by simp
qed

lemma messages_unlabelled_plain:
  assumes "\<not> list_ex is_compaction xs"
  shows "messages_of (unlabelled xs) = messages_of xs"
proof -
  have "context_edits (unlabelled xs) = context_edits xs"
    by (simp add: context_edits_def fold_unlabelled label_no_edit)
  moreover have "\<not> list_ex is_compaction (unlabelled xs)" using assms by (auto simp: list_ex_iff)
  ultimately show ?thesis
    using assms by (simp add: messages_plain concat_unlabelled)
qed

lemma messages_of_cong:
  assumes "map erase (unlabelled xs) = map erase (unlabelled ys)" and "\<not> list_ex is_compaction xs"
    and "\<not> list_ex is_compaction ys"
  shows "messages_of xs = messages_of ys"
  using messages_of_erase [of "unlabelled xs"] messages_of_erase [of "unlabelled ys"] assms
  by (simp add: messages_unlabelled_plain)

lemma messages_of_Cons_cong:
  assumes "map erase (unlabelled xs) = map erase (unlabelled ys)" and "erase c = erase d" and "\<not> is_label c"
  shows "messages_of (c # xs) = messages_of (d # ys)"
proof -
  have "\<not> is_label d" using assms(2,3) by (metis erase_simps(3))
  then show ?thesis
    using messages_of_erase [of "c # unlabelled xs"] messages_of_erase [of "d # unlabelled ys"] assms
      messages_unlabelled_Cons [of c xs] messages_unlabelled_Cons [of d ys] by simp
qed

section \<open>The re-chained path gives the same context\<close>

lemma rechain_erase: "map erase (rechain parent m pending xs) = map erase (unlabelled xs)"
  by (induction parent m pending xs rule: rechain.induct)
    (auto simp: Let_def erase_def retarget_def split: entry_data.splits)

lemma rechain_unlabelled: "unlabelled (rechain parent m pending xs) = rechain parent m pending xs"
proof -
  have "list_all (\<lambda>e. \<not> is_label e) (map erase (rechain parent m pending xs))"
    unfolding rechain_erase by (simp add: list_all_iff)
  then show ?thesis by (simp add: list_all_iff filter_id_conv)
qed

lemma tail_erase:
  "map erase (filter (\<lambda>e. \<not> is_system_entry e) (dropWhile (\<lambda>e. se_id e \<noteq> k) xs)) =
     filter (\<lambda>e. \<not> is_system_entry e) (dropWhile (\<lambda>e. se_id e \<noteq> k) (map erase xs))"
  by (simp add: dropWhile_map filter_map comp_def)

lemma firstKept_retarget:
  assumes "is_compaction c"
  shows "firstKept_of (c\<lparr>se_parentId := p, se_data := retarget m c\<rparr>) =
     (if firstKept_of c = se_id c then se_id c else redirect m (firstKept_of c))"
  using assms by (auto simp: is_compaction_def firstKept_of_def retarget_def redirect_def split: entry_data.splits)

lemma retarget_erase [simp]: "erase (c\<lparr>se_parentId := p, se_data := retarget m c\<rparr>) = erase c"
  by (simp add: erase_def retarget_def split: entry_data.splits)

lemma list_ex_erase: "map erase xs = map erase ys \<Longrightarrow> list_ex is_compaction xs = list_ex is_compaction ys"
  by (metis (mono_tags, lifting) erase_simps(2) list_ex_iff list.set_map image_iff)

lemma list_ex_rechain: "list_ex is_compaction (rechain parent m pending xs) = list_ex is_compaction xs"
  using list_ex_erase [OF rechain_erase, of parent m pending xs] label_not_compaction
  by (auto simp: list_ex_iff)

text \<open>
  Labels dropped, entries re-chained, compactions retargeted and label entries appended at the
  end: the messages of the context are those of the original path.
\<close>

lemma rechain_context_messages:
  assumes "distinct (map se_id path)" and "distinct (map se_id (rechain None [] [] path @ labels))"
    and "list_all is_label labels"
  shows "messages_of (context_entries_of_path (rechain None [] [] path @ labels)) =
     messages_of (context_entries_of_path path)"
proof -
  let ?r = "rechain None [] [] path"
  have r: "map erase ?r = map erase (unlabelled path)" by (rule rechain_erase)
  have nolab: "\<not> list_ex is_compaction labels" and ul: "unlabelled labels = []"
    using assms(3) by (auto simp: list_all_iff list_ex_iff filter_empty_conv dest: label_not_compaction)
  show ?thesis
  proof (cases "list_ex is_compaction path")
    case False
    have nr: "\<not> list_ex is_compaction (?r @ labels)" using False nolab by (simp add: list_ex_rechain)
    show ?thesis
      unfolding context_entries_plain [OF nr] context_entries_plain [OF False]
      using nr False r ul rechain_unlabelled [of None "[]" "[]" path] by (intro messages_of_cong) simp_all
  next
    case True
    then obtain c where "find_last is_compaction path = Some c"
      by (cases "find_last is_compaction path") (auto simp: find_last_None list_ex_iff)
    from find_last_split [OF this] obtain pre post where path: "path = pre @ c # post"
      and c: "is_compaction c" and post: "\<not> list_ex is_compaction post" by (auto simp: list_ex_iff)
    obtain p m pend where cs: "chain_state_of pre = (p, m, pend)" by (cases "chain_state_of pre")
    have ncl: "\<not> is_label c" using c label_not_compaction by blast
    let ?m = "fold (\<lambda>l. omap_set l (se_id c)) pend m"
    let ?c = "c\<lparr>se_parentId := p, se_data := retarget ?m c\<rparr>"
    let ?pre = "rechain None [] [] pre" and ?post = "rechain (Some (se_id c)) ?m [] post"
    have req: "?r = ?pre @ ?c # ?post"
      using cs ncl by (simp add: path rechain_append chain_state_of_def Let_def)
    have dist: "distinct (map se_id (pre @ c # post))" using assms(1) path by simp
    have c': "is_compaction ?c" using c by (metis erase_simps(2) retarget_erase)
    have post': "\<not> list_ex is_compaction (?post @ labels)"
      using post nolab by (simp add: list_ex_rechain)
    have tails: "dropWhile (\<lambda>e. se_id e \<noteq> firstKept_of ?c) (unlabelled pre) =
        unlabelled (dropWhile (\<lambda>e. se_id e \<noteq> firstKept_of c) pre)"
    proof (cases "firstKept_of c = se_id c")
      case own: True
      have "se_id c \<notin> se_id ` set pre" "se_id c \<notin> se_id ` set (unlabelled pre)" using dist by auto
      then show ?thesis by (simp add: firstKept_retarget [OF c] own dropWhile_absent del: dropWhile_eq_Nil_conv)
    next
      case False
      then show ?thesis
        using redirect_tail [OF cs, of "se_id c" "firstKept_of c"] dist by (simp add: firstKept_retarget [OF c])
    qed
    have eq_tail: "map erase (filter (\<lambda>e. \<not> is_system_entry e) (dropWhile (\<lambda>e. se_id e \<noteq> firstKept_of ?c) ?pre)) =
        map erase (unlabelled (filter (\<lambda>e. \<not> is_system_entry e) (dropWhile (\<lambda>e. se_id e \<noteq> firstKept_of c) pre)))"
      unfolding tail_erase rechain_erase
      by (simp add: tail_erase [symmetric] tails filter_filter conj_commute del: dropWhile_map)
    have d2: "distinct (map se_id (?pre @ ?c # (?post @ labels)))" using assms(2) unfolding req by simp
    have split: "?r @ labels = ?pre @ ?c # (?post @ labels)" by (simp add: req)
    show ?thesis
      unfolding split context_entries_compacted [OF d2 c' post']
      unfolding path context_entries_compacted [OF dist c post]
    proof (rule messages_of_Cons_cong)
      have ulf: "unlabelled (filter P (dropWhile Q ?pre)) = filter P (dropWhile Q ?pre)" for P Q
        using rechain_unlabelled [of None "[]" "[]" pre]
        by (auto simp: filter_id_conv intro!: filter_cong dest!: set_dropWhileD)
      show "map erase (unlabelled (filter (\<lambda>e. \<not> is_system_entry e) (dropWhile (\<lambda>e. se_id e \<noteq> firstKept_of ?c) ?pre) @
            ?post @ labels)) =
          map erase (unlabelled (filter (\<lambda>e. \<not> is_system_entry e) (dropWhile (\<lambda>e. se_id e \<noteq> firstKept_of c) pre) @ post))"
        unfolding filter_append map_append ulf rechain_unlabelled ul rechain_erase eq_tail by simp
      show "erase ?c = erase c" by simp
      show "\<not> is_label ?c" using ncl by (metis erase_simps(3) retarget_erase)
    qed
  qed
qed


section \<open>The extracted session is well formed\<close>

fun chained :: "jstr option \<Rightarrow> session_entry list \<Rightarrow> bool" where
  "chained parent [] = True"
| "chained parent (e # es) \<longleftrightarrow> se_parentId e = parent \<and> chained (Some (se_id e)) es"

lemma chained_append:
  "chained parent (xs @ ys) \<longleftrightarrow>
     chained parent xs \<and> chained (if xs = [] then parent else Some (se_id (last xs))) ys"
  by (induction xs arbitrary: parent) auto

lemma chained_rechain: "chained parent (rechain parent m pending xs)"
  by (induction parent m pending xs rule: rechain.induct) (auto simp: Let_def)

lemma chained_label_entries: "chained parent (label_entries uuid k ids parent ls)"
  by (induction uuid k ids parent ls rule: label_entries.induct) (auto simp: Let_def)

lemma chained_wf:
  assumes "chained parent es" and "distinct (seen @ map se_id es)" and "\<forall>e \<in> set es. se_id e \<noteq> []"
    and "case parent of None \<Rightarrow> True | Some p \<Rightarrow> p \<in> set seen"
  shows "wf_from seen es"
  using assms
proof (induction es arbitrary: seen parent)
  case (Cons e es)
  then have "wf_from (seen @ [se_id e]) es" by (intro Cons.IH [of "Some (se_id e)"]) auto
  then show ?case using Cons.prems by (auto split: option.splits)
qed simp

lemma chained_root_path:
  assumes "chained None es" and "wf_entries es" and "es \<noteq> []"
  shows "root_path (entry_index es) (last es) es"
  using assms
proof (induction es rule: rev_induct)
  case (snoc x xs)
  note wf = snoc.prems(2)
  show ?case
  proof (cases "xs = []")
    case True
    then show ?thesis
      using snoc.prems(1) root_path.at_root [of "entry_index [x]" x] by (simp add: parent_entry_def)
  next
    case False
    with snoc have "root_path (entry_index xs) (last xs) xs" by (auto simp: chained_append wf_entries_snoc)
    from root_path_mono [OF this wf] False have rp: "root_path (entry_index (xs @ [x])) (last xs) xs" by simp
    have "parent_entry (entry_index (xs @ [x])) x = Some (last xs)"
      using snoc.prems(1) False get_entry_index [OF wf_entries_distinct [OF wf], of "last xs"]
        wf_entries_ids [OF wf, of "last xs"]
      by (auto simp: chained_append parent_entry_def)
    from root_path.below [OF this rp] show ?thesis by simp
  qed
qed simp

text \<open>
  Every \<open>randomUUID()\<close> value has 36 units, and the fallback values of the calls that the labels can
  need are pairwise different and unused.
\<close>

definition fresh_uuids :: "runtime \<Rightarrow> session_manager \<Rightarrow> bool" where
  "fresh_uuids rt st \<longleftrightarrow> (\<forall>k i. length (rt_uuid rt k i) = 36) \<and> inj_on (\<lambda>k. rt_uuid rt k 100) {..<length (sm_labelsById st)} \<and>
     (\<forall>k < length (sm_labelsById st). \<not> omap_has (sm_byId st) (rt_uuid rt k 100))"

lemma label_entries_fresh:
  assumes "\<And>k i. length (uuid k i) = 36" and "inj_on (\<lambda>k. uuid k 100) {k..<k + length ls}"
    and "\<And>j. k \<le> j \<Longrightarrow> j < k + length ls \<Longrightarrow> uuid j 100 \<notin> set ids" and "distinct ids"
  shows "distinct (ids @ map se_id (label_entries uuid k ids parent ls)) \<and>
     (\<forall>e \<in> set (label_entries uuid k ids parent ls). se_id e \<noteq> [] \<and> is_label e)"
  using assms
proof (induction uuid k ids parent ls rule: label_entries.induct)
  case (2 uuid k ids parent target label timestamp rest)
  let ?i = "generateId (uuid k) (\<lambda>x. x \<in> set ids)"
  have f: "?i \<notin> set ids" "?i \<noteq> []"
    using generateId_fresh [of "uuid k" "\<lambda>x. x \<in> set ids"] "2.prems"(1,3) by auto
  have "?i = uuid k 100 \<or> length ?i = 8"
    using "2.prems"(1) try_ids_Some [of 0 100 "uuid k" "\<lambda>x. x \<in> set ids"]
    by (auto simp: generateId_def split: option.splits)
  then have "uuid j 100 \<noteq> ?i" if "Suc k \<le> j" "j < Suc k + length rest" for j
    using that "2.prems"(1) [of j 100] inj_onD [OF "2.prems"(2), of j k] by auto
  moreover have "inj_on (\<lambda>k. uuid k 100) {Suc k..<Suc k + length rest}"
    by (rule inj_on_subset [OF "2.prems"(2)]) auto
  ultimately have "distinct ((ids @ [?i]) @ map se_id (label_entries uuid (Suc k) (ids @ [?i]) (Some ?i) rest)) \<and>
     (\<forall>e \<in> set (label_entries uuid (Suc k) (ids @ [?i]) (Some ?i) rest). se_id e \<noteq> [] \<and> is_label e)"
    using f "2.prems" by (intro "2.IH") auto
  with f show ?case by (auto simp: Let_def is_label_def)
qed simp

lemma rechain_ids: "map se_id (rechain parent m pending xs) = map se_id (unlabelled xs)"
  using arg_cong [OF rechain_erase, of "map se_id" parent m pending xs] by (simp add: comp_def)

lemma branched_entries_split:
  assumes "fresh_uuids rt st" and "sm_inv st" and "set path \<subseteq> set (getEntries st)" and "distinct (map se_id path)"
  obtains labels where "branched_entries rt st path = rechain None [] [] path @ labels"
    and "distinct (map se_id (rechain None [] [] path @ labels))" and "list_all is_label labels"
    and "wf_entries (branched_entries rt st path)" and "chained None (branched_entries rt st path)"
proof -
  let ?r = "rechain None [] [] path"
  let ?last = "if ?r = [] then None else if se_id (last ?r) = [] then None else Some (se_id (last ?r))"
  let ?labels = "label_entries (rt_uuid rt) 0 (map se_id ?r) ?last (labels_to_write st (map se_id ?r))"
  note wf = sm_invD(1) [OF assms(2)]
  have ids: "set (map se_id ?r) \<subseteq> set (map se_id (getEntries st))" using assms(3) by (auto simp: rechain_ids)
  have ne: "se_id e \<noteq> []" if "e \<in> set ?r" for e
    using ids that wf_entries_ids [OF wf] by (force simp del: rechain_ids)
  have dist: "distinct (map se_id ?r)" using assms(4) by (simp add: rechain_ids distinct_map_filter)
  have len: "length (labels_to_write st (map se_id ?r)) \<le> length (sm_labelsById st)"
    by (simp add: labels_to_write_def)
  have notin: "rt_uuid rt j 100 \<notin> set (map se_id ?r)" if "j < length (sm_labelsById st)" for j
  proof -
    have "rt_uuid rt j 100 \<notin> set (map se_id (getEntries st))"
      using assms(1) that sm_invD(2) [OF assms(2)]
      by (simp add: fresh_uuids_def omap_has_def entry_index_def image_image)
    then show ?thesis using ids by blast
  qed
  note fresh = label_entries_fresh [of "rt_uuid rt" 0 "labels_to_write st (map se_id ?r)" "map se_id ?r" ?last]
  have f: "distinct (map se_id ?r @ map se_id ?labels) \<and> (\<forall>e \<in> set ?labels. se_id e \<noteq> [] \<and> is_label e)"
    using assms(1) dist notin len by (intro fresh) (auto simp: fresh_uuids_def intro: inj_on_subset)
  define L where "L = ?labels"
  have eq: "branched_entries rt st path = ?r @ L" by (simp add: branched_entries_def Let_def L_def)
  have fL: "distinct (map se_id (?r @ L))" "\<forall>e \<in> set L. se_id e \<noteq> [] \<and> is_label e" using f by (simp_all add: L_def)
  have "chained ?last L" unfolding L_def by (rule chained_label_entries)
  moreover have "?last = (if ?r = [] then None else Some (se_id (last ?r)))" using ne by simp
  ultimately have ch: "chained None (?r @ L)" by (simp add: chained_append chained_rechain)
  have "wf_entries (?r @ L)"
    unfolding wf_entries_def using fL ne by (intro chained_wf [OF ch]) auto
  then show ?thesis using that [of L] fL ch eq by (simp add: list_all_iff)
qed


section \<open>Labels of the extracted session\<close>

lemma labels_of_ok:
  "distinct (map fst (fst (labels_of es))) \<and> (\<forall>(t, l) \<in> set (fst (labels_of es)). l \<noteq> [])"
proof (induction es rule: rev_induct)
  case (snoc e es)
  have set_ok: "\<forall>(t, l) \<in> set (omap_set a b m). l \<noteq> []" if "\<forall>(t, l) \<in> set m. l \<noteq> []" "b \<noteq> []" for a b m
    using that by (induction m) (auto split: if_splits)
  show ?case
  proof (cases "se_data e")
    case (LabelE target label)
    with snoc set_ok [of "fst (labels_of es)"] ok_omap_set [of "fst (labels_of es)"]
      ok_omap_delete [of "fst (labels_of es)"]
    show ?thesis
      by (auto simp: labels_of_snoc label_step_def label_update_def label_truthy_def omap_ok_def
          omap_delete_def split: option.splits)
  qed (use snoc in \<open>auto simp: labels_of_snoc label_step_def\<close>)
qed (simp add: labels_of_def)

lemma fold_label_entries:
  assumes "\<forall>(t, l, ts) \<in> set ls. l \<noteq> []"
  shows "fst (fold label_step (label_entries uuid k ids parent ls) (a, b)) = fold (\<lambda>(t, l, ts). omap_set t l) ls a"
  using assms
  by (induction uuid k ids parent ls arbitrary: a b rule: label_entries.induct)
    (auto simp: Let_def label_step_def label_update_def label_truthy_def)

lemma fold_idle: "(\<And>e. e \<in> set ys \<Longrightarrow> f e = (\<lambda>s. s)) \<Longrightarrow> fold f ys s = s"
  by (induction ys) auto

lemma fold_label_step_unlabelled: "fold label_step (rechain p m q xs) s = s"
proof -
  have "label_step e = (\<lambda>s. s)" if "\<not> is_label e" for e
    using that by (auto simp: is_label_def label_step_def fun_eq_iff split: entry_data.splits)
  moreover have "\<forall>e \<in> set (rechain p m q xs). \<not> is_label e"
    using rechain_unlabelled [of p m q xs] by (simp add: filter_id_conv)
  ultimately show ?thesis by (intro fold_idle) simp
qed

lemma branched_labels:
  assumes "sm_inv st"
  shows "fst (labels_of (branched_entries rt st path)) =
     filter (\<lambda>(t, l). t \<in> set (map se_id (unlabelled path))) (sm_labelsById st)"
proof -
  let ?ids = "map se_id (unlabelled path)"
  let ?ls = "labels_to_write st ?ids"
  have lab: "sm_labelsById st = fst (labels_of (getEntries st))" using sm_invD(3) [OF assms] by (metis fst_conv)
  have ne: "\<forall>(t, l, ts) \<in> set ?ls. l \<noteq> []"
    using labels_of_ok [of "getEntries st"] by (auto simp: labels_to_write_def lab)
  have fst_ls: "map fst ?ls = map fst (filter (\<lambda>(t, l). t \<in> set ?ids) (sm_labelsById st))"
    by (simp add: labels_to_write_def comp_def case_prod_beta')
  have "distinct (map fst ?ls)"
    unfolding fst_ls lab using labels_of_ok [of "getEntries st"] by (simp add: distinct_map_filter)
  then have "fold (\<lambda>(t, l, ts). omap_set t l) ?ls [] = map (\<lambda>x. (fst x, fst (snd x))) ?ls"
    using fold_omap_set_fresh [of fst ?ls "[]" "\<lambda>x. fst (snd x)"] by (simp add: case_prod_beta')
  also have "\<dots> = filter (\<lambda>(t, l). t \<in> set ?ids) (sm_labelsById st)"
    by (simp add: labels_to_write_def comp_def case_prod_beta')
  finally show ?thesis
    by (simp add: labels_of_def branched_entries_def Let_def fold_label_step_unlabelled fold_label_entries [OF ne]
        rechain_ids)
qed

section \<open>Theorems\<close>

lemma root_path_distinct:
  assumes "wf_entries es" and "e \<in> set es" and "root_path (entry_index es) e p"
  shows "distinct (map se_id p)"
proof -
  from root_path_subseq [OF assms] obtain N where "p = nths es N" by (auto simp: subseq_conv_nths)
  then show ?thesis using wf_entries_distinct [OF assms(1)] by (simp add: nths_map [symmetric] distinct_nthsI)
qed

lemma chained_buildSessionPath:
  assumes "chained None es" and "wf_entries es"
  shows "buildSessionPath es (case map_option se_id (last_option es) of None \<Rightarrow> LeafNull | Some i \<Rightarrow> LeafId i)
     (Some (entry_index es)) = Some es"
proof (cases "es = []")
  case False
  then have l: "last es \<in> set es" by simp
  show ?thesis
    using walk_up_root_path [OF chained_root_path [OF assms False], of "[]"] False wf_entries_ids [OF assms(2) l]
      get_entry_index [OF wf_entries_distinct [OF assms(2)] l]
    by (simp add: buildSessionPath_def buildEntryIndex_def last_option_def)
qed (simp add: buildSessionPath_def last_option_def)

lemma branched_settings:
  assumes "list_all is_label labels"
  shows "getSessionContextSettings (rechain None [] [] path @ labels) = getSessionContextSettings path"
proof -
  have "fold settings_step (rechain None [] [] path) s = fold settings_step path s" for s
    using fold_erase [of settings_step "rechain None [] [] path" s] fold_erase [of settings_step "unlabelled path" s]
      fold_unlabelled [of settings_step path s] label_no_edit(2)
    by (simp add: rechain_erase)
  moreover have "fold settings_step labels s = s" for s
    using assms by (induction labels arbitrary: s) (auto simp: label_no_edit)
  ultimately show ?thesis by (simp add: getSessionContextSettings_def)
qed

text \<open>The manager after a successful extraction, whichever way it was written.\<close>

lemma createBranchedSession_Inr:
  assumes "createBranchedSession rt leafId st = Some (Inr (f, st'))" and "getBranch st (Some leafId) = Some path"
    and "wf_entries (branched_entries rt st path)"
  shows "path \<noteq> [] \<and> sm_inv st' \<and> getEntries st' = branched_entries rt st path \<and>
    sm_leafId st' = map_option se_id (last_option (branched_entries rt st path))"
proof -
  let ?es = "branched_entries rt st path"
  have bi: "buildIndex s = s\<lparr>sm_byId := entry_index ?es, sm_leafId := map_option se_id (last_option ?es),
        sm_labelsById := fst (labels_of ?es), sm_labelTimestampsById := snd (labels_of ?es)\<rparr>"
    if "getEntries s = ?es" for s
    using buildIndex_wf [of s] assms(3) that by (simp add: last_option_def)
  define s2 where "s2 = branched_state rt st path"
  let ?file = "new_session_path rt st (rt_sessionUuid rt)"
  have s2: "sm_fileEntries s2 = branched_header rt st # map Entry ?es" "sm_byId s2 = entry_index ?es"
      "sm_leafId s2 = map_option se_id (last_option ?es)" "sm_labelsById s2 = fst (labels_of ?es)"
      "sm_labelTimestampsById s2 = snd (labels_of ?es)" "sm_persist s2 = sm_persist st"
      "sm_persist st \<Longrightarrow> sm_sessionFile s2 = Some ?file" "getEntries s2 = ?es"
    unfolding s2_def branched_state_def
    by (subst bi; simp add: getEntries_def branched_header_def)+
  have sf: "session_file s2 = (if sm_persist st then Some ?file else None)"
    using s2(6,7) by (simp add: session_file_def new_session_path_def js_def)
  have "path \<noteq> []" and st': "st' = s2\<lparr>sm_files := sm_files st', sm_flushed := sm_flushed st'\<rparr>"
    "sm_flushed st' \<and> sm_persist st \<longrightarrow> sm_files st' ?file = Some (sm_fileEntries s2)"
    using assms(1,2)
    by (auto simp: createBranchedSession_def Let_def s2_def [symmetric] rewriteFile_def write_lines_def
        create_file_def sf split: if_splits option.splits io.splits)
  have "sm_inv (s2\<lparr>sm_files := fs, sm_flushed := fl\<rparr>)"
    if "fl \<and> sm_persist st \<longrightarrow> fs ?file = Some (sm_fileEntries s2)" for fs fl
    using s2 sf that assms(3)
    by (simp add: sm_inv_def branched_header_def last_option_def)
  from this [of "sm_flushed st'" "sm_files st'"] st'(2) have "sm_inv st'" by (subst st'(1)) simp
  moreover have "getEntries st' = ?es" "sm_leafId st' = map_option se_id (last_option ?es)"
    by (subst st'(1), simp add: s2)+
  ultimately show ?thesis using \<open>path \<noteq> []\<close> by simp
qed

text \<open>
  C5. Extracting a path into a new session keeps the model context: labels are dropped, entries are
  chained anew and compactions that kept from a label keep from the entry after it, yet the new
  session is well formed, its context (messages, thinking level and model) is exactly the one of
  the path in the old session, and the labels of the entries on the path are the ones they had.
\<close>

theorem branched_session_context:
  assumes "reachable st" and "omap_has (sm_byId st) leafId" and "fresh_uuids rt st"
    and "createBranchedSession rt leafId st = Some (Inr (f, st'))"
  shows "sm_inv st' \<and>
    manager_context st' = buildSessionContext (getEntries st) (LeafId leafId) (Some (sm_byId st)) \<and>
    manager_context st' \<noteq> None \<and>
    sm_labelsById st' = filter (\<lambda>(t, l). list_ex (\<lambda>e. se_id e = t \<and> \<not> is_label e)
      (the (getBranch st (Some leafId)))) (sm_labelsById st)"
proof -
  have inv: "sm_inv st" using reachable_ok [OF assms(1)] by simp
  obtain e where e: "e \<in> set (getEntries st)" "se_id e = leafId" using byId_entry [OF inv assms(2)] .
  obtain path where rp: "root_path (entry_index (getEntries st)) e path" and gb: "getBranch st (Some leafId) = Some path"
    using getBranch_exists [OF inv e(1)] e(2) by metis
  note wf = sm_invD(1) [OF inv]
  have sub: "set path \<subseteq> set (getEntries st)" using root_path_props [OF rp wf e(1)] by simp
  have dist: "distinct (map se_id path)"
    using root_path_distinct [OF wf e(1) rp] .
  let ?r = "rechain None [] [] path" and ?es = "branched_entries rt st path"
  obtain labels where es: "?es = ?r @ labels" and dl: "distinct (map se_id (?r @ labels))"
    and lab: "list_all is_label labels" and wf': "wf_entries ?es" and ch: "chained None ?es"
    using branched_entries_split [OF assms(3) inv sub dist] .
  have st': "path \<noteq> []" "sm_inv st'" "getEntries st' = ?es" "sm_leafId st' = map_option se_id (last_option ?es)"
    using createBranchedSession_Inr [OF assms(4) gb wf'] by simp_all
  have old: "buildSessionPath (getEntries st) (LeafId leafId) (Some (sm_byId st)) = Some path"
    using walk_up_root_path [OF rp, of "[]"] get_entry_index [OF wf_entries_distinct [OF wf] e(1)]
      wf_entries_ids [OF wf e(1)] e(2)
    by (simp add: buildSessionPath_def buildEntryIndex_def sm_invD(2) [OF inv])
  have new: "buildSessionPath ?es (leaf_argument st') (Some (sm_byId st')) = Some ?es"
    using chained_buildSessionPath [OF ch wf'] st'(3,4) sm_invD(2) [OF st'(2)]
    by (simp add: leaf_argument_def)
  have "sp_messages (projection_of_path ?es) = sp_messages (projection_of_path path)"
    "sp_settings (projection_of_path ?es) = sp_settings (projection_of_path path)"
    using rechain_context_messages [OF dist dl lab] branched_settings [OF lab, of path]
    by (simp_all add: projection_of_path_def Let_def es)
  then have ctx: "manager_context st' = buildSessionContext (getEntries st) (LeafId leafId) (Some (sm_byId st))"
    using old new st'(3)
    by (simp add: manager_context_def manager_projection_def buildSessionContext_def buildSessionProjection_def)
  moreover have "manager_context st' \<noteq> None"
    using new st'(3) by (simp add: manager_context_def manager_projection_def buildSessionProjection_def)
  moreover have "sm_labelsById st' = filter (\<lambda>(t, l). list_ex (\<lambda>e. se_id e = t \<and> \<not> is_label e) path) (sm_labelsById st)"
  proof -
    have "sm_labelsById st' = filter (\<lambda>(t, l). t \<in> set (map se_id (unlabelled path))) (sm_labelsById st)"
      using branched_labels [OF inv, of rt path] sm_invD(3) [OF st'(2)] st'(3) by (metis fst_conv)
    also have "(\<lambda>(t, l). t \<in> set (map se_id (unlabelled path))) =
        (\<lambda>(t :: jstr, l :: jstr). list_ex (\<lambda>e. se_id e = t \<and> \<not> is_label e) path)"
      by (auto simp: fun_eq_iff list_ex_iff)
    finally show ?thesis .
  qed
  ultimately show ?thesis using st'(2) gb by simp
qed

lemma generateId_first: "\<not> taken (take 8 (uuid 0)) \<Longrightarrow> generateId uuid taken = take 8 (uuid 0)"
  by (simp add: generateId_def numeral_eq_Suc Let_def)

definition demo_mem :: session_manager where
  "demo_mem = final (newSession (demo_rt 0 IoOk) (Some (js ''s'')) None (demo_blank\<lparr>sm_persist := False\<rparr>))"

definition demo_mem_said :: session_manager where
  "demo_mem_said = final (appendMessage (demo_rt 0 IoOk) (demo_user ''hi'') demo_mem)"

lemma demo_mem_eq:
  "newSession (demo_rt 0 IoOk) (Some (js ''s'')) None (demo_blank\<lparr>sm_persist := False\<rparr>) = Inr (None, demo_mem)"
  by (simp add: demo_mem_def newSession_def demo_blank_def final_def Let_def assertValidSessionId_def is_alnum_def js_def)

lemma demo_mem_fields: "sm_persist demo_mem = False" "sm_byId demo_mem = []" "sm_leafId demo_mem = None"
  "sm_labelsById demo_mem = []"
  by (simp_all add: demo_mem_def newSession_def demo_blank_def final_def Let_def assertValidSessionId_def is_alnum_def js_def)

lemma demo_mem_said_fields:
  "sm_persist demo_mem_said = False" "sm_labelsById demo_mem_said = []"
  "sm_byId demo_mem_said = [(take 8 (demo_uuid 0), \<lparr>se_id = take 8 (demo_uuid 0), se_parentId = None,
     se_timestamp = 0, se_data = MessageE (demo_user ''hi'')\<rparr>)]"
  by (simp_all add: demo_mem_said_def final_def appendMessage_def append_child_def appendEntry_def persist_entry_def
      session_file_def demo_mem_fields child_entry_def next_id_def generateId_first omap_has_def demo_rt_def Let_def)

lemma demo_mem_said_reachable: "reachable demo_mem_said"
  unfolding demo_mem_said_def
  by (intro reachable.step [OF reachable.start [OF demo_mem_eq]] sm_step.message)
    (simp add: uuid_ok_def demo_rt_def demo_uuid_def omap_has_def demo_mem_fields)

lemma demo_fork:
  "createBranchedSession (demo_rt 1 IoOk) (take 8 (demo_uuid 0)) demo_mem_said =
     Some (Inr (None, branched_state (demo_rt 1 IoOk) demo_mem_said [snd (hd (sm_byId demo_mem_said))]))"
  by (simp add: createBranchedSession_def getBranch_def demo_mem_said_fields demo_uuid_def walk_up.simps parent_entry_def)

theorem branched_session_context_witness:
  "manager_context (branched_state (demo_rt 1 IoOk) demo_mem_said [snd (hd (sm_byId demo_mem_said))]) =
     buildSessionContext (getEntries demo_mem_said) (LeafId (take 8 (demo_uuid 0))) (Some (sm_byId demo_mem_said))"
proof -
  have "omap_has (sm_byId demo_mem_said) (take 8 (demo_uuid 0))" by (simp add: demo_mem_said_fields omap_has_def)
  moreover have "fresh_uuids (demo_rt 1 IoOk) demo_mem_said"
    by (simp add: fresh_uuids_def demo_mem_said_fields demo_rt_def demo_uuid_def)
  ultimately show ?thesis
    using branched_session_context [OF demo_mem_said_reachable _ _ demo_fork] by blast
qed


section \<open>Migration of version 1 files\<close>

definition migrated_first_kept :: "file_entry list \<Rightarrow> nat \<Rightarrow> compaction_data \<Rightarrow> jstr" where
  "migrated_first_kept result i c =
     (case result ! i of Entry t \<Rightarrow> se_id t | Header _ \<Rightarrow> cp_firstKeptEntryId c)"

lemma resolve_first_kept_keeps [simp]:
  "se_id (resolve_first_kept cur e) = se_id e" "se_parentId (resolve_first_kept cur e) = se_parentId e"
  by (simp_all add: resolve_first_kept_def Let_def split: entry_data.splits option.splits file_entry.splits)

lemma generateId_unchecked: "generateId u (\<lambda>_. False) = take 8 (u 0)"
  by (simp add: generateId_first)

lemma migrate_from:
  "\<exists>ys. migrateV1ToV2_from uuid k prev acc es = acc @ ys \<and> length ys = length es \<and>
     chained prev (entries_of ys) \<and>
     map se_id (entries_of ys) = map (\<lambda>j. take 8 (uuid j 0)) [k..<k + length (entries_of es)]"
proof (induction uuid k prev acc es rule: migrateV1ToV2_from.induct)
  case (3 uuid k prev acc e rest)
  let ?e1 = "set_entry_id (generateId (uuid k) (\<lambda>_. False)) prev e"
  let ?e2 = "resolve_first_kept (acc @ Entry ?e1 # rest) ?e1"
  obtain ys where "migrateV1ToV2_from uuid (Suc k) (Some (se_id ?e1)) (acc @ [Entry ?e2]) rest = (acc @ [Entry ?e2]) @ ys"
    "length ys = length rest" "chained (Some (se_id ?e1)) (entries_of ys)"
    "map se_id (entries_of ys) = map (\<lambda>j. take 8 (uuid j 0)) [Suc k..<Suc k + length (entries_of rest)]"
    using "3.IH" [OF refl refl] by auto
  then show ?case
    by (intro exI [of _ "Entry ?e2 # ys"]) (simp add: Let_def generateId_unchecked set_entry_id_def upt_conv_Cons del: upt_Suc)
qed fastforce+

lemma migrate_from_prefix:
  "i < length acc \<Longrightarrow> migrateV1ToV2_from uuid k prev acc es ! i = acc ! i"
  using migrate_from [of uuid k prev acc es] by (auto simp: nth_append)

lemma migrate_from_shape:
  "i < length es \<Longrightarrow> es ! i = Entry t \<Longrightarrow>
     \<exists>t'. migrateV1ToV2_from uuid k prev acc es ! (length acc + i) = Entry t'"
proof (induction uuid k prev acc es arbitrary: i rule: migrateV1ToV2_from.induct)
  case (2 uuid k prev acc h rest)
  then show ?case by (cases i) force+
next
  case (3 uuid k prev acc x rest)
  show ?case
  proof (cases i)
    case 0
    then show ?thesis by (auto simp: Let_def migrate_from_prefix nth_append)
  next
    case (Suc i')
    with "3.prems" show ?thesis using "3.IH" [OF refl refl, of i'] by (simp add: Let_def)
  qed
qed simp

lemma migrate_from_compaction:
  assumes "j < length es" and "es ! j = Entry e" and "se_data e = CompactionE c"
    and "cp_firstKeptEntryIndex c = Some i" and "i < length acc + j"
  shows "\<exists>e'. migrateV1ToV2_from uuid k prev acc es ! (length acc + j) = Entry e' \<and>
    se_data e' = CompactionE (c\<lparr>cp_firstKeptEntryId :=
      migrated_first_kept (migrateV1ToV2_from uuid k prev acc es) i c, cp_firstKeptEntryIndex := None\<rparr>)"
  using assms
proof (induction uuid k prev acc es arbitrary: j rule: migrateV1ToV2_from.induct)
  case (2 uuid k prev acc h rest)
  then obtain j' where j: "j = Suc j'" by (cases j) auto
  with "2.prems" show ?case using "2.IH" [of j'] by simp
next
  case (3 uuid k prev acc x rest)
  let ?e1 = "set_entry_id (generateId (uuid k) (\<lambda>_. False)) prev x"
  let ?e2 = "resolve_first_kept (acc @ Entry ?e1 # rest) ?e1"
  let ?rec = "migrateV1ToV2_from uuid (Suc k) (Some (se_id ?e1)) (acc @ [Entry ?e2]) rest"
  have eq: "migrateV1ToV2_from uuid k prev acc (Entry x # rest) = ?rec" by (simp add: Let_def)
  show ?case
  proof (cases j)
    case 0
    with "3.prems" have i: "i < length acc" and x: "x = e" by simp_all
    have "?rec ! i = acc ! i" using migrate_from_prefix [of i "acc @ [Entry ?e2]"] i by (simp add: nth_append)
    moreover have "?rec ! length acc = Entry ?e2" using migrate_from_prefix [of "length acc" "acc @ [Entry ?e2]"] by simp
    ultimately show ?thesis
      using "3.prems" 0 i x
      by (auto simp: eq migrated_first_kept_def resolve_first_kept_def set_entry_id_def nth_append Let_def
          split: file_entry.splits)
  next
    case (Suc j')
    with "3.prems" show ?thesis unfolding eq using "3.IH" [OF refl refl, of j'] by simp
  qed
qed simp



definition demo_v1 :: "file_entry list" where
  "demo_v1 = [Header \<lparr>sh_version = None, sh_id = js ''s'', sh_timestamp = 0, sh_cwd = js ''c'', sh_parentSession = None\<rparr>,
     Entry (demo_entry [] None (MessageE (demo_user ''hi''))),
     Entry (demo_entry [] None (CompactionE (demo_compaction\<lparr>cp_firstKeptEntryIndex := Some 1\<rparr>)))]"


end
