(* ===== verification/Compaction_Correct.thy ===== *)
theory Compaction_Correct
  imports Compaction Session_Branch
begin

text \<open>
  Correctness of compaction: where the context is cut, that the messages handed to the summarizer
  and the messages kept are exactly the messages of the context, and what the model sees after the
  compaction has been appended to the session.
\<close>

section \<open>The loops of the cut-point search\<close>

lemma back_up_props:
  assumes "start \<le> c"
  shows "start \<le> back_up stops start c" and "back_up stops start c \<le> c"
    and "back_up stops start c \<le> i \<Longrightarrow> i < c \<Longrightarrow> \<not> stops i"
    and "start < back_up stops start c \<Longrightarrow> stops (back_up stops start c - 1)"
  using assms
proof (induction c)
  case (Suc c)
  { case 1 then show ?case using Suc by auto }
  { case 2 then show ?case using Suc by (auto simp: le_SucI) }
  { case 3 then show ?case using Suc(3) by (auto split: if_splits simp: less_Suc_eq) }
  { case 4 then show ?case using Suc(4) by (auto split: if_splits) }
qed auto

lemma budget_walk_Some:
  assumes "budget_walk tokens start keep e acc = Some i"
  shows "start \<le> i \<and> i < e \<and> 0 < tokens i \<and> keep \<le> acc + (\<Sum>j\<in>{i..<e}. tokens j) \<and>
    ((\<Sum>j\<in>{Suc i..<e}. tokens j) = 0 \<or> acc + (\<Sum>j\<in>{Suc i..<e}. tokens j) < keep)"
  using assms
proof (induction tokens start keep e acc rule: budget_walk.induct)
  case (2 tokens start keep n acc)
  show ?case
  proof (cases "n < start \<or> tokens n = 0")
    case True
    then have "budget_walk tokens start keep n acc = Some i" "start \<le> n" "tokens n = 0"
      using "2.prems" by (auto split: if_splits)
    with "2.IH"(1) show ?thesis by (auto simp: sum.atLeastLessThan_Suc)
  next
    case False
    show ?thesis
    proof (cases "keep \<le> acc + tokens n")
      case True
      with False "2.prems" show ?thesis by auto
    next
      case nk: False
      with False "2.prems" have "budget_walk tokens start keep n (acc + tokens n) = Some i" by simp
      with "2.IH"(2) False nk show ?thesis by (auto simp: sum.atLeastLessThan_Suc)
    qed
  qed
qed simp

lemma budget_walk_None:
  assumes "budget_walk tokens start keep e acc = None"
  shows "(\<Sum>j\<in>{start..<e}. tokens j) = 0 \<or> acc + (\<Sum>j\<in>{start..<e}. tokens j) < keep"
  using assms
proof (induction tokens start keep e acc rule: budget_walk.induct)
  case (2 tokens start keep n acc)
  show ?case
  proof (cases "n < start")
    case False
    then show ?thesis
      using "2.prems" "2.IH" by (cases "tokens n = 0") (auto simp: sum.atLeastLessThan_Suc split: if_splits)
  qed simp
qed simp

lemma budget_cut_in: "cutPoints \<noteq> [] \<Longrightarrow> budget_cut cutPoints stop \<in> set cutPoints"
  by (auto simp: budget_cut_def find_Some_iff split: option.splits)

lemma budget_cut_tail:
  assumes "cutPoints \<noteq> []" and "sorted cutPoints" and "stop = budget_walk tokens start keep e 0"
    and "set cutPoints \<subseteq> {start..<e}"
  shows "(\<Sum>j\<in>{Suc (budget_cut cutPoints stop)..<e}. tokens j) < keep \<or>
     (\<Sum>j\<in>{Suc (budget_cut cutPoints stop)..<e}. tokens j) = 0 \<or> budget_cut cutPoints stop = last cutPoints"
proof (cases stop)
  case None
  let ?c = "budget_cut cutPoints stop"
  have "?c \<in> set cutPoints" by (rule budget_cut_in [OF assms(1)])
  then have sub: "{Suc ?c..<e} \<subseteq> {start..<e}" using assms(4) by auto
  have "(\<Sum>j\<in>{Suc ?c..<e}. tokens j) \<le> (\<Sum>j\<in>{start..<e}. tokens j)" by (rule sum_mono2) (use sub in auto)
  then show ?thesis using budget_walk_None [of tokens start keep e 0] None assms(3) by auto
next
  case (Some i)
  let ?c = "budget_cut cutPoints stop"
  note w = budget_walk_Some [of tokens start keep e 0 i]
  show ?thesis
  proof (cases "find (\<lambda>c. i \<le> c) cutPoints")
    case None
    then show ?thesis by (simp add: budget_cut_def Some)
  next
    case f: (Some c)
    then have "i \<le> c" by (auto simp: find_Some_iff)
    moreover have "?c = c" using f by (simp add: budget_cut_def Some)
    ultimately have "(\<Sum>j\<in>{Suc ?c..<e}. tokens j) \<le> (\<Sum>j\<in>{Suc i..<e}. tokens j)" by (intro sum_mono2) auto
    then show ?thesis using w Some assms(3) by auto
  qed
qed

lemma turn_start_before_Some:
  "turn_start_before starts start e = Some i \<Longrightarrow> start \<le> i \<and> i \<le> e \<and> starts i"
  by (induction starts start e rule: turn_start_before.induct) (auto split: if_splits)


section \<open>The cut in a projection\<close>

text \<open>
  What the projection guarantees of its entries: apart from compactions, an entry gives at most one
  message, and an entry that gives none by itself gives none after editing.
\<close>

definition regular :: "projected_entry list \<Rightarrow> bool" where
  "regular es \<longleftrightarrow> (\<forall>x \<in> set es. (source_compaction x \<or> length (pe_messages x) \<le> 1) \<and>
     (sessionEntryToContextMessages (pe_source x) = [] \<longrightarrow> pe_messages x = []))"

lemma regular_project_entries: "regular (project_entries es)"
proof -
  have "length (sessionEntryToContextMessages e) \<le> 1" if "\<not> is_compaction e" for e
    using that by (auto simp: sessionEntryToContextMessages_def is_compaction_def split: entry_data.splits)
  moreover have "length (projectContextEntry e x) \<le> length (sessionEntryToContextMessages e)" for e x
    by (simp add: projectContextEntry_def Let_def split: option.splits)
  ultimately have "length (projectContextEntry e x) \<le> 1" if "\<not> is_compaction e" for e x
    using that order_trans by blast
  moreover have "projectContextEntry e x = []" if "sessionEntryToContextMessages e = []" for e x
    using that by (simp add: projectContextEntry_def Let_def split: option.splits)
  ultimately show ?thesis
    by (auto simp: regular_def in_set_conv_nth nth_project_entries project_at_def split: if_splits)
      blast
qed

lemma context_edit_no_messages: "is_context_edit e \<Longrightarrow> sessionEntryToContextMessages e = []"
  by (auto simp: is_context_edit_def sessionEntryToContextMessages_def split: entry_data.splits)

lemma recovery_tail_empty:
  assumes "isRecoveryOmissionSuffix b tail" and "regular es" and "set tail \<subseteq> set es" and "x \<in> set tail"
  shows "pe_messages x = []"
  using assms context_edit_no_messages
  by (auto simp: isRecoveryOmissionSuffix_def list_all_iff regular_def isIntrinsicallyVisible_def isOmitted_def)

lemma compaction_messages_empty:
  "\<forall>x \<in> set xs. pe_messages x = [] \<Longrightarrow> compaction_messages xs = []"
  by (auto simp: getMessagesFromProjectedEntryForCompaction_def)

lemma drop_split_at: "k \<le> c \<Longrightarrow> c < length es \<Longrightarrow> drop k es = drop k (take c es) @ es ! c # drop (Suc c) es"
  by (metis append_take_drop_id drop_append id_take_nth_drop drop_drop min.absorb2 length_take diff_is_0_eq drop0 less_imp_le)

lemma findProjectedCutPoint_props:
  fixes keep :: nat
  assumes "projected_cut_points es start (length es) \<noteq> []" and "regular es"
  defines "k \<equiv> cr_firstKeptEntryIndex (findProjectedCutPoint es start (length es) keep)"
  shows "start \<le> k" and "k < length es"
    and "compaction_messages (drop k es) = [] \<or> isCutPointMessage (hd (compaction_messages (drop k es)))"
    and "\<not> source_compaction (es ! k)"
proof -
  let ?e = "length es" and ?cps = "projected_cut_points es start (length es)"
  let ?stop = "budget_walk (\<lambda>i. tokens_of (pe_messages (es ! i))) start keep ?e 0"
  let ?stops = "\<lambda>i. source_compaction (es ! i) \<or> pe_messages (es ! i) \<noteq> []"
  define c where "c = budget_cut ?cps ?stop"
  define d where "d = (if isRecoveryOmissionSuffix (?stop \<noteq> None) (drop (Suc c) es) then Suc c else c)"
  have k: "k = back_up ?stops start d"
    using assms(1) by (simp add: k_def findProjectedCutPoint_def cut_result_def Let_def c_def d_def)
  have "c \<in> set ?cps" unfolding c_def by (rule budget_cut_in [OF assms(1)])
  then have c: "start \<le> c" "c < ?e" "\<not> source_compaction (es ! c)" "list_ex isCutPointMessage (pe_messages (es ! c))"
    by (auto simp: projected_cut_points_def)
  have rec_ne: "Suc c < ?e" if "isRecoveryOmissionSuffix (?stop \<noteq> None) (drop (Suc c) es)"
    using that by (cases "Suc c < ?e") (auto simp: isRecoveryOmissionSuffix_def)
  have d: "start \<le> d" "d < ?e" using c rec_ne by (auto simp: d_def)
  note b = back_up_props [OF d(1), of ?stops]
  show "start \<le> k" "k < ?e" using b(1,2) d(2) by (auto simp: k)
  have "es ! Suc c \<in> set (drop (Suc c) es)" if "Suc c < ?e"
    using that by (metis Cons_nth_drop_Suc list.set_intros(1))
  then have "\<not> source_compaction (es ! d)"
    using c(3) rec_ne by (auto simp: d_def isRecoveryOmissionSuffix_def list_all_iff)
  then show "\<not> source_compaction (es ! k)"
    using b(2) b(3) [of k] by (cases "k = d") (auto simp: k)
  show "compaction_messages (drop k es) = [] \<or> isCutPointMessage (hd (compaction_messages (drop k es)))"
  proof (cases "isRecoveryOmissionSuffix (?stop \<noteq> None) (drop (Suc c) es)")
    case True
    then have "d = Suc c" by (simp add: d_def)
    moreover have "?stops c" using c(4) by auto
    ultimately have kc: "k = Suc c" using c(1) by (simp add: k)
    have "pe_messages x = []" if "x \<in> set (drop k es)" for x
      using recovery_tail_empty [OF True assms(2) set_drop_subset] that kc by simp
    then show ?thesis using compaction_messages_empty by blast
  next
    case False
    then have dc: "d = c" by (simp add: d_def)
    have "\<forall>x \<in> set (drop k (take c es)). pe_messages x = []"
    proof
      fix x assume "x \<in> set (drop k (take c es))"
      then obtain j where "x = es ! (k + j)" "k + j < c" using c(2) by (auto simp: in_set_conv_nth)
      then show "pe_messages x = []" using b(3) [of "k + j"] by (auto simp: k dc)
    qed
    moreover have "k \<le> c" using b(2) by (simp add: k dc)
    ultimately have eq: "compaction_messages (drop k es) =
        getMessagesFromProjectedEntryForCompaction (es ! c) @ compaction_messages (drop (Suc c) es)"
      using drop_split_at [of k c es] c(2) compaction_messages_empty [of "drop k (take c es)"] by simp
    have "length (pe_messages (es ! c)) \<le> 1" using assms(2) c(2,3) by (auto simp: regular_def)
    then obtain m where m: "pe_messages (es ! c) = [m]" using c(4) by (cases "pe_messages (es ! c)") auto
    with c(4) have cm: "isCutPointMessage m" by simp
    then have "\<not> is_system m" by (cases m rule: isCutPointMessage.cases) auto
    then show ?thesis using eq m cm c(3) by (simp add: getMessagesFromProjectedEntryForCompaction_def)
  qed
qed


section \<open>The preparation partitions the context\<close>

lemma compaction_head:
  assumes "i < length es" and "source_compaction (project_entries es ! i)" and "pe_messages (project_entries es ! i) \<noteq> []"
  shows "i = 0"
  using assms by (simp add: nth_project_entries project_at_def split: if_splits)

lemma drop_take_append:
  assumes "a \<le> b" and "b \<le> c"
  shows "drop a (take b xs) @ drop b (take c xs) = drop a (take c xs)"
proof -
  have "take b xs @ drop b (take c xs) = take c xs"
    using append_take_drop_id [of b "take c xs"] assms(2) by (simp add: min_absorb1)
  then have "drop a (take c xs) = drop a (take b xs @ drop b (take c xs))" by simp
  then show ?thesis using assms by (cases "a \<le> length xs") simp_all
qed

lemma prepare_partition:
  assumes "prepare_projection (projection_of_path path) p settings = Some prep"
  defines "es \<equiv> project_entries (context_entries_of_path path)"
  obtains k where "k < length es" and "pr_firstKeptEntryId prep = se_id (pe_source (es ! k))"
    and "\<not> source_compaction (es ! k)"
    and "compaction_messages es = pr_messagesToSummarize prep @ pr_turnPrefixMessages prep @ compaction_messages (drop k es)"
    and "compaction_messages (drop k es) = [] \<or> isCutPointMessage (hd (compaction_messages (drop k es)))"
    and "pr_messagesToSummarize prep @ pr_turnPrefixMessages prep \<noteq> []"
proof -
  let ?prev = "find_index (\<lambda>e. source_compaction e \<and> pe_messages e \<noteq> []) es"
  define start where "start = (case ?prev of None \<Rightarrow> 0 | Some i \<Rightarrow> Suc i)"
  define cut where "cut = findProjectedCutPoint es start (length es) (cs_keepRecentTokens settings)"
  define k where "k = cr_firstKeptEntryIndex cut"
  define h where "h = (if cr_isSplitTurn cut then the (cr_turnStartIndex cut) else k)"
  have entries: "sp_entries (projection_of_path path) = es" by (simp add: projection_of_path_def es_def Let_def)
  have prep: "k < length es" "pr_firstKeptEntryId prep = se_id (map pe_source es ! k)"
    "pr_messagesToSummarize prep = compaction_messages (drop start (take h es))"
    "pr_turnPrefixMessages prep = (if cr_isSplitTurn cut then compaction_messages (drop h (take k es)) else [])"
    "pr_messagesToSummarize prep @ pr_turnPrefixMessages prep \<noteq> []"
    using assms(1) unfolding prepare_projection_def entries
    by (auto simp: Let_def start_def [symmetric] cut_def [symmetric] k_def [symmetric] h_def split: if_splits)
  have cps: "projected_cut_points es start (length es) \<noteq> []"
  proof
    assume "projected_cut_points es start (length es) = []"
    then have "k = start" "\<not> cr_isSplitTurn cut" by (simp_all add: k_def cut_def findProjectedCutPoint_def)
    then show False using prep(3-5) by (simp add: h_def)
  qed
  note c = findProjectedCutPoint_props [OF cps, of "cs_keepRecentTokens settings", folded cut_def k_def]
  have reg: "regular es" unfolding es_def by (rule regular_project_entries)
  have h: "start \<le> h \<and> h \<le> k"
  proof (cases "cr_isSplitTurn cut")
    case True
    then have "turn_start_before (\<lambda>i. isProjectedTurnStart (es ! i)) start k = Some h"
      using cps by (auto simp: h_def k_def cut_def findProjectedCutPoint_def cut_result_def Let_def split: if_splits)
    then show ?thesis using turn_start_before_Some by blast
  qed (use c(1) [OF reg] in \<open>simp add: h_def\<close>)
  have "compaction_messages (take start es) = []"
  proof (cases ?prev)
    case (Some i)
    then have i: "i < length es" "source_compaction (es ! i)" "pe_messages (es ! i) \<noteq> []"
      using find_index_Some by fastforce+
    then have "i = 0" using compaction_head [of i "context_entries_of_path path"] by (simp add: es_def)
    then show ?thesis
      using Some i by (cases es) (auto simp: start_def getMessagesFromProjectedEntryForCompaction_def)
  qed (simp add: start_def)
  moreover have "es = take start es @ drop start (take h es) @ drop h (take k es) @ drop k es"
    using h prep(1) by (metis append.assoc append_take_drop_id drop_take_append order_refl drop_0 le0 less_imp_le)
  ultimately have "compaction_messages es = compaction_messages (drop start (take h es)) @
      compaction_messages (drop h (take k es)) @ compaction_messages (drop k es)"
    by (metis (no_types, lifting) append_Nil concat_append map_append)
  moreover have "compaction_messages (drop h (take k es)) = pr_turnPrefixMessages prep"
    using prep(4) by (auto simp: h_def)
  ultimately show ?thesis
    using that [of k] prep c(3,4) [OF reg] by simp
qed


section \<open>The context after the compaction\<close>

abbreviation counted :: "session_entry \<Rightarrow> bool" where
  "counted e \<equiv> \<not> is_system_entry e \<and> \<not> is_compaction e"

text \<open>No context edit comes before the entry it edits.\<close>

definition edits_nothing_later :: "session_entry \<Rightarrow> session_entry \<Rightarrow> bool" where
  "edits_nothing_later d e \<longleftrightarrow> (\<forall>r. se_data d \<noteq> ContextEditE (se_id e) r)"

lemma dropWhile_nth_id:
  "distinct (map se_id xs) \<Longrightarrow> k < length xs \<Longrightarrow> dropWhile (\<lambda>e. se_id e \<noteq> se_id (xs ! k)) xs = drop k xs"
proof (induction xs arbitrary: k)
  case (Cons x xs)
  then show ?case by (cases k) (auto simp: nth_eq_iff_index_eq dest: nth_mem)
qed simp

lemma dropWhile_filter_id:
  "P x \<Longrightarrow> x \<in> set xs \<Longrightarrow> distinct (map se_id xs) \<Longrightarrow>
     filter P (dropWhile (\<lambda>e. se_id e \<noteq> se_id x) xs) = dropWhile (\<lambda>e. se_id e \<noteq> se_id x) (filter P xs)"
  by (induction xs) auto

lemma dropWhile_suffix_id:
  assumes "x \<in> set (dropWhile Q xs)" and "distinct (map se_id xs)"
  shows "dropWhile (\<lambda>e. se_id e \<noteq> se_id x) xs = dropWhile (\<lambda>e. se_id e \<noteq> se_id x) (dropWhile Q xs)"
  using assms
proof (induction xs)
  case (Cons y ys)
  show ?case
  proof (cases "Q y")
    case True
    with Cons.prems have "x \<in> set ys" using set_dropWhileD by fastforce
    with Cons.prems have "se_id y \<noteq> se_id x" by (auto simp: image_iff)
    with True Cons show ?thesis by simp
  qed simp
qed simp

lemma dropWhile_absent_append:
  "k \<notin> se_id ` set xs \<Longrightarrow> dropWhile (\<lambda>e. se_id e \<noteq> k) (xs @ ys) = dropWhile (\<lambda>e. se_id e \<noteq> k) ys"
  by (induction xs) auto

lemma dropWhile_present_append:
  "k \<in> se_id ` set xs \<Longrightarrow> dropWhile (\<lambda>e. se_id e \<noteq> k) (xs @ ys) = dropWhile (\<lambda>e. se_id e \<noteq> k) xs @ ys"
  by (induction xs) auto

text \<open>
  Cutting the path at the first kept entry keeps the same counted entries as cutting the old
  context entries there.
\<close>

lemma kept_tail:
  assumes "distinct (map se_id path)" and "k < length (context_entries_of_path path)"
    and "\<not> is_compaction (context_entries_of_path path ! k)"
  shows "filter counted (dropWhile (\<lambda>e. se_id e \<noteq> se_id (context_entries_of_path path ! k)) path) =
    filter counted (drop k (context_entries_of_path path))"
proof (cases "list_ex is_compaction path")
  case False
  then show ?thesis
    using assms(1,2) context_entries_plain [of path] dropWhile_nth_id [of path k] by simp
next
  case True
  then obtain c where "find_last is_compaction path = Some c"
    by (cases "find_last is_compaction path") (auto simp: find_last_None list_ex_iff)
  from find_last_split [OF this] obtain pre post where path: "path = pre @ c # post"
    and c: "is_compaction c" and post: "\<not> list_ex is_compaction post" by (auto simp: list_ex_iff)
  let ?D = "dropWhile (\<lambda>e. se_id e \<noteq> firstKept_of c) pre"
  let ?K = "filter (\<lambda>e. \<not> is_system_entry e) ?D"
  let ?es = "context_entries_of_path path"
  have d: "distinct (map se_id pre)" "distinct (map se_id post)" "se_id ` set pre \<inter> se_id ` set post = {}"
    "se_id c \<notin> se_id ` set pre" "se_id c \<notin> se_id ` set post"
    using assms(1) by (auto simp: path)
  have es: "?es = c # ?K @ post"
    using context_entries_compacted [of pre c post] assms(1) c post by (simp add: path)
  obtain j where k: "k = Suc j" using assms(3) es c by (cases k) auto
  let ?x = "?es ! k"
  show ?thesis
  proof (cases "j < length ?K")
    case True
    then have x: "?x = ?K ! j" by (simp add: es k nth_append)
    have xK: "?x \<in> set ?K" unfolding x by (rule nth_mem [OF True])
    then have xD: "?x \<in> set ?D" and xn: "\<not> is_system_entry ?x" by auto
    then have xp: "?x \<in> set pre" using set_dropWhileD by metis
    have dK: "distinct (map se_id ?K)" "distinct (map se_id ?D)"
      using d(1) by (auto simp: distinct_map_filter dropWhile_eq_drop drop_map [symmetric])
    have "filter (\<lambda>e. \<not> is_system_entry e) (dropWhile (\<lambda>e. se_id e \<noteq> se_id ?x) pre) =
        dropWhile (\<lambda>e. se_id e \<noteq> se_id ?x) ?K"
      using dropWhile_suffix_id [OF xD d(1)] dropWhile_filter_id [of "\<lambda>e. \<not> is_system_entry e" ?x ?D] xn xD dK(2) by simp
    also have "\<dots> = drop j ?K" using dropWhile_nth_id [OF dK(1) True] by (simp only: x)
    finally have "filter counted (dropWhile (\<lambda>e. se_id e \<noteq> se_id ?x) pre) = filter counted (drop j ?K)"
      by (metis (no_types, lifting) filter_cong filter_filter)
    moreover have "dropWhile (\<lambda>e. se_id e \<noteq> se_id ?x) path = dropWhile (\<lambda>e. se_id e \<noteq> se_id ?x) pre @ c # post"
      using xp dropWhile_present_append [of "se_id ?x" pre "c # post"] path by simp
    moreover have "drop k ?es = drop j ?K @ post" using True by (simp add: es k)
    ultimately show ?thesis using c by simp
  next
    case False
    let ?i = "j - length ?K"
    have i: "?i < length post" "?x = post ! ?i" using assms(2) False by (auto simp: es k nth_append)
    then have "se_id ?x \<in> se_id ` set post" by simp
    with d have "se_id ?x \<notin> se_id ` set (pre @ [c])" by (auto simp: image_iff)
    from dropWhile_absent_append [OF this, of post]
    have "dropWhile (\<lambda>e. se_id e \<noteq> se_id ?x) path = drop ?i post"
      using dropWhile_nth_id [OF d(2) i(1)] i(2) by (simp add: path)
    moreover have "drop k ?es = drop ?i post" using False by (simp add: es k)
    ultimately show ?thesis by simp
  qed
qed


lemma find_last_append:
  "find_last P (xs @ ys) = (case find_last P ys of Some y \<Rightarrow> Some y | None \<Rightarrow> find_last P xs)"
  by (induction ys rule: rev_induct) (auto simp flip: append_assoc split: option.splits)

lemma edits_of_tail:
  assumes "\<forall>d \<in> set (take k es). edits_nothing_later d e"
  shows "omap_get (context_edits es) (se_id e) = omap_get (context_edits (drop k es)) (se_id e)"
proof -
  have "find_last (\<lambda>d. \<exists>r. se_data d = ContextEditE (se_id e) r) (take k es) = None"
    using assms by (auto simp: find_last_None edits_nothing_later_def)
  then have "find_last (\<lambda>d. \<exists>r. se_data d = ContextEditE (se_id e) r) es =
      find_last (\<lambda>d. \<exists>r. se_data d = ContextEditE (se_id e) r) (drop k es)"
    using find_last_append [of _ "take k es" "drop k es"] by (simp split: option.splits)
  then show ?thesis by (simp add: get_context_edits)
qed

lemma fold_filter_idle: "(\<And>e. \<not> Q e \<Longrightarrow> f e = (\<lambda>s. s)) \<Longrightarrow> fold f (filter Q xs) s = fold f xs s"
  by (induction xs arbitrary: s) auto

lemma context_edits_counted: "context_edits (filter counted xs) = context_edits xs"
proof -
  have "collect_edit e = (\<lambda>s. s)" if "\<not> counted e" for e
    using that by (auto simp: collect_edit_def is_system_entry_def is_compaction_def fun_eq_iff split: entry_data.splits)
  then show ?thesis unfolding context_edits_def by (intro fold_filter_idle) blast
qed

lemma role_projected:
  assumes "\<not> is_compaction e" and "m \<in> set (projectContextEntry e x)"
  shows "is_system m \<longleftrightarrow> is_system_entry e"
proof -
  have rc: "is_system (replace_content c m) = is_system m" for c m
    by (induction c m rule: replace_content.induct) auto
  have nn: "is_system (normalize_null m) = is_system m" for m
    by (induction m rule: normalize_null.induct) auto
  have "is_system m \<longleftrightarrow> is_system_entry e" if "m \<in> set (sessionEntryToContextMessages e)" for m
    using that assms(1)
    by (auto simp: sessionEntryToContextMessages_def is_system_entry_def is_compaction_def nn createCustomMessage_def
        createBranchSummaryMessage_def split: entry_data.splits if_splits)
  with assms(2) rc show ?thesis
    by (auto simp: projectContextEntry_def Let_def split: option.splits)
qed

lemma concat_filter_idle: "(\<And>e. \<not> Q e \<Longrightarrow> f e = []) \<Longrightarrow> concat (map f (filter Q xs)) = concat (map f xs)"
  by (induction xs) auto

lemma filter_counted: "filter counted (filter (\<lambda>e. \<not> is_system_entry e) xs) = filter counted xs"
  by (induction xs) auto

lemma concat_counted:
  "concat (map (\<lambda>e. if is_compaction e then [] else f e) (filter (\<lambda>e. \<not> is_system_entry e) xs)) =
     concat (map f (filter counted (filter (\<lambda>e. \<not> is_system_entry e) xs)))"
  by (induction xs) auto

lemma projected_tail_messages:
  "compaction_messages (drop k (project_entries es)) =
     concat (map (\<lambda>e. projectContextEntry e (omap_get (context_edits es) (se_id e))) (filter counted (drop k es)))"
proof -
  let ?f = "\<lambda>e. if counted e then projectContextEntry e (omap_get (context_edits es) (se_id e)) else []"
  have "getMessagesFromProjectedEntryForCompaction (project_at (context_edits es) i e) = ?f e" for i e
    using role_projected [of e _ "omap_get (context_edits es) (se_id e)"]
    by (auto simp: getMessagesFromProjectedEntryForCompaction_def project_at_def filter_empty_conv filter_id_conv)
  then have "map getMessagesFromProjectedEntryForCompaction (drop k (project_entries es)) = map ?f (drop k es)"
    by (intro nth_equalityI) (simp_all add: nth_project_entries)
  then have "compaction_messages (drop k (project_entries es)) = concat (map ?f (filter counted (drop k es)))"
    by (simp add: concat_filter_idle)
  also have "map ?f (filter counted (drop k es)) =
      map (\<lambda>e. projectContextEntry e (omap_get (context_edits es) (se_id e))) (filter counted (drop k es))"
    by simp
  finally show ?thesis .
qed

lemma sorted_context_entries:
  assumes "sorted_wrt edits_nothing_later path" and "distinct (map se_id path)"
  shows "sorted_wrt edits_nothing_later (context_entries_of_path path)"
proof (cases "list_ex is_compaction path")
  case False
  then show ?thesis using assms context_entries_plain by simp
next
  case True
  then obtain c where "find_last is_compaction path = Some c"
    by (cases "find_last is_compaction path") (auto simp: find_last_None list_ex_iff)
  from find_last_split [OF this] obtain pre post where path: "path = pre @ c # post"
    and c: "is_compaction c" and post: "\<not> list_ex is_compaction post" by (auto simp: list_ex_iff)
  have "edits_nothing_later c e" for e
    using c by (auto simp: edits_nothing_later_def is_compaction_def split: entry_data.splits)
  then show ?thesis
    using context_entries_compacted [of pre c post] assms c post
    by (auto simp: path sorted_wrt_append dropWhile_eq_drop intro!: sorted_wrt_filter sorted_wrt_drop
        dest: in_set_dropD)
qed

lemma context_after_compaction:
  assumes "distinct (map se_id (path @ [c]))" and "is_compaction c"
    and "k < length (context_entries_of_path path)" and "\<not> is_compaction (context_entries_of_path path ! k)"
    and "firstKept_of c = se_id (context_entries_of_path path ! k)"
    and "sorted_wrt edits_nothing_later (path @ [c])"
  shows "messages_of (context_entries_of_path (path @ [c])) =
    sessionEntryToContextMessages c @ compaction_messages (drop k (project_entries (context_entries_of_path path)))"
proof -
  let ?es = "context_entries_of_path path"
  let ?T = "filter (\<lambda>e. \<not> is_system_entry e) (dropWhile (\<lambda>e. se_id e \<noteq> firstKept_of c) path)"
  let ?edits = "context_edits (c # ?T)"
  have dist: "distinct (map se_id path)" using assms(1) by simp
  have es': "context_entries_of_path (path @ [c]) = c # ?T"
    using context_entries_compacted [of path c "[]"] assms(1,2) by simp
  have cT: "filter counted ?T = filter counted (drop k ?es)"
    using kept_tail [OF dist assms(3,4)] by (simp only: assms(5) filter_counted)
  have nc: "collect_edit c = (\<lambda>s. s)"
    using assms(2) by (auto simp: collect_edit_def is_compaction_def fun_eq_iff split: entry_data.splits)
  have ed: "?edits = context_edits (drop k ?es)"
    using context_edits_counted [of ?T] context_edits_counted [of "drop k ?es"] cT nc
    by (simp add: context_edits_def)
  have own: "omap_get ?edits (se_id c) = None"
  proof -
    have "\<forall>d \<in> set ?T. edits_nothing_later d c"
      using assms(6) by (auto simp: sorted_wrt_append dest!: set_dropWhileD)
    then have "find_last (\<lambda>d. \<exists>r. se_data d = ContextEditE (se_id c) r) ?T = None"
      by (auto simp: find_last_None edits_nothing_later_def)
    then show ?thesis using get_context_edits [of ?T "se_id c"] nc by (simp add: context_edits_def)
  qed
  have srt: "sorted_wrt edits_nothing_later (take k ?es @ drop k ?es)"
    using sorted_context_entries [OF _ dist] assms(6) by (simp add: sorted_wrt_append)
  have same: "omap_get ?edits (se_id e) = omap_get (context_edits ?es) (se_id e)" if "e \<in> set (drop k ?es)" for e
    using edits_of_tail [of k ?es e] srt that unfolding ed sorted_wrt_append by auto
  have "messages_of (c # ?T) = projectContextEntry c (omap_get ?edits (se_id c)) @
      concat (map (\<lambda>e. if is_compaction e then [] else projectContextEntry e (omap_get ?edits (se_id e))) ?T)"
    by (rule project_entries_Cons_messages)
  also have "projectContextEntry c (omap_get ?edits (se_id c)) = sessionEntryToContextMessages c"
    by (simp add: own projectContextEntry_def)
  also have "concat (map (\<lambda>e. if is_compaction e then [] else projectContextEntry e (omap_get ?edits (se_id e))) ?T) =
      concat (map (\<lambda>e. projectContextEntry e (omap_get ?edits (se_id e))) (filter counted ?T))"
    by (rule concat_counted)
  also have "\<dots> = concat (map (\<lambda>e. projectContextEntry e (omap_get (context_edits ?es) (se_id e))) (filter counted (drop k ?es)))"
    unfolding cT using same by (intro arg_cong [of _ _ concat] map_cong) auto
  also have "\<dots> = compaction_messages (drop k (project_entries ?es))" by (rule projected_tail_messages [symmetric])
  finally show ?thesis unfolding es' .
qed


section \<open>Context edits in a reachable session\<close>

definition edits_ok :: "session_entry list \<Rightarrow> bool" where
  "edits_ok es \<longleftrightarrow> sorted_wrt edits_nothing_later es \<and>
     (\<forall>d \<in> set es. \<forall>t r. se_data d = ContextEditE t r \<longrightarrow> t \<in> set (map se_id es))"

lemma edits_ok_snoc:
  assumes "edits_ok es" and "se_id x \<notin> set (map se_id es)"
    and "\<And>t r. se_data x = ContextEditE t r \<Longrightarrow> t \<in> set (map se_id es)"
  shows "edits_ok (es @ [x])"
  using assms by (force simp: edits_ok_def sorted_wrt_append edits_nothing_later_def)

lemma append_child_entries:
  assumes "sm_inv st" and "uuid_ok rt st"
  shows "getEntries (final (append_child rt d st)) = getEntries st \<or>
    getEntries (final (append_child rt d st)) = getEntries st @ [child_entry rt d st]"
proof (cases "append_child rt d st")
  case (Inl p)
  obtain err st' where p: "p = (err, st')" by (cases p)
  have eq: "st' = st\<lparr>sm_files := sm_files st'\<rparr>" using append_child_Inl [OF Inl [unfolded p] assms] by simp
  have "getEntries st' = getEntries st" by (subst eq) simp
  then show ?thesis by (simp add: Inl p final_def)
next
  case (Inr p)
  then show ?thesis using append_child_success(1) [OF _ assms] by (cases p) (simp add: final_def)
qed

lemma append_child_edits:
  assumes "sm_inv st" and "uuid_ok rt st" and "edits_ok (getEntries st)"
    and "\<And>t r. d = ContextEditE t r \<Longrightarrow> t \<in> set (map se_id (getEntries st))"
  shows "edits_ok (getEntries (final (append_child rt d st)))"
proof -
  have "edits_ok (getEntries st @ [child_entry rt d st])"
    using next_id_fresh(1) [OF assms(2) sm_invD(2) [OF assms(1)]] assms(3,4)
    by (intro edits_ok_snoc) (auto simp: child_entry_def)
  then show ?thesis using append_child_entries [OF assms(1,2), of d] assms(3) by auto
qed

lemma sm_step_edits: "sm_step st st' \<Longrightarrow> sm_inv st \<Longrightarrow> edits_ok (getEntries st) \<Longrightarrow> edits_ok (getEntries st')"
proof (induction rule: sm_step.induct)
  case (label rt st target lab)
  have "getEntries (final (appendLabelChange rt target lab st)) = getEntries st \<or>
      getEntries (final (appendLabelChange rt target lab st)) = getEntries (final (append_child rt (LabelE target lab) st))"
    by (auto simp: appendLabelChange_def final_def set_label_eq split: sum.splits)
  then show ?case using append_child_edits [of st rt "LabelE target lab"] label by auto
next
  case (compaction rt st s f t det fh usg r)
  then show ?case
    by (auto simp: appendCompaction_def Let_def split: option.splits intro!: append_child_edits)
next
  case (context_edit rt st target rep r)
  have has: "target \<in> set (map se_id (getEntries st))" if "omap_get (sm_byId st) target = Some x" for x
    using that sm_invD(2) [OF context_edit.prems(1)] get_entry_index_SomeD by fastforce
  from context_edit show ?case
    by (auto simp: appendContextEdit_def final_def [of "Inl _"] split: option.splits if_splits
        intro!: append_child_edits dest: has)
next
  case (branching st b)
  then show ?case by (auto simp: branch_def final_def)
next
  case (reset st)
  then show ?case by (simp add: resetLeaf_def)
next
  case (summary rt st bf s det fh usg)
  show ?case
  proof (cases "case bf of None \<Rightarrow> True | Some i \<Rightarrow> omap_has (sm_byId st) i")
    case True
    then have "sm_inv (st\<lparr>sm_leafId := bf\<rparr>)" using sm_inv_leaf [OF summary.prems(1)] by simp
    from append_child_edits [OF this] summary True show ?thesis
      by (auto simp: branchWithSummary_def split: option.splits)
  next
    case False
    with summary.prems show ?thesis
      by (auto simp: branchWithSummary_def final_def split: option.splits)
  qed
qed (auto simp: append_ops intro!: append_child_edits)

lemma reachable_edits: "reachable st \<Longrightarrow> edits_ok (getEntries st)"
proof (induction rule: reachable.induct)
  case (start rt reqId parent st0 p st)
  then show ?case using newSession_inv by (auto simp: edits_ok_def)
next
  case (step st st')
  then show ?case using sm_step_edits reachable_ok by blast
qed

lemma sorted_wrt_subseq: "subseq xs ys \<Longrightarrow> sorted_wrt R ys \<Longrightarrow> sorted_wrt R xs"
proof (induction rule: list_emb.induct)
  case (list_emb_Cons2 x y xs ys)
  then show ?case using list_emb_set [of "(=)" xs ys] by auto
qed auto

section \<open>Theorems\<close>

lemma linked_chained: "linked p \<Longrightarrow> p \<noteq> [] \<Longrightarrow> chained (se_parentId (hd p)) p"
  by (induction p rule: linked.induct) auto

text \<open>The active branch, as the entries handed to \<open>prepareCompaction\<close>, projects to itself.\<close>

lemma branch_projection:
  assumes "sm_inv st" and "getBranch st None = Some path"
  shows "buildSessionProjection path LeafUndefined None = Some (projection_of_path path)"
    and "distinct (map se_id path)" and "subseq path (getEntries st)" and "wf_entries path" and "chained None path"
proof -
  have "distinct (map se_id path) \<and> subseq path (getEntries st) \<and> wf_entries path \<and> chained None path"
  proof (cases "sm_leafId st")
    case None
    then show ?thesis using assms(2) by (simp add: getBranch_None_leaf)
  next
    case (Some i)
    then obtain e where e: "e \<in> set (getEntries st)" "se_id e = i" using sm_invD(4) [OF assms(1)] by auto
    obtain p where rp: "root_path (entry_index (getEntries st)) e p" and "getBranch st (Some (se_id e)) = Some p"
      using getBranch_exists [OF assms(1) e(1)] .
    then have p: "p = path" using assms(2) Some e by (simp add: getBranch_None_leaf)
    note wf = sm_invD(1) [OF assms(1)]
    note props = root_path_props [OF rp wf e(1)]
    have dist: "distinct (map se_id p)" by (rule root_path_distinct [OF wf e(1) rp])
    have ch: "chained None p" using linked_chained [of p] props by simp
    have "wf_entries p"
      unfolding wf_entries_def using dist props wf_entries_ids [OF wf] by (intro chained_wf [OF ch]) auto
    then show ?thesis using dist ch root_path_subseq [OF wf e(1) rp] p by simp
  qed
  then show d: "distinct (map se_id path)" "subseq path (getEntries st)" "wf_entries path" "chained None path" by auto
  have "buildSessionPath path LeafUndefined None = Some path"
  proof (cases "path = []")
    case True
    then show ?thesis by (simp add: buildSessionPath_def last_option_def walk_up.simps [of _ None])
  next
    case False
    then show ?thesis
      using walk_up_root_path [OF chained_root_path [OF d(4,3) False], of "[]"]
      by (simp add: buildSessionPath_def buildEntryIndex_def fold_index [OF d(1)] last_option_def)
  qed
  then show "buildSessionProjection path LeafUndefined None = Some (projection_of_path path)"
    by (simp add: buildSessionProjection_def)
qed


lemma manager_projection_branch:
  assumes "sm_inv st" and "getBranch st None = Some path"
  shows "manager_projection st = Some (projection_of_path path)"
proof (cases "sm_leafId st")
  case None
  then show ?thesis
    using assms(2)
    by (simp add: manager_projection_def leaf_argument_def buildSessionProjection_def buildSessionPath_def getBranch_None_leaf)
next
  case (Some i)
  then obtain e where e: "e \<in> set (getEntries st)" "se_id e = i" using sm_invD(4) [OF assms(1)] by auto
  note wf = sm_invD(1) [OF assms(1)] and idx = sm_invD(2) [OF assms(1)]
  have "buildSessionPath (getEntries st) (LeafId i) (Some (sm_byId st)) = getBranch st (Some i)"
    using e wf_entries_ids [OF wf e(1)] get_entry_index [OF wf_entries_distinct [OF wf] e(1)]
    by (simp add: buildSessionPath_def buildEntryIndex_def getBranch_def idx)
  then show ?thesis
    using assms(2) Some
    by (simp add: manager_projection_def leaf_argument_def buildSessionProjection_def getBranch_None_leaf)
qed

text \<open>
  C6. Compaction loses and repeats nothing. The messages of the active context (other than prompt
  state and an earlier summary) are exactly the messages handed to the summarizer, then the split
  turn's prefix, then the kept messages; the kept messages never begin with a tool result; and once
  the compaction entry is appended, the model's context is the replayed system message, the new
  summary and those kept messages, in this order.
\<close>

theorem compaction_end_to_end:
  assumes "reachable st" and "uuid_ok rt st" and "getBranch st None = Some path"
    and "prepareCompaction path settings = Some (Some prep)"
    and "appendCompaction rt summary (Some (pr_firstKeptEntryId prep)) tokensBefore details fromHook usg st = Some (Inr (i, st'))"
  shows "\<exists>kept. compaction_messages (sp_entries (projection_of_path path)) =
      pr_messagesToSummarize prep @ pr_turnPrefixMessages prep @ kept \<and>
    (kept = [] \<or> isCutPointMessage (hd kept)) \<and>
    map_option sc_messages (manager_context st') = Some
      ((case getCurrentSystemMessage (agent_system_messages (sp_messages (projection_of_path path))) of
          None \<Rightarrow> [] | Some m \<Rightarrow> [System (m\<lparr>sy_timestamp := rt_now rt\<rparr>)]) @
       CompactionSummary \<lparr>cs_summary = summary, cs_tokensBefore = tokensBefore, cs_timestamp = rt_now rt\<rparr> # kept)"
proof -
  have inv: "sm_inv st" using reachable_ok [OF assms(1)] by simp
  note bp = branch_projection [OF inv assms(3)]
  let ?es = "context_entries_of_path path"
  have "prepare_projection (projection_of_path path) path settings = Some prep"
    using assms(4) bp(1) by (simp add: prepareCompaction_def split: if_splits)
  from prepare_partition [OF this] obtain k where k: "k < length ?es"
    "pr_firstKeptEntryId prep = se_id (?es ! k)" "\<not> is_compaction (?es ! k)"
    and part: "compaction_messages (project_entries ?es) =
      pr_messagesToSummarize prep @ pr_turnPrefixMessages prep @ compaction_messages (drop k (project_entries ?es))"
    and kept: "compaction_messages (drop k (project_entries ?es)) = [] \<or>
      isCutPointMessage (hd (compaction_messages (drop k (project_entries ?es))))"
    by (auto simp: nth_project_entries project_at_def)
  let ?sys = "getCurrentSystemMessage (agent_system_messages (sp_messages (projection_of_path path)))"
  let ?d = "CompactionE \<lparr>cp_summary = summary, cp_firstKeptEntryId = pr_firstKeptEntryId prep,
      cp_tokensBefore = tokensBefore, cp_details = details, cp_usage = usg, cp_fromHook = fromHook,
      cp_systemMessage = map_option (\<lambda>m. m\<lparr>sy_timestamp := rt_now rt\<rparr>) ?sys, cp_firstKeptEntryIndex = None\<rparr>"
  let ?c = "child_entry rt ?d st"
  have a: "append_child rt ?d st = Inr (i, st')"
    using assms(5) manager_projection_branch [OF inv assms(3)] by (simp add: appendCompaction_def Let_def)
  have st': "reachable st'"
    using reachable.step [OF assms(1) sm_step.compaction [OF assms(2,5)]] by (simp add: final_def)
  then have inv': "sm_inv st'" using reachable_ok by simp
  note gb' = append_child_branch [OF a inv assms(2) inv' assms(3)]
  note bp' = branch_projection [OF inv' gb']
  have "sorted_wrt edits_nothing_later (path @ [?c])"
    using sorted_wrt_subseq [OF bp'(3)] reachable_edits [OF st'] by (simp add: edits_ok_def)
  then have "messages_of (context_entries_of_path (path @ [?c])) =
      sessionEntryToContextMessages ?c @ compaction_messages (drop k (project_entries ?es))"
    using bp'(2) k
    by (intro context_after_compaction) (simp_all add: is_compaction_def child_entry_def firstKept_of_def)
  moreover have "sessionEntryToContextMessages ?c =
      (case ?sys of None \<Rightarrow> [] | Some m \<Rightarrow> [System (m\<lparr>sy_timestamp := rt_now rt\<rparr>)]) @
      [CompactionSummary \<lparr>cs_summary = summary, cs_tokensBefore = tokensBefore, cs_timestamp = rt_now rt\<rparr>]"
    by (simp add: sessionEntryToContextMessages_def child_entry_def createCompactionSummaryMessage_def split: option.splits)
  moreover have "map_option sc_messages (manager_context st') =
      Some (messages_of (context_entries_of_path (path @ [?c])))"
    using manager_projection_branch [OF inv' gb'] by (simp add: manager_context_def projection_of_path_def Let_def)
  ultimately show ?thesis
    using part kept
    by (intro exI [of _ "compaction_messages (drop k (project_entries ?es))"])
      (simp add: projection_of_path_def Let_def split: option.splits)
qed


text \<open>A session in memory with two user messages, compacted with a budget of one token.\<close>

definition demo_two :: session_manager where
  "demo_two = final (appendMessage (demo_rt 1 IoOk) (demo_user ''yo'') demo_mem_said)"

definition demo_first :: session_entry where
  "demo_first = \<lparr>se_id = take 8 (demo_uuid 0), se_parentId = None, se_timestamp = 0, se_data = MessageE (demo_user ''hi'')\<rparr>"

definition demo_second :: session_entry where
  "demo_second = \<lparr>se_id = take 8 (demo_uuid 1), se_parentId = Some (take 8 (demo_uuid 0)), se_timestamp = 1,
     se_data = MessageE (demo_user ''yo'')\<rparr>"

definition demo_settings :: compaction_settings where
  "demo_settings = \<lparr>cs_enabled = True, cs_reserveTokens = 0, cs_keepRecentTokens = 1\<rparr>"

lemma demo_ids_differ: "take 8 (demo_uuid 1) \<noteq> take 8 (demo_uuid 0)"
  by (simp add: demo_uuid_def)

lemma demo_mem_said_leaf: "sm_leafId demo_mem_said = Some (take 8 (demo_uuid 0))"
  by (simp add: demo_mem_said_def final_def appendMessage_def append_child_def appendEntry_def persist_entry_def
      session_file_def demo_mem_fields child_entry_def next_id_def generateId_first omap_has_def demo_rt_def Let_def)

lemma demo_two_fields:
  "sm_persist demo_two = False" "sm_leafId demo_two = Some (take 8 (demo_uuid 1))"
  "sm_byId demo_two = [(take 8 (demo_uuid 0), demo_first), (take 8 (demo_uuid 1), demo_second)]"
  using demo_ids_differ
  by (simp_all add: demo_two_def final_def appendMessage_def append_child_def appendEntry_def persist_entry_def
      session_file_def demo_mem_said_fields demo_mem_said_leaf child_entry_def next_id_def generateId_first omap_has_def
      demo_rt_def Let_def demo_first_def demo_second_def)

lemma demo_uuid_ne: "demo_uuid n \<noteq> []" "take 8 (demo_uuid n) \<noteq> []" "length (demo_uuid n) = 36"
  "take 8 (demo_uuid n) \<noteq> demo_uuid m" "demo_uuid m \<noteq> take 8 (demo_uuid n)"
  by (auto simp: demo_uuid_def numeral_eq_Suc)

lemma demo_two_reachable: "reachable demo_two"
  unfolding demo_two_def
  by (intro reachable.step [OF demo_mem_said_reachable] sm_step.message)
    (simp add: uuid_ok_def demo_rt_def omap_has_def demo_mem_said_fields demo_uuid_ne)

lemma demo_two_branch: "getBranch demo_two None = Some [demo_first, demo_second]"
  using demo_ids_differ demo_uuid_ne
  by (simp add: getBranch_def demo_two_fields walk_up.simps parent_entry_def demo_first_def demo_second_def)

lemma demo_two_prepared: "\<exists>prep. prepareCompaction [demo_first, demo_second] demo_settings = Some (Some prep)"
proof -
  have inv: "sm_inv demo_two" using reachable_ok [OF demo_two_reachable] by simp
  have proj: "projection_of_path [demo_first, demo_second] =
      \<lparr>sp_entries = [\<lparr>pe_source = demo_first, pe_messages = [demo_user ''hi'']\<rparr>,
                     \<lparr>pe_source = demo_second, pe_messages = [demo_user ''yo'']\<rparr>],
       sp_messages = [demo_user ''hi'', demo_user ''yo''],
       sp_settings = getSessionContextSettings [demo_first, demo_second]\<rparr>"
    by (simp add: projection_of_path_def context_entries_plain is_compaction_def demo_first_def demo_second_def
        project_entries_def project_at_def context_edits_def collect_edit_def projectContextEntry_def
        sessionEntryToContextMessages_def demo_user_def Let_def)
  have tok: "tokens_of [demo_user t] = ceil4 (length t)" for t
    by (simp add: tokens_of_def demo_user_def content_chars_def estimateTextAndImageContentChars_def)
  let ?es = "sp_entries (projection_of_path [demo_first, demo_second])"
  have src: "\<not> is_compaction demo_first" "\<not> is_compaction demo_second" "se_id demo_second \<noteq> []"
    using demo_uuid_ne by (simp_all add: is_compaction_def demo_first_def demo_second_def)
  have cp: "projected_cut_points ?es 0 2 = [0, 1]"
    by (simp add: projected_cut_points_def proj numeral_2_eq_2 src demo_user_def)
  have bw: "budget_walk (\<lambda>i. tokens_of (pe_messages (?es ! i))) 0 1 2 0 = Some 1"
    by (simp add: proj numeral_2_eq_2 tok ceil4_def)
  have cut: "findProjectedCutPoint ?es 0 2 1 = \<lparr>cr_firstKeptEntryIndex = 1, cr_turnStartIndex = None, cr_isSplitTurn = False\<rparr>"
    by (simp only: findProjectedCutPoint_def cp bw Let_def)
      (simp add: budget_cut_def isRecoveryOmissionSuffix_def cut_result_def isProjectedTurnStart_def proj src demo_user_def Let_def)
  have pc: "find_index (\<lambda>e. source_compaction e \<and> pe_messages e \<noteq> []) ?es = None"
    by (simp add: proj src)
  have len: "length ?es = 2" and one: "pe_source (?es ! Suc 0) = demo_second" by (simp_all add: proj)
  have m: "\<exists>x \<in> set (take (Suc 0) ?es). getMessagesFromProjectedEntryForCompaction x \<noteq> []"
    by (simp add: proj getMessagesFromProjectedEntryForCompaction_def src demo_user_def)
  have "prepare_projection (projection_of_path [demo_first, demo_second]) [demo_first, demo_second] demo_settings \<noteq> None"
    using cut src by (simp add: prepare_projection_def Let_def pc len one m demo_settings_def)
  then show ?thesis
    using branch_projection(1) [OF inv demo_two_branch] src by (auto simp: prepareCompaction_def)
qed

theorem compaction_end_to_end_witness:
  "\<exists>prep i st' kept. prepareCompaction [demo_first, demo_second] demo_settings = Some (Some prep) \<and>
     appendCompaction (demo_rt 2 IoOk) [] (Some (pr_firstKeptEntryId prep)) 2 None False None demo_two = Some (Inr (i, st')) \<and>
     compaction_messages (sp_entries (projection_of_path [demo_first, demo_second])) =
       pr_messagesToSummarize prep @ pr_turnPrefixMessages prep @ kept"
proof -
  obtain prep where prep: "prepareCompaction [demo_first, demo_second] demo_settings = Some (Some prep)"
    using demo_two_prepared by blast
  have inv: "sm_inv demo_two" using reachable_ok [OF demo_two_reachable] by simp
  have ok: "uuid_ok (demo_rt 2 IoOk) demo_two"
    by (simp add: uuid_ok_def demo_rt_def omap_has_def demo_two_fields demo_uuid_ne)
  have "\<exists>q. append_child (demo_rt 2 IoOk) d demo_two = Inr q" for d
    by (simp add: append_child_def appendEntry_def persist_entry_def session_file_def demo_two_fields Let_def)
  then obtain i st' where a: "appendCompaction (demo_rt 2 IoOk) [] (Some (pr_firstKeptEntryId prep)) 2 None False None demo_two =
      Some (Inr (i, st'))"
    using manager_projection_branch [OF inv demo_two_branch]
    by (simp add: appendCompaction_def Let_def) (metis surj_pair)
  from compaction_end_to_end [OF demo_two_reachable ok demo_two_branch prep a] show ?thesis
    using prep a by blast
qed

text \<open>
  The cut keeps about the requested number of tokens: the search returns an index of the range,
  the first entry visible at or after it is a cut point (so never a tool result), and the entries
  after that entry hold fewer tokens than requested, unless it is the last cut point there is, which
  happens only when trailing tool results alone exceed the budget.
\<close>

theorem cut_point_budget:
  assumes "findValidCutPoints es start end' \<noteq> []"
  shows "let k = cr_firstKeptEntryIndex (findCutPoint es start end' keep);
             tokens = (\<lambda>i. tokens_of (sessionEntryToContextMessages (es ! i)))
         in start \<le> k \<and> k < end' \<and>
            (\<exists>c. k \<le> c \<and> c \<in> set (findValidCutPoints es start end') \<and>
               list_all (\<lambda>i. sessionEntryToContextMessages (es ! i) = []) [k..<c] \<and>
               ((\<Sum>i\<in>{Suc c..<end'}. tokens i) < keep \<or> (\<Sum>i\<in>{Suc c..<end'}. tokens i) = 0 \<or>
                c = last (findValidCutPoints es start end')))"
proof -
  let ?cps = "findValidCutPoints es start end'"
  let ?tokens = "\<lambda>i. tokens_of (sessionEntryToContextMessages (es ! i))"
  let ?stop = "budget_walk ?tokens start keep end' 0"
  let ?stops = "\<lambda>i. is_compaction (es ! i) \<or> sessionEntryToContextMessages (es ! i) \<noteq> []"
  define c where "c = budget_cut ?cps ?stop"
  have k: "cr_firstKeptEntryIndex (findCutPoint es start end' keep) = back_up ?stops start c"
    using assms by (simp add: findCutPoint_def cut_result_def Let_def c_def)
  have cin: "c \<in> set ?cps" unfolding c_def by (rule budget_cut_in [OF assms])
  then have c: "start \<le> c" "c < end'" by (auto simp: findValidCutPoints_def)
  have "sorted ?cps" "set ?cps \<subseteq> {start..<end'}" by (auto simp: findValidCutPoints_def sorted_wrt_filter)
  from budget_cut_tail [OF assms this(1) refl this(2), of ?tokens keep]
  have "(\<Sum>i\<in>{Suc c..<end'}. ?tokens i) < keep \<or> (\<Sum>i\<in>{Suc c..<end'}. ?tokens i) = 0 \<or> c = last ?cps"
    by (simp add: c_def)
  moreover have "list_all (\<lambda>i. sessionEntryToContextMessages (es ! i) = []) [back_up ?stops start c..<c]"
  proof -
    have "sessionEntryToContextMessages (es ! i) = []" if "i \<in> set [back_up ?stops start c..<c]" for i
      using back_up_props(3) [OF c(1), of ?stops i] that unfolding atLeastLessThan_upt [symmetric] atLeastLessThan_iff by blast
    then show ?thesis unfolding list_all_iff by blast
  qed
  moreover have "start \<le> back_up ?stops start c" "back_up ?stops start c \<le> c" using back_up_props(1,2) [OF c(1)] by simp_all
  ultimately show ?thesis unfolding Let_def k using c cin by (intro conjI exI [of _ c]) auto
qed

theorem cut_point_budget_witness:
  "cr_firstKeptEntryIndex (findCutPoint [demo_first, demo_second] 0 2 1) < 2"
proof -
  have "findValidCutPoints [demo_first, demo_second] 0 2 \<noteq> []"
    by (simp add: findValidCutPoints_def numeral_2_eq_2 is_compaction_def sessionEntryToContextMessages_def
        demo_first_def demo_second_def demo_user_def)
  from cut_point_budget [OF this, of 1] show ?thesis by (simp add: Let_def)
qed

end
