(* ===== verification/Retry.thy ===== *)
theory Retry
  imports Transcript
begin

text \<open>
  Bounded retry of a model call (packages/ai/src/utils/retry.ts). The verdict on an error message,
  a table of patterns, is an argument; so are the successive responses of the provider and whether
  each backoff sleep completes or is aborted. Callbacks are recorded as a list of events.
\<close>

section \<open>Policy and loop\<close>

datatype retry_verdict = Retryable | NonRetryable | UnknownVerdict

record retry_policy =
  rp_enabled :: bool
  rp_maxRetries :: nat
  rp_baseDelayMs :: nat
  rp_maxAgentDelayMs :: "nat option"

definition DEFAULT_MAX_AGENT_RETRY_DELAY_MS :: nat where
  "DEFAULT_MAX_AGENT_RETRY_DELAY_MS = 60000"

definition MAX_SAFE_INTEGER :: nat where
  "MAX_SAFE_INTEGER = 2 ^ 53 - 1"

definition retryDelayMs :: "retry_policy \<Rightarrow> nat \<Rightarrow> nat" where
  "retryDelayMs policy attempt =
     (let delay = rp_baseDelayMs policy * 2 ^ (attempt - 1);
          safeDelay = (if delay \<le> MAX_SAFE_INTEGER then delay else MAX_SAFE_INTEGER)
      in min safeDelay (case rp_maxAgentDelayMs policy of None \<Rightarrow> DEFAULT_MAX_AGENT_RETRY_DELAY_MS | Some c \<Rightarrow> c))"

datatype retry_event =
    RetryScheduled nat nat nat jstr
  | RetryAttemptStart
  | RetryFinished bool nat "jstr option"

definition finished :: "nat option \<Rightarrow> bool \<Rightarrow> jstr option \<Rightarrow> retry_event list" where
  "finished lastRetry ok err = (case lastRetry of None \<Rightarrow> [] | Some a \<Rightarrow> [RetryFinished ok a err])"

definition error_text :: "assistant_message \<Rightarrow> jstr" where
  "error_text r = (case as_errorMessage r of None \<Rightarrow> [] | Some e \<Rightarrow> e)"

definition error_or_unknown :: "assistant_message \<Rightarrow> jstr" where
  "error_or_unknown r = (if error_text r = [] then js ''Unknown error'' else error_text r)"

text \<open>\<open>produce n\<close> is the response of the call made at attempt \<open>n\<close>; \<open>slept n\<close> that the sleep before it completes.\<close>

function retry_loop ::
    "(jstr \<Rightarrow> retry_verdict) \<Rightarrow> (nat \<Rightarrow> assistant_message) \<Rightarrow> (nat \<Rightarrow> bool) \<Rightarrow> retry_policy \<Rightarrow> nat \<Rightarrow> nat \<Rightarrow>
     nat option \<Rightarrow> assistant_message \<times> retry_event list" where
  "retry_loop classify produce slept policy maxAttempts attempt lastRetry =
     (let response = produce attempt in
      if as_stopReason response = AbortedStop then (response, finished lastRetry False None)
      else if as_stopReason response \<noteq> ErrorStop then (response, finished lastRetry True None)
      else if maxAttempts \<le> attempt \<or> classify (error_text response) \<noteq> Retryable
      then (response, finished lastRetry False (as_errorMessage response))
      else
        let attempt' = Suc attempt;
            scheduled = RetryScheduled attempt' maxAttempts (retryDelayMs policy attempt') (error_or_unknown response)
        in if \<not> slept attempt'
           then (response\<lparr>as_errorMessage := None, as_stopReason := AbortedStop\<rparr>,
                 [scheduled, RetryFinished False attempt' (Some (error_or_unknown response))])
           else let (r, events) = retry_loop classify produce slept policy maxAttempts attempt' (Some attempt')
                in (r, scheduled # RetryAttemptStart # events))"
  by pat_completeness auto
termination
  by (relation "measure (\<lambda>(_, _, _, _, maxAttempts, attempt, _). maxAttempts - attempt)") auto

declare retry_loop.simps [simp del]

definition default_policy :: retry_policy where
  "default_policy = \<lparr>rp_enabled = False, rp_maxRetries = 0, rp_baseDelayMs = 0, rp_maxAgentDelayMs = None\<rparr>"

definition retryAssistantCall ::
    "(jstr \<Rightarrow> retry_verdict) \<Rightarrow> (nat \<Rightarrow> assistant_message) \<Rightarrow> (nat \<Rightarrow> bool) \<Rightarrow> retry_policy option \<Rightarrow>
     assistant_message \<times> retry_event list" where
  "retryAssistantCall classify produce slept policy =
     (case policy of
        None \<Rightarrow> retry_loop classify produce slept default_policy 0 0 None
      | Some p \<Rightarrow> retry_loop classify produce slept p (if rp_enabled p then rp_maxRetries p else 0) 0 None)"

definition isRetryableAssistantError :: "(jstr \<Rightarrow> retry_verdict) \<Rightarrow> assistant_message \<Rightarrow> bool" where
  "isRetryableAssistantError classify m \<longleftrightarrow>
     as_stopReason m = ErrorStop \<and> error_text m \<noteq> [] \<and> classify (error_text m) = Retryable"

section \<open>Contract\<close>

text \<open>
  The number of retries a run of the loop made, and what its result and events must look like:
  \<open>n\<close> retries, each announced, and one closing event when any retry was scheduled.
\<close>

fun scheduled_attempts :: "retry_event list \<Rightarrow> nat list" where
  "scheduled_attempts [] = []"
| "scheduled_attempts (RetryScheduled a _ _ _ # es) = a # scheduled_attempts es"
| "scheduled_attempts (_ # es) = scheduled_attempts es"

definition is_finished :: "retry_event \<Rightarrow> bool" where
  "is_finished e = (case e of RetryFinished _ _ _ \<Rightarrow> True | _ \<Rightarrow> False)"

lemma is_finished_simps [simp]:
  "\<not> is_finished (RetryScheduled a b c d)" "\<not> is_finished RetryAttemptStart" "is_finished (RetryFinished x y z)"
  by (simp_all add: is_finished_def)

lemma finished_props [simp]:
  "scheduled_attempts (finished l ok err) = []"
  "filter is_finished (finished l ok err) = finished l ok err"
  by (auto simp: finished_def split: option.splits)

lemma retry_loop_props:
  assumes "retry_loop classify produce slept policy maxAttempts attempt lastRetry = (r, events)"
    and "attempt \<le> maxAttempts"
  shows "\<exists>n. attempt + n \<le> maxAttempts \<and> scheduled_attempts events = [Suc attempt..<Suc (attempt + n)] \<and>
    (if lastRetry = None \<and> n = 0 then events = [] else events \<noteq> [] \<and> is_finished (last events)) \<and>
    length (filter is_finished events) = (if lastRetry = None \<and> n = 0 then 0 else 1) \<and>
    (r = produce (attempt + n) \<or>
     (0 < n \<and> \<not> slept (attempt + n) \<and> r = (produce (attempt + n - 1))\<lparr>as_errorMessage := None, as_stopReason := AbortedStop\<rparr>)) \<and>
    (as_stopReason r = ErrorStop \<longrightarrow> attempt + n = maxAttempts \<or> classify (error_text r) \<noteq> Retryable)"
  using assms
proof (induction classify produce slept policy maxAttempts attempt lastRetry arbitrary: r events rule: retry_loop.induct)
  case (1 classify produce slept policy maxAttempts attempt lastRetry)
  let ?response = "produce attempt"
  let ?retry = "as_stopReason ?response = ErrorStop \<and> attempt < maxAttempts \<and> classify (error_text ?response) = Retryable"
  show ?case
  proof (cases "?retry \<and> slept (Suc attempt)")
    case True
    obtain r' events' where rec: "retry_loop classify produce slept policy maxAttempts (Suc attempt) (Some (Suc attempt)) = (r', events')"
      by fastforce
    have eq: "r = r'" "events = RetryScheduled (Suc attempt) maxAttempts (retryDelayMs policy (Suc attempt)) (error_or_unknown ?response)
        # RetryAttemptStart # events'"
      using "1.prems"(1) True rec by (auto simp: retry_loop.simps [of _ _ _ _ _ attempt] Let_def)
    from "1.IH" [OF refl _ _ _ refl refl _ rec] True obtain n where
      n: "Suc attempt + n \<le> maxAttempts" "scheduled_attempts events' = [Suc (Suc attempt)..<Suc (Suc attempt + n)]"
        "events' \<noteq> []" "is_finished (last events')" "length (filter is_finished events') = 1"
        "r' = produce (Suc attempt + n) \<or> (0 < n \<and> \<not> slept (Suc attempt + n) \<and>
          r' = (produce (Suc attempt + n - 1))\<lparr>as_errorMessage := None, as_stopReason := AbortedStop\<rparr>)"
        "as_stopReason r' = ErrorStop \<longrightarrow> Suc attempt + n = maxAttempts \<or> classify (error_text r') \<noteq> Retryable"
      by auto
    then show ?thesis
      by (intro exI [of _ "Suc n"]) (auto simp: eq upt_conv_Cons simp del: upt_Suc)
  next
    case False
    show ?thesis
    proof (cases ?retry)
      case True
      with False "1.prems" show ?thesis
        by (intro exI [of _ 1]) (auto simp: retry_loop.simps [of _ _ _ _ _ attempt] Let_def)
    next
      case nr: False
      with "1.prems" show ?thesis
        by (intro exI [of _ 0])
          (auto simp: retry_loop.simps [of _ _ _ _ _ attempt] Let_def finished_def split: if_splits option.splits)
    qed
  qed
qed


text \<open>
  C22. A retried call makes at most the configured number of retries, numbered from one without
  gaps; it returns the response of the last call it made, or that of the call before an aborted
  backoff turned into an aborted message; an error it returns is not retryable or has used up every
  retry; and it reports the end exactly once, as the last event, when and only when it retried.
\<close>

theorem retry_contract:
  "let maxAttempts = (case policy of None \<Rightarrow> 0 | Some p \<Rightarrow> if rp_enabled p then rp_maxRetries p else 0);
       (r, events) = retryAssistantCall classify produce slept policy;
       n = length (scheduled_attempts events)
   in n \<le> maxAttempts \<and> scheduled_attempts events = [1..<Suc n] \<and>
      length (filter is_finished events) = (if n = 0 then 0 else 1) \<and>
      (if n = 0 then events = [] else is_finished (last events)) \<and>
      (if as_stopReason r = ErrorStop \<and> classify (error_text r) = Retryable then n = maxAttempts else True) \<and>
      (r = produce n \<or> (0 < n \<and> \<not> slept n \<and>
        r = (produce (n - 1))\<lparr>as_errorMessage := None, as_stopReason := AbortedStop\<rparr>))"
proof -
  define maxAttempts where "maxAttempts = (case policy of None \<Rightarrow> 0 | Some p \<Rightarrow> if rp_enabled p then rp_maxRetries p else 0)"
  obtain r events where re: "retryAssistantCall classify produce slept policy = (r, events)" by fastforce
  then obtain q where "retry_loop classify produce slept q maxAttempts 0 None = (r, events)"
    by (auto simp: retryAssistantCall_def maxAttempts_def split: option.splits)
  from retry_loop_props [OF this] obtain n where n: "n \<le> maxAttempts" "scheduled_attempts events = [1..<Suc n]"
    "if n = 0 then events = [] else events \<noteq> [] \<and> is_finished (last events)" "length (filter is_finished events) = (if n = 0 then 0 else 1)"
    "r = produce n \<or> (0 < n \<and> \<not> slept n \<and> r = (produce (n - 1))\<lparr>as_errorMessage := None, as_stopReason := AbortedStop\<rparr>)"
    "as_stopReason r = ErrorStop \<longrightarrow> n = maxAttempts \<or> classify (error_text r) \<noteq> Retryable"
    by (auto simp del: upt_Suc)
  show ?thesis
    unfolding re maxAttempts_def [symmetric] using n by (auto simp: Let_def simp del: upt_Suc)
qed

end
