(* ===== verification/Summarization.thy ===== *)
theory Summarization
  imports Compaction Retry
begin

text \<open>
  Generation of compaction and branch summaries (packages/coding-agent/src/core/compaction/
  compaction.ts, second half, and branch-summarization.ts). The provider is a parameter: its
  response to the context of each request, at each attempt. A provider response has content and
  usage. Token budgets are compared in exact arithmetic.
\<close>

section \<open>Prompts\<close>

definition SUMMARIZATION_PROMPT :: jstr where
  \<open>SUMMARIZATION_PROMPT =
     join newline
      [js ''The messages above are a conversation to summarize. Create a structured context checkpoint summary that another LLM will use to continue the work.'',
       [],
       js ''Use this EXACT format:'',
       [],
       js ''## Goal'',
       js ''[What is the user trying to accomplish? Can be multiple items if the session covers different tasks.]'',
       [],
       js ''## Constraints & Preferences'',
       js ''- [Any constraints, preferences, or requirements mentioned by user]'',
       js ''- [Or "(none)" if none were mentioned]'',
       [],
       js ''## Progress'',
       js ''### Done'',
       js ''- [x] [Completed tasks/changes]'',
       [],
       js ''### In Progress'',
       js ''- [ ] [Current work]'',
       [],
       js ''### Blocked'',
       js ''- [Issues preventing progress, if any]'',
       [],
       js ''## Key Decisions'',
       js ''- **[Decision]**: [Brief rationale]'',
       [],
       js ''## Next Steps'',
       js ''1. [Ordered list of what should happen next]'',
       [],
       js ''## Critical Context'',
       js ''- [Any data, examples, or references needed to continue]'',
       js ''- [Or "(none)" if not applicable]'',
       [],
       js ''Keep each section concise. Preserve exact file paths, function names, and error messages.'']\<close>

definition UPDATE_SUMMARIZATION_INSTRUCTIONS :: jstr where
  \<open>UPDATE_SUMMARIZATION_INSTRUCTIONS =
     join newline
      [js ''Update the existing structured summary with new information. RULES:'',
       js ''- PRESERVE all existing information from the previous summary'',
       js ''- ADD new progress, decisions, and context from the new messages'',
       js ''- UPDATE the Progress section: move items from "In Progress" to "Done" when completed'',
       js ''- UPDATE "Next Steps" based on what was accomplished'',
       js ''- PRESERVE exact file paths, function names, and error messages'',
       js ''- If something is no longer relevant, you may remove it'',
       [],
       js ''Use this EXACT format:'',
       [],
       js ''## Goal'',
       js ''[Preserve existing goals, add new ones if the task expanded]'',
       [],
       js ''## Constraints & Preferences'',
       js ''- [Preserve existing, add new ones discovered]'',
       [],
       js ''## Progress'',
       js ''### Done'',
       js ''- [x] [Include previously done items AND newly completed items]'',
       [],
       js ''### In Progress'',
       js ''- [ ] [Current work - update based on progress]'',
       [],
       js ''### Blocked'',
       js ''- [Current blockers - remove if resolved]'',
       [],
       js ''## Key Decisions'',
       js ''- **[Decision]**: [Brief rationale] (preserve all previous, add new)'',
       [],
       js ''## Next Steps'',
       js ''1. [Update based on current state]'',
       [],
       js ''## Critical Context'',
       js ''- [Preserve important context, add new if needed]'',
       [],
       js ''Keep each section concise. Preserve exact file paths, function names, and error messages.'']\<close>

definition UPDATE_SUMMARIZATION_PROMPT :: jstr where
  "UPDATE_SUMMARIZATION_PROMPT =
     js ''The messages above are NEW conversation messages to incorporate into the existing summary provided in <previous-summary> tags.'' @
     blank_line @ UPDATE_SUMMARIZATION_INSTRUCTIONS"

definition TURN_PREFIX_SUMMARIZATION_PROMPT :: jstr where
  \<open>TURN_PREFIX_SUMMARIZATION_PROMPT =
     join newline
      [js ''The messages above are earlier context from an ongoing conversation. Later messages are stored separately and do not need to be reconstructed.'',
       [],
       js ''Create a concise checkpoint of the user'' @ [39] @ js ''s request and the progress shown above. This checkpoint will be placed before the later messages so the conversation can continue with the necessary context.'',
       [],
       js ''## Original Request'',
       js ''[What did the user ask for?]'',
       [],
       js ''## Progress So Far'',
       js ''- [Key decisions and work completed in these messages]'',
       [],
       js ''## Context Needed to Continue'',
       js ''- [Information from these messages needed to understand the later work]'',
       [],
       js ''Only summarize information explicitly present above. Do not infer or recreate later messages.'']\<close>

definition BRANCH_SUMMARY_PREAMBLE :: jstr where
  \<open>BRANCH_SUMMARY_PREAMBLE =
     join newline
      [js ''The user explored a different conversation branch before returning here.'',
       js ''Summary of that exploration:'',
       [],
       []]\<close>

definition BRANCH_SUMMARY_PROMPT :: jstr where
  \<open>BRANCH_SUMMARY_PROMPT =
     join newline
      [js ''Create a structured summary of this conversation branch for context when returning later.'',
       [],
       js ''Use this EXACT format:'',
       [],
       js ''## Goal'',
       js ''[What was the user trying to accomplish in this branch?]'',
       [],
       js ''## Constraints & Preferences'',
       js ''- [Any constraints, preferences, or requirements mentioned]'',
       js ''- [Or "(none)" if none were mentioned]'',
       [],
       js ''## Progress'',
       js ''### Done'',
       js ''- [x] [Completed tasks/changes]'',
       [],
       js ''### In Progress'',
       js ''- [ ] [Work that was started but not finished]'',
       [],
       js ''### Blocked'',
       js ''- [Issues preventing progress, if any]'',
       [],
       js ''## Key Decisions'',
       js ''- **[Decision]**: [Brief rationale]'',
       [],
       js ''## Next Steps'',
       js ''1. [What should happen next to continue this work]'',
       [],
       js ''Keep each section concise. Preserve exact file paths, function names, and error messages.'']\<close>

section \<open>Requests\<close>

record summarizer =
  sz_classify :: "jstr \<Rightarrow> retry_verdict"
  sz_produce :: "nat \<Rightarrow> message list \<Rightarrow> nat \<Rightarrow> assistant_message"
  sz_slept :: "nat \<Rightarrow> nat \<Rightarrow> bool"
  sz_retry :: "retry_policy option"
  sz_now :: int

datatype summary_error =
    SummaryFailure jstr
  | CalledTool jstr
  | NoFirstKeptEntry

definition getSummarizationFailure :: "assistant_message \<Rightarrow> jstr \<Rightarrow> jstr option" where
  "getSummarizationFailure response label =
     (if as_stopReason response = ErrorStop then Some (label @ js '' failed: '' @ error_or_unknown response)
      else if as_stopReason response = LengthStop
      then Some (label @ js '' failed: generation hit the token cap and the summary is incomplete'')
      else None)"

definition completeSummarization :: "summarizer \<Rightarrow> nat \<Rightarrow> message list \<Rightarrow> assistant_message" where
  "completeSummarization sz call ctx =
     fst (retryAssistantCall (sz_classify sz) (sz_produce sz call ctx) (sz_slept sz call) (sz_retry sz))"

definition buildSummarizationContext :: "int \<Rightarrow> jstr \<Rightarrow> message list" where
  "buildSummarizationContext now promptText =
     normalizeContext \<lparr>cx_systemPrompt = Some SUMMARIZATION_SYSTEM_PROMPT,
       cx_messages = [UserM \<lparr>us_content = Some (CBlocks [Text promptText None]), us_timestamp = now\<rparr>],
       cx_tools = None\<rparr>"

definition truthy :: "jstr option \<Rightarrow> bool" where
  "truthy s = (case s of None \<Rightarrow> False | Some t \<Rightarrow> t \<noteq> [])"

definition with_focus :: "jstr \<Rightarrow> jstr option \<Rightarrow> jstr" where
  "with_focus prompt customInstructions =
     (if truthy customInstructions then prompt @ blank_line @ js ''Additional focus: '' @ the customInstructions else prompt)"

definition calls_tool :: "assistant_message \<Rightarrow> bool" where
  "calls_tool r = list_ex (\<lambda>b. tool_call_of b \<noteq> None) (blocks_of (as_content r))"

definition response_text :: "assistant_message \<Rightarrow> jstr" where
  "response_text r = contentText newline (CBlocks (blocks_of (as_content r)))"

definition summary_prompt :: "agent_message list \<Rightarrow> jstr option \<Rightarrow> jstr option \<Rightarrow> jstr" where
  "summary_prompt currentMessages customInstructions previousSummary =
     js ''<conversation>'' @ newline @ serializeConversation (convertToLlm currentMessages) @ newline @
     js ''</conversation>'' @ blank_line @
     (if truthy previousSummary
      then js ''<previous-summary>'' @ newline @ the previousSummary @ newline @ js ''</previous-summary>'' @ blank_line
      else []) @
     with_focus (if truthy previousSummary then UPDATE_SUMMARIZATION_PROMPT else SUMMARIZATION_PROMPT) customInstructions"

definition generateSummaryWithUsage ::
    "summarizer \<Rightarrow> nat \<Rightarrow> agent_message list \<Rightarrow> jstr option \<Rightarrow> jstr option \<Rightarrow> summary_error + jstr \<times> usage option" where
  "generateSummaryWithUsage sz call currentMessages customInstructions previousSummary =
     (let response = completeSummarization sz call
            (buildSummarizationContext (sz_now sz) (summary_prompt currentMessages customInstructions previousSummary))
      in case getSummarizationFailure response (js ''Summarization'') of
           Some f \<Rightarrow> Inl (SummaryFailure f)
         | None \<Rightarrow> if calls_tool response then Inl (CalledTool (js ''Summarization attempted to call a tool''))
                   else Inr (response_text response, as_usage response))"

definition turn_prefix_prompt :: "agent_message list \<Rightarrow> jstr option \<Rightarrow> jstr" where
  "turn_prefix_prompt messages customInstructions =
     with_focus (js ''# Conversation'' @ newline @ serializeConversation (convertToLlm messages) @ blank_line @
       js ''# Instructions'' @ newline @ TURN_PREFIX_SUMMARIZATION_PROMPT) customInstructions"

definition generateTurnPrefixSummary ::
    "summarizer \<Rightarrow> nat \<Rightarrow> agent_message list \<Rightarrow> jstr option \<Rightarrow> summary_error + jstr \<times> usage option" where
  "generateTurnPrefixSummary sz call messages customInstructions =
     (let response = completeSummarization sz call
            (buildSummarizationContext (sz_now sz) (turn_prefix_prompt messages customInstructions))
      in case getSummarizationFailure response (js ''Turn prefix summarization'') of
           Some f \<Rightarrow> Inl (SummaryFailure f)
         | None \<Rightarrow> if calls_tool response then Inl (CalledTool (js ''Turn prefix summarization attempted to call a tool''))
                   else Inr (response_text response, as_usage response))"

section \<open>Compaction\<close>

record compaction_result =
  ro_summary :: jstr
  ro_firstKeptEntryId :: jstr
  ro_tokensBefore :: int
  ro_usage :: "usage option"
  ro_details :: json

definition files_json :: "jstr list \<Rightarrow> jstr list \<Rightarrow> json" where
  "files_json readFiles modifiedFiles =
     JObj [(js ''readFiles'', JArr (map JStr readFiles)), (js ''modifiedFiles'', JArr (map JStr modifiedFiles))]"

definition add_usage :: "usage option \<Rightarrow> usage option \<Rightarrow> usage option" where
  "add_usage history u = (case history of None \<Rightarrow> u | Some h \<Rightarrow> map_option (combineUsage h) u)"

definition split_turn_summary :: "jstr \<Rightarrow> jstr \<Rightarrow> jstr" where
  "split_turn_summary historyText turnText =
     historyText @ blank_line @ js ''---'' @ blank_line @ js ''**Turn Context (split turn):**'' @ blank_line @ turnText"

definition summary_text ::
    "summarizer \<Rightarrow> compaction_preparation \<Rightarrow> jstr option \<Rightarrow> summary_error + jstr \<times> usage option" where
  "summary_text sz prep customInstructions =
     (if pr_isSplitTurn prep \<and> pr_turnPrefixMessages prep \<noteq> [] then
        (case (if pr_messagesToSummarize prep \<noteq> []
               then generateSummaryWithUsage sz 0 (pr_messagesToSummarize prep) customInstructions (pr_previousSummary prep)
               else Inr (case pr_previousSummary prep of None \<Rightarrow> js ''No prior history.'' | Some s \<Rightarrow> s, None)) of
           Inl e \<Rightarrow> Inl e
         | Inr (historyText, historyUsage) \<Rightarrow>
             (case generateTurnPrefixSummary sz 1 (pr_turnPrefixMessages prep) customInstructions of
                Inl e \<Rightarrow> Inl e
              | Inr (turnText, turnUsage) \<Rightarrow> Inr (split_turn_summary historyText turnText, add_usage historyUsage turnUsage)))
      else generateSummaryWithUsage sz 0 (pr_messagesToSummarize prep) customInstructions (pr_previousSummary prep))"

definition compact :: "summarizer \<Rightarrow> compaction_preparation \<Rightarrow> jstr option \<Rightarrow> summary_error + compaction_result" where
  "compact sz prep customInstructions =
     (case summary_text sz prep customInstructions of
        Inl e \<Rightarrow> Inl e
      | Inr (summary, summaryUsage) \<Rightarrow>
          (let (readFiles, modifiedFiles) = computeFileLists (pr_fileOps prep)
           in if pr_firstKeptEntryId prep = [] then Inl NoFirstKeptEntry
              else Inr \<lparr>ro_summary = summary @ formatFileOperations readFiles modifiedFiles,
                        ro_firstKeptEntryId = pr_firstKeptEntryId prep, ro_tokensBefore = pr_tokensBefore prep,
                        ro_usage = summaryUsage, ro_details = files_json readFiles modifiedFiles\<rparr>))"

section \<open>Branch summaries\<close>

text \<open>
  The message an entry contributes. \<open>Inl\<close> marks a message whose content is \<open>null\<close>, on which the
  token estimate that follows throws.
\<close>

definition message_or_null :: "agent_message \<Rightarrow> unit + agent_message option" where
  "message_or_null m = (if null_content m then Inl () else Inr (Some m))"

definition first_message :: "agent_message list \<Rightarrow> unit + agent_message option" where
  "first_message ms = (case ms of [] \<Rightarrow> Inr None | m # _ \<Rightarrow> Inr (Some m))"

definition getMessageFromEntry :: "session_entry \<Rightarrow> content_value option option \<Rightarrow> unit + agent_message option" where
  "getMessageFromEntry e edit =
     (case se_data e of
        MessageE m \<Rightarrow>
          if is_tool_result m then Inr None
          else (case edit of None \<Rightarrow> message_or_null m | Some _ \<Rightarrow> first_message (projectContextEntry e edit))
      | CustomMessageE c \<Rightarrow>
          (case edit of
             Some _ \<Rightarrow> first_message (projectContextEntry e edit)
           | None \<Rightarrow> (case cd_content c of
                None \<Rightarrow> Inl ()
              | Some v \<Rightarrow> Inr (Some (createCustomMessage (cd_customType c) v (cd_display c) (cd_details c) (se_timestamp e)))))
      | BranchSummaryE b \<Rightarrow> Inr (Some (createBranchSummaryMessage (br_summary b) (br_fromId b) (se_timestamp e)))
      | CompactionE c \<Rightarrow> Inr (Some (createCompactionSummaryMessage (cp_summary c) (cp_tokensBefore c) (se_timestamp e)))
      | _ \<Rightarrow> Inr None)"

record branch_preparation =
  bp_messages :: "agent_message list"
  bp_fileOps :: file_operations
  bp_totalTokens :: nat

definition branch_details_ops :: "session_entry \<Rightarrow> file_operations \<Rightarrow> file_operations" where
  "branch_details_ops e ops =
     (case se_data e of
        BranchSummaryE b \<Rightarrow>
          if br_fromHook b then ops
          else ops\<lparr>fo_read := fold set_add (detail_files ''readFiles'' (br_details b)) (fo_read ops),
                   fo_edited := fold set_add (detail_files ''modifiedFiles'' (br_details b)) (fo_edited ops)\<rparr>
      | _ \<Rightarrow> ops)"

definition is_summary_entry :: "session_entry \<Rightarrow> bool" where
  "is_summary_entry e = (case se_data e of CompactionE _ \<Rightarrow> True | BranchSummaryE _ \<Rightarrow> True | _ \<Rightarrow> False)"

text \<open>The second pass, over the entries from newest to oldest.\<close>

fun branch_walk ::
    "edit_map \<Rightarrow> int \<Rightarrow> session_entry list \<Rightarrow> branch_preparation \<Rightarrow> branch_preparation option" where
  "branch_walk edits budget [] acc = Some acc"
| "branch_walk edits budget (e # older) acc =
     (case getMessageFromEntry e (omap_get edits (se_id e)) of
        Inl _ \<Rightarrow> None
      | Inr None \<Rightarrow> branch_walk edits budget older acc
      | Inr (Some m) \<Rightarrow>
          (let tokens = estimateTokens m;
               acc1 = acc\<lparr>bp_fileOps := extractFileOpsFromMessage m (bp_fileOps acc)\<rparr>;
               added = acc1\<lparr>bp_messages := m # bp_messages acc1, bp_totalTokens := bp_totalTokens acc1 + tokens\<rparr>
           in if 0 < budget \<and> int (bp_totalTokens acc + tokens) > budget then
                if is_summary_entry e \<and> 10 * int (bp_totalTokens acc) < 9 * budget then Some added else Some acc1
              else branch_walk edits budget older added))"

definition prepareBranchEntries :: "session_entry list \<Rightarrow> int \<Rightarrow> branch_preparation option" where
  "prepareBranchEntries es tokenBudget =
     branch_walk (context_edits es) tokenBudget (rev es)
       \<lparr>bp_messages = [], bp_fileOps = fold branch_details_ops es createFileOps, bp_totalTokens = 0\<rparr>"

datatype branch_summary_result =
    BranchSummaryText jstr "(usage option \<times> jstr list \<times> jstr list) option"
  | BranchAborted
  | BranchError jstr

definition branch_instructions :: "jstr option \<Rightarrow> bool \<Rightarrow> jstr" where
  "branch_instructions customInstructions replaceInstructions =
     (if replaceInstructions \<and> truthy customInstructions then the customInstructions
      else with_focus BRANCH_SUMMARY_PROMPT customInstructions)"

text \<open>\<open>None\<close>: the preparation throws.\<close>

definition generateBranchSummary ::
    "summarizer \<Rightarrow> session_entry list \<Rightarrow> int \<Rightarrow> int \<Rightarrow> jstr option \<Rightarrow> bool \<Rightarrow> branch_summary_result option" where
  "generateBranchSummary sz es modelContextWindow reserveTokens customInstructions replaceInstructions =
     (let contextWindow = (if modelContextWindow = 0 then 128000 else modelContextWindow) in
      case prepareBranchEntries es (contextWindow - reserveTokens) of
        None \<Rightarrow> None
      | Some prep \<Rightarrow> Some
          (if bp_messages prep = [] then BranchSummaryText (js ''No content to summarize'') None
           else
             let promptText = js ''<conversation>'' @ newline @ serializeConversation (convertToLlm (bp_messages prep)) @ newline @
                   js ''</conversation>'' @ blank_line @ branch_instructions customInstructions replaceInstructions;
                 response = completeSummarization sz 0 (buildSummarizationContext (sz_now sz) promptText)
             in if as_stopReason response = AbortedStop then BranchAborted
                else case getSummarizationFailure response (js ''Branch summarization'') of
                       Some f \<Rightarrow> BranchError f
                     | None \<Rightarrow>
                         if calls_tool response then BranchError (js ''Branch summarization attempted to call a tool'')
                         else let (readFiles, modifiedFiles) = computeFileLists (bp_fileOps prep)
                              in BranchSummaryText (BRANCH_SUMMARY_PREAMBLE @ response_text response @
                                   formatFileOperations readFiles modifiedFiles)
                                   (Some (as_usage response, readFiles, modifiedFiles))))"

end
