(* ===== verification/Branch_Summary.thy ===== *)
theory Branch_Summary
  imports Summarization Session_Branch
begin

text \<open>
  Which entries a branch summary covers (packages/coding-agent/src/core/compaction/
  branch-summarization.ts, \<open>collectEntriesForBranchSummary\<close>), and the properties of summary
  generation: file lists, token budgets, and that no incomplete response becomes a summary.
\<close>

section \<open>Collecting the entries of the abandoned branch\<close>

partial_function (option) collect_up ::
    "session_manager \<Rightarrow> jstr option \<Rightarrow> jstr option \<Rightarrow> session_entry list \<Rightarrow> session_entry list option" where
  "collect_up st ancestor current acc =
     (case current of
        None \<Rightarrow> Some acc
      | Some i \<Rightarrow>
          if i = [] \<or> current = ancestor then Some acc
          else case getEntry st i of
                 None \<Rightarrow> Some acc
               | Some e \<Rightarrow> collect_up st ancestor (se_parentId e) (e # acc))"

definition deepest_common :: "jstr list \<Rightarrow> session_entry list \<Rightarrow> jstr option" where
  "deepest_common oldIds targetPath = map_option se_id (find_last (\<lambda>e. se_id e \<in> set oldIds) targetPath)"

text \<open>\<open>None\<close>: one of the walks does not return.\<close>

definition collectEntriesForBranchSummary ::
    "session_manager \<Rightarrow> jstr option \<Rightarrow> jstr \<Rightarrow> (session_entry list \<times> jstr option) option" where
  "collectEntriesForBranchSummary st oldLeafId targetId =
     (case oldLeafId of
        None \<Rightarrow> Some ([], None)
      | Some old \<Rightarrow>
          if old = [] then Some ([], None)
          else
            (case (getBranch st (Some old), getBranch st (Some targetId)) of
               (Some oldPath, Some targetPath) \<Rightarrow>
                 (let ancestor = deepest_common (map se_id oldPath) targetPath
                  in map_option (\<lambda>es. (es, ancestor)) (collect_up st ancestor (Some old) []))
             | _ \<Rightarrow> None))"

lemma root_path_prefix:
  assumes "root_path index e p" and "p = xs @ y # ys"
  shows "root_path index y (xs @ [y])"
  using assms
proof (induction arbitrary: ys rule: root_path.induct)
  case (at_root e)
  then show ?case by (cases xs) (auto intro: root_path.at_root)
next
  case (below e q p)
  show ?case
  proof (cases ys rule: rev_cases)
    case Nil
    with below show ?thesis by (auto intro: root_path.below)
  next
    case (snoc zs z)
    with below.prems have "p = xs @ y # zs" by simp
    then show ?thesis by (rule below.IH)
  qed
qed

lemma root_path_det: "root_path index e p \<Longrightarrow> root_path index e q \<Longrightarrow> p = q"
  using walk_up_root_path [of index e p "[]"] walk_up_root_path [of index e q "[]"] by simp

text \<open>The upward walk collects the entries of the path below the ancestor.\<close>

lemma collect_up_path:
  assumes "sm_inv st" and "root_path (entry_index (getEntries st)) e (common @ below)" and "e \<in> set (getEntries st)"
    and "below \<noteq> []" and "ancestor = map_option se_id (last_option common)"
  shows "collect_up st ancestor (Some (se_id e)) acc = Some (below @ acc)"
  using assms(2-4)
proof (induction below arbitrary: e acc rule: rev_induct)
  case (snoc y below)
  note wf = sm_invD(1) [OF assms(1)] and idx = sm_invD(2) [OF assms(1)]
  have ye: "y = e" using root_path_props [OF snoc.prems(1) wf snoc.prems(2)] by simp
  have dist: "distinct (map se_id (common @ below @ [y]))"
    using root_path_distinct [OF wf snoc.prems(2,1)] by simp
  have get: "getEntry st (se_id e) = Some e"
    using get_entry_index [OF wf_entries_distinct [OF wf] snoc.prems(2)] by (simp add: getEntry_def idx)
  have lc: "se_id (last common) \<noteq> se_id e" if "common \<noteq> []"
  proof -
    have "se_id (last common) \<in> se_id ` set common" using that by simp
    moreover have "se_id e \<notin> se_id ` set common" using dist ye by auto
    ultimately show ?thesis by metis
  qed
  have ne: "se_id e \<noteq> []" "ancestor \<noteq> Some (se_id e)"
    using wf_entries_ids [OF wf snoc.prems(2)] lc by (auto simp: assms(5) last_option_def)
  have step: "collect_up st ancestor (Some (se_id e)) acc = collect_up st ancestor (se_parentId e) (e # acc)"
    using ne get by (subst collect_up.simps) auto
  from snoc.prems(1) show ?case
  proof cases
    case at_root
    then have "common = []" "below = []" using ye by (auto simp: append_eq_Cons_conv)
    moreover have "se_parentId e = None" using at_root parent_entry_wf [OF wf snoc.prems(2)] by simp
    ultimately show ?thesis using step ye by (simp add: collect_up.simps [of st ancestor None])
  next
    case (below q p')
    then have p': "p' = common @ below" and q: "q \<in> set (getEntries st)" "se_parentId e = Some (se_id q)"
      using ye parent_entry_SomeD by (auto simp del: append_assoc simp flip: append_assoc)
    note rq = below(3) [unfolded p']
    show ?thesis
    proof (cases "below = []")
      case True
      then have "last_option common = Some q"
        using root_path_props [OF rq wf q(1)] by (auto simp: last_option_def)
      then show ?thesis using step q(2) True ye assms(5) by (subst step) (simp add: collect_up.simps [of st "Some (se_id q)" "Some (se_id q)"])
    next
      case False
      from snoc.IH [OF rq q(1) False, of "e # acc"] show ?thesis using step q(2) ye by simp
    qed
  qed
qed simp


section \<open>Theorems\<close>

lemma common_split:
  assumes "wf_entries es" and "root_path (entry_index es) a p" and "root_path (entry_index es) b q"
    and "a \<in> set es" and "b \<in> set es"
  obtains common below where "p = common @ below" and "prefix common q"
    and "deepest_common (map se_id p) q = map_option se_id (last_option common)"
    and "list_all (\<lambda>e. e \<notin> set q) below"
proof (cases "find_last (\<lambda>e. se_id e \<in> set (map se_id p)) q")
  case None
  then have "\<forall>e \<in> set q. se_id e \<notin> set (map se_id p)" by (simp only: find_last_None)
  then have "list_all (\<lambda>e. e \<notin> set q) p" by (auto simp: list_all_iff)
  then show ?thesis using that [of "[]" p] None by (simp add: deepest_common_def last_option_def)
next
  case (Some x)
  from find_last_split [OF this] obtain q1 q2 where q: "q = q1 @ x # q2" and "se_id x \<in> set (map se_id p)"
    and q2: "\<forall>y \<in> set q2. se_id y \<notin> set (map se_id p)" by auto
  then obtain x' where x': "x' \<in> set p" "se_id x' = se_id x" by auto
  have "set p \<subseteq> set es" "set q \<subseteq> set es"
    using root_path_props [OF assms(2,1,4)] root_path_props [OF assms(3,1,5)] by simp_all
  with x' q have "x' = x" using wf_entries_distinct [OF assms(1)] by (auto simp: distinct_map inj_on_def)
  with x' obtain p1 p2 where p: "p = p1 @ x # p2" by (meson split_list)
  have "p1 @ [x] = q1 @ [x]"
    using root_path_det [OF root_path_prefix [OF assms(2) p] root_path_prefix [OF assms(3) q]] .
  then have pq: "p1 = q1" by simp
  have dist: "distinct (map se_id p)" by (rule root_path_distinct [OF assms(1,4,2)])
  have "list_all (\<lambda>e. e \<notin> set q) p2"
    using q2 dist unfolding q p pq by (auto simp: list_all_iff)
  then show ?thesis
    using that [of "p1 @ [x]" p2] p q pq Some by (simp add: deepest_common_def last_option_def prefix_def)
qed

text \<open>
  Leaving a branch summarizes exactly what is left: the collected entries are the part of the
  old path below the deepest ancestor it shares with the target path, in chronological order; none
  of them is on the target path, and the reported ancestor is the last shared entry.
\<close>

theorem branch_collection:
  assumes "reachable st" and "omap_has (sm_byId st) old" and "omap_has (sm_byId st) target"
  shows "\<exists>entries ancestor oldPath targetPath common.
    collectEntriesForBranchSummary st (Some old) target = Some (entries, ancestor) \<and>
    getBranch st (Some old) = Some oldPath \<and> getBranch st (Some target) = Some targetPath \<and>
    oldPath = common @ entries \<and> prefix common targetPath \<and>
    ancestor = map_option se_id (last_option common) \<and> list_all (\<lambda>e. e \<notin> set targetPath) entries"
proof -
  have inv: "sm_inv st" using reachable_ok [OF assms(1)] by simp
  note wf = sm_invD(1) [OF inv]
  obtain a where a: "a \<in> set (getEntries st)" "se_id a = old" using byId_entry [OF inv assms(2)] .
  obtain b where b: "b \<in> set (getEntries st)" "se_id b = target" using byId_entry [OF inv assms(3)] .
  obtain p where p: "root_path (entry_index (getEntries st)) a p" "getBranch st (Some old) = Some p"
    using getBranch_exists [OF inv a(1)] a(2) by metis
  obtain q where q: "root_path (entry_index (getEntries st)) b q" "getBranch st (Some target) = Some q"
    using getBranch_exists [OF inv b(1)] b(2) by metis
  obtain common below where cb: "p = common @ below" "prefix common q"
    "deepest_common (map se_id p) q = map_option se_id (last_option common)" "list_all (\<lambda>e. e \<notin> set q) below"
    using common_split [OF wf p(1) q(1) a(1) b(1)] .
  have "collect_up st (map_option se_id (last_option common)) (Some old) [] = Some below"
  proof (cases "below = []")
    case True
    then have "common \<noteq> [] \<and> last common = a" using root_path_props [OF p(1) wf a(1)] cb(1) by simp
    then show ?thesis using True a(2) by (simp add: collect_up.simps [of st _ "Some old"] last_option_def)
  next
    case False
    then show ?thesis using collect_up_path [OF inv _ a(1) False refl, of common "[]"] p(1) cb(1) a(2) by simp
  qed
  moreover have "old \<noteq> []" using wf_entries_ids [OF wf a(1)] a(2) by simp
  ultimately have "collectEntriesForBranchSummary st (Some old) target = Some (below, map_option se_id (last_option common))"
    using p(2) q(2) cb(3) by (simp add: collectEntriesForBranchSummary_def)
  then show ?thesis using p(2) q(2) cb by blast
qed

theorem branch_collection_witness:
  "\<exists>entries ancestor. collectEntriesForBranchSummary demo_mem_said (Some (take 8 (demo_uuid 0))) (take 8 (demo_uuid 0)) =
     Some (entries, ancestor)"
proof -
  have "omap_has (sm_byId demo_mem_said) (take 8 (demo_uuid 0))" by (simp add: demo_mem_said_fields omap_has_def)
  from branch_collection [OF demo_mem_said_reachable this this] show ?thesis by blast
qed


subsection \<open>Budget of a branch summary\<close>

definition contribution :: "edit_map \<Rightarrow> session_entry \<Rightarrow> agent_message option" where
  "contribution edits e =
     (case getMessageFromEntry e (omap_get edits (se_id e)) of Inr (Some m) \<Rightarrow> Some m | _ \<Rightarrow> None)"

abbreviation contributions :: "edit_map \<Rightarrow> session_entry list \<Rightarrow> agent_message list" where
  "contributions edits es \<equiv> List.map_filter (contribution edits) es"

fun is_summary_message :: "agent_message \<Rightarrow> bool" where
  "is_summary_message (BranchSummary _) = True"
| "is_summary_message (CompactionSummary _) = True"
| "is_summary_message _ = False"

lemma summary_entry_message:
  "is_summary_entry e \<Longrightarrow> getMessageFromEntry e x = Inr (Some m) \<Longrightarrow> is_summary_message m"
  by (auto simp: is_summary_entry_def getMessageFromEntry_def createBranchSummaryMessage_def
      createCompactionSummaryMessage_def split: entry_data.splits)

definition within_budget :: "int \<Rightarrow> agent_message list \<Rightarrow> bool" where
  "within_budget budget ms \<longleftrightarrow>
     (if 0 < budget
      then int (tokens_of ms) \<le> budget \<or>
           (case ms of [] \<Rightarrow> False | m # older \<Rightarrow> is_summary_message m \<and> 10 * int (tokens_of older) < 9 * budget)
      else True)"

lemma tokens_of_Cons [simp]: "tokens_of (m # ms) = estimateTokens m + tokens_of ms"
  by (simp add: tokens_of_def)

lemma branch_walk_props:
  assumes "branch_walk edits budget xs acc = Some r" and "bp_totalTokens acc = tokens_of (bp_messages acc)"
    and "0 < budget \<Longrightarrow> int (bp_totalTokens acc) \<le> budget"
  shows "bp_totalTokens r = tokens_of (bp_messages r) \<and> within_budget budget (bp_messages r) \<and>
    (\<exists>n. bp_messages r = rev (take n (contributions edits xs)) @ bp_messages acc) \<and>
    (budget \<le> 0 \<longrightarrow> bp_messages r = rev (contributions edits xs) @ bp_messages acc)"
  using assms
proof (induction edits budget xs acc rule: branch_walk.induct)
  case (1 edits budget acc)
  then show ?case by (auto simp: within_budget_def map_filter_def)
next
  case (2 edits budget e older acc)
  let ?g = "getMessageFromEntry e (omap_get edits (se_id e))"
  show ?case
  proof (cases ?g)
    case (Inl a)
    with "2.prems" show ?thesis by simp
  next
    case (Inr mo)
    show ?thesis
    proof (cases mo)
      case None
      then have "contributions edits (e # older) = contributions edits older"
        using Inr by (simp add: map_filter_def contribution_def)
      with "2.IH"(1) [OF Inr None] "2.prems" Inr None show ?thesis by simp
    next
      case (Some m)
      have con: "contributions edits (e # older) = m # contributions edits older"
        using Inr Some by (simp add: map_filter_def contribution_def)
      let ?acc1 = "acc\<lparr>bp_fileOps := extractFileOpsFromMessage m (bp_fileOps acc)\<rparr>"
      let ?added = "?acc1\<lparr>bp_messages := m # bp_messages acc, bp_totalTokens := bp_totalTokens acc + estimateTokens m\<rparr>"
      show ?thesis
      proof (cases "0 < budget \<and> budget < int (bp_totalTokens acc + estimateTokens m)")
        case True
        show ?thesis
        proof (cases "is_summary_entry e \<and> 10 * int (bp_totalTokens acc) < 9 * budget")
          case fits: True
          then have "r = ?added" using "2.prems"(1) Inr Some True by (simp add: Let_def)
          moreover have "is_summary_message m" using fits summary_entry_message Inr Some by blast
          ultimately show ?thesis
            using True fits "2.prems"(2) con
            by (auto simp: within_budget_def intro!: exI [of _ 1])
        next
          case nofit: False
          then have "r = ?acc1" using "2.prems"(1) Inr Some True by (auto simp: Let_def)
          then show ?thesis
            using True "2.prems"(2,3) by (auto simp: within_budget_def intro!: exI [of _ 0])
        qed
      next
        case False
        then have rec: "branch_walk edits budget older ?added = Some r"
          using "2.prems"(1) Inr Some by (auto simp: Let_def)
        from "2.IH"(2) [OF Inr Some refl refl refl _ ] False rec "2.prems"(2,3)
        have "bp_totalTokens r = tokens_of (bp_messages r) \<and> within_budget budget (bp_messages r) \<and>
            (\<exists>n. bp_messages r = rev (take n (contributions edits older)) @ m # bp_messages acc) \<and>
            (budget \<le> 0 \<longrightarrow> bp_messages r = rev (contributions edits older) @ m # bp_messages acc)"
          by auto
        then show ?thesis unfolding con by (auto intro: exI [of _ "Suc _"])
      qed
    qed
  qed
qed

text \<open>
  A branch summary is prepared from the newest part of the branch: the selected messages are a
  tail, in order, of the messages the entries contribute, and the token total is theirs; with a
  positive budget they fit it, except that one summary may be taken over it while less than nine
  tenths are used; with a budget that is not positive, as for a model whose context window is at most
  the reserve, nothing is left out at all.
\<close>

theorem branch_budget:
  assumes "prepareBranchEntries es budget = Some prep"
  shows "suffix (bp_messages prep) (contributions (context_edits es) es) \<and>
    bp_totalTokens prep = tokens_of (bp_messages prep) \<and> within_budget budget (bp_messages prep) \<and>
    (if budget \<le> 0 then bp_messages prep = contributions (context_edits es) es else True)"
proof -
  let ?c = "contributions (context_edits es)"
  have rev_c: "?c (rev es) = rev (?c es)" by (simp add: map_filter_def rev_map rev_filter)
  from branch_walk_props [OF assms [unfolded prepareBranchEntries_def]]
  have r: "bp_totalTokens prep = tokens_of (bp_messages prep) \<and> within_budget budget (bp_messages prep) \<and>
      (\<exists>n. bp_messages prep = rev (take n (rev (?c es)))) \<and> (budget \<le> 0 \<longrightarrow> bp_messages prep = ?c es)"
    by (auto simp: tokens_of_def rev_c)
  then obtain n where "bp_messages prep = rev (take n (rev (?c es)))" by blast
  then have "suffix (bp_messages prep) (?c es)" by (simp add: take_rev suffix_drop)
  with r show ?thesis by simp
qed

theorem branch_budget_witness:
  "\<exists>prep. prepareBranchEntries [demo_entry ''a'' None (MessageE (demo_user ''hi''))] 0 = Some prep \<and>
     bp_messages prep = contributions (context_edits [demo_entry ''a'' None (MessageE (demo_user ''hi''))])
       [demo_entry ''a'' None (MessageE (demo_user ''hi''))]"
proof -
  obtain prep where p: "prepareBranchEntries [demo_entry ''a'' None (MessageE (demo_user ''hi''))] 0 = Some prep"
    by (simp add: prepareBranchEntries_def demo_entry_def demo_user_def context_edits_def collect_edit_def
        getMessageFromEntry_def message_or_null_def Let_def)
  from branch_budget [OF p] p show ?thesis by (metis order_refl)
qed

text \<open>
  A message entry whose stored content is \<open>null\<close>, which the session projection turns into an
  empty message, makes the preparation of a branch summary throw when it is the newest entry of the
  branch.
\<close>

theorem branch_null_content_throws:
  assumes "se_data e = MessageE m" and "null_content m" and "\<not> is_tool_result m" and "\<not> list_ex is_context_edit es"
  shows "prepareBranchEntries (es @ [e]) budget = None \<and> \<not> list_ex null_content (sessionEntryToContextMessages e)"
proof -
  have "collect_edit d = (\<lambda>s. s)" if "d \<in> set (es @ [e])" for d
    using that assms(1,4) by (cases "se_data d") (auto simp: collect_edit_def is_context_edit_def list_ex_iff fun_eq_iff)
  then have "context_edits (es @ [e]) = []" unfolding context_edits_def by (intro fold_idle) blast
  then have "prepareBranchEntries (es @ [e]) budget = None"
    using assms(1-3) by (simp add: prepareBranchEntries_def getMessageFromEntry_def message_or_null_def)
  then show ?thesis
    using assms(1) normalize_null_not_null by (simp add: sessionEntryToContextMessages_def)
qed

definition demo_null_user :: agent_message where
  "demo_null_user = User \<lparr>us_content = None, us_timestamp = 0\<rparr>"

theorem branch_null_content_throws_witness:
  "prepareBranchEntries ([] @ [demo_entry ''a'' None (MessageE demo_null_user)]) 100 = None"
  using branch_null_content_throws [of "demo_entry ''a'' None (MessageE demo_null_user)" demo_null_user "[]" 100]
  by (simp add: demo_entry_def demo_null_user_def)

subsection \<open>File lists and complete responses\<close>

lemma set_fold_set_add: "set (fold set_add xs acc) = set xs \<union> set acc"
  by (induction xs arbitrary: acc) (auto simp: set_add_def)

lemma distinct_fold_set_add: "distinct acc \<Longrightarrow> distinct (fold set_add xs acc)"
  by (induction xs arbitrary: acc) (auto simp: set_add_def)

lemma computeFileLists_props:
  assumes "computeFileLists ops = (r, m)"
  shows "set m = set (fo_edited ops) \<union> set (fo_written ops)" and "set r = set (fo_read ops) - set m"
    and "sorted m" and "sorted r" and "distinct m"
  using assms
  by (auto simp: computeFileLists_def Let_def set_fold_set_add distinct_fold_set_add)

text \<open>A response a summary may be made of: complete, without an error, and without tool calls.\<close>

definition usable_response :: "assistant_message \<Rightarrow> bool" where
  "usable_response r \<longleftrightarrow> as_stopReason r \<noteq> ErrorStop \<and> as_stopReason r \<noteq> LengthStop \<and> \<not> calls_tool r"

lemma generateSummaryWithUsage_Inr:
  "generateSummaryWithUsage sz call ms ci prev = Inr (t, u) \<Longrightarrow>
     usable_response (completeSummarization sz call (buildSummarizationContext (sz_now sz) (summary_prompt ms ci prev))) \<and>
     t = response_text (completeSummarization sz call (buildSummarizationContext (sz_now sz) (summary_prompt ms ci prev)))"
  by (auto simp: generateSummaryWithUsage_def getSummarizationFailure_def usable_response_def Let_def
      split: if_splits option.splits)

lemma generateTurnPrefixSummary_Inr:
  "generateTurnPrefixSummary sz call ms ci = Inr (t, u) \<Longrightarrow>
     usable_response (completeSummarization sz call (buildSummarizationContext (sz_now sz) (turn_prefix_prompt ms ci))) \<and>
     t = response_text (completeSummarization sz call (buildSummarizationContext (sz_now sz) (turn_prefix_prompt ms ci)))"
  by (auto simp: generateTurnPrefixSummary_def getSummarizationFailure_def usable_response_def Let_def
      split: if_splits option.splits)

text \<open>
  A compaction result is only ever built from complete responses: when \<open>compact\<close> succeeds, the
  history request, if one was made, and the request for the prefix of a split turn, if the turn is
  split, were each answered without an error, without hitting the token cap and without a tool call,
  and the summary is the texts of exactly those answers followed by the file lists. The result keeps
  the prepared first kept entry, and its file lists are sorted, disjoint and cover the files read,
  written and edited.
\<close>

theorem compact_uses_complete_responses:
  assumes "compact sz prep ci = Inr result"
  shows "let history = completeSummarization sz 0 (buildSummarizationContext (sz_now sz)
               (summary_prompt (pr_messagesToSummarize prep) ci (pr_previousSummary prep)));
             turn = completeSummarization sz 1 (buildSummarizationContext (sz_now sz)
               (turn_prefix_prompt (pr_turnPrefixMessages prep) ci));
             split = (pr_isSplitTurn prep \<and> pr_turnPrefixMessages prep \<noteq> []);
             asked = (\<not> split \<or> pr_messagesToSummarize prep \<noteq> []);
             historyText = (if asked then response_text history
                            else case pr_previousSummary prep of None \<Rightarrow> js ''No prior history.'' | Some s \<Rightarrow> s);
             (r, m) = computeFileLists (pr_fileOps prep)
         in (if asked then usable_response history else True) \<and> (if split then usable_response turn else True) \<and>
            ro_summary result = (if split then split_turn_summary historyText (response_text turn) else historyText) @
              formatFileOperations r m \<and>
            ro_firstKeptEntryId result = pr_firstKeptEntryId prep \<and> pr_firstKeptEntryId prep \<noteq> [] \<and>
            sorted r \<and> sorted m \<and> set r \<inter> set m = {} \<and>
            set r \<union> set m = set (fo_read (pr_fileOps prep)) \<union> set (fo_edited (pr_fileOps prep)) \<union> set (fo_written (pr_fileOps prep))"
proof -
  obtain r m where f: "computeFileLists (pr_fileOps prep) = (r, m)" by fastforce
  obtain t u where st: "summary_text sz prep ci = Inr (t, u)"
    using assms by (auto simp: compact_def split: sum.splits)
  have res: "ro_summary result = t @ formatFileOperations r m" "ro_firstKeptEntryId result = pr_firstKeptEntryId prep"
    "pr_firstKeptEntryId prep \<noteq> []"
    using assms st f by (auto simp: compact_def Let_def split: if_splits)
  have files: "sorted r \<and> sorted m \<and> set r \<inter> set m = {} \<and>
      set r \<union> set m = set (fo_read (pr_fileOps prep)) \<union> set (fo_edited (pr_fileOps prep)) \<union> set (fo_written (pr_fileOps prep))"
    using computeFileLists_props [OF f] by auto
  show ?thesis
  proof (cases "pr_isSplitTurn prep \<and> pr_turnPrefixMessages prep \<noteq> []")
    case True
    then obtain ht hu tt tu where
      h: "(if pr_messagesToSummarize prep \<noteq> []
           then generateSummaryWithUsage sz 0 (pr_messagesToSummarize prep) ci (pr_previousSummary prep)
           else Inr (case pr_previousSummary prep of None \<Rightarrow> js ''No prior history.'' | Some s \<Rightarrow> s, None)) = Inr (ht, hu)"
      and g: "generateTurnPrefixSummary sz 1 (pr_turnPrefixMessages prep) ci = Inr (tt, tu)"
      and t: "t = split_turn_summary ht tt"
      using st by (auto simp: summary_text_def split: sum.splits)
    show ?thesis
      using h generateTurnPrefixSummary_Inr [OF g] t res files True f
      by (cases "pr_messagesToSummarize prep = []") (auto simp: Let_def dest: generateSummaryWithUsage_Inr)
  next
    case False
    then have "generateSummaryWithUsage sz 0 (pr_messagesToSummarize prep) ci (pr_previousSummary prep) = Inr (t, u)"
      using st unfolding summary_text_def by (simp only: if_False)
    from generateSummaryWithUsage_Inr [OF this] show ?thesis
      using res files False f by (simp only: Let_def if_False) auto
  qed
qed


definition demo_response :: assistant_message where
  "demo_response = \<lparr>as_content = Some [Text (js ''ok'') None], as_api = [], as_provider = js ''p'', as_model = js ''m'',
     as_responseModel = None, as_responseId = None, as_providerThinkingLevel = None, as_thinkingLevel = None,
     as_diagnostics = None, as_usage = None, as_stopReason = Stop, as_deferred = None, as_errorMessage = None,
     as_rawStopReason = None, as_endTurn = None, as_timestamp = 0, as_durationMs = None\<rparr>"

definition demo_summarizer :: summarizer where
  "demo_summarizer = \<lparr>sz_classify = (\<lambda>_. UnknownVerdict), sz_produce = (\<lambda>_ _ _. demo_response), sz_slept = (\<lambda>_ _. True),
     sz_retry = None, sz_now = 0\<rparr>"

definition demo_prep :: compaction_preparation where
  "demo_prep = \<lparr>pr_firstKeptEntryId = js ''b'', pr_messagesToSummarize = [demo_user ''hi''], pr_turnPrefixMessages = [],
     pr_isSplitTurn = False, pr_tokensBefore = 1, pr_previousSummary = None, pr_fileOps = createFileOps,
     pr_settings = DEFAULT_COMPACTION_SETTINGS\<rparr>"

lemma demo_complete: "completeSummarization demo_summarizer call ctx = demo_response"
  by (simp add: completeSummarization_def retryAssistantCall_def demo_summarizer_def retry_loop.simps demo_response_def)

theorem compact_uses_complete_responses_witness:
  "\<exists>result. compact demo_summarizer demo_prep None = Inr result \<and> ro_summary result = js ''ok''"
proof -
  have "\<exists>result. compact demo_summarizer demo_prep None = Inr result"
    by (simp add: compact_def summary_text_def demo_prep_def generateSummaryWithUsage_def demo_complete Let_def
        getSummarizationFailure_def calls_tool_def demo_response_def blocks_of_def computeFileLists_def
        createFileOps_def js_def)
  then obtain result where r: "compact demo_summarizer demo_prep None = Inr result" by blast
  from compact_uses_complete_responses [OF r] have "ro_summary result = js ''ok''"
    by (simp add: Let_def demo_prep_def demo_complete computeFileLists_def createFileOps_def formatFileOperations_def
        response_text_def demo_response_def blocks_of_def contentText_def map_filter_def)
  with r show ?thesis by blast
qed

end
