(* ===== verification/Agent_Tools.thy ===== *)
theory Agent_Tools
  imports Messages
begin

text \<open>
  Tool calls of the agent loop (packages/agent/src/agent-loop.ts and types.ts): preparation,
  execution and finalization of one call, and the sequential and parallel execution of the calls of
  a message. Hooks, tools, argument validation, the clock and the scheduler of concurrent calls are
  parameters over a world \<open>'w\<close> that they read and change; the hooks that are documented never to
  throw are total, the others return an error message in place of a result. The events handed to the
  event sink are returned as a list.
\<close>

section \<open>Data\<close>

type_synonym arguments = "(jstr \<times> json) list"

record agent_tool = tool +
  at_sequential :: bool

record agent_context =
  ac_messages :: "agent_message list"
  ac_tools :: "agent_tool list"

text \<open>\<open>AgentToolResult\<close>. Untyped tools can leave the content out.\<close>

record tool_output =
  to_content :: "content list option"
  to_details :: "json option"
  to_structuredContent :: "json option"
  to_usage :: "usage option"
  to_isError :: bool
  to_terminate :: "bool option"

record tool_call_outcome =
  oc_toolCall :: tool_call
  oc_result :: tool_output
  oc_isError :: bool
  oc_durationMs :: "int option"

datatype agent_event =
    AgentStart
  | AgentEnd "agent_message list"
  | TurnStart
  | TurnEnd assistant_message "tool_result_message list"
  | MessageStart agent_message
  | MessageUpdate agent_message
  | MessageEnd agent_message
  | ToolExecutionStart jstr jstr arguments
  | ToolExecutionUpdate jstr jstr arguments tool_output
  | ToolExecutionEnd jstr jstr tool_output bool "int option"

record before_tool_call_result =
  bf_block :: bool
  bf_reason :: "jstr option"
  bf_terminate :: bool

record after_tool_call_result =
  af_content :: "content list option"
  af_details :: "json option"
  af_structuredContent :: "json option"
  af_isError :: "bool option"
  af_usage :: "usage option"
  af_terminate :: "bool option"

text \<open>
  What the loop calls while it runs tools. \<open>tk_execute\<close> gives the partial results a tool reports
  before it settles, its result or the message of the error it throws, and the time it took.
  \<open>tk_schedule\<close> picks which of several running calls proceeds next.
\<close>

record 'w tool_hooks =
  tk_sequential :: bool
  tk_prepareArguments :: "agent_tool \<Rightarrow> arguments \<Rightarrow> jstr + arguments"
  tk_validateToolArguments :: "agent_tool \<Rightarrow> tool_call \<Rightarrow> jstr + json"
  tk_beforeToolCall :: "(assistant_message \<Rightarrow> tool_call \<Rightarrow> json \<Rightarrow> agent_context \<Rightarrow> 'w \<Rightarrow>
     (jstr + before_tool_call_result option) \<times> 'w) option"
  tk_afterToolCall :: "(assistant_message \<Rightarrow> tool_call \<Rightarrow> json \<Rightarrow> tool_output \<Rightarrow> bool \<Rightarrow> agent_context \<Rightarrow> 'w \<Rightarrow>
     (jstr + after_tool_call_result option) \<times> 'w) option"
  tk_execute :: "agent_tool \<Rightarrow> jstr \<Rightarrow> json \<Rightarrow> 'w \<Rightarrow> (tool_output list \<times> (jstr + tool_output) \<times> int) \<times> 'w"
  tk_aborted :: "'w \<Rightarrow> bool"
  tk_schedule :: "'w \<Rightarrow> nat \<times> 'w"
  tk_now :: "'w \<Rightarrow> int \<times> 'w"

section \<open>One tool call\<close>

definition createErrorToolResult :: "jstr \<Rightarrow> tool_output" where
  "createErrorToolResult text =
     \<lparr>to_content = Some [Text text None], to_details = Some (JObj []), to_structuredContent = None, to_usage = None,
      to_isError = False, to_terminate = None\<rparr>"

datatype preparation =
    Immediate tool_output bool
  | Prepared tool_call agent_tool json

definition prepareToolCallArguments ::
    "'w tool_hooks \<Rightarrow> agent_tool \<Rightarrow> tool_call \<Rightarrow> jstr + tool_call" where
  "prepareToolCallArguments hk t c =
     (case tk_prepareArguments hk t (tc_arguments c) of
        Inl err \<Rightarrow> Inl err
      | Inr args \<Rightarrow> Inr (c\<lparr>tc_arguments := args\<rparr>))"

definition aborted_result :: preparation where
  "aborted_result = Immediate (createErrorToolResult (js ''Operation aborted'')) True"

definition blocked_result :: "before_tool_call_result \<Rightarrow> preparation" where
  "blocked_result b =
     (let reason = (case bf_reason b of Some r \<Rightarrow> if r = [] then js ''Tool execution was blocked'' else r
                                      | None \<Rightarrow> js ''Tool execution was blocked'');
          result = createErrorToolResult reason
      in Immediate (if bf_terminate b then result\<lparr>to_terminate := Some True\<rparr> else result) True)"

definition prepareToolCall ::
    "'w tool_hooks \<Rightarrow> agent_context \<Rightarrow> assistant_message \<Rightarrow> tool_call \<Rightarrow> agent_tool list \<Rightarrow> 'w \<Rightarrow> preparation \<times> 'w" where
  "prepareToolCall hk ctx msg c tools w =
     (case find (\<lambda>t. t_name t = tc_name c) tools of
        None \<Rightarrow> (Immediate (createErrorToolResult (js ''Tool '' @ tc_name c @ js '' not found'')) True, w)
      | Some t \<Rightarrow>
          (case prepareToolCallArguments hk t c of
             Inl err \<Rightarrow> (Immediate (createErrorToolResult err) True, w)
           | Inr prepared \<Rightarrow>
               (case tk_validateToolArguments hk t prepared of
                  Inl err \<Rightarrow> (Immediate (createErrorToolResult err) True, w)
                | Inr args \<Rightarrow>
                    (case tk_beforeToolCall hk of
                       None \<Rightarrow> (if tk_aborted hk w then aborted_result else Prepared c t args, w)
                     | Some before \<Rightarrow>
                         (case before msg c args ctx w of
                            (Inl err, w1) \<Rightarrow> (Immediate (createErrorToolResult err) True, w1)
                          | (Inr b, w1) \<Rightarrow>
                              (if tk_aborted hk w1 then aborted_result
                               else case b of
                                      Some br \<Rightarrow> if bf_block br then blocked_result br else Prepared c t args
                                    | None \<Rightarrow> Prepared c t args, w1))))))"

text \<open>The settled outcome of an execution; the partial results become update events.\<close>

definition settled :: "jstr + tool_output \<Rightarrow> tool_output \<times> bool" where
  "settled r = (case r of Inl err \<Rightarrow> (createErrorToolResult err, True) | Inr out \<Rightarrow> (out, to_isError out))"

definition emitToolExecutionUpdate :: "tool_call \<Rightarrow> tool_output \<Rightarrow> agent_event" where
  "emitToolExecutionUpdate c partial = ToolExecutionUpdate (tc_id c) (tc_name c) (tc_arguments c) partial"

text \<open>The operator \<open>??\<close>: \<open>null\<close> counts as absent.\<close>

definition coalesce :: "json option \<Rightarrow> json option \<Rightarrow> json option" where
  "coalesce a b = (case a of None \<Rightarrow> b | Some v \<Rightarrow> if v = JNull then b else Some v)"

definition merge_after :: "after_tool_call_result \<Rightarrow> tool_output \<Rightarrow> tool_output" where
  "merge_after a r =
     r\<lparr>to_content := (case af_content a of Some c \<Rightarrow> Some c | None \<Rightarrow> to_content r),
       to_details := coalesce (af_details a) (to_details r),
       to_usage := (case af_usage a of Some u \<Rightarrow> Some u | None \<Rightarrow> to_usage r),
       to_terminate := (case af_terminate a of Some t \<Rightarrow> Some t | None \<Rightarrow> to_terminate r),
       to_structuredContent :=
         coalesce (af_structuredContent a) (if af_content a = None then to_structuredContent r else None)\<rparr>"

definition finalizeExecutedToolCall ::
    "'w tool_hooks \<Rightarrow> agent_context \<Rightarrow> assistant_message \<Rightarrow> tool_call \<Rightarrow> json \<Rightarrow> tool_output \<times> bool \<Rightarrow> int \<Rightarrow> 'w \<Rightarrow>
     tool_call_outcome \<times> 'w" where
  "finalizeExecutedToolCall hk ctx msg c args executed durationMs w =
     (let outcome = (\<lambda>result isError. \<lparr>oc_toolCall = c, oc_result = result, oc_isError = isError, oc_durationMs = Some durationMs\<rparr>)
      in case tk_afterToolCall hk of
           None \<Rightarrow> (outcome (fst executed) (snd executed), w)
         | Some after \<Rightarrow>
             (case after msg c args (fst executed) (snd executed) ctx w of
                (Inl err, w1) \<Rightarrow> (outcome (createErrorToolResult err) True, w1)
              | (Inr None, w1) \<Rightarrow> (outcome (fst executed) (snd executed), w1)
              | (Inr (Some a), w1) \<Rightarrow>
                  (outcome (merge_after a (fst executed)) (case af_isError a of Some e \<Rightarrow> e | None \<Rightarrow> snd executed), w1)))"

definition immediate_outcome :: "tool_call \<Rightarrow> tool_output \<Rightarrow> bool \<Rightarrow> tool_call_outcome" where
  "immediate_outcome c result isError =
     \<lparr>oc_toolCall = c, oc_result = result, oc_isError = isError, oc_durationMs = None\<rparr>"

definition emitToolExecutionEnd :: "tool_call_outcome \<Rightarrow> agent_event" where
  "emitToolExecutionEnd oc =
     ToolExecutionEnd (tc_id (oc_toolCall oc)) (tc_name (oc_toolCall oc)) (oc_result oc) (oc_isError oc) (oc_durationMs oc)"

definition emitToolExecutionStart :: "tool_call \<Rightarrow> agent_event" where
  "emitToolExecutionStart c = ToolExecutionStart (tc_id c) (tc_name c) (tc_arguments c)"

definition createToolResultMessage :: "int \<Rightarrow> tool_call_outcome \<Rightarrow> tool_result_message" where
  "createToolResultMessage now oc =
     \<lparr>tr_toolCallId = tc_id (oc_toolCall oc), tr_toolName = tc_name (oc_toolCall oc),
      tr_content = Some (case to_content (oc_result oc) of None \<Rightarrow> [] | Some c \<Rightarrow> c),
      tr_details = to_details (oc_result oc), tr_usage = to_usage (oc_result oc), tr_nestedCalls = [],
      tr_isError = oc_isError oc, tr_timestamp = now, tr_durationMs = oc_durationMs oc\<rparr>"

definition emitToolResultMessage :: "tool_result_message \<Rightarrow> agent_event list" where
  "emitToolResultMessage m = [MessageStart (ToolResult m), MessageEnd (ToolResult m)]"

definition shouldTerminateToolBatch :: "tool_call_outcome list \<Rightarrow> bool" where
  "shouldTerminateToolBatch ocs \<longleftrightarrow> ocs \<noteq> [] \<and> list_all (\<lambda>oc. to_terminate (oc_result oc) = Some True) ocs"

text \<open>\<open>runToolCall\<close>: the same steps for a call issued by another tool, without events of its own.\<close>

definition runToolCall ::
    "'w tool_hooks \<Rightarrow> agent_context \<Rightarrow> assistant_message \<Rightarrow> agent_tool list \<Rightarrow> tool_call \<Rightarrow> 'w \<Rightarrow> tool_call_outcome \<times> 'w" where
  "runToolCall hk ctx msg tools c w =
     (case prepareToolCall hk ctx msg c tools w of
        (Immediate result isError, w1) \<Rightarrow> (immediate_outcome c result isError, w1)
      | (Prepared c1 t args, w1) \<Rightarrow>
          (case tk_execute hk t (tc_id c1) args w1 of
             ((updates, r, durationMs), w2) \<Rightarrow> finalizeExecutedToolCall hk ctx msg c1 args (settled r) durationMs w2))"

section \<open>Batches\<close>

record tool_batch =
  tb_messages :: "tool_result_message list"
  tb_terminate :: bool

subsection \<open>A truncated message\<close>

definition truncated_text :: "tool_call \<Rightarrow> jstr" where
  "truncated_text c =
     js ''Tool call '' @ [34] @ tc_name c @ [34] @ js '' was not executed: the response hit the output token limit, so its arguments may be truncated. Re-issue the tool call with complete arguments.''"

fun failToolCalls :: "'w tool_hooks \<Rightarrow> tool_call list \<Rightarrow> 'w \<Rightarrow> tool_result_message list \<times> agent_event list \<times> 'w" where
  "failToolCalls hk [] w = ([], [], w)"
| "failToolCalls hk (c # cs) w =
     (let oc = immediate_outcome c (createErrorToolResult (truncated_text c)) True;
          (now, w1) = tk_now hk w;
          m = createToolResultMessage now oc;
          (ms, es, w2) = failToolCalls hk cs w1
      in (m # ms, emitToolExecutionStart c # emitToolExecutionEnd oc # emitToolResultMessage m @ es, w2))"

definition failToolCallsFromTruncatedMessage ::
    "'w tool_hooks \<Rightarrow> tool_call list \<Rightarrow> 'w \<Rightarrow> tool_batch \<times> agent_event list \<times> 'w" where
  "failToolCallsFromTruncatedMessage hk cs w =
     (case failToolCalls hk cs w of (ms, es, w1) \<Rightarrow> (\<lparr>tb_messages = ms, tb_terminate = False\<rparr>, es, w1))"

subsection \<open>Sequential execution\<close>

text \<open>Preparation, execution and finalization of one call, with its update events.\<close>

definition run_one ::
    "'w tool_hooks \<Rightarrow> agent_context \<Rightarrow> assistant_message \<Rightarrow> tool_call \<Rightarrow> 'w \<Rightarrow> tool_call_outcome \<times> agent_event list \<times> 'w" where
  "run_one hk ctx msg c w =
     (case prepareToolCall hk ctx msg c (ac_tools ctx) w of
        (Immediate result isError, w1) \<Rightarrow> (immediate_outcome c result isError, [], w1)
      | (Prepared c1 t args, w1) \<Rightarrow>
          (case tk_execute hk t (tc_id c1) args w1 of
             ((updates, r, durationMs), w2) \<Rightarrow>
               (let (oc, w3) = finalizeExecutedToolCall hk ctx msg c1 args (settled r) durationMs w2
                in (oc, map (emitToolExecutionUpdate c) updates, w3))))"

fun sequential_calls ::
    "'w tool_hooks \<Rightarrow> agent_context \<Rightarrow> assistant_message \<Rightarrow> tool_call list \<Rightarrow> 'w \<Rightarrow>
     (tool_call_outcome \<times> tool_result_message) list \<times> agent_event list \<times> 'w" where
  "sequential_calls hk ctx msg [] w = ([], [], w)"
| "sequential_calls hk ctx msg (c # cs) w =
     (let (oc, updates, w1) = run_one hk ctx msg c w;
          (now, w2) = tk_now hk w1;
          m = createToolResultMessage now oc;
          (rest, es, w3) = (if tk_aborted hk w2 then ([], [], w2) else sequential_calls hk ctx msg cs w2)
      in ((oc, m) # rest,
          emitToolExecutionStart c # updates @ emitToolExecutionEnd oc # emitToolResultMessage m @ es, w3))"

definition executeToolCallsSequential ::
    "'w tool_hooks \<Rightarrow> agent_context \<Rightarrow> assistant_message \<Rightarrow> tool_call list \<Rightarrow> 'w \<Rightarrow> tool_batch \<times> agent_event list \<times> 'w" where
  "executeToolCallsSequential hk ctx msg cs w =
     (case sequential_calls hk ctx msg cs w of
        (rs, es, w1) \<Rightarrow>
          (\<lparr>tb_messages = map snd rs, tb_terminate = shouldTerminateToolBatch (map fst rs)\<rparr>, es, w1))"

subsection \<open>Parallel execution\<close>

text \<open>
  A call of the batch after the preparation loop: settled at once, waiting to be started, or running
  with partial results still to report. \<open>Promise.all\<close> starts the waiting calls one after the other
  and collects the outcomes in source order; between the two the scheduler picks which running call
  proceeds.
\<close>

datatype call_state =
    Settled tool_call_outcome
  | Waiting tool_call agent_tool json
  | Running tool_call json "tool_output list" "tool_output \<times> bool" int

fun prepare_calls ::
    "'w tool_hooks \<Rightarrow> agent_context \<Rightarrow> assistant_message \<Rightarrow> tool_call list \<Rightarrow> 'w \<Rightarrow> call_state list \<times> agent_event list \<times> 'w" where
  "prepare_calls hk ctx msg [] w = ([], [], w)"
| "prepare_calls hk ctx msg (c # cs) w =
     (let (p, w1) = prepareToolCall hk ctx msg c (ac_tools ctx) w;
          (s, es0) = (case p of
             Immediate result isError \<Rightarrow>
               (let oc = immediate_outcome c result isError in (Settled oc, [emitToolExecutionEnd oc]))
           | Prepared c1 t args \<Rightarrow> (Waiting c1 t args, []));
          (rest, es, w2) = (if tk_aborted hk w1 then ([], [], w1) else prepare_calls hk ctx msg cs w1)
      in (s # rest, emitToolExecutionStart c # es0 @ es, w2))"

fun start_calls :: "'w tool_hooks \<Rightarrow> call_state list \<Rightarrow> 'w \<Rightarrow> call_state list \<times> agent_event list \<times> 'w" where
  "start_calls hk [] w = ([], [], w)"
| "start_calls hk (Waiting c t args # ss) w =
     (if tk_aborted hk w
      then (let oc = immediate_outcome c (createErrorToolResult (js ''Operation aborted'')) True;
                (ss', es, w1) = start_calls hk ss w
            in (Settled oc # ss', emitToolExecutionEnd oc # es, w1))
      else case tk_execute hk t (tc_id c) args w of
             ((updates, r, durationMs), w1) \<Rightarrow>
               (let (ss', es, w2) = start_calls hk ss w1
                in (Running c args updates (settled r) durationMs # ss', es, w2)))"
| "start_calls hk (s # ss) w = (let (ss', es, w1) = start_calls hk ss w in (s # ss', es, w1))"

fun step_call ::
    "'w tool_hooks \<Rightarrow> agent_context \<Rightarrow> assistant_message \<Rightarrow> call_state \<Rightarrow> 'w \<Rightarrow> call_state \<times> agent_event list \<times> 'w" where
  "step_call hk ctx msg (Running c args (u # us) executed durationMs) w =
     (Running c args us executed durationMs, [emitToolExecutionUpdate c u], w)"
| "step_call hk ctx msg (Running c args [] executed durationMs) w =
     (let (oc, w1) = finalizeExecutedToolCall hk ctx msg c args executed durationMs w
      in (Settled oc, [emitToolExecutionEnd oc], w1))"
| "step_call hk ctx msg s w = (s, [], w)"

fun running_work :: "call_state \<Rightarrow> nat" where
  "running_work (Running _ _ us _ _) = Suc (length us)"
| "running_work _ = 0"

definition running :: "call_state list \<Rightarrow> nat list" where
  "running ss = filter (\<lambda>i. running_work (ss ! i) \<noteq> 0) [0..<length ss]"

text \<open>The index of the call that proceeds: the scheduler's choice among the running ones.\<close>

definition pick :: "nat \<Rightarrow> call_state list \<Rightarrow> nat" where
  "pick n ss = running ss ! (n mod length (running ss))"

lemma pick_running:
  assumes "running ss \<noteq> []"
  shows "pick n ss < length ss" and "running_work (ss ! pick n ss) \<noteq> 0"
proof -
  have "pick n ss \<in> set (running ss)" unfolding pick_def using assms by (intro nth_mem) simp
  then show "pick n ss < length ss" and "running_work (ss ! pick n ss) \<noteq> 0" by (auto simp: running_def)
qed

lemma sum_list_update_less:
  fixes f :: "'a \<Rightarrow> nat"
  shows "i < length xs \<Longrightarrow> f y < f (xs ! i) \<Longrightarrow> sum_list (map f (xs[i := y])) < sum_list (map f xs)"
proof (induction xs arbitrary: i)
  case (Cons x xs)
  then show ?case by (cases i) auto
qed simp

definition total_work :: "call_state list \<Rightarrow> nat" where
  "total_work ss = sum_list (map running_work ss)"

text \<open>Every step of a running call uses up some of its work.\<close>

lemma step_call_progress:
  assumes "running_work s \<noteq> 0"
  shows "running_work (fst (step_call hk ctx msg s w)) < running_work s"
proof (cases s)
  case (Running c args us executed durationMs)
  then show ?thesis by (cases us) (simp_all split: prod.splits)
qed (use assms in simp_all)

function run_calls ::
    "'w tool_hooks \<Rightarrow> agent_context \<Rightarrow> assistant_message \<Rightarrow> call_state list \<Rightarrow> 'w \<Rightarrow> call_state list \<times> agent_event list \<times> 'w" where
  "run_calls hk ctx msg ss w =
     (if running ss = [] then (ss, [], w)
      else
        let (n, w1) = tk_schedule hk w;
            i = pick n ss;
            (s, es, w2) = step_call hk ctx msg (ss ! i) w1;
            (ss', es', w3) = run_calls hk ctx msg (ss[i := s]) w2
        in (ss', es @ es', w3))"
  by pat_completeness auto
termination
proof (relation "measure (\<lambda>(_, _, _, ss, _). total_work ss)", goal_cases)
  case (2 hk ctx msg ss w p n w1 i q s q2 es w2)
  then have "fst (step_call hk ctx msg (ss ! i) w1) = s" by (metis fst_conv)
  then have "running_work s < running_work (ss ! i)"
    using step_call_progress [of "ss ! i" hk ctx msg w1] pick_running [of ss n] 2 by metis
  then show ?case
    using sum_list_update_less [of i ss running_work s] pick_running(1) [of ss n] 2
    by (simp add: total_work_def)
qed simp

declare run_calls.simps [simp del]

fun settled_outcome :: "call_state \<Rightarrow> tool_call_outcome list" where
  "settled_outcome (Settled oc) = [oc]"
| "settled_outcome _ = []"

fun result_messages :: "'w tool_hooks \<Rightarrow> tool_call_outcome list \<Rightarrow> 'w \<Rightarrow> tool_result_message list \<times> 'w" where
  "result_messages hk [] w = ([], w)"
| "result_messages hk (oc # ocs) w =
     (let (now, w1) = tk_now hk w;
          (ms, w2) = result_messages hk ocs w1
      in (createToolResultMessage now oc # ms, w2))"

definition executeToolCallsParallel ::
    "'w tool_hooks \<Rightarrow> agent_context \<Rightarrow> assistant_message \<Rightarrow> tool_call list \<Rightarrow> 'w \<Rightarrow> tool_batch \<times> agent_event list \<times> 'w" where
  "executeToolCallsParallel hk ctx msg cs w =
     (let (ss, es1, w1) = prepare_calls hk ctx msg cs w;
          (started, es2, w2) = start_calls hk ss w1;
          (finished, es3, w3) = run_calls hk ctx msg started w2;
          ocs = concat (map settled_outcome finished);
          (ms, w4) = result_messages hk ocs w3
      in (\<lparr>tb_messages = ms, tb_terminate = shouldTerminateToolBatch ocs\<rparr>,
          es1 @ es2 @ es3 @ concat (map emitToolResultMessage ms), w4))"

definition is_sequential_call :: "agent_context \<Rightarrow> tool_call \<Rightarrow> bool" where
  "is_sequential_call ctx c =
     (case find (\<lambda>t. t_name t = tc_name c) (ac_tools ctx) of None \<Rightarrow> False | Some t \<Rightarrow> at_sequential t)"

definition executeToolCalls ::
    "'w tool_hooks \<Rightarrow> agent_context \<Rightarrow> assistant_message \<Rightarrow> tool_call list \<Rightarrow> 'w \<Rightarrow> tool_batch \<times> agent_event list \<times> 'w" where
  "executeToolCalls hk ctx msg cs w =
     (if tk_sequential hk \<or> list_ex (is_sequential_call ctx) cs
      then executeToolCallsSequential hk ctx msg cs w
      else executeToolCallsParallel hk ctx msg cs w)"

end
