(* ===== verification/Event_Stream.thy ===== *)
theory Event_Stream
  imports Transcript
begin

text \<open>
  Event streams (packages/ai/src/utils/event-stream.ts): the two-stack queue, the generic stream with
  its waiting consumers and final result, and the timed stream of an assistant response. The stream
  is a client of the queue interface \<open>fifo\<close>, which the two-stack queue implements.
\<close>

section \<open>The queue interface\<close>

text \<open>\<open>contents\<close> is the abstract queue: oldest element first.\<close>

locale fifo =
  fixes empty :: 'q
    and enq :: "'a \<Rightarrow> 'q \<Rightarrow> 'q"
    and deq :: "'q \<Rightarrow> 'a option \<times> 'q"
    and size_of :: "'q \<Rightarrow> nat"
    and contents :: "'q \<Rightarrow> 'a list"
  assumes contents_empty: "contents empty = []"
    and contents_enq: "contents (enq x q) = contents q @ [x]"
    and deq_empty: "contents q = [] \<Longrightarrow> fst (deq q) = None \<and> contents (snd (deq q)) = []"
    and deq_cons: "contents q = x # xs \<Longrightarrow> fst (deq q) = Some x \<and> contents (snd (deq q)) = xs"
    and size_contents: "size_of q = length (contents q)"
begin

lemma deq_hd: "fst (deq q) = (case contents q of [] \<Rightarrow> None | x # _ \<Rightarrow> Some x)"
  using deq_empty deq_cons by (auto split: list.splits)

lemma deq_tl: "contents (snd (deq q)) = tl (contents q)"
  using deq_empty deq_cons by (cases "contents q") auto

text \<open>Interleaved operations: \<open>Some x\<close> enqueues, \<open>None\<close> dequeues; the dequeued values are collected.\<close>

fun run_ops :: "'a option list \<Rightarrow> 'q \<Rightarrow> 'a list \<times> 'q" where
  "run_ops [] q = ([], q)"
| "run_ops (Some x # ops) q = run_ops ops (enq x q)"
| "run_ops (None # ops) q =
     (let (v, q1) = deq q; (vs, q2) = run_ops ops q1
      in ((case v of None \<Rightarrow> vs | Some x \<Rightarrow> x # vs), q2))"

lemma run_ops_order:
  "fst (run_ops ops q) @ contents (snd (run_ops ops q)) = contents q @ List.map_filter id ops"
proof (induction ops q rule: run_ops.induct)
  case (3 ops q)
  obtain v q1 where d: "deq q = (v, q1)" by fastforce
  then show ?case using 3 deq_hd [of q] deq_tl [of q]
    by (cases "contents q") (auto simp: List.map_filter_simps split: prod.splits)
qed (simp_all add: List.map_filter_simps contents_enq)

end

section \<open>The two-stack queue\<close>

record 'a fifo_queue =
  fq_incoming :: "'a list"
  fq_outgoing :: "'a list"

text \<open>Both fields are arrays used as stacks: \<open>push\<close> appends and \<open>pop\<close> takes the last element.\<close>

definition fifo_new :: "'a fifo_queue" where
  "fifo_new = \<lparr>fq_incoming = [], fq_outgoing = []\<rparr>"

definition fifo_length :: "'a fifo_queue \<Rightarrow> nat" where
  "fifo_length q = length (fq_incoming q) + length (fq_outgoing q)"

definition fifo_enqueue :: "'a \<Rightarrow> 'a fifo_queue \<Rightarrow> 'a fifo_queue" where
  "fifo_enqueue x q = q\<lparr>fq_incoming := fq_incoming q @ [x]\<rparr>"

text \<open>The loop that moves the incoming elements over, last one first.\<close>

function fifo_move :: "'a list \<Rightarrow> 'a list \<Rightarrow> 'a list" where
  "fifo_move incoming outgoing =
     (if incoming = [] then outgoing else fifo_move (butlast incoming) (outgoing @ [last incoming]))"
  by pat_completeness auto
termination by (relation "measure (\<lambda>(incoming, _). length incoming)") (auto simp: neq_Nil_conv)

declare fifo_move.simps [simp del]

definition fifo_dequeue :: "'a fifo_queue \<Rightarrow> 'a option \<times> 'a fifo_queue" where
  "fifo_dequeue q =
     (let q1 = (if fq_outgoing q = [] then \<lparr>fq_incoming = [], fq_outgoing = fifo_move (fq_incoming q) []\<rparr> else q)
      in if fq_outgoing q1 = [] then (None, q1)
         else (Some (last (fq_outgoing q1)), q1\<lparr>fq_outgoing := butlast (fq_outgoing q1)\<rparr>))"

definition fifo_contents :: "'a fifo_queue \<Rightarrow> 'a list" where
  "fifo_contents q = rev (fq_outgoing q) @ fq_incoming q"

lemma fifo_move_rev: "fifo_move incoming outgoing = outgoing @ rev incoming"
proof (induction incoming outgoing rule: fifo_move.induct)
  case (1 incoming outgoing)
  then show ?case by (cases incoming rule: rev_cases) (simp_all add: fifo_move.simps)
qed

lemma fifo_dequeue_contents:
  "fifo_dequeue q = (case fifo_contents q of [] \<Rightarrow> (None, \<lparr>fq_incoming = [], fq_outgoing = []\<rparr>)
     | x # xs \<Rightarrow> (Some x, if fq_outgoing q = [] then \<lparr>fq_incoming = [], fq_outgoing = rev xs\<rparr>
         else q\<lparr>fq_outgoing := butlast (fq_outgoing q)\<rparr>))"
proof (cases "fq_outgoing q" rule: rev_cases)
  case Nil
  then show ?thesis
    by (cases "fq_incoming q") (simp_all add: fifo_dequeue_def fifo_contents_def fifo_move_rev)
qed (simp add: fifo_dequeue_def fifo_contents_def)

interpretation fq: fifo fifo_new fifo_enqueue fifo_dequeue fifo_length fifo_contents
proof (unfold_locales, goal_cases)
  case (4 q x xs)
  then show ?case by (cases "fq_outgoing q" rule: rev_cases) (auto simp: fifo_dequeue_contents fifo_contents_def)
qed (auto simp: fifo_new_def fifo_enqueue_def fifo_length_def fifo_contents_def fifo_dequeue_contents)

section \<open>Streams\<close>

text \<open>
  Consumers are numbered. A promise keeps the first value it is resolved with: \<open>st_result\<close> is never
  overwritten.
\<close>

record ('e, 'r) event_stream =
  st_queue :: "'e fifo_queue"
  st_waiting :: "nat fifo_queue"
  st_done :: bool
  st_result :: "'r option"

definition stream_new :: "('e, 'r) event_stream" where
  "stream_new = \<lparr>st_queue = fifo_new, st_waiting = fifo_new, st_done = False, st_result = None\<rparr>"

definition resolveFinalResult :: "'r \<Rightarrow> ('e, 'r) event_stream \<Rightarrow> ('e, 'r) event_stream" where
  "resolveFinalResult r st = (case st_result st of None \<Rightarrow> st\<lparr>st_result := Some r\<rparr> | Some _ \<Rightarrow> st)"

text \<open>A delivery hands a consumer an event, or \<open>None\<close> when the stream is over.\<close>

type_synonym 'e delivery = "nat \<times> 'e option"

definition stream_push ::
    "('e \<Rightarrow> bool) \<Rightarrow> ('e \<Rightarrow> 'r) \<Rightarrow> 'e \<Rightarrow> ('e, 'r) event_stream \<Rightarrow> 'e delivery list \<times> ('e, 'r) event_stream" where
  "stream_push isComplete extractResult e st =
     (if st_done st then ([], st)
      else
        let st1 = (if isComplete e then resolveFinalResult (extractResult e) (st\<lparr>st_done := True\<rparr>) else st);
            (waiter, ws) = fifo_dequeue (st_waiting st1)
        in case waiter of
             Some c \<Rightarrow> ([(c, Some e)], st1\<lparr>st_waiting := ws\<rparr>)
           | None \<Rightarrow> ([], st1\<lparr>st_waiting := ws, st_queue := fifo_enqueue e (st_queue st1)\<rparr>))"

text \<open>The loop of \<open>end\<close> over the waiting consumers.\<close>

function release_all :: "nat fifo_queue \<Rightarrow> 'e delivery list \<times> nat fifo_queue" where
  "release_all ws =
     (if fifo_length ws = 0 then ([], ws)
      else let (c, ws1) = fifo_dequeue ws; (ds, ws2) = release_all ws1
           in ((case c of None \<Rightarrow> ds | Some c \<Rightarrow> (c, None) # ds), ws2))"
  by pat_completeness auto
termination
proof (relation "measure fifo_length", goal_cases)
  case (2 ws x c ws1)
  then have "contents = tl (fifo_contents ws)" if "contents = fifo_contents ws1" for contents
    using that fq.deq_tl [of ws] by (metis snd_conv)
  then show ?case using 2 by (simp add: fq.size_contents)
qed simp

declare release_all.simps [simp del]

definition stream_end :: "'r option \<Rightarrow> ('e, 'r) event_stream \<Rightarrow> 'e delivery list \<times> ('e, 'r) event_stream" where
  "stream_end result st =
     (let st1 = st\<lparr>st_done := True\<rparr>;
          st2 = (case result of None \<Rightarrow> st1 | Some r \<Rightarrow> resolveFinalResult r st1);
          (ds, ws) = release_all (st_waiting st2)
      in (ds, st2\<lparr>st_waiting := ws\<rparr>))"

text \<open>One request of a consumer's iterator: an event, the end of the stream, or a place among the waiting.\<close>

definition stream_next :: "nat \<Rightarrow> ('e, 'r) event_stream \<Rightarrow> 'e delivery list \<times> ('e, 'r) event_stream" where
  "stream_next c st =
     (if fifo_length (st_queue st) > 0
      then let (e, q) = fifo_dequeue (st_queue st)
           in ((case e of None \<Rightarrow> [] | Some e \<Rightarrow> [(c, Some e)]), st\<lparr>st_queue := q\<rparr>)
      else if st_done st then ([(c, None)], st)
      else ([], st\<lparr>st_waiting := fifo_enqueue c (st_waiting st)\<rparr>))"

datatype ('e, 'r) stream_op = PushOp 'e | EndOp "'r option" | NextOp nat

fun apply_op ::
    "('e \<Rightarrow> bool) \<Rightarrow> ('e \<Rightarrow> 'r) \<Rightarrow> ('e, 'r) stream_op \<Rightarrow> ('e, 'r) event_stream \<Rightarrow> 'e delivery list \<times> ('e, 'r) event_stream" where
  "apply_op isComplete extractResult (PushOp e) st = stream_push isComplete extractResult e st"
| "apply_op isComplete extractResult (EndOp r) st = stream_end r st"
| "apply_op isComplete extractResult (NextOp c) st = stream_next c st"

fun run_stream ::
    "('e \<Rightarrow> bool) \<Rightarrow> ('e \<Rightarrow> 'r) \<Rightarrow> ('e, 'r) stream_op list \<Rightarrow> ('e, 'r) event_stream \<Rightarrow> 'e delivery list \<times> ('e, 'r) event_stream" where
  "run_stream isComplete extractResult [] st = ([], st)"
| "run_stream isComplete extractResult (op # ops) st =
     (let (ds, st1) = apply_op isComplete extractResult op st; (ds', st2) = run_stream isComplete extractResult ops st1
      in (ds @ ds', st2))"

subsection \<open>Refinement of a stream over plain lists\<close>

record ('e, 'r) stream_spec =
  sp_events :: "'e list"
  sp_waiting :: "nat list"
  sp_done :: bool
  sp_result :: "'r option"

definition stream_abs :: "('e, 'r) event_stream \<Rightarrow> ('e, 'r) stream_spec" where
  "stream_abs st = \<lparr>sp_events = fifo_contents (st_queue st), sp_waiting = fifo_contents (st_waiting st),
     sp_done = st_done st, sp_result = st_result st\<rparr>"

definition spec_resolve :: "'r option \<Rightarrow> ('e, 'r) stream_spec \<Rightarrow> ('e, 'r) stream_spec" where
  "spec_resolve r sp = (if sp_result sp = None then sp\<lparr>sp_result := r\<rparr> else sp)"

fun spec_op ::
    "('e \<Rightarrow> bool) \<Rightarrow> ('e \<Rightarrow> 'r) \<Rightarrow> ('e, 'r) stream_op \<Rightarrow> ('e, 'r) stream_spec \<Rightarrow> 'e delivery list \<times> ('e, 'r) stream_spec" where
  "spec_op isComplete extractResult (PushOp e) sp =
     (if sp_done sp then ([], sp)
      else let sp1 = (if isComplete e then spec_resolve (Some (extractResult e)) (sp\<lparr>sp_done := True\<rparr>) else sp)
           in case sp_waiting sp of
                [] \<Rightarrow> ([], sp1\<lparr>sp_events := sp_events sp @ [e]\<rparr>)
              | c # cs \<Rightarrow> ([(c, Some e)], sp1\<lparr>sp_waiting := cs\<rparr>))"
| "spec_op isComplete extractResult (EndOp r) sp =
     (map (\<lambda>c. (c, None)) (sp_waiting sp), spec_resolve r (sp\<lparr>sp_done := True, sp_waiting := []\<rparr>))"
| "spec_op isComplete extractResult (NextOp c) sp =
     (case sp_events sp of
        e # es \<Rightarrow> ([(c, Some e)], sp\<lparr>sp_events := es\<rparr>)
      | [] \<Rightarrow> if sp_done sp then ([(c, None)], sp) else ([], sp\<lparr>sp_waiting := sp_waiting sp @ [c]\<rparr>))"

lemma release_all_spec:
  "fst (release_all ws) = map (\<lambda>c. (c, None)) (fifo_contents ws) \<and> fifo_contents (snd (release_all ws)) = []"
proof (induction ws rule: release_all.induct)
  case (1 ws)
  show ?case
  proof (cases "fifo_contents ws")
    case Nil
    then show ?thesis by (subst (1 2) release_all.simps) (simp add: fq.size_contents)
  next
    case (Cons c cs)
    obtain ws1 where d: "fifo_dequeue ws = (Some c, ws1)" "fifo_contents ws1 = cs"
      using fq.deq_cons [OF Cons] by (metis prod.collapse)
    have "fifo_length ws \<noteq> 0" by (simp add: fq.size_contents Cons)
    from 1 [OF this d(1) [symmetric] refl] d Cons this show ?thesis
      by (subst (1 2) release_all.simps) (auto split: prod.splits)
  qed
qed

lemma stream_abs_sel [simp]:
  "sp_events (stream_abs st) = fifo_contents (st_queue st)" "sp_waiting (stream_abs st) = fifo_contents (st_waiting st)"
  "sp_done (stream_abs st) = st_done st" "sp_result (stream_abs st) = st_result st"
  by (simp_all add: stream_abs_def)

lemma push_refines:
  "fst (stream_push isComplete extractResult e st) = fst (spec_op isComplete extractResult (PushOp e) (stream_abs st)) \<and>
   stream_abs (snd (stream_push isComplete extractResult e st)) = snd (spec_op isComplete extractResult (PushOp e) (stream_abs st))"
proof (cases "fifo_contents (st_waiting st)")
  case Nil
  then have "fifo_dequeue (st_waiting st) = (None, \<lparr>fq_incoming = [], fq_outgoing = []\<rparr>)" by (simp add: fifo_dequeue_contents)
  then show ?thesis using Nil fq.contents_enq
    by (auto simp: stream_push_def resolveFinalResult_def spec_resolve_def stream_abs_def Let_def fifo_contents_def
        fifo_enqueue_def split: option.splits)
next
  case (Cons c cs)
  obtain ws where d: "fifo_dequeue (st_waiting st) = (Some c, ws)" "fifo_contents ws = cs"
    using fq.deq_cons [OF Cons] by (metis prod.collapse)
  then show ?thesis using Cons
    by (auto simp: stream_push_def resolveFinalResult_def spec_resolve_def stream_abs_def Let_def split: option.splits)
qed

lemma end_refines:
  fixes st :: "('e, 'r) event_stream"
  shows "fst (stream_end r st) = fst (spec_op isComplete extractResult (EndOp r) (stream_abs st)) \<and>
   stream_abs (snd (stream_end r st)) = snd (spec_op isComplete extractResult (EndOp r) (stream_abs st))"
proof -
  obtain ds :: "'e delivery list" and ws where r: "release_all (st_waiting st) = (ds, ws)" by fastforce
  have "ds = map (\<lambda>c. (c, None)) (fifo_contents (st_waiting st))" and "fifo_contents ws = []"
    using release_all_spec [of "st_waiting st"] r by (metis fst_conv, metis snd_conv)
  then show ?thesis
    using r by (auto simp: stream_end_def resolveFinalResult_def spec_resolve_def stream_abs_def Let_def split: option.splits)
qed

lemma next_refines:
  "fst (stream_next c st) = fst (spec_op isComplete extractResult (NextOp c) (stream_abs st)) \<and>
   stream_abs (snd (stream_next c st)) = snd (spec_op isComplete extractResult (NextOp c) (stream_abs st))"
proof (cases "fifo_contents (st_queue st)")
  case Nil
  then show ?thesis by (simp add: stream_next_def stream_abs_def fq.size_contents fq.contents_enq)
next
  case (Cons e es)
  obtain q where "fifo_dequeue (st_queue st) = (Some e, q)" "fifo_contents q = es"
    using fq.deq_cons [OF Cons] by (metis prod.collapse)
  then show ?thesis by (simp add: stream_next_def stream_abs_def fq.size_contents Cons)
qed

lemma op_refines:
  "fst (apply_op isComplete extractResult op st) = fst (spec_op isComplete extractResult op (stream_abs st)) \<and>
   stream_abs (snd (apply_op isComplete extractResult op st)) = snd (spec_op isComplete extractResult op (stream_abs st))"
  by (cases op) (simp_all only: apply_op.simps push_refines end_refines [where isComplete = isComplete and extractResult = extractResult]
      next_refines [where isComplete = isComplete and extractResult = extractResult])

text \<open>
  C14. A stream refines its specification over plain lists: every push, end and request of a consumer
  makes the deliveries of the specification and leaves the corresponding state, so the two-stack
  queues behind events and waiting consumers are unobservable.
\<close>

theorem stream_refines_spec:
  "fst (apply_op isComplete extractResult op st) = fst (spec_op isComplete extractResult op (stream_abs st)) \<and>
   stream_abs (snd (apply_op isComplete extractResult op st)) = snd (spec_op isComplete extractResult op (stream_abs st))"
  by (rule op_refines)

subsection \<open>Histories\<close>

text \<open>The events a stream accepts: those pushed before it is complete or ended.\<close>

fun accepted :: "('e \<Rightarrow> bool) \<Rightarrow> bool \<Rightarrow> ('e, 'r) stream_op list \<Rightarrow> 'e list" where
  "accepted isComplete over [] = []"
| "accepted isComplete over (PushOp e # ops) =
     (if over then accepted isComplete over ops else e # accepted isComplete (isComplete e) ops)"
| "accepted isComplete over (EndOp r # ops) = accepted isComplete True ops"
| "accepted isComplete over (NextOp c # ops) = accepted isComplete over ops"

text \<open>The value the result promise is resolved with: the first one offered.\<close>

fun first_result :: "('e \<Rightarrow> bool) \<Rightarrow> ('e \<Rightarrow> 'r) \<Rightarrow> bool \<Rightarrow> ('e, 'r) stream_op list \<Rightarrow> 'r option" where
  "first_result isComplete extractResult over [] = None"
| "first_result isComplete extractResult over (PushOp e # ops) =
     (if \<not> over \<and> isComplete e then Some (extractResult e) else first_result isComplete extractResult over ops)"
| "first_result isComplete extractResult over (EndOp r # ops) =
     (case r of Some v \<Rightarrow> Some v | None \<Rightarrow> first_result isComplete extractResult True ops)"
| "first_result isComplete extractResult over (NextOp c # ops) = first_result isComplete extractResult over ops"

definition stream_inv :: "('e, 'r) stream_spec \<Rightarrow> bool" where
  "stream_inv sp \<longleftrightarrow> sp_waiting sp = [] \<or> sp_events sp = []"

lemma spec_op_inv: "stream_inv sp \<Longrightarrow> stream_inv (snd (spec_op isComplete extractResult op sp))"
  by (cases op) (auto simp: stream_inv_def spec_resolve_def Let_def split: list.splits)

abbreviation delivered :: "'e delivery list \<Rightarrow> 'e list" where
  "delivered ds \<equiv> List.map_filter snd ds"

lemma delivered_none [simp]: "delivered (map (\<lambda>c. (c, None)) cs) = []"
  by (induction cs) (simp_all add: List.map_filter_simps)

lemma delivered_append [simp]: "delivered (xs @ ys) = delivered xs @ delivered ys"
  by (simp add: List.map_filter_def)

lemma spec_op_history:
  assumes "stream_inv sp"
  shows "delivered (fst (spec_op isComplete extractResult op sp)) @ sp_events (snd (spec_op isComplete extractResult op sp)) =
     sp_events sp @ accepted isComplete (sp_done sp) [op]"
  using assms by (cases op) (auto simp: stream_inv_def spec_resolve_def Let_def List.map_filter_simps split: list.splits)

lemma accepted_Cons:
  "accepted isComplete (sp_done sp) (op # ops) =
     accepted isComplete (sp_done sp) [op] @ accepted isComplete (sp_done (snd (spec_op isComplete extractResult op sp))) ops"
  by (cases op) (auto simp: spec_resolve_def Let_def split: list.splits)

lemma spec_op_result:
  "(case sp_result (snd (spec_op isComplete extractResult op sp)) of Some r \<Rightarrow> Some r
      | None \<Rightarrow> first_result isComplete extractResult (sp_done (snd (spec_op isComplete extractResult op sp))) ops) =
   (case sp_result sp of Some r \<Rightarrow> Some r | None \<Rightarrow> first_result isComplete extractResult (sp_done sp) (op # ops))"
  by (cases op) (auto simp: spec_resolve_def Let_def split: list.splits option.splits)

lemma run_stream_history:
  assumes "stream_inv (stream_abs st)" and "run_stream isComplete extractResult ops st = (ds, st')"
  shows "delivered ds @ fifo_contents (st_queue st') = fifo_contents (st_queue st) @ accepted isComplete (st_done st) ops \<and>
     st_result st' = (case st_result st of Some r \<Rightarrow> Some r | None \<Rightarrow> first_result isComplete extractResult (st_done st) ops) \<and>
     stream_inv (stream_abs st')"
  using assms
proof (induction ops arbitrary: st ds)
  case (Cons op ops)
  obtain ds1 st1 where op: "apply_op isComplete extractResult op st = (ds1, st1)" by fastforce
  obtain ds2 where rest: "run_stream isComplete extractResult ops st1 = (ds2, st')" and ds: "ds = ds1 @ ds2"
    using Cons.prems(2) op by (auto split: prod.splits)
  let ?sp = "stream_abs st"
  have abs: "fst (spec_op isComplete extractResult op ?sp) = ds1" "snd (spec_op isComplete extractResult op ?sp) = stream_abs st1"
    using op_refines [of isComplete extractResult op st] op by simp_all
  have "stream_inv (stream_abs st1)" using spec_op_inv [OF Cons.prems(1), of isComplete extractResult op] abs by simp
  note IH = Cons.IH [OF this rest]
  show ?case
    using IH spec_op_history [OF Cons.prems(1), of isComplete extractResult op]
      accepted_Cons [of isComplete ?sp op ops extractResult] spec_op_result [of isComplete extractResult op ?sp ops, unfolded abs stream_abs_sel]
    by (simp add: abs ds)
qed (simp split: option.splits)

text \<open>
  In every history of pushes, ends and requests by any number of consumers, the events handed out
  so far followed by those still queued are exactly the accepted events in their order: nothing is
  lost, duplicated or reordered, and nothing pushed after completion is delivered. The result is the
  first one offered, and no consumer waits while an event is queued.
\<close>

theorem stream_delivers_in_order:
  "case run_stream isComplete extractResult ops stream_new of (ds, st) \<Rightarrow>
     delivered ds @ fifo_contents (st_queue st) = accepted isComplete False ops \<and>
     st_result st = first_result isComplete extractResult False ops \<and>
     (fifo_contents (st_waiting st) = [] \<or> fifo_contents (st_queue st) = [])"
proof (cases "run_stream isComplete extractResult ops stream_new")
  case (Pair ds st)
  have "stream_inv (stream_abs (stream_new :: ('a, 'b) event_stream))"
    by (simp add: stream_inv_def stream_new_def fq.contents_empty)
  from run_stream_history [OF this Pair] show ?thesis
    unfolding Pair prod.case by (simp add: stream_new_def fq.contents_empty stream_inv_def)
qed

section \<open>The stream of an assistant response\<close>

text \<open>
  The response's stream times its final message. \<open>started\<close> is the wall clock at creation,
  \<open>elapsed\<close> the monotonic time since then, rounded and not negative.
\<close>

definition time_message :: "int \<Rightarrow> int \<Rightarrow> bool \<Rightarrow> assistant_message \<Rightarrow> assistant_message" where
  "time_message started elapsed over m =
     (if over \<or> as_durationMs m \<noteq> None \<or> as_timestamp m < started then m
      else m\<lparr>as_durationMs := Some (max 0 elapsed)\<rparr>)"

text \<open>Events of a streamed response. The nine kinds of partial update are one constructor.\<close>

datatype assistant_event =
    StreamStart assistant_message
  | StreamUpdate assistant_message
  | StreamDone assistant_message
  | StreamError assistant_message

fun is_final_event :: "assistant_event \<Rightarrow> bool" where
  "is_final_event (StreamDone m) = True"
| "is_final_event (StreamError m) = True"
| "is_final_event _ = False"

fun event_message :: "assistant_event \<Rightarrow> assistant_message" where
  "event_message (StreamStart m) = m"
| "event_message (StreamUpdate m) = m"
| "event_message (StreamDone m) = m"
| "event_message (StreamError m) = m"

type_synonym response_stream = "(assistant_event, assistant_message) event_stream"

definition response_push ::
    "int \<Rightarrow> int \<Rightarrow> assistant_event \<Rightarrow> response_stream \<Rightarrow> assistant_event delivery list \<times> response_stream" where
  "response_push started elapsed ev st =
     stream_push is_final_event event_message
       (case ev of
          StreamDone m \<Rightarrow> StreamDone (time_message started elapsed (st_done st) m)
        | StreamError m \<Rightarrow> StreamError (time_message started elapsed (st_done st) m)
        | _ \<Rightarrow> ev) st"

definition response_end ::
    "int \<Rightarrow> int \<Rightarrow> assistant_message option \<Rightarrow> response_stream \<Rightarrow> assistant_event delivery list \<times> response_stream" where
  "response_end started elapsed result st = stream_end (map_option (time_message started elapsed (st_done st)) result) st"

end
