(* ===== verification/Agent_Loop.thy ===== *)
theory Agent_Loop
  imports Agent_Tools Event_Stream
begin

text \<open>
  The agent loop (packages/agent/src/agent-loop.ts): declaration of tool changes, streaming of one
  response, one turn with its tool calls, and the loop over turns with steering and follow-up
  messages. The provider and the hooks of the configuration are parameters over a world \<open>'w\<close>; an
  optional hook that is absent is one that returns nothing. A run that never ends is \<open>None\<close>.
\<close>

section \<open>Data\<close>

text \<open>A model, as far as the loop and the agent read it; the rest of it is handed on unread.\<close>

record model =
  mo_id :: jstr
  mo_api :: jstr
  mo_provider :: jstr
  mo_contextWindow :: int
  mo_maxTokens :: int
  mo_spec :: json

record client_attribution =
  ca_name :: jstr
  ca_url :: jstr
  ca_categories :: "jstr list"

text \<open>\<open>ClientIdentity\<close>; \<open>attribution: null\<close> is \<open>Some None\<close>.\<close>

record client_identity =
  ci_userAgent :: "json option"
  ci_attribution :: "client_attribution option option"
  ci_version :: "jstr option"

definition PI_ATTRIBUTION :: client_attribution where
  "PI_ATTRIBUTION = \<lparr>ca_name = js ''pi'', ca_url = js ''https://pi.dev'', ca_categories = [js ''cli-agent'']\<rparr>"

definition DEFAULT_AGENT_IDENTITY :: client_identity where
  "DEFAULT_AGENT_IDENTITY = \<lparr>ci_userAgent = None, ci_attribution = Some (Some PI_ATTRIBUTION), ci_version = None\<rparr>"

definition mergeClientIdentity :: "client_identity option list \<Rightarrow> client_identity option" where
  "mergeClientIdentity sources =
     fold (\<lambda>source merged. case source of
         None \<Rightarrow> merged
       | Some s \<Rightarrow>
           (let m = (case merged of None \<Rightarrow> \<lparr>ci_userAgent = None, ci_attribution = None, ci_version = None\<rparr> | Some m \<Rightarrow> m);
                m1 = (if ci_userAgent s = None then m else m\<lparr>ci_userAgent := ci_userAgent s\<rparr>);
                m2 = (if ci_attribution s = None then m1 else m1\<lparr>ci_attribution := ci_attribution s\<rparr>)
            in Some (if ci_version s = None then m2 else m2\<lparr>ci_version := ci_version s\<rparr>)))
       sources None"

record turn_context =
  tn_message :: assistant_message
  tn_toolResults :: "tool_result_message list"
  tn_context :: agent_context
  tn_newMessages :: "agent_message list"

datatype turn_decision = ContinueRun | EndRun

record turn_update =
  up_context :: "agent_context option"
  up_messages :: "agent_message list option"
  up_model :: "model option"
  up_thinkingLevel :: "jstr option"

record loop_config =
  cf_model :: model
  cf_reasoning :: "jstr option"

record stream_options =
  so_reasoning :: "jstr option"
  so_apiKey :: "jstr option"
  so_identity :: "client_identity option"

text \<open>\<open>lk_stream\<close> gives the events of a response and the message its \<open>result()\<close> resolves to.\<close>

record 'w loop_hooks =
  lk_tools :: "'w tool_hooks"
  lk_apiKey :: "jstr option"
  lk_identity :: "client_identity option"
  lk_getSteeringMessages :: "'w \<Rightarrow> agent_message list \<times> 'w"
  lk_getFollowUpMessages :: "'w \<Rightarrow> agent_message list \<times> 'w"
  lk_prepareNextTurn :: "turn_context \<Rightarrow> 'w \<Rightarrow> turn_update option \<times> 'w"
  lk_prepareRequest :: "agent_context \<Rightarrow> model \<Rightarrow> jstr \<Rightarrow> 'w \<Rightarrow> turn_update option \<times> 'w"
  lk_finishTurn :: "turn_context \<Rightarrow> 'w \<Rightarrow> turn_decision option \<times> 'w"
  lk_transformContext :: "agent_message list \<Rightarrow> 'w \<Rightarrow> agent_message list \<times> 'w"
  lk_convertToLlm :: "agent_message list \<Rightarrow> 'w \<Rightarrow> message list \<times> 'w"
  lk_getApiKey :: "jstr \<Rightarrow> 'w \<Rightarrow> jstr option \<times> 'w"
  lk_stream :: "model \<Rightarrow> message list \<Rightarrow> stream_options \<Rightarrow> 'w \<Rightarrow> (assistant_event list \<times> assistant_message) \<times> 'w"

section \<open>Tool declarations\<close>

definition NO_CHANGES :: tool_changes where
  "NO_CHANGES = \<lparr>toolsAdded = [], toolsRemoved = []\<rparr>"

definition withToolChanges :: "system_message \<Rightarrow> tool_changes \<Rightarrow> system_message" where
  "withToolChanges m ch = m\<lparr>sy_toolsAdded := toolsAdded ch, sy_toolsRemoved := toolsRemoved ch\<rparr>"

text \<open>The scan for the last pending system message.\<close>

definition last_system_index :: "agent_message list \<Rightarrow> nat option" where
  "last_system_index ms = find (\<lambda>i. is_system (ms ! i)) (rev [0..<length ms])"

definition declared_changes :: "agent_context \<Rightarrow> agent_message list \<Rightarrow> tool_changes" where
  "declared_changes ctx baseline =
     getToolStateChanges (getCurrentTools (agent_system_messages (ac_messages ctx @ baseline)))
       (map toToolDeclaration (ac_tools ctx))"

definition declareToolChanges ::
    "'w tool_hooks \<Rightarrow> agent_context \<Rightarrow> agent_message list \<Rightarrow> 'w \<Rightarrow> agent_message list \<times> 'w" where
  "declareToolChanges hk ctx pendingMessages w =
     (case last_system_index pendingMessages of
        Some i \<Rightarrow>
          (case agent_system (pendingMessages ! i) of
             None \<Rightarrow> (pendingMessages, w)
           | Some pending \<Rightarrow>
               (let baseline = pendingMessages[i := System (withToolChanges pending NO_CHANGES)];
                    changes = declared_changes ctx baseline
                in if changes = NO_CHANGES \<and> sy_toolsAdded pending = [] \<and> sy_toolsRemoved pending = []
                   then (pendingMessages, w)
                   else (baseline[i := System (withToolChanges pending changes)], w)))
      | None \<Rightarrow>
          (let changes = declared_changes ctx pendingMessages
           in if changes = NO_CHANGES then (pendingMessages, w)
              else
                let (now, w1) = tk_now hk w;
                    update = withToolChanges \<lparr>sy_content = Some (CStr []), sy_sections = [], sy_toolsAdded = [],
                       sy_toolsRemoved = [], sy_timestamp = now\<rparr> changes;
                    index = (case find (\<lambda>i. \<not> is_system (pendingMessages ! i)) [0..<length pendingMessages] of
                       None \<Rightarrow> length pendingMessages | Some i \<Rightarrow> i)
                in (take index pendingMessages @ System update # drop index pendingMessages, w1)))"

section \<open>One response\<close>

definition finish_stream ::
    "assistant_message \<Rightarrow> assistant_message option \<Rightarrow> agent_message list \<Rightarrow> agent_message list \<times> agent_event list" where
  "finish_stream final partial ms =
     (case partial of
        Some _ \<Rightarrow> (butlast ms @ [Assistant final], [MessageEnd (Assistant final)])
      | None \<Rightarrow> (ms @ [Assistant final], [MessageStart (Assistant final), MessageEnd (Assistant final)]))"

text \<open>The loop over the events, with the partial message received so far and the messages of the context.\<close>

fun stream_events ::
    "assistant_event list \<Rightarrow> assistant_message \<Rightarrow> assistant_message option \<Rightarrow> agent_message list \<Rightarrow>
     agent_message list \<times> agent_event list" where
  "stream_events [] final partial ms = finish_stream final partial ms"
| "stream_events (StreamStart p # evs) final partial ms =
     (let (ms', es) = stream_events evs final (Some p) (ms @ [Assistant p])
      in (ms', MessageStart (Assistant p) # es))"
| "stream_events (StreamUpdate p # evs) final partial ms =
     (case partial of
        None \<Rightarrow> stream_events evs final None ms
      | Some _ \<Rightarrow>
          (let (ms', es) = stream_events evs final (Some p) (butlast ms @ [Assistant p])
           in (ms', MessageUpdate (Assistant p) # es)))"
| "stream_events (StreamDone m # evs) final partial ms = finish_stream final partial ms"
| "stream_events (StreamError m # evs) final partial ms = finish_stream final partial ms"

definition level_or_off :: "jstr option \<Rightarrow> jstr" where
  "level_or_off reasoning = (case reasoning of None \<Rightarrow> js ''off'' | Some l \<Rightarrow> l)"

definition non_empty :: "jstr option \<Rightarrow> jstr option" where
  "non_empty k = (case k of None \<Rightarrow> None | Some s \<Rightarrow> if s = [] then None else Some s)"

definition streamAssistantResponse ::
    "'w loop_hooks \<Rightarrow> agent_context \<Rightarrow> loop_config \<Rightarrow> 'w \<Rightarrow>
     assistant_message \<times> agent_context \<times> agent_event list \<times> 'w" where
  "streamAssistantResponse hk ctx config w =
     (let (messages, w1) = lk_transformContext hk (ac_messages ctx) w;
          (llmMessages, w2) = lk_convertToLlm hk messages w1;
          llmContext = normalizeContext \<lparr>cx_systemPrompt = None, cx_messages = llmMessages, cx_tools = None\<rparr>;
          (key, w3) = lk_getApiKey hk (mo_provider (cf_model config)) w2;
          resolvedApiKey = (case non_empty key of None \<Rightarrow> lk_apiKey hk | Some k \<Rightarrow> Some k);
          ((evs, result), w4) = lk_stream hk (cf_model config) llmContext
             \<lparr>so_reasoning = cf_reasoning config, so_apiKey = resolvedApiKey,
              so_identity = mergeClientIdentity [Some DEFAULT_AGENT_IDENTITY, lk_identity hk]\<rparr> w3;
          final = result\<lparr>as_thinkingLevel := Some (level_or_off (cf_reasoning config))\<rparr>;
          (ms, es) = stream_events evs final None (ac_messages ctx)
      in (final, ctx\<lparr>ac_messages := ms\<rparr>, es, w4))"

section \<open>Turns\<close>

record 'w loop_state =
  ls_context :: agent_context
  ls_config :: loop_config
  ls_lastTurn :: "turn_context option"
  ls_explicit :: bool
  ls_pending :: "agent_message list"
  ls_more :: bool
  ls_new :: "agent_message list"
  ls_world :: 'w

definition update_config :: "turn_update \<Rightarrow> loop_config \<Rightarrow> loop_config" where
  "update_config u config =
     \<lparr>cf_model = (case up_model u of None \<Rightarrow> cf_model config | Some m \<Rightarrow> m),
      cf_reasoning = (case up_thinkingLevel u of
         None \<Rightarrow> cf_reasoning config
       | Some l \<Rightarrow> if l = js ''off'' then None else Some l)\<rparr>"

definition apply_update :: "turn_update option \<Rightarrow> 'w loop_state \<Rightarrow> 'w loop_state" where
  "apply_update u s =
     (case u of
        None \<Rightarrow> s
      | Some u \<Rightarrow> s\<lparr>ls_context := (case up_context u of None \<Rightarrow> ls_context s | Some c \<Rightarrow> c),
                    ls_config := update_config u (ls_config s)\<rparr>)"

text \<open>The start of every turn but the first, which is announced by the caller.\<close>

definition begin_turn :: "'w loop_hooks \<Rightarrow> 'w loop_state \<Rightarrow> agent_message list \<times> 'w loop_state \<times> agent_event list" where
  "begin_turn hk s =
     (case ls_lastTurn s of
        None \<Rightarrow> ([], s, [])
      | Some turn \<Rightarrow>
          (let (u, w1) = lk_prepareNextTurn hk turn (ls_world s);
               prepared = (case u of None \<Rightarrow> [] | Some u \<Rightarrow> (case up_messages u of None \<Rightarrow> [] | Some ms \<Rightarrow> ms));
               s1 = (apply_update u s)\<lparr>ls_world := w1\<rparr>;
               (steering, w2) = (if ls_pending s1 = [] then lk_getSteeringMessages hk w1 else (ls_pending s1, w1))
           in (prepared, s1\<lparr>ls_pending := steering, ls_world := w2\<rparr>, [TurnStart])))"

definition announce :: "agent_message list \<Rightarrow> agent_event list" where
  "announce ms = concat (map (\<lambda>m. [MessageStart m, MessageEnd m]) ms)"

definition add_messages :: "agent_message list \<Rightarrow> 'w loop_state \<Rightarrow> 'w loop_state" where
  "add_messages ms s =
     s\<lparr>ls_context := (ls_context s)\<lparr>ac_messages := ac_messages (ls_context s) @ ms\<rparr>, ls_new := ls_new s @ ms\<rparr>"

definition send_pending ::
    "'w loop_hooks \<Rightarrow> agent_message list \<Rightarrow> 'w loop_state \<Rightarrow> 'w loop_state \<times> agent_event list" where
  "send_pending hk prepared s =
     (let (ms, w1) = declareToolChanges (lk_tools hk) (ls_context s) (prepared @ ls_pending s) (ls_world s)
      in ((add_messages ms s)\<lparr>ls_pending := [], ls_world := w1\<rparr>, announce ms))"

definition prepare_request :: "'w loop_hooks \<Rightarrow> 'w loop_state \<Rightarrow> 'w loop_state" where
  "prepare_request hk s =
     (let (u, w1) = lk_prepareRequest hk (ls_context s) (cf_model (ls_config s))
            (level_or_off (cf_reasoning (ls_config s))) (ls_world s)
      in (apply_update u s)\<lparr>ls_world := w1\<rparr>)"

definition request_response ::
    "'w loop_hooks \<Rightarrow> 'w loop_state \<Rightarrow> assistant_message \<times> 'w loop_state \<times> agent_event list" where
  "request_response hk s =
     (let (message, ctx, es, w1) = streamAssistantResponse hk (ls_context s) (ls_config s) (ls_world s)
      in (message, s\<lparr>ls_context := ctx, ls_new := ls_new s @ [Assistant message], ls_world := w1\<rparr>, es))"

fun block_call :: "content \<Rightarrow> tool_call option" where
  "block_call (ToolCall c) = Some c"
| "block_call _ = None"

definition message_calls :: "assistant_message \<Rightarrow> tool_call list" where
  "message_calls m = (case as_content m of None \<Rightarrow> [] | Some bs \<Rightarrow> List.map_filter block_call bs)"

definition run_tools ::
    "'w loop_hooks \<Rightarrow> assistant_message \<Rightarrow> 'w loop_state \<Rightarrow>
     tool_result_message list \<times> 'w loop_state \<times> agent_event list" where
  "run_tools hk message s =
     (let toolCalls = message_calls message
      in if toolCalls = [] then ([], s\<lparr>ls_more := False\<rparr>, [])
         else
           let (batch, es, w1) =
                 (if as_stopReason message = LengthStop
                  then failToolCallsFromTruncatedMessage (lk_tools hk) toolCalls (ls_world s)
                  else executeToolCalls (lk_tools hk) (ls_context s) message toolCalls (ls_world s))
           in (tb_messages batch,
               (add_messages (map ToolResult (tb_messages batch)) s)\<lparr>ls_more := \<not> tb_terminate batch, ls_world := w1\<rparr>, es))"

definition finish_turn ::
    "'w loop_hooks \<Rightarrow> assistant_message \<Rightarrow> tool_result_message list \<Rightarrow> 'w loop_state \<Rightarrow> turn_decision option \<times> 'w loop_state" where
  "finish_turn hk message toolResults s =
     (let turn = \<lparr>tn_message = message, tn_toolResults = toolResults, tn_context = ls_context s, tn_newMessages = ls_new s\<rparr>;
          (decision, w1) = lk_finishTurn hk turn (ls_world s)
      in (decision, s\<lparr>ls_lastTurn := Some turn, ls_world := w1\<rparr>))"

text \<open>After a turn that does not end the run: the continuation decision and the next poll for steering messages.\<close>

definition schedule_next :: "'w loop_hooks \<Rightarrow> turn_decision option \<Rightarrow> 'w loop_state \<Rightarrow> 'w loop_state" where
  "schedule_next hk decision s =
     (let (steering, w1) = lk_getSteeringMessages hk (ls_world s)
      in s\<lparr>ls_pending := steering, ls_world := w1,
           ls_explicit := (decision = Some ContinueRun \<and> \<not> (ls_more s \<or> steering \<noteq> []))\<rparr>)"

text \<open>The body of the inner loop. The flag says that the run has ended.\<close>

definition run_turn :: "'w loop_hooks \<Rightarrow> 'w loop_state \<Rightarrow> bool \<times> 'w loop_state \<times> agent_event list" where
  "run_turn hk s =
     (let (prepared, s1, es1) = begin_turn hk s;
          (s2, es2) = send_pending hk prepared s1;
          (message, s3, es3) = request_response hk (prepare_request hk s2)
      in if as_stopReason message = ErrorStop \<or> as_stopReason message = AbortedStop then
           let (_, s4) = finish_turn hk message [] s3
           in (True, s4, es1 @ es2 @ es3 @ [TurnEnd message [], AgentEnd (ls_new s4)])
         else
           let (toolResults, s4, es4) = run_tools hk message s3;
               (decision, s5) = finish_turn hk message toolResults s4;
               es = es1 @ es2 @ es3 @ es4 @ [TurnEnd message toolResults]
           in if decision = Some EndRun then (True, s5, es @ [AgentEnd (ls_new s5)])
              else (False, schedule_next hk decision s5, es))"

text \<open>
  Both loops: a turn while tool calls or pending messages ask for one, otherwise the follow-up
  messages, then the explicit continuation, then the end.
\<close>

partial_function (option) loop_from :: "'w loop_hooks \<Rightarrow> 'w loop_state \<Rightarrow> ('w loop_state \<times> agent_event list) option" where
  "loop_from hk s =
     (if ls_more s \<or> ls_pending s \<noteq> [] then
        (if fst (run_turn hk s) then Some (snd (run_turn hk s))
         else Option.bind (loop_from hk (fst (snd (run_turn hk s))))
                (\<lambda>r. Some (fst r, snd (snd (run_turn hk s)) @ snd r)))
      else
        (let (followUps, w1) = lk_getFollowUpMessages hk (ls_world s); s1 = s\<lparr>ls_world := w1\<rparr>
         in if followUps \<noteq> [] then loop_from hk (s1\<lparr>ls_explicit := False, ls_pending := followUps, ls_more := True\<rparr>)
            else if ls_explicit s then loop_from hk (s1\<lparr>ls_explicit := False, ls_more := True\<rparr>)
            else Some (s1, [AgentEnd (ls_new s1)])))"

definition runLoop ::
    "'w loop_hooks \<Rightarrow> loop_config \<Rightarrow> agent_context \<Rightarrow> agent_message list \<Rightarrow> 'w \<Rightarrow>
     ('w loop_state \<times> agent_event list) option" where
  "runLoop hk config ctx newMessages w =
     (let (steering, w1) = lk_getSteeringMessages hk w
      in loop_from hk \<lparr>ls_context = ctx, ls_config = config, ls_lastTurn = None, ls_explicit = False,
           ls_pending = steering, ls_more = True, ls_new = newMessages, ls_world = w1\<rparr>)"

definition runAgentLoop ::
    "'w loop_hooks \<Rightarrow> loop_config \<Rightarrow> agent_message list \<Rightarrow> agent_context \<Rightarrow> 'w \<Rightarrow>
     ('w loop_state \<times> agent_event list) option" where
  "runAgentLoop hk config prompts ctx w =
     (let (initialMessages, w1) = declareToolChanges (lk_tools hk) ctx prompts w;
          ctx1 = ctx\<lparr>ac_messages := ac_messages ctx @ initialMessages\<rparr>
      in Option.bind (runLoop hk config ctx1 initialMessages w1)
           (\<lambda>(s, es). Some (s, AgentStart # TurnStart # announce initialMessages @ es)))"

definition runAgentLoopContinue ::
    "'w loop_hooks \<Rightarrow> loop_config \<Rightarrow> agent_context \<Rightarrow> 'w \<Rightarrow> jstr + ('w loop_state \<times> agent_event list) option" where
  "runAgentLoopContinue hk config ctx w =
     (if ac_messages ctx = [] then Inl (js ''Cannot continue: no messages in context'')
      else if is_assistant (last (ac_messages ctx)) then Inl (js ''Cannot continue from message role: assistant'')
      else Inr (Option.bind (runLoop hk config ctx [] w) (\<lambda>(s, es). Some (s, AgentStart # TurnStart # es))))"

end
