(* ===== verification/Agent_Tools_Correct.thy ===== *)
theory Agent_Tools_Correct
  imports Agent_Tools "HOL-Library.Multiset"
begin

text \<open>
  What a batch of tool calls guarantees, for every tool, hook and schedule: the results answer the
  calls in source order, each call that was started ends exactly once, and a message cut off by the
  output limit runs no tool at all.
\<close>

section \<open>Events of a batch\<close>

fun is_end_event :: "agent_event \<Rightarrow> bool" where
  "is_end_event (ToolExecutionEnd _ _ _ _ _) = True"
| "is_end_event _ = False"

fun is_start_event :: "agent_event \<Rightarrow> bool" where
  "is_start_event (ToolExecutionStart _ _ _) = True"
| "is_start_event _ = False"

fun is_message_event :: "agent_event \<Rightarrow> bool" where
  "is_message_event (MessageStart _) = True"
| "is_message_event (MessageUpdate _) = True"
| "is_message_event (MessageEnd _) = True"
| "is_message_event _ = False"

text \<open>
  A batch answers the outcomes \<open>ocs\<close> of a prefix of the calls: start events and results follow the
  source order, every outcome has one end event, and the batch terminates as the outcomes say.
\<close>

definition answered :: "tool_call list \<Rightarrow> tool_call_outcome list \<Rightarrow> tool_batch \<Rightarrow> agent_event list \<Rightarrow> bool" where
  "answered cs ocs b es \<longleftrightarrow>
     map oc_toolCall ocs = take (length ocs) cs \<and>
     list_all2 (\<lambda>oc m. createToolResultMessage (tr_timestamp m) oc = m) ocs (tb_messages b) \<and>
     filter is_start_event es = map emitToolExecutionStart (map oc_toolCall ocs) \<and>
     mset (filter is_end_event es) = mset (map emitToolExecutionEnd ocs) \<and>
     filter is_message_event es = concat (map emitToolResultMessage (tb_messages b)) \<and>
     tb_terminate b = shouldTerminateToolBatch ocs"

lemma event_kinds [simp]:
  "is_start_event (emitToolExecutionStart c)" "\<not> is_end_event (emitToolExecutionStart c)"
  "\<not> is_message_event (emitToolExecutionStart c)"
  "\<not> is_start_event (emitToolExecutionUpdate c u)" "\<not> is_end_event (emitToolExecutionUpdate c u)"
  "\<not> is_message_event (emitToolExecutionUpdate c u)"
  "\<not> is_start_event (emitToolExecutionEnd oc)" "is_end_event (emitToolExecutionEnd oc)"
  "\<not> is_message_event (emitToolExecutionEnd oc)"
  by (simp_all add: emitToolExecutionStart_def emitToolExecutionUpdate_def emitToolExecutionEnd_def)

lemma filter_updates [simp]:
  "filter is_start_event (map (emitToolExecutionUpdate c) us) = []"
  "filter is_end_event (map (emitToolExecutionUpdate c) us) = []"
  "filter is_message_event (map (emitToolExecutionUpdate c) us) = []"
  by (simp_all add: filter_empty_conv)

lemma filter_result_events [simp]:
  "filter is_start_event (emitToolResultMessage m) = []"
  "filter is_end_event (emitToolResultMessage m) = []"
  "filter is_message_event (emitToolResultMessage m) = emitToolResultMessage m"
  by (simp_all add: emitToolResultMessage_def)

lemma filter_result_events_concat [simp]:
  "filter is_start_event (concat (map emitToolResultMessage ms)) = []"
  "filter is_end_event (concat (map emitToolResultMessage ms)) = []"
  "filter is_message_event (concat (map emitToolResultMessage ms)) = concat (map emitToolResultMessage ms)"
  by (induction ms) simp_all

lemma result_message_of_outcome [simp]:
  "createToolResultMessage (tr_timestamp (createToolResultMessage now oc)) oc = createToolResultMessage now oc"
  by (simp add: createToolResultMessage_def)

lemma answered_nothing [simp]:
  "answered cs [] \<lparr>tb_messages = [], tb_terminate = shouldTerminateToolBatch []\<rparr> []"
  by (simp add: answered_def)

section \<open>Outcomes\<close>

lemma immediate_toolCall [simp]: "oc_toolCall (immediate_outcome c r e) = c"
  by (simp add: immediate_outcome_def)

lemma finalize_toolCall: "finalizeExecutedToolCall hk ctx msg c args ex d w = (oc, w1) \<Longrightarrow> oc_toolCall oc = c"
  by (auto simp: finalizeExecutedToolCall_def Let_def split: option.splits sum.splits prod.splits)

lemma prepare_toolCall:
  "prepareToolCall hk ctx msg c tools w = (Prepared c1 t args, w1) \<Longrightarrow> c1 = c"
  by (auto simp: prepareToolCall_def aborted_result_def blocked_result_def Let_def
           split: option.splits sum.splits prod.splits if_splits)

lemma run_one_toolCall: "run_one hk ctx msg c w = (oc, us, w1) \<Longrightarrow> oc_toolCall oc = c"
  by (auto simp: run_one_def dest!: prepare_toolCall finalize_toolCall split: prod.splits preparation.splits)

lemma run_one_updates:
  assumes "run_one hk ctx msg c w = (oc, us, w1)"
  shows "filter is_start_event us = [] \<and> filter is_end_event us = [] \<and> filter is_message_event us = []"
  using assms by (auto simp: run_one_def split: prod.splits preparation.splits)

section \<open>A truncated message\<close>

lemma failToolCalls_answers:
  "case failToolCalls hk cs w of (ms, es, w1) \<Rightarrow>
     map tr_toolCallId ms = map tc_id cs \<and> list_all tr_isError ms \<and> list_all (\<lambda>m. tr_durationMs m = None) ms \<and>
     filter is_message_event es = concat (map emitToolResultMessage ms) \<and>
     w1 = ((\<lambda>v. snd (tk_now hk v)) ^^ length cs) w"
proof (induction cs arbitrary: w)
  case (Cons c cs)
  obtain now w1 where now: "tk_now hk w = (now, w1)" by fastforce
  obtain ms es w2 where rest: "failToolCalls hk cs w1 = (ms, es, w2)" by (metis prod_cases3)
  have "w2 = ((\<lambda>v. snd (tk_now hk v)) ^^ Suc (length cs)) w"
    using Cons.IH [of w1] rest now by (simp add: funpow_Suc_right del: funpow.simps)
  then show ?case using Cons.IH [of w1] rest now
    by (simp add: createToolResultMessage_def immediate_outcome_def Let_def)
qed simp

text \<open>
  A message stopped by the output token limit runs none of its tool calls: whatever the tools and
  hooks are, the world afterwards is the one in which only the clock was read, once per call. Every
  call is answered, in source order, by an error result without a duration, and the batch never ends
  the run.
\<close>

theorem truncated_message_runs_nothing:
  "case failToolCallsFromTruncatedMessage hk cs w of (b, es, w1) \<Rightarrow>
     w1 = ((\<lambda>v. snd (tk_now hk v)) ^^ length cs) w \<and>
     map tr_toolCallId (tb_messages b) = map tc_id cs \<and>
     list_all (\<lambda>m. tr_isError m \<and> tr_durationMs m = None) (tb_messages b) \<and>
     filter is_message_event es = concat (map emitToolResultMessage (tb_messages b)) \<and>
     \<not> tb_terminate b"
  using failToolCalls_answers [where hk = hk and cs = cs and w = w]
  by (auto simp: failToolCallsFromTruncatedMessage_def list_all_iff split: prod.splits)

section \<open>Sequential execution\<close>

lemma sequential_calls_answer:
  "case sequential_calls hk ctx msg cs w of (rs, es, w1) \<Rightarrow>
     answered cs (map fst rs) \<lparr>tb_messages = map snd rs, tb_terminate = shouldTerminateToolBatch (map fst rs)\<rparr> es \<and>
     ((\<forall>v. \<not> tk_aborted hk v) \<longrightarrow> length rs = length cs)"
proof (induction cs arbitrary: w)
  case (Cons c cs)
  obtain oc us w1 where one: "run_one hk ctx msg c w = (oc, us, w1)" by (metis prod_cases3)
  obtain now w2 where now: "tk_now hk w1 = (now, w2)" by fastforce
  obtain rs es w3 where rest: "(if tk_aborted hk w2 then ([], [], w2) else sequential_calls hk ctx msg cs w2) = (rs, es, w3)"
    by (metis prod_cases3)
  have "answered cs (map fst rs) \<lparr>tb_messages = map snd rs, tb_terminate = shouldTerminateToolBatch (map fst rs)\<rparr> es \<and>
      ((\<forall>v. \<not> tk_aborted hk v) \<longrightarrow> length rs = length cs)"
  proof (cases "tk_aborted hk w2")
    case False
    with Cons.IH [of w2] rest show ?thesis by simp
  qed (use rest in auto)
  then show ?case using run_one_toolCall [OF one] run_one_updates [OF one]
    by (simp add: one now rest answered_def Let_def del: mset_filter)
qed (simp add: answered_def)

section \<open>Parallel execution\<close>

fun is_settled :: "call_state \<Rightarrow> bool" where
  "is_settled (Settled _) = True"
| "is_settled _ = False"

fun state_call :: "call_state \<Rightarrow> tool_call" where
  "state_call (Settled oc) = oc_toolCall oc"
| "state_call (Waiting c _ _) = c"
| "state_call (Running c _ _ _ _) = c"

abbreviation outcomes :: "call_state list \<Rightarrow> tool_call_outcome list" where
  "outcomes ss \<equiv> concat (map settled_outcome ss)"

lemma prepare_calls_answer:
  "case prepare_calls hk ctx msg cs w of (ss, es, w1) \<Rightarrow>
     map state_call ss = take (length ss) cs \<and>
     filter is_start_event es = map emitToolExecutionStart (map state_call ss) \<and>
     filter is_end_event es = map emitToolExecutionEnd (outcomes ss) \<and>
     filter is_message_event es = [] \<and> ((\<forall>v. \<not> tk_aborted hk v) \<longrightarrow> length ss = length cs)"
proof (induction cs arbitrary: w)
  case (Cons c cs)
  obtain p w1 where p: "prepareToolCall hk ctx msg c (ac_tools ctx) w = (p, w1)" by fastforce
  obtain ss es w2 where rest: "(if tk_aborted hk w1 then ([], [], w1) else prepare_calls hk ctx msg cs w1) = (ss, es, w2)"
    by (metis prod_cases3)
  have "map state_call ss = take (length ss) cs \<and>
     filter is_start_event es = map emitToolExecutionStart (map state_call ss) \<and>
     filter is_end_event es = map emitToolExecutionEnd (outcomes ss) \<and>
     filter is_message_event es = [] \<and> ((\<forall>v. \<not> tk_aborted hk v) \<longrightarrow> length ss = length cs)"
  proof (cases "tk_aborted hk w1")
    case False
    then have eq: "prepare_calls hk ctx msg cs w1 = (ss, es, w2)" using rest by simp
    show ?thesis by (rule Cons.IH [of w1, unfolded eq prod.case])
  qed (use rest in auto)
  note rest_ok = this
  show ?case
  proof (cases p)
    case (Immediate r e)
    with rest_ok show ?thesis by (simp add: p rest Let_def)
  next
    case (Prepared c1 t args)
    then have "c1 = c" using p prepare_toolCall by metis
    with Prepared rest_ok show ?thesis by (simp add: p rest Let_def)
  qed
qed simp

lemma start_calls_answer:
  "case start_calls hk ss w of (ss', es, w1) \<Rightarrow>
     map state_call ss' = map state_call ss \<and> list_all (\<lambda>s. is_settled s \<or> running_work s \<noteq> 0) ss' \<and>
     filter is_start_event es = [] \<and> filter is_message_event es = [] \<and>
     mset (map emitToolExecutionEnd (outcomes ss)) + mset (filter is_end_event es) =
       mset (map emitToolExecutionEnd (outcomes ss'))"
proof (induction hk ss w rule: start_calls.induct)
  case (2 hk c t args ss w)
  show ?case
  proof (cases "tk_aborted hk w")
    case True
    then show ?thesis using 2(1) by (auto simp: Let_def split: prod.splits)
  next
    case False
    obtain us r d w1 where "tk_execute hk t (tc_id c) args w = ((us, r, d), w1)" by (metis prod_cases3 surj_pair)
    then show ?thesis using 2(2) False by (auto split: prod.splits)
  qed
qed (auto split: prod.splits)

lemma step_call_answer:
  assumes "step_call hk ctx msg s w = (s', es, w1)" and "running_work s \<noteq> 0"
  shows "state_call s' = state_call s \<and> (is_settled s' \<or> running_work s' \<noteq> 0) \<and>
     filter is_start_event es = [] \<and> filter is_message_event es = [] \<and>
     filter is_end_event es = map emitToolExecutionEnd (settled_outcome s')"
proof (cases s)
  case (Running c args us ex d)
  then show ?thesis using assms(1) by (cases us) (auto dest: finalize_toolCall split: prod.splits)
qed (use assms in auto)

lemma outcomes_update:
  assumes "i < length ss" and "running_work (ss ! i) \<noteq> 0"
  shows "mset (outcomes (ss[i := s])) = mset (settled_outcome s) + mset (outcomes ss)"
proof -
  have "settled_outcome (ss ! i) = []" using assms(2) by (cases "ss ! i") auto
  then have "outcomes ss = outcomes (take i ss) @ outcomes (drop (Suc i) ss)"
    by (subst id_take_nth_drop [OF assms(1)]) simp
  then show ?thesis using assms(1) by (simp add: upd_conv_take_nth_drop)
qed

lemma run_calls_answer:
  "list_all (\<lambda>s. is_settled s \<or> running_work s \<noteq> 0) ss \<Longrightarrow>
   case run_calls hk ctx msg ss w of (ss', es, w1) \<Rightarrow>
     map state_call ss' = map state_call ss \<and> list_all is_settled ss' \<and>
     filter is_start_event es = [] \<and> filter is_message_event es = [] \<and>
     mset (map emitToolExecutionEnd (outcomes ss)) + mset (filter is_end_event es) =
       mset (map emitToolExecutionEnd (outcomes ss'))"
proof (induction hk ctx msg ss w rule: run_calls.induct)
  case (1 hk ctx msg ss w)
  show ?case
  proof (cases "running ss = []")
    case True
    then have "list_all is_settled ss" using 1(2) by (auto simp: running_def list_all_length filter_empty_conv)
    then show ?thesis using True by (simp add: run_calls.simps)
  next
    case False
    obtain n w1 where n: "tk_schedule hk w = (n, w1)" by fastforce
    define i where "i = pick n ss"
    obtain s es w2 where s: "step_call hk ctx msg (ss ! i) w1 = (s, es, w2)" by (metis prod_cases3)
    obtain ss' es' w3 where r: "run_calls hk ctx msg (ss[i := s]) w2 = (ss', es', w3)" by (metis prod_cases3)
    have i: "i < length ss" "running_work (ss ! i) \<noteq> 0" using pick_running [OF False] by (simp_all add: i_def)
    note step = step_call_answer [OF s i(2)]
    have same: "map state_call (ss[i := s]) = map state_call ss"
      using step i(1) by (simp add: map_update list_update_same_conv)
    have "list_all (\<lambda>s. is_settled s \<or> running_work s \<noteq> 0) (ss[i := s])"
      using 1(2) step i(1) by (auto simp: list_all_length nth_list_update)
    note IH = 1(1) [OF False n [symmetric] refl i_def s [symmetric] refl refl this]
    have "run_calls hk ctx msg ss w = (ss', es @ es', w3)"
      using False by (subst run_calls.simps) (simp add: n s r i_def [symmetric])
    then show ?thesis
      using IH same step outcomes_update [OF i, of s] r by (simp add: ac_simps del: mset_filter)
  qed
qed

lemma outcomes_settled:
  "list_all is_settled ss \<Longrightarrow> map oc_toolCall (outcomes ss) = map state_call ss \<and> length (outcomes ss) = length ss"
proof (induction ss)
  case (Cons s ss)
  then show ?case by (cases s) auto
qed simp

lemma result_messages_answer:
  "case result_messages hk ocs w of (ms, w1) \<Rightarrow>
     list_all2 (\<lambda>oc m. createToolResultMessage (tr_timestamp m) oc = m) ocs ms"
proof (induction ocs arbitrary: w)
  case (Cons oc ocs)
  obtain now w1 ms w2 where "tk_now hk w = (now, w1)" "result_messages hk ocs w1 = (ms, w2)" by fastforce
  with Cons.IH [of w1] show ?case by simp
qed simp

lemma parallel_answer:
  assumes "executeToolCallsParallel hk ctx msg cs w = (b, es, w1)"
  shows "\<exists>ocs. answered cs ocs b es \<and> ((\<forall>v. \<not> tk_aborted hk v) \<longrightarrow> length ocs = length cs)"
proof -
  obtain ss es1 v1 where p: "prepare_calls hk ctx msg cs w = (ss, es1, v1)" by (metis prod_cases3)
  obtain st es2 v2 where st: "start_calls hk ss v1 = (st, es2, v2)" by (metis prod_cases3)
  obtain ss' es3 v3 where r: "run_calls hk ctx msg st v2 = (ss', es3, v3)" by (metis prod_cases3)
  obtain ms v4 where m: "result_messages hk (outcomes ss') v3 = (ms, v4)" by fastforce
  note prepared = prepare_calls_answer [where hk = hk and ctx = ctx and msg = msg and cs = cs and w = w, unfolded p prod.case]
  note started = start_calls_answer [where hk = hk and ss = ss and w = v1, unfolded st prod.case]
  have "list_all (\<lambda>s. is_settled s \<or> running_work s \<noteq> 0) st" using started by blast
  note ran = run_calls_answer [OF this, where hk = hk and ctx = ctx and msg = msg and w = v2, unfolded r prod.case]
  note messages = result_messages_answer [where hk = hk and ocs = "outcomes ss'" and w = v3, unfolded m prod.case]
  have len: "length (outcomes ss') = length ss" and calls: "map oc_toolCall (outcomes ss') = map state_call ss"
    using started ran outcomes_settled [of ss'] by (metis length_map, metis)
  have b: "b = \<lparr>tb_messages = ms, tb_terminate = shouldTerminateToolBatch (outcomes ss')\<rparr>"
    and es: "es = es1 @ es2 @ es3 @ concat (map emitToolResultMessage ms)"
    using assms by (simp_all add: executeToolCallsParallel_def p st r m)
  have "filter is_start_event es = map emitToolExecutionStart (map state_call ss)"
    and "filter is_message_event es = concat (map emitToolResultMessage ms)"
    using prepared started ran by (simp_all add: es del: map_map)
  moreover have "mset (filter is_end_event es) = mset (map emitToolExecutionEnd (outcomes ss'))"
    using prepared started ran
    by (simp only: es filter_append mset_append filter_result_events_concat append_Nil2 add.assoc [symmetric])
  ultimately have "answered cs (outcomes ss') b es"
    using prepared messages unfolding answered_def len calls b tool_batch.select_convs by blast
  then show ?thesis using prepared len by (intro exI [of _ "outcomes ss'"] conjI) simp_all
qed

lemma batch_answered:
  assumes "executeToolCalls hk ctx msg cs w = (b, es, w1)"
  shows "\<exists>ocs. answered cs ocs b es \<and> ((\<forall>v. \<not> tk_aborted hk v) \<longrightarrow> length ocs = length cs)"
proof (cases "tk_sequential hk \<or> list_ex (is_sequential_call ctx) cs")
  case True
  obtain rs es' w2 where rs: "sequential_calls hk ctx msg cs w = (rs, es', w2)" by (metis prod_cases3)
  have "es = es'" and "b = \<lparr>tb_messages = map snd rs, tb_terminate = shouldTerminateToolBatch (map fst rs)\<rparr>"
    using assms True rs by (simp_all add: executeToolCalls_def executeToolCallsSequential_def)
  then show ?thesis
    using sequential_calls_answer [where hk = hk and ctx = ctx and msg = msg and cs = cs and w = w, unfolded rs prod.case]
    by (intro exI [of _ "map fst rs"]) simp
next
  case False
  then show ?thesis using assms parallel_answer by (fastforce simp: executeToolCalls_def)
qed

section \<open>The contract of a batch\<close>

text \<open>
  Hooks over a world that holds the clock, for concrete runs: one tool echoes its arguments, a tool
  named \<open>boom\<close> throws, and the scheduler alternates with the clock.
\<close>

definition demo_hooks :: "nat tool_hooks" where
  "demo_hooks =
     \<lparr>tk_sequential = False, tk_prepareArguments = (\<lambda>t args. Inr args),
      tk_validateToolArguments = (\<lambda>t c. Inr (JObj (tc_arguments c))), tk_beforeToolCall = None,
      tk_afterToolCall = None,
      tk_execute = (\<lambda>t i args w. (if t_name t = js ''boom'' then ([], Inl (js ''failed''), 1)
         else ([createErrorToolResult []], Inr (createErrorToolResult (js ''done'')), 2), Suc w)),
      tk_aborted = (\<lambda>w. False), tk_schedule = (\<lambda>w. (w, Suc w)), tk_now = (\<lambda>w. (int w, Suc w))\<rparr>"

definition demo_call :: "string \<Rightarrow> string \<Rightarrow> tool_call" where
  "demo_call i name = \<lparr>tc_id = js i, tc_name = js name, tc_arguments = [], tc_thoughtSignature = None,
     tc_namespace = None, tc_argumentsError = None\<rparr>"

definition demo_agent_tool :: "string \<Rightarrow> bool \<Rightarrow> agent_tool" where
  "demo_agent_tool name sequential = \<lparr>t_name = js name, t_description = [], t_parameters = JObj [],
     t_constrainedSampling = None, at_sequential = sequential\<rparr>"

definition demo_reply :: "content list \<Rightarrow> stop_reason \<Rightarrow> assistant_message" where
  "demo_reply cs reason =
     \<lparr>as_content = Some cs, as_api = [], as_provider = [], as_model = [], as_responseModel = None,
      as_responseId = None, as_providerThinkingLevel = None, as_thinkingLevel = None, as_diagnostics = None,
      as_usage = None, as_stopReason = reason, as_deferred = None, as_errorMessage = None,
      as_rawStopReason = None, as_endTurn = None, as_timestamp = 0, as_durationMs = None\<rparr>"

definition demo_context :: agent_context where
  "demo_context = \<lparr>ac_messages = [], ac_tools = [demo_agent_tool ''echo'' False, demo_agent_tool ''boom'' False]\<rparr>"

text \<open>
  C11. Executing the tool calls of a message, in either mode and for every tool, hook and order in
  which concurrent calls proceed, answers a prefix of the calls: start events and result messages are
  in source order, each started call has exactly one end event, which carries the outcome its result
  message was made from, no other message is emitted, and the batch ends the run exactly when every
  outcome asks for it. Without an abort all calls are answered.
\<close>

theorem tool_batch_contract:
  "case executeToolCalls hk ctx msg cs w of (b, es, w1) \<Rightarrow>
     \<exists>ocs. answered cs ocs b es \<and> ((\<forall>v. \<not> tk_aborted hk v) \<longrightarrow> length ocs = length cs)"
proof (cases "executeToolCalls hk ctx msg cs w")
  case (fields b es w1)
  show ?thesis unfolding fields prod.case by (rule batch_answered [OF fields])
qed

theorem tool_batch_contract_witness:
  "case executeToolCalls demo_hooks demo_context (demo_reply [] ToolUse) [demo_call ''a'' ''echo'', demo_call ''b'' ''boom''] 0 of
     (b, es, w1) \<Rightarrow> \<exists>ocs. answered [demo_call ''a'' ''echo'', demo_call ''b'' ''boom''] ocs b es \<and> length ocs = 2"
proof -
  have "\<forall>v. \<not> tk_aborted demo_hooks v" by (simp add: demo_hooks_def)
  then show ?thesis
    using tool_batch_contract [where hk = demo_hooks and ctx = demo_context and msg = "demo_reply [] ToolUse"
        and cs = "[demo_call ''a'' ''echo'', demo_call ''b'' ''boom'']" and w = 0]
    by (auto split: prod.splits)
qed

end
