(* ===== verification/Agent_Loop_Correct.thy ===== *)
theory Agent_Loop_Correct
  imports Agent_Loop Agent_Tools_Correct
begin

text \<open>
  Properties of the agent loop: replaying the declared tool changes gives the executable tools, the
  events of every finished run follow the lifecycle protocol, the messages of a run are those its
  events announce, and a failed response ends the run after its turn.
\<close>

section \<open>Tool declarations\<close>

declare agent_system_messages_append [simp]

lemma agent_system_none: "\<not> is_system m \<Longrightarrow> agent_system m = None"
  by (cases m rule: is_system.cases) simp_all

lemma agent_system_messages_none [simp]: "list_all (\<lambda>m. \<not> is_system m) ms \<Longrightarrow> agent_system_messages ms = []"
  by (induction ms) (simp_all add: agent_system_messages_def List.map_filter_def agent_system_none)

lemma is_system_D: "is_system m \<Longrightarrow> \<exists>p. m = System p"
  by (cases m rule: is_system.cases) simp_all

lemma last_system_index_Some:
  assumes "last_system_index ms = Some i"
  obtains xs p ys where "ms = xs @ System p # ys" and "length xs = i" and "list_all (\<lambda>m. \<not> is_system m) ys"
proof -
  obtain j where j: "j < length ms" "is_system (ms ! i)" "i = length ms - Suc j"
      "\<And>k. k < j \<Longrightarrow> \<not> is_system (ms ! (length ms - Suc k))"
    using assms by (auto simp: last_system_index_def find_Some_iff rev_nth)
  then have i: "i < length ms" by simp
  obtain p where p: "ms ! i = System p" using is_system_D [OF j(2)] by blast
  have "\<not> is_system (drop (Suc i) ms ! k)" if "k < length (drop (Suc i) ms)" for k
    using j(4) [of "length ms - Suc (Suc i + k)"] j(1,3) that by (simp add: Suc_diff_Suc)
  then have "list_all (\<lambda>m. \<not> is_system m) (drop (Suc i) ms)" by (simp add: list_all_length)
  then show ?thesis using that [of "take i ms" p "drop (Suc i) ms"] id_take_nth_drop [OF i] p i by simp
qed

lemma last_system_index_None:
  "last_system_index ms = None \<Longrightarrow> list_all (\<lambda>m. \<not> is_system m) ms"
  by (auto simp: last_system_index_def find_None_iff list_all_length)

lemma withToolChanges_simps [simp]:
  "sy_toolsAdded (withToolChanges m ch) = toolsAdded ch"
  "sy_toolsRemoved (withToolChanges m ch) = toolsRemoved ch"
  by (simp_all add: withToolChanges_def)

lemma withToolChanges_idle:
  "sy_toolsAdded m = [] \<Longrightarrow> sy_toolsRemoved m = [] \<Longrightarrow> withToolChanges m NO_CHANGES = m"
  by (simp add: withToolChanges_def NO_CHANGES_def)

lemma getCurrentTools_idle:
  "sy_toolsAdded m = [] \<Longrightarrow> sy_toolsRemoved m = [] \<Longrightarrow> getCurrentTools (ms @ [m]) = getCurrentTools ms"
  by (simp add: getCurrentTools_def replay_tools_def)

text \<open>The result in one form: the last pending system message carries the changes, or a new one does.\<close>

lemma declareToolChanges_pending:
  assumes "list_all (\<lambda>m. \<not> is_system m) ys" and "last_system_index (xs @ System p # ys) = Some (length xs)"
  shows "declareToolChanges hk ctx (xs @ System p # ys) w =
     (xs @ System (withToolChanges p (getToolStateChanges
        (getCurrentTools (agent_system_messages (ac_messages ctx @ xs))) (map toToolDeclaration (ac_tools ctx)))) # ys, w)"
proof -
  have "getCurrentTools (agent_system_messages (ac_messages ctx @ xs @ System (withToolChanges p NO_CHANGES) # ys)) =
      getCurrentTools (agent_system_messages (ac_messages ctx @ xs))"
    using getCurrentTools_idle [of "withToolChanges p NO_CHANGES" "agent_system_messages (ac_messages ctx @ xs)"] assms(1)
    by (simp add: NO_CHANGES_def)
  then show ?thesis
    using withToolChanges_idle [of p] by (simp add: declareToolChanges_def assms(2) declared_changes_def Let_def)
qed

lemma declareToolChanges_fresh:
  assumes "list_all (\<lambda>m. \<not> is_system m) ms"
  shows "\<exists>d w1. declareToolChanges hk ctx ms w = (ms, w) \<and>
        getToolStateChanges (getCurrentTools (agent_system_messages (ac_messages ctx))) (map toToolDeclaration (ac_tools ctx)) = NO_CHANGES \<or>
      declareToolChanges hk ctx ms w = (System d # ms, w1) \<and>
        d = withToolChanges d (getToolStateChanges (getCurrentTools (agent_system_messages (ac_messages ctx))) (map toToolDeclaration (ac_tools ctx)))"
proof -
  have "last_system_index ms = None"
    using assms by (auto simp: last_system_index_def find_None_iff list_all_length)
  moreover have "(case find (\<lambda>i. \<not> is_system (ms ! i)) [0..<length ms] of None \<Rightarrow> length ms | Some i \<Rightarrow> i) = 0"
    using assms by (cases ms) (simp_all add: upt_conv_Cons del: upt_Suc)
  ultimately show ?thesis using assms
    by (auto simp: declareToolChanges_def declared_changes_def Let_def withToolChanges_def split: prod.splits)
qed

text \<open>
  C12. Before every request the transcript declares exactly the tools the runtime can execute:
  whatever tool fields the pending messages carry, replaying the transcript with the messages
  \<open>declareToolChanges\<close> returns finds for every name the same declaration as the executable tools, and
  the conversation messages are left as they were. Tool names are distinct.
\<close>

theorem declared_tools_replay:
  assumes "distinct (map t_name (ac_tools ctx))"
  shows "rel_option declarationsEqual
       (find (\<lambda>t. t_name t = n) (getCurrentTools (agent_system_messages (ac_messages ctx @ fst (declareToolChanges hk ctx pending w)))))
       (find (\<lambda>t. t_name t = n) (map toToolDeclaration (ac_tools ctx))) \<and>
     filter (\<lambda>m. \<not> is_system m) (fst (declareToolChanges hk ctx pending w)) = filter (\<lambda>m. \<not> is_system m) pending"
proof -
  let ?target = "map toToolDeclaration (ac_tools ctx)"
  have distinct: "distinct (map t_name ?target)" using assms by (simp add: toToolDeclaration_def comp_def)
  show ?thesis
  proof (cases "last_system_index pending")
    case (Some i)
    then obtain xs p ys where split: "pending = xs @ System p # ys" "length xs = i" "list_all (\<lambda>m. \<not> is_system m) ys"
      by (rule last_system_index_Some)
    then have "last_system_index (xs @ System p # ys) = Some (length xs)" using Some by simp
    note result = declareToolChanges_pending [OF split(3) this, of hk ctx w]
    let ?d = "withToolChanges p (getToolStateChanges (getCurrentTools (agent_system_messages (ac_messages ctx @ xs))) ?target)"
    show ?thesis
      using getCurrentTools_delta [OF distinct, of ?d "agent_system_messages (ac_messages ctx @ xs)" n] split(3)
      by (simp add: split(1) result)
  next
    case None
    note none = last_system_index_None [OF None]
    let ?S = "agent_system_messages (ac_messages ctx)"
    obtain d w1 where
      "declareToolChanges hk ctx pending w = (pending, w) \<and> getToolStateChanges (getCurrentTools ?S) ?target = NO_CHANGES \<or>
       declareToolChanges hk ctx pending w = (System d # pending, w1) \<and> d = withToolChanges d (getToolStateChanges (getCurrentTools ?S) ?target)"
      using declareToolChanges_fresh [OF none, of hk ctx w] by blast
    then show ?thesis
    proof (elim disjE conjE)
      assume same: "declareToolChanges hk ctx pending w = (pending, w)"
        and no: "getToolStateChanges (getCurrentTools ?S) ?target = NO_CHANGES"
      let ?d = "withToolChanges d NO_CHANGES"
      have "getCurrentTools (?S @ [?d]) = getCurrentTools ?S"
        by (rule getCurrentTools_idle) (simp_all add: NO_CHANGES_def)
      then show ?thesis
        using getCurrentTools_delta [OF distinct, of ?d ?S n] no none by (simp add: same)
    next
      assume new: "declareToolChanges hk ctx pending w = (System d # pending, w1)"
        and d: "d = withToolChanges d (getToolStateChanges (getCurrentTools ?S) ?target)"
      have "sy_toolsAdded d = toolsAdded (getToolStateChanges (getCurrentTools ?S) ?target)"
        and "sy_toolsRemoved d = toolsRemoved (getToolStateChanges (getCurrentTools ?S) ?target)"
        by (subst d, simp)+
      then show ?thesis
        using getCurrentTools_delta [OF distinct, of d ?S n] none by (simp add: new)
    qed
  qed
qed

theorem declared_tools_replay_witness:
  "rel_option declarationsEqual
     (find (\<lambda>t. t_name t = js ''echo'') (getCurrentTools (agent_system_messages
        (ac_messages demo_context @ fst (declareToolChanges demo_hooks demo_context [] 0)))))
     (Some (toToolDeclaration (demo_agent_tool ''echo'' False)))"
proof -
  have "distinct (map t_name (ac_tools demo_context))" by code_simp
  from declared_tools_replay [OF this, of "js ''echo''" demo_hooks "[]" 0]
  show ?thesis by (simp add: demo_context_def demo_agent_tool_def toToolDeclaration_def)
qed

section \<open>The lifecycle protocol\<close>

text \<open>
  Where a run is: before its start, between turns, in a turn, inside a message of some role, or after
  its end. \<open>phase_step\<close> allows the events that may come next.
\<close>

datatype phase = NotStarted | BetweenTurns | InTurn | InMessage jstr | Ended

fun phase_step :: "phase \<Rightarrow> agent_event \<Rightarrow> phase option" where
  "phase_step NotStarted AgentStart = Some BetweenTurns"
| "phase_step BetweenTurns TurnStart = Some InTurn"
| "phase_step BetweenTurns (AgentEnd ms) = Some Ended"
| "phase_step InTurn (MessageStart m) = Some (InMessage (role m))"
| "phase_step InTurn (TurnEnd m rs) = Some BetweenTurns"
| "phase_step InTurn (ToolExecutionStart i n a) = Some InTurn"
| "phase_step InTurn (ToolExecutionUpdate i n a r) = Some InTurn"
| "phase_step InTurn (ToolExecutionEnd i n r e d) = Some InTurn"
| "phase_step (InMessage r) (MessageUpdate m) = (if r = role m \<and> is_assistant m then Some (InMessage r) else None)"
| "phase_step (InMessage r) (MessageEnd m) = (if r = role m then Some InTurn else None)"
| "phase_step p e = None"

fun phases :: "phase \<Rightarrow> agent_event list \<Rightarrow> phase option" where
  "phases p [] = Some p"
| "phases p (e # es) = Option.bind (phase_step p e) (\<lambda>q. phases q es)"

lemma phases_append [simp]: "phases p (es @ es') = Option.bind (phases p es) (\<lambda>q. phases q es')"
  by (induction es arbitrary: p) (simp_all split: Option.bind_split)

text \<open>The messages that a list of events completes.\<close>

fun completed :: "agent_event list \<Rightarrow> agent_message list" where
  "completed [] = []"
| "completed (MessageEnd m # es) = m # completed es"
| "completed (e # es) = completed es"

lemma completed_append [simp]: "completed (es @ es') = completed es @ completed es'"
  by (induction es rule: completed.induct) simp_all

lemma announce_events [simp]: "completed (announce ms) = ms" "phases InTurn (announce ms) = Some InTurn"
  by (induction ms) (simp_all add: announce_def)

subsection \<open>Tool calls\<close>

fun is_tool_event :: "agent_event \<Rightarrow> bool" where
  "is_tool_event (ToolExecutionStart _ _ _) = True"
| "is_tool_event (ToolExecutionUpdate _ _ _ _) = True"
| "is_tool_event (ToolExecutionEnd _ _ _ _ _) = True"
| "is_tool_event _ = False"

lemma tool_events [simp]:
  "is_tool_event (emitToolExecutionStart c)" "is_tool_event (emitToolExecutionUpdate c u)" "is_tool_event (emitToolExecutionEnd oc)"
  by (simp_all add: emitToolExecutionStart_def emitToolExecutionUpdate_def emitToolExecutionEnd_def)

lemma phases_tool_event [simp]: "is_tool_event e \<Longrightarrow> phases InTurn (e # es) = phases InTurn es"
  by (cases e) simp_all

lemma phases_tool_events [simp]: "list_all is_tool_event es \<Longrightarrow> phases InTurn es = Some InTurn"
  by (induction es) (simp_all del: phases.simps(2))

lemma list_all_updates [simp]: "list_all is_tool_event (map (emitToolExecutionUpdate c) us)"
  by (simp add: list_all_iff)

lemma phases_result_message [simp]:
  "phases InTurn (emitToolResultMessage m) = Some InTurn"
  "phases InTurn (emitToolResultMessage m @ es) = phases InTurn es"
  "phases InTurn (concat (map emitToolResultMessage ms)) = Some InTurn"
proof -
  show 1: "phases InTurn (emitToolResultMessage m) = Some InTurn" for m by (simp add: emitToolResultMessage_def)
  show "phases InTurn (emitToolResultMessage m @ es) = phases InTurn es" by (simp add: 1)
  show "phases InTurn (concat (map emitToolResultMessage ms)) = Some InTurn" by (induction ms) (simp_all add: 1)
qed

lemma failToolCalls_phases: "phases InTurn (fst (snd (failToolCalls hk cs w))) = Some InTurn"
proof (induction cs arbitrary: w)
  case (Cons c cs)
  obtain now w1 where now: "tk_now hk w = (now, w1)" by fastforce
  show ?case using Cons.IH [of w1] by (auto simp: now Let_def simp del: phases.simps(2) split: prod.splits)
qed simp

lemma run_one_tool_events: "list_all is_tool_event (fst (snd (run_one hk ctx msg c w)))"
  by (auto simp: run_one_def split: prod.splits preparation.splits)

lemma sequential_phases: "phases InTurn (fst (snd (sequential_calls hk ctx msg cs w))) = Some InTurn"
proof (induction cs arbitrary: w)
  case (Cons c cs)
  obtain oc us w1 where one: "run_one hk ctx msg c w = (oc, us, w1)" by (metis prod_cases3)
  obtain now w2 where now: "tk_now hk w1 = (now, w2)" by fastforce
  show ?case
    using Cons.IH [of w2] run_one_tool_events [of hk ctx msg c w]
    by (auto simp: one now Let_def simp del: phases.simps(2) split: prod.splits)
qed simp

lemma prepare_tool_events: "list_all is_tool_event (fst (snd (prepare_calls hk ctx msg cs w)))"
proof (induction cs arbitrary: w)
  case (Cons c cs)
  obtain p w1 where p: "prepareToolCall hk ctx msg c (ac_tools ctx) w = (p, w1)" by fastforce
  show ?case using Cons.IH [of w1] by (cases p) (auto simp: p Let_def split: prod.splits)
qed simp

lemma start_tool_events: "list_all is_tool_event (fst (snd (start_calls hk ss w)))"
  by (induction hk ss w rule: start_calls.induct) (auto simp: Let_def split: prod.splits)

lemma step_tool_events: "list_all is_tool_event (fst (snd (step_call hk ctx msg s w)))"
  by (induction hk ctx msg s w rule: step_call.induct) (auto split: prod.splits)

lemma run_calls_tool_events: "list_all is_tool_event (fst (snd (run_calls hk ctx msg ss w)))"
proof (induction hk ctx msg ss w rule: run_calls.induct)
  case (1 hk ctx msg ss w)
  show ?case
  proof (cases "running ss = []")
    case False
    obtain n w1 where n: "tk_schedule hk w = (n, w1)" by fastforce
    obtain s es w2 where s: "step_call hk ctx msg (ss ! pick n ss) w1 = (s, es, w2)" by (metis prod_cases3)
    show ?thesis
      using 1 [OF False n [symmetric] refl refl s [symmetric] refl refl] step_tool_events [of hk ctx msg "ss ! pick n ss" w1] False
      by (subst run_calls.simps) (auto simp: n s split: prod.splits)
  qed (simp add: run_calls.simps)
qed

lemma executeToolCalls_phases: "phases InTurn (fst (snd (executeToolCalls hk ctx msg cs w))) = Some InTurn"
proof (cases "tk_sequential hk \<or> list_ex (is_sequential_call ctx) cs")
  case True
  then show ?thesis using sequential_phases [of hk ctx msg cs w]
    by (auto simp: executeToolCalls_def executeToolCallsSequential_def split: prod.splits)
next
  case False
  obtain ss es1 w1 where p: "prepare_calls hk ctx msg cs w = (ss, es1, w1)" by (metis prod_cases3)
  obtain st es2 w2 where st: "start_calls hk ss w1 = (st, es2, w2)" by (metis prod_cases3)
  obtain fs es3 w3 where r: "run_calls hk ctx msg st w2 = (fs, es3, w3)" by (metis prod_cases3)
  show ?thesis
    using False prepare_tool_events [of hk ctx msg cs w] start_tool_events [of hk ss w1] run_calls_tool_events [of hk ctx msg st w2]
    by (auto simp: executeToolCalls_def executeToolCallsParallel_def p st r Let_def split: prod.splits)
qed

lemma completed_messages_only: "completed es = completed (filter is_message_event es)"
  by (induction es rule: completed.induct) simp_all

lemma completed_results [simp]: "completed (concat (map emitToolResultMessage ms)) = map ToolResult ms"
  by (induction ms) (simp_all add: emitToolResultMessage_def)

lemma executeToolCalls_completed:
  assumes "executeToolCalls hk ctx msg cs w = (b, es, w1)"
  shows "completed es = map ToolResult (tb_messages b)"
proof -
  obtain ocs where "answered cs ocs b es"
    using batch_answered [OF assms] by blast
  then show ?thesis by (subst completed_messages_only) (simp add: answered_def)
qed

lemma failed_batch:
  assumes "failToolCallsFromTruncatedMessage hk cs w = (b, es, w1)"
  shows "completed es = map ToolResult (tb_messages b)" and "phases InTurn es = Some InTurn"
proof -
  have "filter is_message_event es = concat (map emitToolResultMessage (tb_messages b))"
    using failToolCalls_answers [where hk = hk and cs = cs and w = w] assms
    by (auto simp: failToolCallsFromTruncatedMessage_def split: prod.splits)
  then show "completed es = map ToolResult (tb_messages b)" by (subst completed_messages_only) simp
  show "phases InTurn es = Some InTurn"
    using failToolCalls_phases [of hk cs w] assms
    by (auto simp: failToolCallsFromTruncatedMessage_def split: prod.splits)
qed

lemma run_tools_events:
  assumes "run_tools hk message s = (rs, s', es)"
  shows "completed es = map ToolResult rs" and "phases InTurn es = Some InTurn"
    and "ls_new s' = ls_new s @ map ToolResult rs" and "ls_lastTurn s' = ls_lastTurn s"
    and "ac_messages (ls_context s') = ac_messages (ls_context s) @ map ToolResult rs"
    and "ac_tools (ls_context s') = ac_tools (ls_context s)"
proof -
  let ?cs = "message_calls message"
  define r where "r = (if as_stopReason message = LengthStop
      then failToolCallsFromTruncatedMessage (lk_tools hk) ?cs (ls_world s)
      else executeToolCalls (lk_tools hk) (ls_context s) message ?cs (ls_world s))"
  obtain b es1 w1 where r_eq: "r = (b, es1, w1)" by (metis prod_cases3)
  have batch: "completed es1 = map ToolResult (tb_messages b)" "phases InTurn es1 = Some InTurn"
    using r_eq failed_batch [of "lk_tools hk" ?cs "ls_world s" b es1 w1]
      executeToolCalls_completed [of "lk_tools hk" "ls_context s" message ?cs "ls_world s" b es1 w1]
      executeToolCalls_phases [of "lk_tools hk" "ls_context s" message ?cs "ls_world s"]
    by (auto simp: r_def split: if_splits)
  have "run_tools hk message s = (if ?cs = [] then ([], s\<lparr>ls_more := False\<rparr>, [])
      else (tb_messages b, (add_messages (map ToolResult (tb_messages b)) s)\<lparr>ls_more := \<not> tb_terminate b, ls_world := w1\<rparr>, es1))"
    unfolding run_tools_def Let_def r_def [symmetric] r_eq by simp
  then show "completed es = map ToolResult rs" and "phases InTurn es = Some InTurn"
    and "ls_new s' = ls_new s @ map ToolResult rs" and "ls_lastTurn s' = ls_lastTurn s"
    and "ac_messages (ls_context s') = ac_messages (ls_context s) @ map ToolResult rs"
    and "ac_tools (ls_context s') = ac_tools (ls_context s)"
    using assms batch by (auto simp: add_messages_def split: if_splits)
qed

subsection \<open>One response\<close>

fun is_stream_start :: "assistant_event \<Rightarrow> bool" where
  "is_stream_start (StreamStart _) = True"
| "is_stream_start _ = False"

text \<open>The documented protocol of a response: its \<open>start\<close> event comes at most once.\<close>

definition stream_protocol :: "'w loop_hooks \<Rightarrow> bool" where
  "stream_protocol hk \<longleftrightarrow> (\<forall>m ctx opts w. length (filter is_stream_start (fst (fst (lk_stream hk m ctx opts w)))) \<le> 1)"

lemma stream_completed: "completed (snd (stream_events evs final partial ms)) = [Assistant final]"
  by (induction evs final partial ms rule: stream_events.induct)
     (auto simp: finish_stream_def split: option.splits prod.splits)

lemma stream_started:
  assumes "filter is_stream_start evs = []"
  shows "phases (InMessage (js ''assistant'')) (snd (stream_events evs final (Some p) (ms @ [Assistant q]))) = Some InTurn \<and>
    fst (stream_events evs final (Some p) (ms @ [Assistant q])) = ms @ [Assistant final]"
  using assms
proof (induction evs arbitrary: p q)
  case (Cons e evs)
  show ?case
  proof (cases e)
    case (StreamUpdate u)
    with Cons.IH [of u u] Cons.prems show ?thesis by (auto split: prod.splits)
  qed (use Cons.prems in \<open>auto simp: finish_stream_def\<close>)
qed (simp add: finish_stream_def)

lemma stream_single_start:
  "length (filter is_stream_start evs) \<le> 1 \<Longrightarrow>
   phases InTurn (snd (stream_events evs final None ms)) = Some InTurn \<and>
   fst (stream_events evs final None ms) = ms @ [Assistant final]"
proof (induction evs)
  case (Cons e evs)
  show ?case
  proof (cases e)
    case (StreamStart p)
    then have "filter is_stream_start evs = []" using Cons.prems by simp
    with stream_started [OF this, of final p ms p] StreamStart show ?thesis by (auto split: prod.splits)
  qed (use Cons in \<open>auto simp: finish_stream_def\<close>)
qed (simp add: finish_stream_def)

lemma response_events:
  assumes "request_response hk s = (message, s', es)"
  shows "completed es = [Assistant message]" and "ls_new s' = ls_new s @ [Assistant message]"
    and "ls_lastTurn s' = ls_lastTurn s" and "ac_tools (ls_context s') = ac_tools (ls_context s)"
    and "stream_protocol hk \<Longrightarrow> phases InTurn es = Some InTurn"
    and "stream_protocol hk \<Longrightarrow> ac_messages (ls_context s') = ac_messages (ls_context s) @ [Assistant message]"
proof -
  let ?ms = "ac_messages (ls_context s)"
  obtain evs w1 m opts ctx w0 where evs: "fst (fst (lk_stream hk m ctx opts w0)) = evs"
    and s': "s' = s\<lparr>ls_context := (ls_context s)\<lparr>ac_messages := fst (stream_events evs message None ?ms)\<rparr>,
        ls_new := ls_new s @ [Assistant message], ls_world := w1\<rparr>"
    and es: "es = snd (stream_events evs message None ?ms)"
    using assms by (auto simp: request_response_def streamAssistantResponse_def Let_def split: prod.splits)
      (metis fst_conv snd_conv)
  show "completed es = [Assistant message]" by (simp add: es stream_completed)
  show "ls_new s' = ls_new s @ [Assistant message]" and "ls_lastTurn s' = ls_lastTurn s"
    and "ac_tools (ls_context s') = ac_tools (ls_context s)" by (simp_all add: s')
  assume "stream_protocol hk"
  then have "length (filter is_stream_start evs) \<le> 1" using evs by (auto simp: stream_protocol_def)
  from stream_single_start [OF this, of message ?ms]
  show "phases InTurn es = Some InTurn" and "ac_messages (ls_context s') = ?ms @ [Assistant message]"
    by (simp_all add: es s')
qed

subsection \<open>Turns\<close>

definition turn_phase :: "'w loop_state \<Rightarrow> phase" where
  "turn_phase s = (if ls_lastTurn s = None then InTurn else BetweenTurns)"

lemma apply_update_keeps [simp]:
  "ls_new (apply_update u s) = ls_new s" "ls_lastTurn (apply_update u s) = ls_lastTurn s"
  "ls_pending (apply_update u s) = ls_pending s" "ls_more (apply_update u s) = ls_more s"
  by (simp_all add: apply_update_def split: option.splits)

lemma begin_turn_events:
  assumes "begin_turn hk s = (prepared, s', es)"
  shows "completed es = []" and "phases (turn_phase s) es = Some InTurn" and "ls_new s' = ls_new s"
  using assms by (auto simp: begin_turn_def turn_phase_def Let_def split: option.splits prod.splits)

lemma send_pending_events:
  assumes "send_pending hk prepared s = (s', es)"
  shows "ls_new s' = ls_new s @ completed es" and "phases InTurn es = Some InTurn"
    and "ac_messages (ls_context s') = ac_messages (ls_context s) @ completed es"
  using assms by (auto simp: send_pending_def add_messages_def split: prod.splits)

lemma prepare_request_keeps [simp]: "ls_new (prepare_request hk s) = ls_new s"
  by (simp add: prepare_request_def split: prod.splits)

lemma finish_turn_keeps:
  assumes "finish_turn hk message rs s = (decision, s')"
  shows "ls_new s' = ls_new s" and "ls_lastTurn s' \<noteq> None" and "ls_context s' = ls_context s"
    and "ls_more s' = ls_more s"
  using assms by (auto simp: finish_turn_def Let_def split: prod.splits)

lemma schedule_next_keeps [simp]:
  "ls_new (schedule_next hk decision s) = ls_new s" "ls_lastTurn (schedule_next hk decision s) = ls_lastTurn s"
  "ls_context (schedule_next hk decision s) = ls_context s"
  by (simp_all add: schedule_next_def split: prod.splits)

text \<open>A turn as a relation: it ends with a failed response, by the decision of \<open>finishTurn\<close>, or goes on.\<close>

inductive turn_ran :: "'w loop_hooks \<Rightarrow> 'w loop_state \<Rightarrow> bool \<Rightarrow> 'w loop_state \<Rightarrow> agent_event list \<Rightarrow> bool" for hk where
  failed: "begin_turn hk s = (prepared, s1, es1) \<Longrightarrow> send_pending hk prepared s1 = (s2, es2) \<Longrightarrow>
    request_response hk (prepare_request hk s2) = (message, s3, es3) \<Longrightarrow>
    as_stopReason message = ErrorStop \<or> as_stopReason message = AbortedStop \<Longrightarrow> finish_turn hk message [] s3 = (decision, s4) \<Longrightarrow>
    turn_ran hk s True s4 (es1 @ es2 @ es3 @ [TurnEnd message [], AgentEnd (ls_new s4)])"
| ended: "begin_turn hk s = (prepared, s1, es1) \<Longrightarrow> send_pending hk prepared s1 = (s2, es2) \<Longrightarrow>
    request_response hk (prepare_request hk s2) = (message, s3, es3) \<Longrightarrow>
    as_stopReason message \<noteq> ErrorStop \<Longrightarrow> as_stopReason message \<noteq> AbortedStop \<Longrightarrow>
    run_tools hk message s3 = (rs, s4, es4) \<Longrightarrow> finish_turn hk message rs s4 = (Some EndRun, s5) \<Longrightarrow>
    turn_ran hk s True s5 (es1 @ es2 @ es3 @ es4 @ [TurnEnd message rs, AgentEnd (ls_new s5)])"
| goes_on: "begin_turn hk s = (prepared, s1, es1) \<Longrightarrow> send_pending hk prepared s1 = (s2, es2) \<Longrightarrow>
    request_response hk (prepare_request hk s2) = (message, s3, es3) \<Longrightarrow>
    as_stopReason message \<noteq> ErrorStop \<Longrightarrow> as_stopReason message \<noteq> AbortedStop \<Longrightarrow>
    run_tools hk message s3 = (rs, s4, es4) \<Longrightarrow> finish_turn hk message rs s4 = (decision, s5) \<Longrightarrow> decision \<noteq> Some EndRun \<Longrightarrow>
    turn_ran hk s False (schedule_next hk decision s5) (es1 @ es2 @ es3 @ es4 @ [TurnEnd message rs])"

lemma run_turn_ran:
  assumes "run_turn hk s = (ended, s', es)"
  shows "turn_ran hk s ended s' es"
proof -
  obtain prepared s1 es1 where 1: "begin_turn hk s = (prepared, s1, es1)" by (metis prod_cases3)
  obtain s2 es2 where 2: "send_pending hk prepared s1 = (s2, es2)" by fastforce
  obtain message s3 es3 where 3: "request_response hk (prepare_request hk s2) = (message, s3, es3)" by (metis prod_cases3)
  show ?thesis
  proof (cases "as_stopReason message = ErrorStop \<or> as_stopReason message = AbortedStop")
    case True
    obtain d s4 where "finish_turn hk message [] s3 = (d, s4)" by fastforce
    with turn_ran.failed [OF 1 2 3 True this] True assms show ?thesis by (auto simp: run_turn_def 1 2 3)
  next
    case False
    obtain rs s4 es4 where 4: "run_tools hk message s3 = (rs, s4, es4)" by (metis prod_cases3)
    obtain d s5 where 5: "finish_turn hk message rs s4 = (d, s5)" by fastforce
    show ?thesis
      using turn_ran.ended [OF 1 2 3 _ _ 4, of s5] turn_ran.goes_on [OF 1 2 3 _ _ 4 5] False 5 assms
      by (auto simp: run_turn_def 1 2 3 4 5 Let_def split: if_splits)
  qed
qed

lemmas turn_messages = begin_turn_events(1,3) send_pending_events(1) response_events(1,2) run_tools_events(1,3) finish_turn_keeps(1)

lemma run_turn_messages:
  assumes "run_turn hk s = (ended, s', es)"
  shows "ls_new s' = ls_new s @ completed es \<and> ls_lastTurn s' \<noteq> None \<and> es \<noteq> [] \<and>
     (ended \<longrightarrow> last es = AgentEnd (ls_new s'))"
  using run_turn_ran [OF assms] by (cases rule: turn_ran.cases) (auto simp: turn_messages dest: finish_turn_keeps(2))

lemma run_turn_phases:
  assumes "run_turn hk s = (ended, s', es)" and "stream_protocol hk"
  shows "phases (turn_phase s) es = Some (if ended then Ended else BetweenTurns)"
  using run_turn_ran [OF assms(1)]
  by (cases rule: turn_ran.cases)
     (simp_all add: begin_turn_events(2) send_pending_events(2) response_events(5) [OF _ assms(2)] run_tools_events(2))

section \<open>Whole runs\<close>

definition after_poll :: "'w loop_hooks \<Rightarrow> 'w loop_state \<Rightarrow> 'w loop_state" where
  "after_poll hk s = s\<lparr>ls_world := snd (lk_getFollowUpMessages hk (ls_world s))\<rparr>"

lemma after_poll_keeps [simp]:
  "ls_new (after_poll hk s) = ls_new s" "ls_lastTurn (after_poll hk s) = ls_lastTurn s"
  "ls_context (after_poll hk s) = ls_context s"
  by (simp_all add: after_poll_def)

text \<open>Induction over a finished run: its last turn, another turn, follow-up messages, a continuation, or the end.\<close>

lemma loop_from_induct [consumes 1, case_names last_turn turn follow_up continuation stop]:
  assumes run: "loop_from hk s = Some (s', es)"
    and last_turn: "\<And>s s' es. run_turn hk s = (True, s', es) \<Longrightarrow> P s s' es"
    and turn: "\<And>s s1 es1 s2 es2. run_turn hk s = (False, s1, es1) \<Longrightarrow> P s1 s2 es2 \<Longrightarrow> P s s2 (es1 @ es2)"
    and follow_up: "\<And>s ms s' es. ms \<noteq> [] \<Longrightarrow> P ((after_poll hk s)\<lparr>ls_explicit := False, ls_pending := ms, ls_more := True\<rparr>) s' es \<Longrightarrow> P s s' es"
    and continuation: "\<And>s s' es. P ((after_poll hk s)\<lparr>ls_explicit := False, ls_more := True\<rparr>) s' es \<Longrightarrow> P s s' es"
    and stop: "\<And>s. \<not> ls_more s \<Longrightarrow> P s (after_poll hk s) [AgentEnd (ls_new s)]"
  shows "P s s' es"
proof -
  have "hk' = hk \<longrightarrow> P s (fst r) (snd r)" if "loop_from hk' s = Some r" for hk' s r
    using that
  proof (rule loop_from.raw_induct [rotated])
    fix rec hk' s r
    assume IH: "\<And>hk' s r. rec hk' s = Some r \<Longrightarrow> hk' = hk \<longrightarrow> P s (fst r) (snd r)"
      and body: "(if ls_more s \<or> ls_pending s \<noteq> [] then
          if fst (run_turn hk' s) then Some (snd (run_turn hk' s))
          else Option.bind (rec hk' (fst (snd (run_turn hk' s))))
                 (\<lambda>r. Some (fst r, snd (snd (run_turn hk' s)) @ snd r))
        else let (followUps, w1) = lk_getFollowUpMessages hk' (ls_world s); s1 = s\<lparr>ls_world := w1\<rparr>
          in if followUps \<noteq> [] then rec hk' (s1\<lparr>ls_explicit := False, ls_pending := followUps, ls_more := True\<rparr>)
             else if ls_explicit s then rec hk' (s1\<lparr>ls_explicit := False, ls_more := True\<rparr>)
             else Some (s1, [AgentEnd (ls_new s1)])) = Some r"
    show "hk' = hk \<longrightarrow> P s (fst r) (snd r)"
    proof
      assume hk: "hk' = hk"
      obtain ended s1 es1 where t: "run_turn hk s = (ended, s1, es1)" by (metis prod_cases3)
      show "P s (fst r) (snd r)"
      proof (cases "ls_more s \<or> ls_pending s \<noteq> []")
        case True
        show ?thesis
        proof (cases ended)
          case True
          with body \<open>ls_more s \<or> ls_pending s \<noteq> []\<close> t hk last_turn [of s s1 es1] show ?thesis by auto
        next
          case False
          with body \<open>ls_more s \<or> ls_pending s \<noteq> []\<close> t hk obtain r1 where
            r1: "rec hk s1 = Some r1" "r = (fst r1, es1 @ snd r1)" by (auto split: Option.bind_splits)
          show ?thesis using turn [of s s1 es1 "fst r1" "snd r1"] t False IH [OF r1(1)] r1(2) by simp
        qed
      next
        case False
        obtain ms w1 where f: "lk_getFollowUpMessages hk (ls_world s) = (ms, w1)" by fastforce
        have ap: "after_poll hk s = s\<lparr>ls_world := w1\<rparr>" by (simp add: after_poll_def f)
        show ?thesis
        proof (cases "ms \<noteq> []")
          case True
          with body False hk f have "rec hk ((after_poll hk s)\<lparr>ls_explicit := False, ls_pending := ms, ls_more := True\<rparr>) = Some r"
            by (simp add: ap)
          from IH [OF this] follow_up [OF True, of s "fst r" "snd r"] show ?thesis by simp
        next
          case empty: False
          show ?thesis
          proof (cases "ls_explicit s")
            case True
            with body False hk f empty have "rec hk ((after_poll hk s)\<lparr>ls_explicit := False, ls_more := True\<rparr>) = Some r"
              by (simp add: ap)
            from IH [OF this] continuation [of s "fst r" "snd r"] show ?thesis by simp
          next
            case no: False
            with body False hk f empty have "r = (after_poll hk s, [AgentEnd (ls_new s)])" by (auto simp: ap)
            with stop [of s] False show ?thesis by simp
          qed
        qed
      qed
    qed
  qed
  from this [OF run] show ?thesis by simp
qed

lemma loop_from_messages:
  "loop_from hk s = Some (s', es) \<Longrightarrow> ls_new s' = ls_new s @ completed es \<and> last es = AgentEnd (ls_new s') \<and> es \<noteq> []"
proof (induction rule: loop_from_induct)
  case (last_turn s s' es)
  then show ?case using run_turn_messages [OF last_turn] by auto
next
  case (turn s s1 es1 s2 es2)
  then show ?case using run_turn_messages [OF turn(1)] by auto
qed auto

lemma loop_from_phases:
  assumes "loop_from hk s = Some (s', es)" and "ls_more s \<or> ls_lastTurn s \<noteq> None" and "stream_protocol hk"
  shows "phases (turn_phase s) es = Some Ended"
  using assms(1,2)
proof (induction rule: loop_from_induct)
  case (last_turn s s' es)
  then show ?case using run_turn_phases [OF last_turn(1) assms(3)] by simp
next
  case (turn s s1 es1 s2 es2)
  then have "ls_lastTurn s1 \<noteq> None" using run_turn_messages by blast
  then show ?case using run_turn_phases [OF turn(1) assms(3)] turn.IH by (auto simp: turn_phase_def)
qed (simp_all add: turn_phase_def)

lemma runLoop_contract:
  assumes "runLoop hk config ctx ms w = Some (s, es)"
  shows "ls_new s = ms @ completed es" and "last es = AgentEnd (ls_new s)" and "es \<noteq> []"
    and "stream_protocol hk \<Longrightarrow> phases InTurn es = Some Ended"
proof -
  obtain s0 where run: "loop_from hk s0 = Some (s, es)" and s0: "ls_new s0 = ms" "ls_more s0" "ls_lastTurn s0 = None"
    using assms by (auto simp: runLoop_def split: prod.splits)
  show "ls_new s = ms @ completed es" and "last es = AgentEnd (ls_new s)" and "es \<noteq> []"
    using loop_from_messages [OF run] s0 by simp_all
  show "stream_protocol hk \<Longrightarrow> phases InTurn es = Some Ended"
    using loop_from_phases [OF run] s0 by (simp add: turn_phase_def)
qed

definition demo_model :: model where
  "demo_model = \<lparr>mo_id = js ''m'', mo_api = js ''a'', mo_provider = js ''p'', mo_contextWindow = 0, mo_maxTokens = 0, mo_spec = JNull\<rparr>"

text \<open>A provider that calls the tool \<open>echo\<close> in its first response and fails from then on.\<close>

definition demo_loop :: "nat loop_hooks" where
  "demo_loop =
     \<lparr>lk_tools = demo_hooks, lk_apiKey = None, lk_identity = None,
      lk_getSteeringMessages = (\<lambda>w. ([], w)), lk_getFollowUpMessages = (\<lambda>w. ([], w)),
      lk_prepareNextTurn = (\<lambda>t w. (None, w)), lk_prepareRequest = (\<lambda>c m l w. (None, w)), lk_finishTurn = (\<lambda>t w. (None, w)),
      lk_transformContext = (\<lambda>ms w. (ms, w)), lk_convertToLlm = (\<lambda>ms w. (convertToLlm ms, w)),
      lk_getApiKey = (\<lambda>p w. (None, w)),
      lk_stream = (\<lambda>m c opts w.
        if w < 100 then (([StreamStart (demo_reply [] PendingStop), StreamDone (demo_reply [] ToolUse)],
            demo_reply [ToolCall (demo_call ''c1'' ''echo'')] ToolUse), 100)
        else (([StreamError (demo_reply [] ErrorStop)], demo_reply [] ErrorStop), Suc w))\<rparr>"

definition demo_config :: loop_config where
  "demo_config = \<lparr>cf_model = demo_model, cf_reasoning = None\<rparr>"

lemma demo_stream_protocol: "stream_protocol demo_loop"
  by (simp add: stream_protocol_def demo_loop_def)

end
