(* ===== verification/Agent_Budget.thy ===== *)
theory Agent_Budget
  imports Agent_Loop_Correct
begin

text \<open>
  Termination of runs. The loop itself has no bound: it goes on as long as responses call tools or
  messages arrive. A budget is a measure of the world that no hook or tool increases and that every
  response uses up, unless it fails; a run within a budget returns after a bounded number of turns.
\<close>

section \<open>Budgets\<close>

definition tools_within :: "('w \<Rightarrow> nat) \<Rightarrow> 'w tool_hooks \<Rightarrow> bool" where
  "tools_within \<mu> hk \<longleftrightarrow>
     (\<forall>w. \<mu> (snd (tk_now hk w)) \<le> \<mu> w) \<and> (\<forall>w. \<mu> (snd (tk_schedule hk w)) \<le> \<mu> w) \<and>
     (\<forall>t i args w. \<mu> (snd (tk_execute hk t i args w)) \<le> \<mu> w) \<and>
     (\<forall>f m c args ctx w. tk_beforeToolCall hk = Some f \<longrightarrow> \<mu> (snd (f m c args ctx w)) \<le> \<mu> w) \<and>
     (\<forall>f m c args r e ctx w. tk_afterToolCall hk = Some f \<longrightarrow> \<mu> (snd (f m c args r e ctx w)) \<le> \<mu> w)"

definition failed_response :: "assistant_message \<Rightarrow> bool" where
  "failed_response m \<longleftrightarrow> as_stopReason m = ErrorStop \<or> as_stopReason m = AbortedStop"

definition within_budget :: "('w \<Rightarrow> nat) \<Rightarrow> 'w loop_hooks \<Rightarrow> bool" where
  "within_budget \<mu> hk \<longleftrightarrow>
     tools_within \<mu> (lk_tools hk) \<and>
     (\<forall>w. \<mu> (snd (lk_getSteeringMessages hk w)) \<le> \<mu> w) \<and> (\<forall>w. \<mu> (snd (lk_getFollowUpMessages hk w)) \<le> \<mu> w) \<and>
     (\<forall>t w. \<mu> (snd (lk_prepareNextTurn hk t w)) \<le> \<mu> w) \<and> (\<forall>c m l w. \<mu> (snd (lk_prepareRequest hk c m l w)) \<le> \<mu> w) \<and>
     (\<forall>t w. \<mu> (snd (lk_finishTurn hk t w)) \<le> \<mu> w) \<and> (\<forall>ms w. \<mu> (snd (lk_transformContext hk ms w)) \<le> \<mu> w) \<and>
     (\<forall>ms w. \<mu> (snd (lk_convertToLlm hk ms w)) \<le> \<mu> w) \<and> (\<forall>p w. \<mu> (snd (lk_getApiKey hk p w)) \<le> \<mu> w) \<and>
     (\<forall>m c opts w. \<mu> (snd (lk_stream hk m c opts w)) \<le> \<mu> w) \<and>
     (\<forall>m c opts w. failed_response (snd (fst (lk_stream hk m c opts w))) \<or> \<mu> (snd (lk_stream hk m c opts w)) < \<mu> w)"

section \<open>Tool calls stay within the budget\<close>

lemma tools_withinD:
  assumes "tools_within \<mu> hk"
  shows "tk_now hk w = (now, w1) \<Longrightarrow> \<mu> w1 \<le> \<mu> w"
    and "tk_schedule hk w = (n, w1) \<Longrightarrow> \<mu> w1 \<le> \<mu> w"
    and "tk_execute hk t i args w = (x, w1) \<Longrightarrow> \<mu> w1 \<le> \<mu> w"
    and "tk_beforeToolCall hk = Some f \<Longrightarrow> f m c args ctx w = (b, w1) \<Longrightarrow> \<mu> w1 \<le> \<mu> w"
    and "tk_afterToolCall hk = Some g \<Longrightarrow> g m c args r e ctx w = (a, w1) \<Longrightarrow> \<mu> w1 \<le> \<mu> w"
  using assms unfolding tools_within_def by (metis snd_conv)+

lemma prepareToolCall_within:
  "tools_within \<mu> hk \<Longrightarrow> prepareToolCall hk ctx msg c tools w = (p, w1) \<Longrightarrow> \<mu> w1 \<le> \<mu> w"
  by (auto simp: prepareToolCall_def split: option.splits sum.splits prod.splits dest: tools_withinD(4))

lemma finalize_within:
  "tools_within \<mu> hk \<Longrightarrow> finalizeExecutedToolCall hk ctx msg c args ex d w = (oc, w1) \<Longrightarrow> \<mu> w1 \<le> \<mu> w"
  by (auto simp: finalizeExecutedToolCall_def Let_def split: option.splits sum.splits prod.splits dest: tools_withinD(5))

lemma run_one_within:
  assumes "tools_within \<mu> hk" and "run_one hk ctx msg c w = (oc, us, w1)"
  shows "\<mu> w1 \<le> \<mu> w"
proof -
  obtain p v1 where p: "prepareToolCall hk ctx msg c (ac_tools ctx) w = (p, v1)" by fastforce
  note first = prepareToolCall_within [OF assms(1) p]
  show ?thesis
  proof (cases p)
    case (Prepared c1 t args)
    obtain us' r d v2 where x: "tk_execute hk t (tc_id c1) args v1 = ((us', r, d), v2)" by (metis prod_cases3 surj_pair)
    obtain oc' v3 where f: "finalizeExecutedToolCall hk ctx msg c1 args (settled r) d v2 = (oc', v3)" by fastforce
    show ?thesis
      using assms(2) first tools_withinD(3) [OF assms(1) x] finalize_within [OF assms(1) f]
      by (simp add: run_one_def p Prepared x f)
  qed (use assms(2) first in \<open>simp add: run_one_def p\<close>)
qed

lemma sequential_within: "tools_within \<mu> hk \<Longrightarrow> \<mu> (snd (snd (sequential_calls hk ctx msg cs w))) \<le> \<mu> w"
proof (induction cs arbitrary: w)
  case (Cons c cs)
  obtain oc us w1 where one: "run_one hk ctx msg c w = (oc, us, w1)" by (metis prod_cases3)
  obtain now w2 where now: "tk_now hk w1 = (now, w2)" by fastforce
  show ?case
    using Cons.IH [OF Cons.prems, of w2] run_one_within [OF Cons.prems one] tools_withinD(1) [OF Cons.prems now]
    by (auto simp: one now Let_def split: prod.splits)
qed simp

lemma prepare_calls_within: "tools_within \<mu> hk \<Longrightarrow> \<mu> (snd (snd (prepare_calls hk ctx msg cs w))) \<le> \<mu> w"
proof (induction cs arbitrary: w)
  case (Cons c cs)
  obtain p w1 where p: "prepareToolCall hk ctx msg c (ac_tools ctx) w = (p, w1)" by fastforce
  show ?case
    using Cons.IH [OF Cons.prems, of w1] prepareToolCall_within [OF Cons.prems p]
    by (cases p) (auto simp: p Let_def split: prod.splits)
qed simp

lemma start_calls_within: "tools_within \<mu> hk \<Longrightarrow> \<mu> (snd (snd (start_calls hk ss w))) \<le> \<mu> w"
proof (induction hk ss w rule: start_calls.induct)
  case (2 hk c t args ss w)
  show ?case
  proof (cases "tk_aborted hk w")
    case True
    then show ?thesis using 2(1) 2(3) by (auto simp: Let_def split: prod.splits)
  next
    case False
    obtain us r d w1 where x: "tk_execute hk t (tc_id c) args w = ((us, r, d), w1)" by (metis prod_cases3 surj_pair)
    then show ?thesis using 2(2) [OF False x [symmetric] refl refl 2(3)] tools_withinD(3) [OF 2(3) x] False
      by (auto split: prod.splits)
  qed
qed (auto split: prod.splits)

lemma step_call_within: "tools_within \<mu> hk \<Longrightarrow> \<mu> (snd (snd (step_call hk ctx msg s w))) \<le> \<mu> w"
  by (induction hk ctx msg s w rule: step_call.induct) (auto split: prod.splits dest: finalize_within)

lemma run_calls_within: "tools_within \<mu> hk \<Longrightarrow> \<mu> (snd (snd (run_calls hk ctx msg ss w))) \<le> \<mu> w"
proof (induction hk ctx msg ss w rule: run_calls.induct)
  case (1 hk ctx msg ss w)
  show ?case
  proof (cases "running ss = []")
    case False
    obtain n w1 where n: "tk_schedule hk w = (n, w1)" by fastforce
    obtain s es w2 where s: "step_call hk ctx msg (ss ! pick n ss) w1 = (s, es, w2)" by (metis prod_cases3)
    obtain ss' es' w3 where r: "run_calls hk ctx msg (ss[pick n ss := s]) w2 = (ss', es', w3)" by (metis prod_cases3)
    have "\<mu> w3 \<le> \<mu> w"
      using 1(1) [OF False n [symmetric] refl refl s [symmetric] refl refl 1(2)] r s
        step_call_within [OF 1(2), of ctx msg "ss ! pick n ss" w1] tools_withinD(2) [OF 1(2) n] by simp
    then show ?thesis using False by (subst run_calls.simps) (simp add: n s r)
  qed (simp add: run_calls.simps)
qed

lemma result_messages_within: "tools_within \<mu> hk \<Longrightarrow> \<mu> (snd (result_messages hk ocs w)) \<le> \<mu> w"
proof (induction ocs arbitrary: w)
  case (Cons oc ocs)
  obtain now w1 where now: "tk_now hk w = (now, w1)" by fastforce
  show ?case using Cons.IH [OF Cons.prems, of w1] tools_withinD(1) [OF Cons.prems now] by (auto simp: now split: prod.splits)
qed simp

lemma failToolCalls_within: "tools_within \<mu> hk \<Longrightarrow> \<mu> (snd (snd (failToolCalls hk cs w))) \<le> \<mu> w"
proof (induction cs arbitrary: w)
  case (Cons c cs)
  obtain now w1 where now: "tk_now hk w = (now, w1)" by fastforce
  show ?case using Cons.IH [OF Cons.prems, of w1] tools_withinD(1) [OF Cons.prems now]
    by (auto simp: now Let_def split: prod.splits)
qed simp

lemma executeToolCalls_within:
  assumes "tools_within \<mu> hk"
  shows "\<mu> (snd (snd (executeToolCalls hk ctx msg cs w))) \<le> \<mu> w"
proof (cases "tk_sequential hk \<or> list_ex (is_sequential_call ctx) cs")
  case True
  then show ?thesis using sequential_within [OF assms, of ctx msg cs w]
    by (auto simp: executeToolCalls_def executeToolCallsSequential_def split: prod.splits)
next
  case False
  obtain ss es1 w1 where p: "prepare_calls hk ctx msg cs w = (ss, es1, w1)" by (metis prod_cases3)
  obtain st es2 w2 where st: "start_calls hk ss w1 = (st, es2, w2)" by (metis prod_cases3)
  obtain fs es3 w3 where r: "run_calls hk ctx msg st w2 = (fs, es3, w3)" by (metis prod_cases3)
  obtain ms w4 where m: "result_messages hk (outcomes fs) w3 = (ms, w4)" by fastforce
  show ?thesis
    using False prepare_calls_within [OF assms, of ctx msg cs w] start_calls_within [OF assms, of ss w1]
      run_calls_within [OF assms, of ctx msg st w2] result_messages_within [OF assms, of "outcomes fs" w3]
    by (simp add: executeToolCalls_def executeToolCallsParallel_def p st r m Let_def)
qed

section \<open>Turns use up the budget\<close>

lemma within_budgetD:
  assumes "within_budget \<mu> hk"
  shows "tools_within \<mu> (lk_tools hk)"
    and "lk_getSteeringMessages hk w = (ms, w1) \<Longrightarrow> \<mu> w1 \<le> \<mu> w"
    and "lk_getFollowUpMessages hk w = (ms, w1) \<Longrightarrow> \<mu> w1 \<le> \<mu> w"
    and "lk_prepareNextTurn hk t w = (u, w1) \<Longrightarrow> \<mu> w1 \<le> \<mu> w"
    and "lk_prepareRequest hk c m l w = (u, w1) \<Longrightarrow> \<mu> w1 \<le> \<mu> w"
    and "lk_finishTurn hk t w = (d, w1) \<Longrightarrow> \<mu> w1 \<le> \<mu> w"
    and "lk_transformContext hk as w = (as', w1) \<Longrightarrow> \<mu> w1 \<le> \<mu> w"
    and "lk_convertToLlm hk as w = (ls, w1) \<Longrightarrow> \<mu> w1 \<le> \<mu> w"
    and "lk_getApiKey hk p w = (k, w1) \<Longrightarrow> \<mu> w1 \<le> \<mu> w"
    and "lk_stream hk mo ls opts w = (r, w1) \<Longrightarrow> \<mu> w1 \<le> \<mu> w"
    and "lk_stream hk mo ls opts w = ((evs, m2), w1) \<Longrightarrow> failed_response m2 \<or> \<mu> w1 < \<mu> w"
  using assms unfolding within_budget_def by (metis snd_conv fst_conv)+

lemma declareToolChanges_within:
  "tools_within \<mu> hk \<Longrightarrow> declareToolChanges hk ctx ms w = (ms', w1) \<Longrightarrow> \<mu> w1 \<le> \<mu> w"
  by (auto simp: declareToolChanges_def Let_def split: option.splits prod.splits if_splits dest: tools_withinD(1))

lemma begin_turn_within:
  assumes "within_budget \<mu> hk" and "begin_turn hk s = (prepared, s', es)"
  shows "\<mu> (ls_world s') \<le> \<mu> (ls_world s)"
proof (cases "ls_lastTurn s")
  case (Some turn)
  obtain u w1 where u: "lk_prepareNextTurn hk turn (ls_world s) = (u, w1)" by fastforce
  obtain steering w2 where st: "lk_getSteeringMessages hk w1 = (steering, w2)" by fastforce
  show ?thesis
    using assms(2) within_budgetD(4) [OF assms(1) u] within_budgetD(2) [OF assms(1) st]
    by (auto simp: begin_turn_def Some u st Let_def split: if_splits)
qed (use assms(2) in \<open>simp add: begin_turn_def\<close>)

lemma send_pending_within:
  "within_budget \<mu> hk \<Longrightarrow> send_pending hk prepared s = (s', es) \<Longrightarrow> \<mu> (ls_world s') \<le> \<mu> (ls_world s)"
  by (auto simp: send_pending_def split: prod.splits dest: declareToolChanges_within [OF within_budgetD(1)])

lemma prepare_request_within:
  "within_budget \<mu> hk \<Longrightarrow> \<mu> (ls_world (prepare_request hk s)) \<le> \<mu> (ls_world s)"
  by (auto simp: prepare_request_def split: prod.splits dest: within_budgetD(5))

lemma response_within:
  assumes "within_budget \<mu> hk" and "request_response hk s = (message, s', es)"
  shows "\<mu> (ls_world s') \<le> \<mu> (ls_world s) \<and> (failed_response message \<or> \<mu> (ls_world s') < \<mu> (ls_world s))"
proof -
  obtain messages w1 where 1: "lk_transformContext hk (ac_messages (ls_context s)) (ls_world s) = (messages, w1)" by fastforce
  obtain llm w2 where 2: "lk_convertToLlm hk messages w1 = (llm, w2)" by fastforce
  obtain k w3 where 3: "lk_getApiKey hk (mo_provider (cf_model (ls_config s))) w2 = (k, w3)" by fastforce
  define opts where "opts = \<lparr>so_reasoning = cf_reasoning (ls_config s),
     so_apiKey = (case non_empty k of None \<Rightarrow> lk_apiKey hk | Some k \<Rightarrow> Some k),
     so_identity = mergeClientIdentity [Some DEFAULT_AGENT_IDENTITY, lk_identity hk]\<rparr>"
  obtain evs result w4 where 4: "lk_stream hk (cf_model (ls_config s))
      (normalizeContext \<lparr>cx_systemPrompt = None, cx_messages = llm, cx_tools = None\<rparr>) opts w3 = ((evs, result), w4)"
    by (metis surj_pair)
  have "ls_world s' = w4" and "as_stopReason message = as_stopReason result"
    using assms(2) by (auto simp: request_response_def streamAssistantResponse_def 1 2 3 4 opts_def [symmetric] Let_def
        split: prod.splits)
  then show ?thesis
    using within_budgetD(7) [OF assms(1) 1] within_budgetD(8) [OF assms(1) 2] within_budgetD(9) [OF assms(1) 3]
      within_budgetD(10,11) [OF assms(1) 4]
    by (auto simp: failed_response_def)
qed

lemma run_tools_within:
  assumes "within_budget \<mu> hk" and "run_tools hk message s = (rs, s', es)"
  shows "\<mu> (ls_world s') \<le> \<mu> (ls_world s)"
  using assms(2) executeToolCalls_within [OF within_budgetD(1) [OF assms(1)], of "ls_context s" message "message_calls message" "ls_world s"]
    failToolCalls_within [OF within_budgetD(1) [OF assms(1)], of "message_calls message" "ls_world s"]
  by (auto simp: run_tools_def Let_def failToolCallsFromTruncatedMessage_def split: prod.splits if_splits)

lemma finish_turn_within:
  "within_budget \<mu> hk \<Longrightarrow> finish_turn hk message rs s = (d, s') \<Longrightarrow> \<mu> (ls_world s') \<le> \<mu> (ls_world s)"
  by (auto simp: finish_turn_def Let_def split: prod.splits dest: within_budgetD(6))

lemma schedule_next_within:
  "within_budget \<mu> hk \<Longrightarrow> \<mu> (ls_world (schedule_next hk d s)) \<le> \<mu> (ls_world s)"
  by (auto simp: schedule_next_def split: prod.splits dest: within_budgetD(2))

fun is_turn_end :: "agent_event \<Rightarrow> bool" where
  "is_turn_end (TurnEnd _ _) = True"
| "is_turn_end _ = False"

text \<open>Only a turn announces its end.\<close>

definition no_turn_end :: "agent_event list \<Rightarrow> bool" where
  "no_turn_end es \<longleftrightarrow> filter is_turn_end es = []"

lemma no_turn_end_simps [simp]:
  "no_turn_end []" "no_turn_end (e # es) \<longleftrightarrow> \<not> is_turn_end e \<and> no_turn_end es"
  "no_turn_end (es @ es') \<longleftrightarrow> no_turn_end es \<and> no_turn_end es'"
  by (simp_all add: no_turn_end_def)

lemma no_turn_end_tools [simp]: "list_all is_tool_event es \<Longrightarrow> no_turn_end es"
proof (induction es)
  case (Cons e es)
  then show ?case by (cases e) simp_all
qed simp

lemma not_turn_end [simp]: "\<not> is_turn_end (emitToolExecutionStart c)" "\<not> is_turn_end (emitToolExecutionEnd oc)"
  "no_turn_end (emitToolResultMessage m)" "no_turn_end (concat (map emitToolResultMessage ms))" "no_turn_end (announce ams)"
proof -
  show m: "no_turn_end (emitToolResultMessage m)" for m by (simp add: emitToolResultMessage_def)
  show "no_turn_end (concat (map emitToolResultMessage ms))" by (induction ms) (simp_all add: m)
  show "no_turn_end (announce ams)" by (induction ams) (simp_all add: announce_def)
qed (simp_all add: emitToolExecutionStart_def emitToolExecutionEnd_def)

lemma failToolCalls_no_turn_end: "no_turn_end (fst (snd (failToolCalls hk cs w)))"
proof (induction cs arbitrary: w)
  case (Cons c cs)
  obtain now w1 where now: "tk_now hk w = (now, w1)" by fastforce
  show ?case using Cons.IH [of w1] by (auto simp: now Let_def split: prod.splits)
qed simp

lemma sequential_no_turn_end: "no_turn_end (fst (snd (sequential_calls hk ctx msg cs w)))"
proof (induction cs arbitrary: w)
  case (Cons c cs)
  obtain oc us w1 where one: "run_one hk ctx msg c w = (oc, us, w1)" by (metis prod_cases3)
  obtain now w2 where now: "tk_now hk w1 = (now, w2)" by fastforce
  show ?case
    using Cons.IH [of w2] run_one_tool_events [of hk ctx msg c w] by (auto simp: one now Let_def split: prod.splits)
qed simp

lemma executeToolCalls_no_turn_end: "no_turn_end (fst (snd (executeToolCalls hk ctx msg cs w)))"
proof (cases "tk_sequential hk \<or> list_ex (is_sequential_call ctx) cs")
  case True
  then show ?thesis using sequential_no_turn_end [of hk ctx msg cs w]
    by (auto simp: executeToolCalls_def executeToolCallsSequential_def split: prod.splits)
next
  case False
  obtain ss es1 w1 where p: "prepare_calls hk ctx msg cs w = (ss, es1, w1)" by (metis prod_cases3)
  obtain st es2 w2 where st: "start_calls hk ss w1 = (st, es2, w2)" by (metis prod_cases3)
  obtain fs es3 w3 where r: "run_calls hk ctx msg st w2 = (fs, es3, w3)" by (metis prod_cases3)
  show ?thesis
    using False prepare_tool_events [of hk ctx msg cs w] start_tool_events [of hk ss w1] run_calls_tool_events [of hk ctx msg st w2]
    by (auto simp: executeToolCalls_def executeToolCallsParallel_def p st r Let_def split: prod.splits)
qed

lemma run_tools_no_turn_end: "run_tools hk message s = (rs, s', es) \<Longrightarrow> no_turn_end es"
  using executeToolCalls_no_turn_end [of "lk_tools hk" "ls_context s" message "message_calls message" "ls_world s"]
    failToolCalls_no_turn_end [of "lk_tools hk" "message_calls message" "ls_world s"]
  by (auto simp: run_tools_def Let_def failToolCallsFromTruncatedMessage_def split: prod.splits if_splits)

lemma stream_no_turn_end: "no_turn_end (snd (stream_events evs final partial ms))"
  by (induction evs final partial ms rule: stream_events.induct)
     (auto simp: finish_stream_def split: option.splits prod.splits)

lemma response_no_turn_end: "request_response hk s = (message, s', es) \<Longrightarrow> no_turn_end es"
  using stream_no_turn_end
  by (auto simp: request_response_def streamAssistantResponse_def Let_def split: prod.splits) (metis snd_conv)

lemma begin_turn_no_turn_end: "begin_turn hk s = (prepared, s', es) \<Longrightarrow> no_turn_end es"
  by (auto simp: begin_turn_def Let_def split: option.splits prod.splits)

lemma send_pending_no_turn_end: "send_pending hk prepared s = (s', es) \<Longrightarrow> no_turn_end es"
  by (auto simp: send_pending_def split: prod.splits)

lemmas turn_no_turn_end = begin_turn_no_turn_end send_pending_no_turn_end response_no_turn_end run_tools_no_turn_end

lemma turn_ends_once: "turn_ran hk s ended s' es \<Longrightarrow> length (filter is_turn_end es) = 1"
  by (induction rule: turn_ran.induct) (auto dest!: turn_no_turn_end simp: no_turn_end_def)

lemma turn_uses_budget:
  assumes "within_budget \<mu> hk" and "turn_ran hk s ended s' es"
  shows "ended \<or> \<mu> (ls_world s') < \<mu> (ls_world s)"
  using assms(2)
proof (cases rule: turn_ran.cases)
  case (goes_on prepared s1 es1 s2 es2 message s3 es3 rs s4 es4 decision s5)
  have "\<mu> (ls_world s3) < \<mu> (ls_world s)"
    using response_within [OF assms(1) goes_on(6)] prepare_request_within [OF assms(1), of s2]
      send_pending_within [OF assms(1) goes_on(5)] begin_turn_within [OF assms(1) goes_on(4)] goes_on(7,8)
    by (simp add: failed_response_def)
  then show ?thesis
    using run_tools_within [OF assms(1) goes_on(9)] finish_turn_within [OF assms(1) goes_on(10)]
      schedule_next_within [OF assms(1), of decision s5] goes_on(2) by simp
qed simp_all

lemma run_turn_budget:
  assumes "within_budget \<mu> hk" and "run_turn hk s = (ended, s', es)"
  shows "length (filter is_turn_end es) = 1 \<and> (ended \<or> \<mu> (ls_world s') < \<mu> (ls_world s))"
  using run_turn_ran [OF assms(2)] turn_ends_once turn_uses_budget [OF assms(1)] by blast

section \<open>Runs within a budget return\<close>

lemma loop_from_turn:
  assumes "ls_more s \<or> ls_pending s \<noteq> []" and "run_turn hk s = (ended, s1, es1)"
  shows "loop_from hk s = (if ended then Some (s1, es1)
     else Option.bind (loop_from hk s1) (\<lambda>r. Some (fst r, es1 @ snd r)))"
  using assms by (subst loop_from.simps) simp

lemma loop_from_returns_turn:
  assumes "within_budget \<mu> hk"
  shows "\<mu> (ls_world s) \<le> n \<Longrightarrow> ls_more s \<or> ls_pending s \<noteq> [] \<Longrightarrow>
     \<exists>s' es. loop_from hk s = Some (s', es) \<and> length (filter is_turn_end es) \<le> Suc n"
proof (induction n arbitrary: s)
  case (0 s)
  obtain ended s1 es1 where t: "run_turn hk s = (ended, s1, es1)" by (metis prod_cases3)
  with run_turn_budget [OF assms t] 0 have ended by simp
  then show ?case using loop_from_turn [OF 0(2) t] run_turn_budget [OF assms t] by simp
next
  case (Suc n s)
  obtain ended s1 es1 where t: "run_turn hk s = (ended, s1, es1)" by (metis prod_cases3)
  note budget = run_turn_budget [OF assms t]
  show ?case
  proof (cases ended)
    case True
    then show ?thesis using loop_from_turn [OF Suc.prems(2) t] budget by simp
  next
    case False
    then have less: "\<mu> (ls_world s1) \<le> n" using budget Suc.prems(1) by simp
    have "\<exists>s' es. loop_from hk s1 = Some (s', es) \<and> length (filter is_turn_end es) \<le> Suc n"
    proof (cases "ls_more s1 \<or> ls_pending s1 \<noteq> []")
      case True
      then show ?thesis by (rule Suc.IH [OF less])
    next
      case False
      obtain ms w1 where f: "lk_getFollowUpMessages hk (ls_world s1) = (ms, w1)" by fastforce
      have "\<mu> w1 \<le> n" using within_budgetD(3) [OF assms f] less by simp
      then show ?thesis
        using Suc.IH [of "s1\<lparr>ls_world := w1, ls_explicit := False, ls_pending := ms, ls_more := True\<rparr>"]
          Suc.IH [of "s1\<lparr>ls_world := w1, ls_explicit := False, ls_more := True\<rparr>"] False
        by (subst loop_from.simps) (simp add: f Let_def)
    qed
    then show ?thesis using loop_from_turn [OF Suc.prems(2) t] budget False by auto
  qed
qed

lemma run_returns:
  assumes "within_budget \<mu> hk"
  shows "\<exists>s es. runAgentLoop hk config prompts ctx w = Some (s, es) \<and> length (filter is_turn_end es) \<le> Suc (\<mu> w)"
proof -
  obtain ms w1 where d: "declareToolChanges (lk_tools hk) ctx prompts w = (ms, w1)" by fastforce
  obtain steering w2 where st: "lk_getSteeringMessages hk w1 = (steering, w2)" by fastforce
  define s0 where "s0 = \<lparr>ls_context = ctx\<lparr>ac_messages := ac_messages ctx @ ms\<rparr>, ls_config = config, ls_lastTurn = None,
     ls_explicit = False, ls_pending = steering, ls_more = True, ls_new = ms, ls_world = w2\<rparr>"
  have "\<mu> (ls_world s0) \<le> \<mu> w"
    using declareToolChanges_within [OF within_budgetD(1) [OF assms] d] within_budgetD(2) [OF assms st] by (simp add: s0_def)
  from loop_from_returns_turn [OF assms this] obtain s es where
    "loop_from hk s0 = Some (s, es)" "length (filter is_turn_end es) \<le> Suc (\<mu> w)" by (auto simp: s0_def)
  then show ?thesis
    using not_turn_end(5) [of ms] by (simp add: runAgentLoop_def d runLoop_def st s0_def no_turn_end_def)
qed

text \<open>
  C13. A run within a budget returns: when no hook or tool increases a measure of the world and every
  response that does not fail decreases it, the loop ends, whatever messages are steered or queued,
  after at most one turn more than the measure at the start.
\<close>

theorem budgeted_run_returns:
  assumes "within_budget \<mu> hk"
  shows "\<exists>s es. runAgentLoop hk config prompts ctx w = Some (s, es) \<and> length (filter is_turn_end es) \<le> Suc (\<mu> w)"
  by (rule run_returns [OF assms])

definition demo_budget :: "nat \<Rightarrow> nat" where
  "demo_budget w = (if w < 100 then 1 else 0)"

lemma demo_within: "within_budget demo_budget demo_loop"
  by (simp add: within_budget_def tools_within_def demo_budget_def demo_loop_def demo_hooks_def failed_response_def demo_reply_def)

theorem budgeted_run_returns_witness:
  "\<exists>s es. runAgentLoop demo_loop demo_config [] demo_context 0 = Some (s, es) \<and> length (filter is_turn_end es) \<le> 2"
  using budgeted_run_returns [OF demo_within, of demo_config "[]" demo_context 0] by (simp add: demo_budget_def numeral_2_eq_2)

section \<open>The event sequence of a run\<close>

text \<open>
  C8. A prompted run that ends has emitted a well-formed event sequence, for every provider that
  sends at most one \<open>start\<close> per response and for all hooks and tools: the agent start first, turns and
  messages properly bracketed, updates only inside assistant messages, tool events only inside turns
  and outside messages, and the agent end last and once. The messages it returns are exactly those
  its events completed, beginning with the prompts and their tool declaration, and the agent end
  carries them.
\<close>

theorem run_lifecycle:
  assumes "stream_protocol hk" and "runAgentLoop hk config prompts ctx w = Some (s, es)"
  shows "phases NotStarted es = Some Ended \<and> completed es = ls_new s \<and> last es = AgentEnd (ls_new s) \<and>
     prefix (fst (declareToolChanges (lk_tools hk) ctx prompts w)) (ls_new s)"
proof -
  obtain ms w1 where d: "declareToolChanges (lk_tools hk) ctx prompts w = (ms, w1)" by fastforce
  then obtain es1 where run: "runLoop hk config (ctx\<lparr>ac_messages := ac_messages ctx @ ms\<rparr>) ms w1 = Some (s, es1)"
    and es: "es = AgentStart # TurnStart # announce ms @ es1"
    using assms(2) by (auto simp: runAgentLoop_def split: Option.bind_splits)
  show ?thesis using runLoop_contract [OF run] assms(1) by (simp add: es d)
qed

theorem run_lifecycle_witness:
  "\<exists>s es. runAgentLoop demo_loop demo_config [] demo_context 0 = Some (s, es) \<and>
     phases NotStarted es = Some Ended \<and> completed es = ls_new s \<and> last es = AgentEnd (ls_new s)"
proof -
  obtain s es where "runAgentLoop demo_loop demo_config [] demo_context 0 = Some (s, es)"
    using run_returns [OF demo_within] by blast
  with run_lifecycle [OF demo_stream_protocol this] show ?thesis by blast
qed

end
