(* ===== verification/Agent.thy ===== *)
theory Agent
  imports Agent_Budget
begin

text \<open>
  The stateful agent around the loop (packages/agent/src/agent.ts): its queues of steering and
  follow-up messages, the reduction of loop events into its state, and the lifecycle of runs.
  Listeners are not part of the state; hooks and tools of a run may change the queues, which are part
  of the world the loop runs in.
\<close>

section \<open>Message queues\<close>

record 'm message_queue =
  mq_messages :: "'m list"
  mq_all :: bool

text \<open>\<open>PendingMessageQueue\<close>; \<open>mq_all\<close> is the mode "all", otherwise "one-at-a-time".\<close>

definition queue_new :: "bool \<Rightarrow> 'm message_queue" where
  "queue_new mode = \<lparr>mq_messages = [], mq_all = mode\<rparr>"

definition enqueue :: "'m \<Rightarrow> 'm message_queue \<Rightarrow> 'm message_queue" where
  "enqueue m q = q\<lparr>mq_messages := mq_messages q @ [m]\<rparr>"

definition hasItems :: "'m message_queue \<Rightarrow> bool" where
  "hasItems q \<longleftrightarrow> length (mq_messages q) > 0"

definition peek :: "'m message_queue \<Rightarrow> 'm list" where
  "peek q = (if mq_all q then mq_messages q else case mq_messages q of [] \<Rightarrow> [] | m # _ \<Rightarrow> [m])"

definition drain :: "'m message_queue \<Rightarrow> 'm list \<times> 'm message_queue" where
  "drain q = (let drained = peek q in (drained, q\<lparr>mq_messages := drop (length drained) (mq_messages q)\<rparr>))"

definition clear_queue :: "'m message_queue \<Rightarrow> 'm message_queue" where
  "clear_queue q = q\<lparr>mq_messages := []\<rparr>"

text \<open>An index that is not an integer is rejected like one out of range.\<close>

definition removeAt :: "rat \<Rightarrow> 'm message_queue \<Rightarrow> 'm option \<times> 'm message_queue" where
  "removeAt index q =
     (if index \<noteq> of_int \<lfloor>index\<rfloor> \<or> index < 0 \<or> index \<ge> of_nat (length (mq_messages q)) then (None, q)
      else let i = nat \<lfloor>index\<rfloor>
           in (Some (mq_messages q ! i), q\<lparr>mq_messages := take i (mq_messages q) @ drop (Suc i) (mq_messages q)\<rparr>))"

fun indexOf :: "'m list \<Rightarrow> 'm \<Rightarrow> int" where
  "indexOf [] m = -1"
| "indexOf (x # xs) m = (if x = m then 0 else let i = indexOf xs m in if i < 0 then -1 else i + 1)"

text \<open>\<open>indexOf\<close> compares references; \<open>'m\<close> is the type of message references.\<close>

definition remove_message :: "'m \<Rightarrow> 'm message_queue \<Rightarrow> bool \<times> 'm message_queue" where
  "remove_message m q = (let (r, q1) = removeAt (of_int (indexOf (mq_messages q) m)) q in (r \<noteq> None, q1))"

section \<open>State\<close>

record agent =
  ag_messages :: "agent_message list"
  ag_tools :: "agent_tool list"
  ag_model :: model
  ag_thinkingLevel :: jstr
  ag_isStreaming :: bool
  ag_streamingMessage :: "agent_message option"
  ag_pendingToolCalls :: "jstr list"
  ag_errorMessage :: "jstr option"
  ag_activeRun :: bool
  ag_steeringQueue :: "agent_message message_queue"
  ag_followUpQueue :: "agent_message message_queue"

definition agent_systemPrompt :: "agent \<Rightarrow> jstr" where
  "agent_systemPrompt a = getCurrentSystemPrompt (agent_system_messages (ag_messages a))"

definition DEFAULT_MODEL :: model where
  "DEFAULT_MODEL = \<lparr>mo_id = js ''unknown'', mo_api = js ''unknown'', mo_provider = js ''unknown'',
     mo_contextWindow = 0, mo_maxTokens = 0,
     mo_spec = JObj [(js ''name'', JStr (js ''unknown'')), (js ''baseUrl'', JStr []), (js ''reasoning'', JBool False),
       (js ''input'', JArr []),
       (js ''cost'', JObj [(js ''input'', JNum (js ''0'')), (js ''output'', JNum (js ''0'')), (js ''cacheRead'', JNum (js ''0'')),
          (js ''cacheWrite'', JNum (js ''0''))])]\<rparr>"

record initial_state =
  in_systemPrompt :: "jstr option"
  in_tools :: "agent_tool list"
  in_messages :: "agent_message list"
  in_model :: "model option"
  in_thinkingLevel :: "jstr option"

text \<open>The constructor, with the state part of \<open>createMutableAgentState\<close>.\<close>

definition createMutableAgentState :: "initial_state \<Rightarrow> bool \<Rightarrow> bool \<Rightarrow> agent" where
  "createMutableAgentState i steeringAll followUpAll =
     (let initialMessage = createInitialSystemMessage (in_systemPrompt i) (Some (map toToolDeclaration (in_tools i)));
          leads = (case in_messages i of [] \<Rightarrow> False | m # _ \<Rightarrow> is_system m);
          messages = (case initialMessage of
             Some m \<Rightarrow> if leads then in_messages i else System m # in_messages i
           | None \<Rightarrow> in_messages i)
      in \<lparr>ag_messages = messages, ag_tools = in_tools i,
          ag_model = (case in_model i of None \<Rightarrow> DEFAULT_MODEL | Some m \<Rightarrow> m),
          ag_thinkingLevel = (case in_thinkingLevel i of None \<Rightarrow> js ''off'' | Some l \<Rightarrow> l),
          ag_isStreaming = False, ag_streamingMessage = None, ag_pendingToolCalls = [], ag_errorMessage = None,
          ag_activeRun = False, ag_steeringQueue = queue_new steeringAll, ag_followUpQueue = queue_new followUpAll\<rparr>)"

section \<open>Queue operations of the agent\<close>

definition steer :: "agent_message \<Rightarrow> agent \<Rightarrow> agent" where
  "steer m a = a\<lparr>ag_steeringQueue := enqueue m (ag_steeringQueue a)\<rparr>"

definition followUp :: "agent_message \<Rightarrow> agent \<Rightarrow> agent" where
  "followUp m a = a\<lparr>ag_followUpQueue := enqueue m (ag_followUpQueue a)\<rparr>"

definition clearSteeringQueue :: "agent \<Rightarrow> agent" where
  "clearSteeringQueue a = a\<lparr>ag_steeringQueue := clear_queue (ag_steeringQueue a)\<rparr>"

definition clearFollowUpQueue :: "agent \<Rightarrow> agent" where
  "clearFollowUpQueue a = a\<lparr>ag_followUpQueue := clear_queue (ag_followUpQueue a)\<rparr>"

definition clearAllQueues :: "agent \<Rightarrow> agent" where
  "clearAllQueues a = clearFollowUpQueue (clearSteeringQueue a)"

definition removeSteeringAt :: "rat \<Rightarrow> agent \<Rightarrow> agent_message option \<times> agent" where
  "removeSteeringAt index a = (let (m, q) = removeAt index (ag_steeringQueue a) in (m, a\<lparr>ag_steeringQueue := q\<rparr>))"

definition removeFollowUpAt :: "rat \<Rightarrow> agent \<Rightarrow> agent_message option \<times> agent" where
  "removeFollowUpAt index a = (let (m, q) = removeAt index (ag_followUpQueue a) in (m, a\<lparr>ag_followUpQueue := q\<rparr>))"

definition removeQueuedMessage :: "bool \<Rightarrow> agent_message \<Rightarrow> agent \<Rightarrow> bool \<times> agent" where
  "removeQueuedMessage steering m a =
     (if steering then let (r, q) = remove_message m (ag_steeringQueue a) in (r, a\<lparr>ag_steeringQueue := q\<rparr>)
      else let (r, q) = remove_message m (ag_followUpQueue a) in (r, a\<lparr>ag_followUpQueue := q\<rparr>))"

definition hasQueuedMessages :: "agent \<Rightarrow> bool" where
  "hasQueuedMessages a \<longleftrightarrow> hasItems (ag_steeringQueue a) \<or> hasItems (ag_followUpQueue a)"

definition peekQueuedMessages :: "agent \<Rightarrow> agent_message list" where
  "peekQueuedMessages a =
     (let steering = peek (ag_steeringQueue a) in if length steering > 0 then steering else peek (ag_followUpQueue a))"

definition reset :: "agent \<Rightarrow> jstr + agent" where
  "reset a =
     (if ag_activeRun a then Inl (js ''Agent is already processing. Wait for completion before resetting.'')
      else Inr (clearSteeringQueue (clearFollowUpQueue
        (a\<lparr>ag_messages := (case getCurrentSystemMessage (agent_system_messages (ag_messages a)) of None \<Rightarrow> [] | Some m \<Rightarrow> [System m]),
           ag_isStreaming := False, ag_streamingMessage := None, ag_pendingToolCalls := [], ag_errorMessage := None\<rparr>))))"

section \<open>Events\<close>

text \<open>The state part of \<open>processEvents\<close>. The error message of a turn counts when it is not empty.\<close>

fun reduce_event :: "agent_event \<Rightarrow> agent \<Rightarrow> agent" where
  "reduce_event (MessageStart m) a = a\<lparr>ag_streamingMessage := Some m\<rparr>"
| "reduce_event (MessageUpdate m) a = a\<lparr>ag_streamingMessage := Some m\<rparr>"
| "reduce_event (MessageEnd m) a = a\<lparr>ag_streamingMessage := None, ag_messages := ag_messages a @ [m]\<rparr>"
| "reduce_event (ToolExecutionStart i n args) a = a\<lparr>ag_pendingToolCalls := List.insert i (ag_pendingToolCalls a)\<rparr>"
| "reduce_event (ToolExecutionEnd i n r e d) a = a\<lparr>ag_pendingToolCalls := removeAll i (ag_pendingToolCalls a)\<rparr>"
| "reduce_event (TurnEnd m rs) a =
     (case non_empty (as_errorMessage m) of None \<Rightarrow> a | Some e \<Rightarrow> a\<lparr>ag_errorMessage := Some e\<rparr>)"
| "reduce_event (AgentEnd ms) a = a\<lparr>ag_streamingMessage := None\<rparr>"
| "reduce_event e a = a"

text \<open>An event outside a run is an error, raised after the state has been reduced.\<close>

definition processEvents :: "agent_event \<Rightarrow> agent \<Rightarrow> jstr option \<times> agent" where
  "processEvents e a =
     (if ag_activeRun a then None else Some (js ''Agent listener invoked outside active run''), reduce_event e a)"

definition reduce_events :: "agent_event list \<Rightarrow> agent \<Rightarrow> agent" where
  "reduce_events es a = fold reduce_event es a"

section \<open>Runs\<close>

text \<open>The world of a run: the queues, the flag of the skipped first poll, and the rest.\<close>

record 'u run_world =
  rw_steering :: "agent_message message_queue"
  rw_followUp :: "agent_message message_queue"
  rw_skip :: bool
  rw_rest :: 'u

definition poll_steering :: "'u run_world \<Rightarrow> agent_message list \<times> 'u run_world" where
  "poll_steering w =
     (if rw_skip w then ([], w\<lparr>rw_skip := False\<rparr>)
      else let (ms, q) = drain (rw_steering w) in (ms, w\<lparr>rw_steering := q\<rparr>))"

definition poll_followUp :: "'u run_world \<Rightarrow> agent_message list \<times> 'u run_world" where
  "poll_followUp w = (let (ms, q) = drain (rw_followUp w) in (ms, w\<lparr>rw_followUp := q\<rparr>))"

definition createContextSnapshot :: "agent \<Rightarrow> agent_context" where
  "createContextSnapshot a = \<lparr>ac_messages = ag_messages a, ac_tools = ag_tools a\<rparr>"

text \<open>\<open>createLoopConfig\<close>: the hooks of the agent with the polls of its queues, and the model settings.\<close>

definition loop_hooks_of :: "'u run_world loop_hooks \<Rightarrow> 'u run_world loop_hooks" where
  "loop_hooks_of hk = hk\<lparr>lk_getSteeringMessages := poll_steering, lk_getFollowUpMessages := poll_followUp\<rparr>"

definition createLoopConfig :: "agent \<Rightarrow> loop_config" where
  "createLoopConfig a =
     \<lparr>cf_model = ag_model a, cf_reasoning = (if ag_thinkingLevel a = js ''off'' then None else Some (ag_thinkingLevel a))\<rparr>"

definition start_world :: "agent \<Rightarrow> bool \<Rightarrow> 'u \<Rightarrow> 'u run_world" where
  "start_world a skip u = \<lparr>rw_steering = ag_steeringQueue a, rw_followUp = ag_followUpQueue a, rw_skip = skip, rw_rest = u\<rparr>"

definition start_run :: "agent \<Rightarrow> agent" where
  "start_run a = a\<lparr>ag_activeRun := True, ag_isStreaming := True, ag_streamingMessage := None, ag_errorMessage := None\<rparr>"

definition finishRun :: "agent \<Rightarrow> agent" where
  "finishRun a = a\<lparr>ag_isStreaming := False, ag_streamingMessage := None, ag_pendingToolCalls := [], ag_activeRun := False\<rparr>"

definition EMPTY_USAGE :: usage where
  "EMPTY_USAGE = \<lparr>u_input = 0, u_output = 0, u_cacheRead = 0, u_cacheWrite = 0, u_cacheWrite1h = None, u_reasoning = None,
     u_totalTokens = 0, u_cost = \<lparr>co_input = 0, co_output = 0, co_cacheRead = 0, co_cacheWrite = 0, co_total = 0,
     co_totalFromProvider = False\<rparr>\<rparr>"

definition failure_message :: "agent \<Rightarrow> jstr \<Rightarrow> bool \<Rightarrow> int \<Rightarrow> assistant_message" where
  "failure_message a err aborted now =
     \<lparr>as_content = Some [Text [] None], as_api = mo_api (ag_model a), as_provider = mo_provider (ag_model a),
      as_model = mo_id (ag_model a), as_responseModel = None, as_responseId = None, as_providerThinkingLevel = None,
      as_thinkingLevel = None, as_diagnostics = None, as_usage = Some EMPTY_USAGE,
      as_stopReason = (if aborted then AbortedStop else ErrorStop), as_deferred = None, as_errorMessage = Some err,
      as_rawStopReason = None, as_endTurn = None, as_timestamp = now, as_durationMs = None\<rparr>"

definition handleRunFailure :: "jstr \<Rightarrow> bool \<Rightarrow> int \<Rightarrow> agent \<Rightarrow> agent" where
  "handleRunFailure err aborted now a =
     (let m = failure_message a err aborted now
      in reduce_events [MessageStart (Assistant m), MessageEnd (Assistant m), TurnEnd m [], AgentEnd [Assistant m]] a)"

text \<open>
  What an executor did: the events it emitted, the message of the error it threw, if any, with the
  state of the abort signal and the clock at that moment, and the world it left.
\<close>

record 'u run_outcome =
  ro_events :: "agent_event list"
  ro_error :: "(jstr \<times> bool \<times> int) option"
  ro_world :: "'u run_world"

definition runWithLifecycle :: "agent \<Rightarrow> 'u run_outcome option \<Rightarrow> jstr + (agent \<times> 'u) option" where
  "runWithLifecycle a outcome =
     (if ag_activeRun a then Inl (js ''Agent is already processing.'')
      else Inr (map_option (\<lambda>r.
        let a1 = reduce_events (ro_events r) (start_run a);
            a2 = (case ro_error r of None \<Rightarrow> a1 | Some (err, aborted, now) \<Rightarrow> handleRunFailure err aborted now a1)
        in ((finishRun a2)\<lparr>ag_steeringQueue := rw_steering (ro_world r), ag_followUpQueue := rw_followUp (ro_world r)\<rparr>,
            rw_rest (ro_world r))) outcome))"

definition finished_outcome :: "'u run_world loop_state \<times> agent_event list \<Rightarrow> 'u run_outcome" where
  "finished_outcome r = \<lparr>ro_events = snd r, ro_error = None, ro_world = ls_world (fst r)\<rparr>"

definition runPromptMessages ::
    "'u run_world loop_hooks \<Rightarrow> agent_message list \<Rightarrow> bool \<Rightarrow> agent \<Rightarrow> 'u \<Rightarrow> jstr + (agent \<times> 'u) option" where
  "runPromptMessages hk messages skipInitialSteeringPoll a u =
     runWithLifecycle a (map_option finished_outcome
       (runAgentLoop (loop_hooks_of hk) (createLoopConfig a) messages (createContextSnapshot a)
         (start_world a skipInitialSteeringPoll u)))"

definition runContinuation ::
    "'u run_world loop_hooks \<Rightarrow> int \<Rightarrow> agent \<Rightarrow> 'u \<Rightarrow> jstr + (agent \<times> 'u) option" where
  "runContinuation hk now a u =
     runWithLifecycle a
       (case runAgentLoopContinue (loop_hooks_of hk) (createLoopConfig a) (createContextSnapshot a) (start_world a False u) of
          Inl err \<Rightarrow> Some \<lparr>ro_events = [], ro_error = Some (err, False, now), ro_world = start_world a False u\<rparr>
        | Inr r \<Rightarrow> map_option finished_outcome r)"

datatype prompt_input = PromptText jstr "content list" | PromptMessage agent_message | PromptMessages "agent_message list"

fun normalizePromptInput :: "int \<Rightarrow> prompt_input \<Rightarrow> agent_message list" where
  "normalizePromptInput now (PromptMessages ms) = ms"
| "normalizePromptInput now (PromptMessage m) = [m]"
| "normalizePromptInput now (PromptText t images) =
     [User \<lparr>us_content = Some (CBlocks (Text t None # images)), us_timestamp = now\<rparr>]"

definition prompt ::
    "'u run_world loop_hooks \<Rightarrow> int \<Rightarrow> prompt_input \<Rightarrow> agent \<Rightarrow> 'u \<Rightarrow> jstr + (agent \<times> 'u) option" where
  "prompt hk now input a u =
     (if ag_activeRun a
      then Inl (js ''Agent is already processing a prompt. Use steer() or followUp() to queue messages, or wait for completion.'')
      else runPromptMessages hk (normalizePromptInput now input) False a u)"

text \<open>\<open>continue\<close>. The error after the two drains is raised only when both queues were empty.\<close>

definition continue_run ::
    "'u run_world loop_hooks \<Rightarrow> int \<Rightarrow> agent \<Rightarrow> 'u \<Rightarrow> jstr + (agent \<times> 'u) option" where
  "continue_run hk now a u =
     (if ag_activeRun a then Inl (js ''Agent is already processing. Wait for completion before continuing.'')
      else if ag_messages a = [] \<or> list_all is_system (ag_messages a) then Inl (js ''No messages to continue from'')
      else if is_assistant (last (ag_messages a)) then
        let (steering, q1) = drain (ag_steeringQueue a); a1 = a\<lparr>ag_steeringQueue := q1\<rparr>
        in if steering \<noteq> [] then runPromptMessages hk steering True a1 u
           else let (followUps, q2) = drain (ag_followUpQueue a1); a2 = a1\<lparr>ag_followUpQueue := q2\<rparr>
                in if followUps \<noteq> [] then runPromptMessages hk followUps False a2 u
                   else Inl (js ''Cannot continue from message role: assistant'')
      else runContinuation hk now a u)"

end
