(* ===== verification/Agent_Correct.thy ===== *)
theory Agent_Correct
  imports Agent
begin

text \<open>
  Properties of the agent: queues deliver in order and without loss, a run leaves the agent idle with
  exactly the messages of the loop appended to its transcript, that transcript is the context the
  loop ends with, and \<open>continue\<close> delivers what the preview of the queues shows.
\<close>

section \<open>Queues\<close>

datatype 'm queue_op = Enqueue 'm | Drain | SetMode bool

fun run_queue :: "'m queue_op list \<Rightarrow> 'm message_queue \<Rightarrow> 'm list list \<times> 'm message_queue" where
  "run_queue [] q = ([], q)"
| "run_queue (Enqueue m # ops) q = run_queue ops (enqueue m q)"
| "run_queue (Drain # ops) q = (let (ms, q1) = drain q; (mss, q2) = run_queue ops q1 in (ms # mss, q2))"
| "run_queue (SetMode b # ops) q = run_queue ops (q\<lparr>mq_all := b\<rparr>)"

fun enqueued :: "'m queue_op list \<Rightarrow> 'm list" where
  "enqueued [] = []"
| "enqueued (Enqueue m # ops) = m # enqueued ops"
| "enqueued (_ # ops) = enqueued ops"

lemma drain_split: "drain q = (ms, q1) \<Longrightarrow> mq_messages q = ms @ mq_messages q1 \<and> mq_all q1 = mq_all q"
  by (auto simp: drain_def peek_def Let_def split: list.splits if_splits)

lemma drain_peek: "fst (drain q) = peek q"
  by (simp add: drain_def Let_def)

lemma peek_empty: "peek q = [] \<longleftrightarrow> \<not> hasItems q"
  by (simp add: peek_def hasItems_def split: list.splits)

lemma run_queue_order:
  "case run_queue ops q of (mss, q1) \<Rightarrow> concat mss @ mq_messages q1 = mq_messages q @ enqueued ops"
proof (induction ops q rule: run_queue.induct)
  case (3 ops q)
  obtain ms q' where d: "drain q = (ms, q')" by fastforce
  obtain mss q2 where r: "run_queue ops q' = (mss, q2)" by fastforce
  show ?case using 3 [OF d [symmetric] refl] drain_split [OF d] by (simp add: d r)
qed (auto simp: enqueue_def split: prod.splits)

text \<open>
  A queue of steering or follow-up messages loses, duplicates and reorders nothing: over any
  sequence of enqueues, drains and changes of mode, the drained batches followed by what is left are
  the messages that were there followed by those enqueued. A drain returns what the preview shows,
  which is empty only for an empty queue.
\<close>

theorem queue_delivers_in_order:
  "case run_queue ops q of (mss, q1) \<Rightarrow>
     concat mss @ mq_messages q1 = mq_messages q @ enqueued ops \<and>
     fst (drain q1) = peek q1 \<and> (peek q1 = [] \<longleftrightarrow> \<not> hasItems q1)"
  using run_queue_order [where ops = ops and q = q] by (simp add: drain_peek peek_empty split: prod.splits)

section \<open>Reduction of events\<close>

lemma reduce_events_simps [simp]:
  "reduce_events [] a = a" "reduce_events (e # es) a = reduce_events es (reduce_event e a)"
  by (simp_all add: reduce_events_def)

lemma reduce_events_messages: "ag_messages (reduce_events es a) = ag_messages a @ completed es"
  by (induction es arbitrary: a rule: completed.induct) (simp_all split: option.splits)

lemma reduce_event_keeps:
  "ag_tools (reduce_event e a) = ag_tools a" "ag_model (reduce_event e a) = ag_model a"
  "ag_thinkingLevel (reduce_event e a) = ag_thinkingLevel a" "ag_activeRun (reduce_event e a) = ag_activeRun a"
  by (cases e; simp split: option.splits)+

lemma reduce_events_keeps [simp]:
  "ag_tools (reduce_events es a) = ag_tools a" "ag_model (reduce_events es a) = ag_model a"
  "ag_thinkingLevel (reduce_events es a) = ag_thinkingLevel a" "ag_activeRun (reduce_events es a) = ag_activeRun a"
  by (induction es arbitrary: a) (simp_all add: reduce_event_keeps)

text \<open>The error of the last turn that failed with a message.\<close>

fun last_error :: "agent_event list \<Rightarrow> jstr option \<Rightarrow> jstr option" where
  "last_error [] e = e"
| "last_error (TurnEnd m rs # es) e = last_error es (case non_empty (as_errorMessage m) of None \<Rightarrow> e | Some x \<Rightarrow> Some x)"
| "last_error (_ # es) e = last_error es e"

lemma reduce_events_error: "ag_errorMessage (reduce_events es a) = last_error es (ag_errorMessage a)"
proof (induction es arbitrary: a)
  case (Cons e es)
  then show ?case by (cases e) (auto split: option.splits)
qed simp

section \<open>Runs\<close>

text \<open>The effect of a run of the loop on the agent that started it.\<close>

definition run_effect ::
    "agent \<Rightarrow> 'u run_world loop_state \<Rightarrow> agent_event list \<Rightarrow> agent \<times> 'u \<Rightarrow> bool" where
  "run_effect a s es r \<longleftrightarrow>
     ag_messages (fst r) = ag_messages a @ completed es \<and> ag_errorMessage (fst r) = last_error es None \<and>
     \<not> ag_activeRun (fst r) \<and> \<not> ag_isStreaming (fst r) \<and> ag_streamingMessage (fst r) = None \<and> ag_pendingToolCalls (fst r) = [] \<and>
     ag_tools (fst r) = ag_tools a \<and> ag_model (fst r) = ag_model a \<and> ag_thinkingLevel (fst r) = ag_thinkingLevel a \<and>
     ag_steeringQueue (fst r) = rw_steering (ls_world s) \<and> ag_followUpQueue (fst r) = rw_followUp (ls_world s) \<and>
     snd r = rw_rest (ls_world s)"

lemma runWithLifecycle_effect:
  assumes "\<not> ag_activeRun a"
  shows "\<exists>r. runWithLifecycle a (Some (finished_outcome (s, es))) = Inr (Some r) \<and> run_effect a s es r"
  using assms
  by (simp add: runWithLifecycle_def finished_outcome_def run_effect_def finishRun_def start_run_def
      reduce_events_messages reduce_events_error Let_def)

lemma runPromptMessages_effect:
  assumes "\<not> ag_activeRun a"
    and "runAgentLoop (loop_hooks_of hk) (createLoopConfig a) ms (createContextSnapshot a) (start_world a skip u) = Some (s, es)"
  shows "\<exists>r. runPromptMessages hk ms skip a u = Inr (Some r) \<and> run_effect a s es r"
  using runWithLifecycle_effect [OF assms(1), of s es] by (simp add: runPromptMessages_def assms(2))

lemma runAgentLoop_completed:
  assumes "runAgentLoop hk config prompts ctx w = Some (s, es)"
  shows "completed es = ls_new s"
proof -
  obtain ms w1 where d: "declareToolChanges (lk_tools hk) ctx prompts w = (ms, w1)" by fastforce
  then obtain es1 where run: "runLoop hk config (ctx\<lparr>ac_messages := ac_messages ctx @ ms\<rparr>) ms w1 = Some (s, es1)"
    and es: "es = AgentStart # TurnStart # announce ms @ es1"
    using assms by (auto simp: runAgentLoop_def split: Option.bind_splits)
  show ?thesis using runLoop_contract(1) [OF run] by (simp add: es)
qed

text \<open>
  C10. A prompt to an idle agent whose loop returns leaves it idle: no active run, no streaming flag or
  partial message and no pending tool call. Its transcript is the old one followed by the messages
  the loop returned, its error is that of the run's last failed turn, if there was one, its tools,
  model and level are unchanged and its queues are as the run left them.
\<close>

theorem prompt_effect:
  assumes "\<not> ag_activeRun a"
    and "runAgentLoop (loop_hooks_of hk) (createLoopConfig a) (normalizePromptInput now input) (createContextSnapshot a)
      (start_world a False u) = Some (s, es)"
  shows "\<exists>r. prompt hk now input a u = Inr (Some r) \<and> run_effect a s es r \<and> ag_messages (fst r) = ag_messages a @ ls_new s"
  using runPromptMessages_effect [OF assms] runAgentLoop_completed [OF assms(2)] assms(1)
  by (auto simp: prompt_def run_effect_def)

definition demo_agent_tools :: "nat run_world tool_hooks" where
  "demo_agent_tools =
     \<lparr>tk_sequential = False, tk_prepareArguments = (\<lambda>t args. Inr args),
      tk_validateToolArguments = (\<lambda>t c. Inr (JObj (tc_arguments c))), tk_beforeToolCall = None, tk_afterToolCall = None,
      tk_execute = (\<lambda>t i args w. (([], Inl (js ''failed''), 1), w)), tk_aborted = (\<lambda>w. False),
      tk_schedule = (\<lambda>w. (0, w)), tk_now = (\<lambda>w. (0, w))\<rparr>"

text \<open>A provider without quota: every response fails.\<close>

definition demo_agent_hooks :: "nat run_world loop_hooks" where
  "demo_agent_hooks =
     \<lparr>lk_tools = demo_agent_tools, lk_apiKey = None, lk_identity = None,
      lk_getSteeringMessages = (\<lambda>w. ([], w)), lk_getFollowUpMessages = (\<lambda>w. ([], w)),
      lk_prepareNextTurn = (\<lambda>t w. (None, w)), lk_prepareRequest = (\<lambda>c m l w. (None, w)), lk_finishTurn = (\<lambda>t w. (None, w)),
      lk_transformContext = (\<lambda>ms w. (ms, w)), lk_convertToLlm = (\<lambda>ms w. (convertToLlm ms, w)),
      lk_getApiKey = (\<lambda>p w. (None, w)),
      lk_stream = (\<lambda>m c opts w. (([StreamError (demo_reply [] ErrorStop)], demo_reply [] ErrorStop), w))\<rparr>"

definition demo_agent :: agent where
  "demo_agent = createMutableAgentState \<lparr>in_systemPrompt = Some (js ''hi''), in_tools = [], in_messages = [], in_model = None,
     in_thinkingLevel = None\<rparr> True False"

lemma demo_agent_budget: "within_budget (\<lambda>w. 0) (loop_hooks_of demo_agent_hooks)"
  by (simp add: within_budget_def tools_within_def loop_hooks_of_def demo_agent_hooks_def demo_agent_tools_def
      failed_response_def demo_reply_def)

lemma demo_agent_runs:
  "\<exists>s es. runAgentLoop (loop_hooks_of demo_agent_hooks) (createLoopConfig demo_agent) ms (createContextSnapshot demo_agent)
     (start_world demo_agent False (7::nat)) = Some (s, es)"
  using run_returns [OF demo_agent_budget] by blast

lemma demo_agent_idle: "\<not> ag_activeRun demo_agent"
  by (simp add: demo_agent_def createMutableAgentState_def Let_def)

theorem prompt_effect_witness:
  "\<exists>r. prompt demo_agent_hooks 0 (PromptText (js ''go'') []) demo_agent 7 = Inr (Some r) \<and>
     \<not> ag_activeRun (fst r) \<and> prefix (ag_messages demo_agent) (ag_messages (fst r))"
proof -
  obtain s es where "runAgentLoop (loop_hooks_of demo_agent_hooks) (createLoopConfig demo_agent)
      (normalizePromptInput 0 (PromptText (js ''go'') [])) (createContextSnapshot demo_agent) (start_world demo_agent False (7::nat)) = Some (s, es)"
    using demo_agent_runs by blast
  from prompt_effect [OF demo_agent_idle this] show ?thesis by (auto simp: run_effect_def)
qed

section \<open>The context of the loop and the transcript of the agent\<close>

text \<open>No hook replaces the context.\<close>

definition keeps_context :: "'w loop_hooks \<Rightarrow> bool" where
  "keeps_context hk \<longleftrightarrow>
     (\<forall>t w u. fst (lk_prepareNextTurn hk t w) = Some u \<longrightarrow> up_context u = None) \<and>
     (\<forall>c m l w u. fst (lk_prepareRequest hk c m l w) = Some u \<longrightarrow> up_context u = None)"

lemma apply_update_context: "(\<And>v. u = Some v \<Longrightarrow> up_context v = None) \<Longrightarrow> ls_context (apply_update u s) = ls_context s"
  by (auto simp: apply_update_def split: option.splits)

lemma begin_turn_context:
  "keeps_context hk \<Longrightarrow> begin_turn hk s = (prepared, s', es) \<Longrightarrow> ls_context s' = ls_context s"
  unfolding begin_turn_def keeps_context_def
  by (auto simp: Let_def intro!: apply_update_context split: option.splits prod.splits) (metis fst_conv)+

lemma prepare_request_context: "keeps_context hk \<Longrightarrow> ls_context (prepare_request hk s) = ls_context s"
  unfolding prepare_request_def keeps_context_def
  by (auto intro!: apply_update_context split: prod.splits) (metis fst_conv)+

lemma run_turn_context:
  assumes "keeps_context hk" and "stream_protocol hk" and "run_turn hk s = (ended, s', es)"
  shows "ac_messages (ls_context s') = ac_messages (ls_context s) @ completed es"
  using run_turn_ran [OF assms(3)]
  by (cases rule: turn_ran.cases)
     (simp_all add: begin_turn_events(1) begin_turn_context [OF assms(1)] send_pending_events(3) response_events(1)
       response_events(6) [OF _ assms(2)] prepare_request_context [OF assms(1)] run_tools_events(1,5) finish_turn_keeps(3))

lemma loop_from_context:
  assumes "keeps_context hk" and "stream_protocol hk"
  shows "loop_from hk s = Some (s', es) \<Longrightarrow> ac_messages (ls_context s') = ac_messages (ls_context s) @ completed es"
proof (induction rule: loop_from_induct)
  case (last_turn s s' es)
  then show ?case by (rule run_turn_context [OF assms])
next
  case (turn s s1 es1 s2 es2)
  then show ?case using run_turn_context [OF assms turn(1)] by simp
qed auto

lemma run_context:
  assumes "keeps_context hk" and "stream_protocol hk" and "runAgentLoop hk config prompts ctx w = Some (s, es)"
  shows "ac_messages (ls_context s) = ac_messages ctx @ completed es"
proof -
  obtain ms w1 where d: "declareToolChanges (lk_tools hk) ctx prompts w = (ms, w1)" by fastforce
  obtain steering w2 where st: "lk_getSteeringMessages hk w1 = (steering, w2)" by fastforce
  obtain es1 where run: "loop_from hk \<lparr>ls_context = ctx\<lparr>ac_messages := ac_messages ctx @ ms\<rparr>, ls_config = config, ls_lastTurn = None,
      ls_explicit = False, ls_pending = steering, ls_more = True, ls_new = ms, ls_world = w2\<rparr> = Some (s, es1)"
    and es: "es = AgentStart # TurnStart # announce ms @ es1"
    using assms(3) by (auto simp: runAgentLoop_def runLoop_def d st split: Option.bind_splits)
  show ?thesis using loop_from_context [OF assms(1,2) run] by (simp add: es)
qed



section \<open>Continuation\<close>

text \<open>
  C15. \<open>continue\<close> fails exactly for an agent with an active run, for a transcript without conversation,
  and for one that ends with an assistant message while nothing is queued. After an assistant message
  it runs the messages the preview of the queues shows, steering first, with these messages taken from
  their queue and, for steering, the first poll skipped; otherwise it continues the loop, whose own
  checks of the transcript then never fail.
\<close>

theorem continue_contract:
  "if ag_activeRun a then continue_run hk now a u = Inl (js ''Agent is already processing. Wait for completion before continuing.'')
   else if list_all is_system (ag_messages a) then continue_run hk now a u = Inl (js ''No messages to continue from'')
   else if is_assistant (last (ag_messages a)) then
     (if \<not> hasQueuedMessages a then continue_run hk now a u = Inl (js ''Cannot continue from message role: assistant'')
      else if hasItems (ag_steeringQueue a)
      then continue_run hk now a u =
        runPromptMessages hk (peekQueuedMessages a) True (a\<lparr>ag_steeringQueue := snd (drain (ag_steeringQueue a))\<rparr>) u
      else continue_run hk now a u =
        runPromptMessages hk (peekQueuedMessages a) False (a\<lparr>ag_followUpQueue := snd (drain (ag_followUpQueue a))\<rparr>) u)
   else \<exists>r. runAgentLoopContinue (loop_hooks_of hk) (createLoopConfig a) (createContextSnapshot a) (start_world a False u) = Inr r \<and>
      continue_run hk now a u = runWithLifecycle a (map_option finished_outcome r)"
proof -
  have empty: "\<not> hasItems q \<Longrightarrow> drain q = ([], q)" for q :: "agent_message message_queue"
    by (simp add: hasItems_def drain_def peek_def)
  have some: "hasItems q \<Longrightarrow> drain q = (peek q, snd (drain q)) \<and> peek q \<noteq> []" for q :: "agent_message message_queue"
    by (metis drain_peek peek_empty prod.collapse)
  note defs = continue_run_def hasQueuedMessages_def peekQueuedMessages_def runContinuation_def runAgentLoopContinue_def
    createContextSnapshot_def Let_def
  consider (steering) "hasItems (ag_steeringQueue a)" | (followUp) "\<not> hasItems (ag_steeringQueue a)" "hasItems (ag_followUpQueue a)"
    | (none) "\<not> hasItems (ag_steeringQueue a)" "\<not> hasItems (ag_followUpQueue a)" by blast
  then show ?thesis
  proof cases
    case steering
    obtain q where "drain (ag_steeringQueue a) = (peek (ag_steeringQueue a), q)" "peek (ag_steeringQueue a) \<noteq> []"
      using some [OF steering] by blast
    then show ?thesis using steering by (auto simp: defs)
  next
    case followUp
    obtain q where "drain (ag_followUpQueue a) = (peek (ag_followUpQueue a), q)" "peek (ag_followUpQueue a) \<noteq> []"
      using some [OF followUp(2)] by blast
    moreover have "peek (ag_steeringQueue a) = []" using followUp(1) by (simp add: peek_empty)
    ultimately show ?thesis using followUp empty [OF followUp(1)] by (auto simp: defs)
  next
    case none
    then show ?thesis using empty [OF none(1)] empty [OF none(2)] by (auto simp: defs)
  qed
qed

end
