(* ===== verification/Agent_Session.thy ===== *)
theory Agent_Session
  imports Compaction_Correct Agent_Correct Summarization
begin

text \<open>
  The event handler of an agent session (packages/coding-agent/src/core/agent-session.ts): it listens to the
  agent, keeps the copies of queued messages, stores finished messages in the session manager, resets the retry
  and recovery state, and appends custom messages that waited for the end of a turn. The model is of a session in
  which no extension handler replaces a message and no tool has called \<open>ctx.executeTool()\<close>, so that the program has
  no runner for nested calls: messages are stored as the loop finished them. Telemetry and the signal of
  \<open>agent.abort()\<close> are not part of the state. Messages are compared by value where the program compares objects, in
  the map from messages to entry ids too.
\<close>

section \<open>State\<close>

datatype compaction_reason = ManualReason | ThresholdReason | OverflowReason

text \<open>
  Why a compaction failed: the one attempt at recovery is used up (by an overflow, or by a response cut off), no
  request could be made, the summary failed, or storing it failed. The text shown is made from it.
\<close>

datatype compaction_failure =
    RecoveryExhausted bool
  | RequestFailed jstr
  | SummaryFailed summary_error
  | StoreFailed session_error

datatype session_event =
    Forwarded agent_event
  | RunEnded "agent_message list" bool
  | QueueUpdate "jstr list" "jstr list"
  | AutoRetryStart nat nat nat jstr
  | AutoRetryEnd bool nat "jstr option"
  | EntryAppended session_entry
  | CompactionStart compaction_reason
  | CompactionEnd compaction_reason "(compaction_result \<times> nat) option" bool bool "compaction_failure option"

record session_runtime =
  sr_manager :: session_manager
  sr_agent :: agent
  sr_steeringMessages :: "user_message list"
  sr_followUpMessages :: "user_message list"
  sr_pendingCustomMessages :: "custom_message list"
  sr_pendingBashMessages :: "bash_execution list"
  sr_entryIds :: "(agent_message, jstr) omap"
  sr_overflowRecoveryAttempted :: bool
  sr_lastAssistantMessage :: "assistant_message option"
  sr_failedResponse :: "assistant_message option"
  sr_retryAttempt :: nat
  sr_abortRequested :: bool
  sr_emitted :: "session_event list"

text \<open>The retry settings and whether a failed response can be retried (\<open>_isRetryableError\<close>).\<close>

record retry_settings =
  rs_policy :: retry_policy
  rs_retryable :: "assistant_message \<Rightarrow> bool"

text \<open>A handler does not return, fails with the state it left, or returns.\<close>

datatype runtime_error = StoreError session_error | ThrownError jstr

type_synonym 'r handled = "((runtime_error \<times> 'r) + 'r) option"

definition and_then :: "'r handled \<Rightarrow> ('r \<Rightarrow> 'r handled) \<Rightarrow> 'r handled" where
  "and_then r f = (case r of Some (Inr s) \<Rightarrow> f s | _ \<Rightarrow> r)"

definition emit_session :: "session_event \<Rightarrow> session_runtime \<Rightarrow> session_runtime" where
  "emit_session e s = s\<lparr>sr_emitted := sr_emitted s @ [e]\<rparr>"

section \<open>Context\<close>

definition remember_entry :: "projected_entry \<Rightarrow> (agent_message, jstr) omap \<Rightarrow> (agent_message, jstr) omap" where
  "remember_entry e ids = fold (\<lambda>m. omap_set m (se_id (pe_source e))) (pe_messages e) ids"

definition refreshFinalizedContext :: "session_runtime \<Rightarrow> session_runtime option" where
  "refreshFinalizedContext s =
     map_option (\<lambda>p. s\<lparr>sr_entryIds := fold remember_entry (sp_entries p) (sr_entryIds s),
                       sr_agent := (sr_agent s)\<lparr>ag_messages := sp_messages p\<rparr>\<rparr>)
       (manager_projection (sr_manager s))"

definition findLastAssistantMessage :: "session_runtime \<Rightarrow> agent_message option" where
  "findLastAssistantMessage s = find_last is_assistant (ag_messages (sr_agent s))"

section \<open>Deferred messages\<close>

definition appendCustomMessage :: "runtime \<Rightarrow> custom_message \<Rightarrow> session_runtime \<Rightarrow> session_runtime handled" where
  "appendCustomMessage rt m s =
     (case appendCustomMessageEntry rt (cm_customType m) (cm_content m) (cm_display m) (cm_details m) (sr_manager s) of
        Inl (err, st) \<Rightarrow> Some (Inl (StoreError err, s\<lparr>sr_manager := st\<rparr>))
      | Inr (_, st) \<Rightarrow>
          map_option (\<lambda>s1. Inr (emit_session (Forwarded (MessageEnd (Custom m))) (emit_session (Forwarded (MessageStart (Custom m))) s1)))
            (refreshFinalizedContext (s\<lparr>sr_manager := st\<rparr>)))"

text \<open>Consecutive appends take consecutive values of the clock.\<close>

fun append_customs :: "(nat \<Rightarrow> runtime) \<Rightarrow> custom_message list \<Rightarrow> session_runtime \<Rightarrow> session_runtime handled" where
  "append_customs clock [] s = Some (Inr s)"
| "append_customs clock (m # ms) s =
     and_then (appendCustomMessage (clock 0) m s) (append_customs (\<lambda>k. clock (Suc k)) ms)"

definition flushPendingCustomMessages :: "(nat \<Rightarrow> runtime) \<Rightarrow> session_runtime \<Rightarrow> session_runtime handled" where
  "flushPendingCustomMessages clock s = append_customs clock (sr_pendingCustomMessages s) (s\<lparr>sr_pendingCustomMessages := []\<rparr>)"

fun append_bashes :: "(nat \<Rightarrow> runtime) \<Rightarrow> bash_execution list \<Rightarrow> session_runtime \<Rightarrow> session_runtime handled" where
  "append_bashes clock [] s = Some (Inr s)"
| "append_bashes clock (m # ms) s =
     (case appendMessage (clock 0) (BashExecution m) (sr_manager s) of
        Inl (err, st) \<Rightarrow> Some (Inl (StoreError err, s\<lparr>sr_manager := st\<rparr>))
      | Inr (_, st) \<Rightarrow> append_bashes (\<lambda>k. clock (Suc k)) ms (s\<lparr>sr_manager := st\<rparr>))"

definition flushPendingBashMessages :: "(nat \<Rightarrow> runtime) \<Rightarrow> session_runtime \<Rightarrow> session_runtime handled" where
  "flushPendingBashMessages clock s =
     (if sr_pendingBashMessages s = [] then Some (Inr s)
      else and_then (append_bashes clock (sr_pendingBashMessages s) s)
        (\<lambda>s1. map_option Inr (refreshFinalizedContext (s1\<lparr>sr_pendingBashMessages := []\<rparr>))))"

section \<open>Retries\<close>

definition willRetryAfterAgentEnd :: "retry_settings \<Rightarrow> agent_message list \<Rightarrow> session_runtime \<Rightarrow> bool" where
  "willRetryAfterAgentEnd cfg ms s \<longleftrightarrow>
     \<not> sr_abortRequested s \<and> rp_enabled (rs_policy cfg) \<and> sr_retryAttempt s < rp_maxRetries (rs_policy cfg) \<and>
     (case find_last is_assistant ms of Some (Assistant a) \<Rightarrow> rs_retryable cfg a | _ \<Rightarrow> False)"

definition finishCancelledRetry :: "session_runtime \<Rightarrow> session_runtime" where
  "finishCancelledRetry s =
     (if sr_retryAttempt s = 0 then s
      else emit_session (AutoRetryEnd False (sr_retryAttempt s) (Some (js ''Retry cancelled''))) (s\<lparr>sr_retryAttempt := 0\<rparr>))"

section \<open>The handler\<close>

definition queue_texts :: "user_message list \<Rightarrow> jstr list" where
  "queue_texts ms = map (\<lambda>m. case us_content m of None \<Rightarrow> [] | Some c \<Rightarrow> contentText [] c) ms"

definition emitQueueUpdate :: "session_runtime \<Rightarrow> session_runtime" where
  "emitQueueUpdate s = emit_session (QueueUpdate (queue_texts (sr_steeringMessages s)) (queue_texts (sr_followUpMessages s))) s"

text \<open>A user message that starts leaves the queue it was in.\<close>

definition take_queued :: "user_message \<Rightarrow> session_runtime \<Rightarrow> session_runtime" where
  "take_queued m s =
     (if m \<in> set (sr_steeringMessages s) then emitQueueUpdate (s\<lparr>sr_steeringMessages := remove1 m (sr_steeringMessages s)\<rparr>)
      else if m \<in> set (sr_followUpMessages s) then emitQueueUpdate (s\<lparr>sr_followUpMessages := remove1 m (sr_followUpMessages s)\<rparr>)
      else s)"

definition persist_message :: "runtime \<Rightarrow> agent_message \<Rightarrow> session_manager \<Rightarrow> jstr option outcome" where
  "persist_message rt m st =
     (case m of
        Custom c \<Rightarrow>
          (case appendCustomMessageEntry rt (cm_customType c) (cm_content c) (cm_display c) (cm_details c) st of
             Inl e \<Rightarrow> Inl e | Inr (i, st') \<Rightarrow> Inr (Some i, st'))
      | Msg _ \<Rightarrow> (case appendMessage rt m st of Inl e \<Rightarrow> Inl e | Inr (i, st') \<Rightarrow> Inr (Some i, st'))
      | _ \<Rightarrow> Inr (None, st))"

definition note_response :: "agent_message \<Rightarrow> session_runtime \<Rightarrow> session_runtime" where
  "note_response m s =
     (case m of
        Assistant a \<Rightarrow>
          (let s1 = s\<lparr>sr_lastAssistantMessage := Some a,
                      sr_overflowRecoveryAttempted :=
                        (if as_stopReason a \<noteq> ErrorStop \<and> as_stopReason a \<noteq> LengthStop then False else sr_overflowRecoveryAttempted s)\<rparr>
           in if as_stopReason a \<noteq> ErrorStop \<and> sr_retryAttempt s1 > 0
              then (emit_session (AutoRetryEnd True (sr_retryAttempt s1) None) s1)\<lparr>sr_retryAttempt := 0\<rparr>
              else s1)
      | _ \<Rightarrow> s)"

definition handleAgentEvent ::
    "retry_settings \<Rightarrow> (nat \<Rightarrow> runtime) \<Rightarrow> agent_event \<Rightarrow> session_runtime \<Rightarrow> session_runtime handled" where
  "handleAgentEvent cfg clock e s =
     (let s1 = (case e of MessageStart (User m) \<Rightarrow> take_queued m (s\<lparr>sr_overflowRecoveryAttempted := False\<rparr>) | _ \<Rightarrow> s);
          s2 = emit_session (case e of AgentEnd ms \<Rightarrow> RunEnded ms (willRetryAfterAgentEnd cfg ms s1) | _ \<Rightarrow> Forwarded e) s1
      in case e of
           MessageEnd m \<Rightarrow>
             (case persist_message (clock 0) m (sr_manager s2) of
                Inl (err, st) \<Rightarrow> Some (Inl (StoreError err, s2\<lparr>sr_manager := st\<rparr>))
              | Inr (entryId, st) \<Rightarrow>
                  (let s3 = s2\<lparr>sr_manager := st,
                               sr_entryIds := (case entryId of None \<Rightarrow> sr_entryIds s2 | Some i \<Rightarrow> if i = [] then sr_entryIds s2 else omap_set m i (sr_entryIds s2))\<rparr>
                   in Some (Inr (note_response m s3))))
         | TurnEnd m rs \<Rightarrow> flushPendingCustomMessages clock s2
         | _ \<Rightarrow> Some (Inr s2))"

text \<open>The agent reduces an event before it calls its listener.\<close>

definition deliver_event ::
    "retry_settings \<Rightarrow> (nat \<Rightarrow> runtime) \<Rightarrow> agent_event \<Rightarrow> session_runtime \<Rightarrow> session_runtime handled" where
  "deliver_event cfg clock e s = handleAgentEvent cfg clock e (s\<lparr>sr_agent := reduce_event e (sr_agent s)\<rparr>)"

end
