(* ===== verification/Agent_Session_Correct.thy ===== *)
theory Agent_Session_Correct
  imports Agent_Session
begin

text \<open>
  The transcript of the agent and the context of the session stay the same while a run is stored: appending an
  entry extends the projection by its messages, and every event keeps the two in step.
\<close>

section \<open>Appending to the projection\<close>

lemma context_entries_snoc:
  assumes "distinct (map se_id path)" "\<not> is_compaction e"
  shows "context_entries_of_path (path @ [e]) = context_entries_of_path path @ [e]"
proof (cases "find_last is_compaction path")
  case None
  with assms show ?thesis by (simp add: context_entries_of_path_def)
next
  case (Some c)
  then obtain pre post where path: "path = pre @ c # post" "is_compaction c" "\<forall>z \<in> set post. \<not> is_compaction z"
    using find_last_split by metis
  have "\<forall>x \<in> set pre. \<not> se_id x = se_id c" using assms(1) path(1) by (auto simp: image_iff)
  from find_index_append [OF this]
  have "find_index (\<lambda>x. se_id x = se_id c) (pre @ c # post @ [e]) = Some (length pre)"
    "find_index (\<lambda>x. se_id x = se_id c) (pre @ c # post) = Some (length pre)" by simp_all
  moreover have "find_last is_compaction (pre @ c # post @ [e]) = Some c"
    using find_last_at [of is_compaction c "post @ [e]" pre] path(2,3) assms(2) by simp
  ultimately show ?thesis using Some path(1) by (simp add: context_entries_of_path_def)
qed

lemma project_entries_snoc:
  assumes "\<not> is_compaction e" "\<And>t r. se_data e \<noteq> ContextEditE t r" "omap_get (context_edits es) (se_id e) = None"
  shows "concat (map pe_messages (project_entries (es @ [e]))) =
    concat (map pe_messages (project_entries es)) @ sessionEntryToContextMessages e"
proof -
  have "context_edits (es @ [e]) = context_edits es"
    using assms(2) by (auto simp: context_edits_def collect_edit_def split: entry_data.splits)
  then show ?thesis using assms(1,3) by (simp add: project_entries_def enumerate_append_eq project_at_def projectContextEntry_def)
qed

lemma no_edit_of_later:
  assumes "edits_ok (es @ [e])" "set xs \<subseteq> set es"
  shows "omap_get (context_edits xs) (se_id e) = None"
proof -
  have "find_last (\<lambda>x. \<exists>r. se_data x = ContextEditE (se_id e) r) xs = None"
    unfolding find_last_None
  proof
    fix x assume "x \<in> set xs"
    with assms have "edits_nothing_later x e" by (auto simp: edits_ok_def sorted_wrt_append)
    then show "\<nexists>r. se_data x = ContextEditE (se_id e) r" by (auto simp: edits_nothing_later_def)
  qed
  then show ?thesis by (simp add: get_context_edits)
qed

definition session_messages :: "session_manager \<Rightarrow> agent_message list option" where
  "session_messages st = map_option sc_messages (manager_context st)"

lemma session_messages_branch:
  assumes "sm_inv st" "getBranch st None = Some b"
  shows "session_messages st = Some (concat (map pe_messages (project_entries (context_entries_of_path b))))"
  using manager_projection_branch [OF assms] by (simp add: session_messages_def manager_context_def projection_of_path_def Let_def)

text \<open>A stored entry extends the context by the messages it stands for.\<close>

lemma append_child_messages:
  assumes "reachable st" "uuid_ok rt st" "append_child rt d st = Inr (i, st')" "reachable st'"
    and "\<not> is_compaction (child_entry rt d st)" "\<And>t r. d \<noteq> ContextEditE t r"
  shows "\<exists>ms. session_messages st = Some ms \<and> session_messages st' = Some (ms @ sessionEntryToContextMessages (child_entry rt d st))"
proof -
  let ?c = "child_entry rt d st"
  have inv: "sm_inv st" "sm_inv st'" using reachable_ok assms(1,4) by simp_all
  obtain b where b: "getBranch st None = Some b" "set b \<subseteq> set (getEntries st)" using getBranch_leaf_exists [OF inv(1)] by metis
  note b' = append_child_branch [OF assms(3) inv(1) assms(2) inv(2) b(1)]
  have "edits_ok (getEntries st @ [?c])"
    using reachable_edits [OF assms(4)] append_child_success(1) [OF assms(3) inv(1) assms(2)] by simp
  moreover have "set (context_entries_of_path b) \<subseteq> set (getEntries st)" using context_entries_subset b(2) by blast
  ultimately have edit: "omap_get (context_edits (context_entries_of_path b)) (se_id ?c) = None" by (rule no_edit_of_later)
  have "concat (map pe_messages (project_entries (context_entries_of_path (b @ [?c])))) =
      concat (map pe_messages (project_entries (context_entries_of_path b))) @ sessionEntryToContextMessages ?c"
    using context_entries_snoc [OF branch_projection(2) [OF inv(1) b(1)] assms(5)]
      project_entries_snoc [OF assms(5) _ edit] assms(6) by (simp add: child_entry_def)
  then show ?thesis using session_messages_branch [OF inv(1) b(1)] session_messages_branch [OF inv(2) b'] by simp
qed

section \<open>Stored messages\<close>

text \<open>A stored custom message comes back with the time of its entry; all else is compared exactly.\<close>

fun stamped :: "agent_message \<Rightarrow> agent_message" where
  "stamped (Custom c) = Custom (c\<lparr>cm_timestamp := 0\<rparr>)"
| "stamped m = m"

fun persistable :: "agent_message \<Rightarrow> bool" where
  "persistable (Custom c) \<longleftrightarrow> True"
| "persistable (Msg m) \<longleftrightarrow> \<not> null_content (Msg m)"
| "persistable m \<longleftrightarrow> False"

lemma normalize_not_null: "\<not> null_content (Msg m) \<Longrightarrow> normalize_null (Msg m) = Msg m"
  by (cases m) auto

lemma append_message_messages:
  assumes "reachable st" "uuid_ok rt st" "append_child rt d st = Inr (i, st')"
    and "d = MessageE (Msg m) \<and> \<not> null_content (Msg m) \<and> x = Msg m \<or>
      d = CustomMessageE \<lparr>cd_customType = cm_customType c, cd_content = Some (cm_content c), cd_details = cm_details c,
        cd_display = cm_display c\<rparr> \<and> x = Custom c"
  shows "reachable st' \<and> (\<exists>ms y. session_messages st = Some ms \<and> session_messages st' = Some (ms @ [y]) \<and> stamped y = stamped x)"
proof -
  have "sm_step st (final (append_child rt d st))"
    using assms(4) message [OF assms(2), of "Msg m"]
      custom_message [OF assms(2), of "cm_customType c" "cm_content c" "cm_display c" "cm_details c"]
    by (auto simp: appendMessage_def appendCustomMessageEntry_def)
  then have r: "reachable st'" using assms(1,3) reachable.step by (fastforce simp: final_def)
  have "\<exists>y. sessionEntryToContextMessages (child_entry rt d st) = [y] \<and> stamped y = stamped x"
    using assms(4) normalize_not_null by (auto simp: sessionEntryToContextMessages_def child_entry_def createCustomMessage_def)
  moreover have "\<not> is_compaction (child_entry rt d st)" "\<And>t r. d \<noteq> ContextEditE t r"
    using assms(4) by (auto simp: is_compaction_def child_entry_def)
  ultimately show ?thesis using append_child_messages [OF assms(1-3) r] r by fastforce
qed

section \<open>Transcript and session\<close>

definition in_step :: "session_runtime \<Rightarrow> bool" where
  "in_step s \<longleftrightarrow>
     (\<exists>ms. session_messages (sr_manager s) = Some ms \<and> map stamped ms = map stamped (ag_messages (sr_agent s)))"

text \<open>\<open>n\<close> appends in a row find unused ids.\<close>

definition clock_ok :: "nat \<Rightarrow> (nat \<Rightarrow> runtime) \<Rightarrow> session_manager \<Rightarrow> bool" where
  "clock_ok n clock st \<longleftrightarrow> (\<forall>k < n. uuid_ok (clock k) st) \<and> inj_on (\<lambda>k. rt_uuid (clock k) 0 100) {..<n}"

lemma clock_next:
  assumes "clock_ok (Suc n) clock st" "sm_inv st" "append_child (clock 0) d st = Inr (i, st')"
  shows "clock_ok n (\<lambda>k. clock (Suc k)) st'"
proof -
  have ok: "uuid_ok (clock k) st" if "k < Suc n" for k using assms(1) that by (simp add: clock_ok_def)
  note s = append_child_success [OF assms(3,2) ok [of 0, simplified]]
  have "rt_uuid (clock (Suc k)) 0 100 \<noteq> i" if "k < n" for k
  proof -
    have len: "length (rt_uuid (clock j) m l) = 36" if "j < Suc n" for j m l using ok [OF that] by (simp add: uuid_ok_def)
    have "i = rt_uuid (clock 0) 0 100 \<or> length i = 8"
      using s(8) len [of 0] by (auto simp: child_entry_def next_id_def generateId_def split: option.splits dest!: try_ids_Some)
    moreover have "rt_uuid (clock (Suc k)) 0 100 \<noteq> rt_uuid (clock 0) 0 100"
      using assms(1) that unfolding clock_ok_def by (metis Suc_less_eq Zero_not_Suc inj_onD lessThan_iff zero_less_Suc)
    ultimately show ?thesis using len [of "Suc k" 0 100] that by auto
  qed
  then have "uuid_ok (clock (Suc k)) st'" if "k < n" for k
    using that ok [of "Suc k"] s(1,3,8) sm_invD(2) [OF assms(2)]
    by (auto simp: uuid_ok_def omap_has_def entry_index_def)
  moreover have "inj_on (\<lambda>k. rt_uuid (clock (Suc k)) 0 100) {..<n}"
    using assms(1) unfolding clock_ok_def inj_on_def by auto
  ultimately show ?thesis by (simp add: clock_ok_def)
qed

lemma handler_keeps [simp]:
  "sr_manager (emit_session x s) = sr_manager s" "sr_agent (emit_session x s) = sr_agent s"
  "sr_pendingCustomMessages (emit_session x s) = sr_pendingCustomMessages s"
  "sr_manager (take_queued m s) = sr_manager s" "sr_agent (take_queued m s) = sr_agent s"
  "sr_pendingCustomMessages (take_queued m s) = sr_pendingCustomMessages s"
  "sr_manager (note_response r s) = sr_manager s" "sr_agent (note_response r s) = sr_agent s"
  "sr_pendingCustomMessages (note_response r s) = sr_pendingCustomMessages s"
  by (simp_all add: emit_session_def take_queued_def emitQueueUpdate_def note_response_def Let_def
      split: agent_message.splits message.splits)

lemma refresh_in_step: "refreshFinalizedContext s = Some s' \<Longrightarrow> in_step s' \<and> sr_manager s' = sr_manager s"
  by (auto simp: refreshFinalizedContext_def in_step_def session_messages_def manager_context_def)

lemma append_customs_in_step:
  "append_customs clock ms s = Some (Inr s') \<Longrightarrow> reachable (sr_manager s) \<Longrightarrow> in_step s \<Longrightarrow>
   clock_ok (length ms) clock (sr_manager s) \<Longrightarrow> reachable (sr_manager s') \<and> in_step s'"
proof (induction ms arbitrary: clock s)
  case (Cons m ms)
  from Cons.prems(1) obtain s1 where s1: "appendCustomMessage (clock 0) m s = Some (Inr s1)" "append_customs (\<lambda>k. clock (Suc k)) ms s1 = Some (Inr s')"
    by (auto simp: and_then_def split: option.splits sum.splits)
  from s1(1) obtain i st s2 where a: "appendCustomMessageEntry (clock 0) (cm_customType m) (cm_content m) (cm_display m) (cm_details m) (sr_manager s) = Inr (i, st)"
    and r: "refreshFinalizedContext (s\<lparr>sr_manager := st\<rparr>) = Some s2"
    and e: "s1 = emit_session (Forwarded (MessageEnd (Custom m))) (emit_session (Forwarded (MessageStart (Custom m))) s2)"
    by (auto simp: appendCustomMessage_def split: sum.splits)
  have ok: "uuid_ok (clock 0) (sr_manager s)" using Cons.prems(4) by (simp add: clock_ok_def)
  have "reachable st"
    using append_message_messages [OF Cons.prems(2) ok a [unfolded appendCustomMessageEntry_def], of undefined _ m] by simp
  moreover have "in_step s1" "sr_manager s1 = st" using refresh_in_step [OF r] e by (auto simp: in_step_def)
  moreover have "clock_ok (length ms) (\<lambda>k. clock (Suc k)) st"
    using clock_next [of "length ms" clock "sr_manager s"] a [unfolded appendCustomMessageEntry_def]
      Cons.prems(2,4) reachable_ok by simp
  ultimately show ?case using Cons.IH [OF s1(2)] by simp
qed simp

text \<open>Handling a finished message keeps the stored session in step with the reduced agent.\<close>

lemma persist_in_step:
  assumes "persist_message rt m st = Inr (i, st')" "reachable st" "uuid_ok rt st" "persistable m"
  shows "reachable st' \<and> (\<exists>ms y. session_messages st = Some ms \<and> session_messages st' = Some (ms @ [y]) \<and> stamped y = stamped m)"
proof (cases m)
  case (Custom c)
  with assms(1) obtain j where "appendCustomMessageEntry rt (cm_customType c) (cm_content c) (cm_display c) (cm_details c) st = Inr (j, st')"
    by (auto simp: persist_message_def split: sum.splits)
  from append_message_messages [OF assms(2,3) this [unfolded appendCustomMessageEntry_def], of undefined "Custom c" c] Custom
  show ?thesis by simp
next
  case (Msg x)
  with assms(1) obtain j where "appendMessage rt (Msg x) st = Inr (j, st')" by (auto simp: persist_message_def split: sum.splits)
  from append_message_messages [OF assms(2,3) this [unfolded appendMessage_def], of x "Msg x"] Msg assms(4)
  show ?thesis by simp
qed (use assms(4) in auto)

lemma reduce_messages: "ag_messages (reduce_event e a) = ag_messages a @ completed [e]"
  by (cases e) (auto split: option.splits)

lemma deliver_in_step:
  assumes "deliver_event cfg clock e s = Some (Inr s')" "reachable (sr_manager s)" "in_step s"
    and "clock_ok (Suc (length (sr_pendingCustomMessages s))) clock (sr_manager s)" "\<forall>m \<in> set (completed [e]). persistable m"
  shows "reachable (sr_manager s') \<and> in_step s'"
proof -
  have ok: "uuid_ok (clock 0) (sr_manager s)" using assms(4) by (simp add: clock_ok_def)
  show ?thesis
  proof (cases e)
    case (MessageEnd m)
    with assms(1) obtain i st where p: "persist_message (clock 0) m (sr_manager s) = Inr (i, st)" "sr_manager s' = st"
      "sr_agent s' = reduce_event e (sr_agent s)"
      by (auto simp: deliver_event_def handleAgentEvent_def Let_def split: sum.splits)
    from persist_in_step [OF p(1) assms(2) ok] assms(3,5) MessageEnd p show ?thesis
      by (auto simp: in_step_def)
  next
    case (TurnEnd m rs)
    let ?s = "emit_session (Forwarded e) (s\<lparr>sr_agent := reduce_event e (sr_agent s)\<rparr>)"
    from assms(1) TurnEnd have "append_customs clock (sr_pendingCustomMessages s) (?s\<lparr>sr_pendingCustomMessages := []\<rparr>) = Some (Inr s')"
      by (simp add: deliver_event_def handleAgentEvent_def Let_def flushPendingCustomMessages_def)
    moreover have "in_step (?s\<lparr>sr_pendingCustomMessages := []\<rparr>)"
      using assms(3) reduce_messages [of e] TurnEnd by (simp add: in_step_def emit_session_def)
    moreover have "clock_ok (length (sr_pendingCustomMessages s)) clock (sr_manager s)"
      using assms(4) by (auto simp: clock_ok_def inj_on_def)
    ultimately show ?thesis using append_customs_in_step assms(2) by (fastforce simp: emit_session_def)
  qed (use assms in \<open>auto simp: deliver_event_def handleAgentEvent_def in_step_def Let_def split: agent_message.splits message.splits\<close>)
qed

text \<open>A sequence of events, each delivered before the next one, none of them failing.\<close>

inductive run_delivered :: "retry_settings \<Rightarrow> session_runtime \<Rightarrow> agent_event list \<Rightarrow> session_runtime \<Rightarrow> bool" for cfg where
  delivered_nil: "run_delivered cfg s [] s"
| delivered_cons:
    "clock_ok (Suc (length (sr_pendingCustomMessages s))) clock (sr_manager s) \<Longrightarrow>
     deliver_event cfg clock e s = Some (Inr s1) \<Longrightarrow> run_delivered cfg s1 es s2 \<Longrightarrow> run_delivered cfg s (e # es) s2"

lemma run_in_step:
  "run_delivered cfg s es s' \<Longrightarrow> reachable (sr_manager s) \<Longrightarrow> in_step s \<Longrightarrow> \<forall>m \<in> set (completed es). persistable m \<Longrightarrow>
   reachable (sr_manager s') \<and> in_step s'"
proof (induction rule: run_delivered.induct)
  case (delivered_cons s clock e s1 es s2)
  have "completed (e # es) = completed [e] @ completed es" using completed_append [of "[e]" es] by simp
  with delivered_cons deliver_in_step [OF delivered_cons(2) delivered_cons.prems(1,2) delivered_cons(1)] show ?case by simp
qed simp

text \<open>Without deferred messages the transcript grows by exactly the finished messages.\<close>

lemma deliver_plain:
  assumes "deliver_event cfg clock e s = Some (Inr s')" "sr_pendingCustomMessages s = []"
  shows "ag_messages (sr_agent s') = ag_messages (sr_agent s) @ completed [e] \<and> sr_pendingCustomMessages s' = []"
proof -
  have "sr_agent s' = reduce_event e (sr_agent s) \<and> sr_pendingCustomMessages s' = []"
    using assms by (cases e) (auto simp: deliver_event_def handleAgentEvent_def flushPendingCustomMessages_def Let_def
        split: sum.splits agent_message.splits message.splits)
  then show ?thesis by (simp add: reduce_messages)
qed

lemma run_plain:
  "run_delivered cfg s es s' \<Longrightarrow> sr_pendingCustomMessages s = [] \<Longrightarrow>
   ag_messages (sr_agent s') = ag_messages (sr_agent s) @ completed es"
proof (induction rule: run_delivered.induct)
  case (delivered_cons s clock e s1 es s2)
  have "completed (e # es) = completed [e] @ completed es" using completed_append [of "[e]" es] by simp
  with delivered_cons deliver_plain [OF delivered_cons(2)] show ?case by simp
qed simp

end
