(* ===== verification/Agent_Retry.thy ===== *)
theory Agent_Retry
  imports Agent_Session_Correct
begin

text \<open>
  Automatic retry of a failed response (packages/coding-agent/src/core/agent-session.ts): the failed attempt and its
  tool results stay in the history of the session and are omitted from its context by context edits, then the session
  waits and continues.
\<close>

section \<open>Entries of messages\<close>

definition find_stored :: "agent_message \<Rightarrow> session_runtime \<Rightarrow> (jstr option \<times> session_runtime) option" where
  "find_stored m s =
     (case getBranch (sr_manager s) None of
        None \<Rightarrow> None
      | Some b \<Rightarrow>
          (case find_last (\<lambda>e. se_data e = MessageE m) b of
             Some e \<Rightarrow> Some (Some (se_id e), s)
           | None \<Rightarrow>
               (case find_index (\<lambda>x. x = m) (ag_messages (sr_agent s)) of
                  None \<Rightarrow> Some (None, s)
                | Some messageIndex \<Rightarrow>
                    (case manager_projection (sr_manager s) of
                       None \<Rightarrow> None
                     | Some projection \<Rightarrow>
                         (let sources = concat (map (\<lambda>e. map (\<lambda>_. se_id (pe_source e)) (pe_messages e)) (sp_entries projection))
                          in if messageIndex < length sources
                             then Some (Some (sources ! messageIndex),
                               s\<lparr>sr_entryIds := omap_set m (sources ! messageIndex) (sr_entryIds s)\<rparr>)
                             else Some (None, s))))))"

definition findPersistedMessageEntryId :: "agent_message \<Rightarrow> session_runtime \<Rightarrow> (jstr option \<times> session_runtime) option" where
  "findPersistedMessageEntryId m s =
     (case omap_get (sr_entryIds s) m of
        None \<Rightarrow> find_stored m s
      | Some mapped \<Rightarrow> if mapped = [] then find_stored m s else Some (Some mapped, s))"

fun find_targets :: "agent_message list \<Rightarrow> session_runtime \<Rightarrow> (jstr option list \<times> session_runtime) option" where
  "find_targets [] s = Some ([], s)"
| "find_targets (m # ms) s =
     (case findPersistedMessageEntryId m s of
        None \<Rightarrow> None
      | Some (i, s1) \<Rightarrow> map_option (\<lambda>(is, s2). (i # is, s2)) (find_targets ms s1))"

section \<open>Omission of an attempt\<close>

definition call_ids :: "content list \<Rightarrow> jstr list" where
  "call_ids bs = concat (map (\<lambda>b. case b of ToolCall c \<Rightarrow> [tc_id c] | _ \<Rightarrow> []) bs)"

text \<open>The results of the calls among the messages up to the next response.\<close>

definition attempt_results :: "jstr list \<Rightarrow> agent_message list \<Rightarrow> agent_message list" where
  "attempt_results toolCallIds ms =
     filter (\<lambda>m. case m of ToolResult r \<Rightarrow> tr_toolCallId r \<in> set toolCallIds | _ \<Rightarrow> False) (takeWhile (\<lambda>m. \<not> is_assistant m) ms)"

fun omit_entries :: "(nat \<Rightarrow> runtime) \<Rightarrow> jstr list \<Rightarrow> session_runtime \<Rightarrow> session_runtime handled" where
  "omit_entries clock [] s = Some (Inr s)"
| "omit_entries clock (t # ts) s =
     (case appendContextEdit (clock 0) t None (sr_manager s) of
        None \<Rightarrow> None
      | Some (Inl (err, st)) \<Rightarrow> Some (Inl (StoreError err, s\<lparr>sr_manager := st\<rparr>))
      | Some (Inr (editId, st)) \<Rightarrow>
          (let s1 = s\<lparr>sr_manager := st\<rparr>;
               s2 = (case getEntry st editId of None \<Rightarrow> s1 | Some e \<Rightarrow> emit_session (EntryAppended e) s1)
           in omit_entries (\<lambda>k. clock (Suc k)) ts s2))"

definition truthy_ids :: "jstr option list \<Rightarrow> jstr list" where
  "truthy_ids is = concat (map (\<lambda>i. case i of None \<Rightarrow> [] | Some x \<Rightarrow> if x = [] then [] else [x]) is)"

definition attempt_targets :: "assistant_message \<Rightarrow> content list \<Rightarrow> jstr option \<Rightarrow> session_runtime \<Rightarrow> agent_message list" where
  "attempt_targets a bs entryId s =
     Assistant a #
     (case find_index (\<lambda>m. m = Assistant a \<or> (entryId \<noteq> None \<and> omap_get (sr_entryIds s) m = entryId)) (ag_messages (sr_agent s)) of
        None \<Rightarrow> []
      | Some i \<Rightarrow> attempt_results (call_ids bs) (drop (Suc i) (ag_messages (sr_agent s))))"

definition omitRecoveryAttempt :: "(nat \<Rightarrow> runtime) \<Rightarrow> assistant_message \<Rightarrow> session_runtime \<Rightarrow> session_runtime handled" where
  "omitRecoveryAttempt clock a s =
     (case as_content a of
        None \<Rightarrow> Some (Inl (ThrownError (js ''Cannot read properties of null''), s))
      | Some bs \<Rightarrow>
          (case findPersistedMessageEntryId (Assistant a) s of
             None \<Rightarrow> None
           | Some (entryId, s1) \<Rightarrow>
               (let targets = attempt_targets a bs entryId s1
                in case find_targets targets s1 of
                     None \<Rightarrow> None
                   | Some (targetIds, s2) \<Rightarrow>
                       if list_ex (\<lambda>(t, i). i = None \<and> t \<in> set (ag_messages (sr_agent s2))) (zip targets targetIds)
                       then Some (Inl (ThrownError (js ''Cannot persist recovery omission because a projected message has no source entry''), s2))
                       else and_then (omit_entries clock (truthy_ids targetIds) s2) (\<lambda>s3. map_option Inr (refreshFinalizedContext s3)))))"

section \<open>Preparation of a retry\<close>

text \<open>\<open>slept\<close> is whether the wait completes or is aborted.\<close>

definition prepareRetry ::
    "retry_settings \<Rightarrow> (nat \<Rightarrow> runtime) \<Rightarrow> bool \<Rightarrow> assistant_message \<Rightarrow> session_runtime \<Rightarrow>
     ((runtime_error \<times> session_runtime) + (bool \<times> session_runtime)) option" where
  "prepareRetry cfg clock slept a s =
     (if \<not> rp_enabled (rs_policy cfg) then Some (Inr (False, s))
      else if Suc (sr_retryAttempt s) > rp_maxRetries (rs_policy cfg) then Some (Inr (False, s))
      else
        let attempt = Suc (sr_retryAttempt s);
            s1 = emit_session (AutoRetryStart attempt (rp_maxRetries (rs_policy cfg)) (retryDelayMs (rs_policy cfg) attempt) (error_or_unknown a))
              (s\<lparr>sr_retryAttempt := attempt\<rparr>)
        in case omitRecoveryAttempt clock a s1 of
             None \<Rightarrow> None
           | Some (Inl err) \<Rightarrow> Some (Inl err)
           | Some (Inr s2) \<Rightarrow> if slept then Some (Inr (True, s2)) else Some (Inr (False, finishCancelledRetry s2)))"

section \<open>Context edits in the projection\<close>

definition projected_view :: "projected_entry list \<Rightarrow> (jstr \<times> agent_message list) list" where
  "projected_view es = map (\<lambda>e. (se_id (pe_source e), pe_messages e)) es"

definition without :: "jstr list \<Rightarrow> (jstr \<times> agent_message list) list \<Rightarrow> (jstr \<times> agent_message list) list" where
  "without ts v = map (\<lambda>(i, ms). (i, if i \<in> set ts then [] else ms)) v"

lemma project_entries_edit:
  assumes "se_data c = ContextEditE t None"
  shows "projected_view (project_entries (es @ [c])) = without [t] (projected_view (project_entries es)) @ [(se_id c, [])]"
proof -
  have edits: "context_edits (es @ [c]) = omap_set t None (context_edits es)"
    using assms by (simp add: context_edits_def collect_edit_def)
  have source: "pe_source (project_at E i e) = e" for E i e by (simp add: project_at_def)
  have old: "pe_messages (project_at (context_edits (es @ [c])) i e) =
      (if se_id e = t then [] else pe_messages (project_at (context_edits es) i e))" for i e
    unfolding edits by (simp add: project_at_def projectContextEntry_def get_omap_set)
  have "sessionEntryToContextMessages c = []" "\<not> is_compaction c"
    using assms by (simp_all add: sessionEntryToContextMessages_def is_compaction_def)
  then have new: "pe_messages (project_at E i c) = []" for E i
    by (simp add: project_at_def projectContextEntry_def split: option.splits)
  have "enumerate 0 (es @ [c]) = enumerate 0 es @ [(length es, c)]" by (simp add: enumerate_append_eq)
  then show ?thesis
    unfolding projected_view_def without_def project_entries_def by (simp add: case_prod_beta' source old new)
qed

lemma without_append: "without ts (v @ u) = without ts v @ without ts u"
  by (simp add: without_def)

lemma without_without: "without ts (without us v) = without (us @ ts) v"
  by (auto simp: without_def)

lemma context_entries_edit:
  assumes "sm_inv st" "getBranch st None = Some b" "se_data c = ContextEditE t r"
  shows "context_entries_of_path (b @ [c]) = context_entries_of_path b @ [c]"
  using context_entries_snoc [OF branch_projection(2) [OF assms(1,2)], of c] assms(3) by (simp add: is_compaction_def)

definition session_view :: "session_manager \<Rightarrow> (jstr \<times> agent_message list) list option" where
  "session_view st = map_option (\<lambda>p. projected_view (sp_entries p)) (manager_projection st)"

lemma session_view_branch:
  assumes "sm_inv st" "getBranch st None = Some b"
  shows "session_view st = Some (projected_view (project_entries (context_entries_of_path b)))"
  using manager_projection_branch [OF assms] by (simp add: session_view_def projection_of_path_def Let_def)

text \<open>A context edit without replacement empties its target in the projection and leaves the history.\<close>

lemma context_edit_view:
  assumes "reachable st" "uuid_ok rt st" "appendContextEdit rt t None st = Some (Inr (i, st'))"
  shows "reachable st' \<and> prefix (getEntries st) (getEntries st') \<and>
    (\<exists>v. session_view st = Some v \<and> session_view st' = Some (without [t] v @ [(i, [])])) \<and>
    append_child rt (ContextEditE t None) st = Inr (i, st')"
proof -
  have inv: "sm_inv st" using reachable_ok [OF assms(1)] by simp
  have a: "append_child rt (ContextEditE t None) st = Inr (i, st')"
    using assms(3) by (auto simp: appendContextEdit_def normalized_replacement_def
        split: option.splits if_splits entry_data.splits agent_message.splits message.splits)
  have r: "reachable st'" using reachable.step [OF assms(1) context_edit [OF assms(2,3)]] by (simp add: final_def)
  then have inv': "sm_inv st'" using reachable_ok by simp
  obtain b where b: "getBranch st None = Some b" using getBranch_leaf_exists [OF inv] by metis
  note b' = append_child_branch [OF a inv assms(2) inv' b] and s = append_child_success [OF a inv assms(2)]
  let ?c = "child_entry rt (ContextEditE t None) st"
  have c: "se_data ?c = ContextEditE t None" "se_id ?c = i" using s(8) by (simp_all add: child_entry_def)
  have "session_view st' = Some (without [t] (projected_view (project_entries (context_entries_of_path b))) @ [(i, [])])"
    using session_view_branch [OF inv' b'] context_entries_edit [OF inv b c(1)] project_entries_edit [OF c(1)] c(2) by simp
  then show ?thesis using r a s(1) session_view_branch [OF inv b] by (auto simp: prefix_def)
qed

lemma omit_entries_view:
  "omit_entries clock ts s = Some (Inr s') \<Longrightarrow> reachable (sr_manager s) \<Longrightarrow> clock_ok (length ts) clock (sr_manager s) \<Longrightarrow>
   reachable (sr_manager s') \<and> prefix (getEntries (sr_manager s)) (getEntries (sr_manager s')) \<and>
   sr_retryAttempt s' = sr_retryAttempt s \<and>
   (\<exists>v u. session_view (sr_manager s) = Some v \<and> session_view (sr_manager s') = Some (without ts v @ u) \<and> (\<forall>x \<in> set u. snd x = []))"
proof (induction ts arbitrary: clock s)
  case Nil
  then have inv: "sm_inv (sr_manager s)" using reachable_ok by simp
  obtain b where "getBranch (sr_manager s) None = Some b" using getBranch_leaf_exists [OF inv] by metis
  from session_view_branch [OF inv this] Nil show ?case by (auto simp: without_def)
next
  case (Cons t ts)
  let ?st = "sr_manager s"
  from Cons.prems(1) obtain i st where a: "appendContextEdit (clock 0) t None ?st = Some (Inr (i, st))"
    by (auto simp: Let_def split: option.splits sum.splits)
  define s2 where "s2 = (case getEntry st i of None \<Rightarrow> s\<lparr>sr_manager := st\<rparr> | Some e \<Rightarrow> emit_session (EntryAppended e) (s\<lparr>sr_manager := st\<rparr>))"
  have s2: "sr_manager s2 = st" "sr_retryAttempt s2 = sr_retryAttempt s" by (auto simp: s2_def emit_session_def split: option.splits)
  have ok: "uuid_ok (clock 0) ?st" using Cons.prems(3) by (simp add: clock_ok_def)
  note e = context_edit_view [OF Cons.prems(2) ok a]
  from e obtain v where v: "session_view ?st = Some v" "session_view st = Some (without [t] v @ [(i, [])])" by blast
  have "clock_ok (length ts) (\<lambda>k. clock (Suc k)) st"
    using clock_next [of "length ts" clock ?st] e Cons.prems(2,3) reachable_ok by auto
  moreover have "omit_entries (\<lambda>k. clock (Suc k)) ts s2 = Some (Inr s')" using Cons.prems(1) a by (simp add: s2_def Let_def)
  ultimately obtain u where u: "reachable (sr_manager s')" "prefix (getEntries st) (getEntries (sr_manager s'))" "sr_retryAttempt s' = sr_retryAttempt s"
    "session_view (sr_manager s') = Some (without ts (without [t] v @ [(i, [])]) @ u)" "\<forall>x \<in> set u. snd x = []"
    using Cons.IH [of "\<lambda>k. clock (Suc k)" s2] e s2 v by auto
  have "without ts (without [t] v @ [(i, [])]) @ u = without (t # ts) v @ ((i, []) # u)"
    using without_without [of ts "[t]" v] by (simp add: without_append) (simp add: without_def)
  with u v e show ?case by (auto intro: prefix_order.trans)
qed

section \<open>Retries\<close>

text \<open>Every message of the transcript has a known entry.\<close>

definition tracked :: "session_runtime \<Rightarrow> bool" where
  "tracked s \<longleftrightarrow> (\<forall>m \<in> set (ag_messages (sr_agent s)). \<exists>i. i \<noteq> [] \<and> omap_get (sr_entryIds s) m = Some i)"

lemma find_tracked: "omap_get (sr_entryIds s) m = Some i \<Longrightarrow> i \<noteq> [] \<Longrightarrow> findPersistedMessageEntryId m s = Some (Some i, s)"
  by (simp add: findPersistedMessageEntryId_def)

lemma find_targets_tracked:
  "\<forall>m \<in> set ms. \<exists>i. i \<noteq> [] \<and> omap_get (sr_entryIds s) m = Some i \<Longrightarrow>
   find_targets ms s = Some (map (omap_get (sr_entryIds s)) ms, s) \<and>
   truthy_ids (map (omap_get (sr_entryIds s)) ms) = map (\<lambda>m. the (omap_get (sr_entryIds s) m)) ms"
  by (induction ms) (auto simp: find_tracked truthy_ids_def)

lemma attempt_targets_subset:
  "Assistant a \<in> set (ag_messages (sr_agent s)) \<Longrightarrow> set (attempt_targets a bs i s) \<subseteq> set (ag_messages (sr_agent s))"
  by (auto simp: attempt_targets_def attempt_results_def dest!: set_takeWhileD in_set_dropD split: option.splits)

lemma length_attempt_targets: "length (attempt_targets a bs i s) \<le> Suc (length (ag_messages (sr_agent s)))"
proof -
  have "length (attempt_results ids ms) \<le> length ms" for ids ms
    unfolding attempt_results_def by (meson length_filter_le length_takeWhile_le le_trans)
  then have "length (attempt_results ids (drop k ms)) \<le> length ms" for ids k and ms :: "agent_message list"
    by (rule le_trans) simp
  then show ?thesis by (simp add: attempt_targets_def split: option.split)
qed

lemma clock_ok_mono: "clock_ok n clock st \<Longrightarrow> k \<le> n \<Longrightarrow> clock_ok k clock st"
  by (auto simp: clock_ok_def inj_on_def)

lemma session_messages_view: "session_messages st = map_option (\<lambda>v. concat (map snd v)) (session_view st)"
  by (cases "buildSessionPath (getEntries st) (leaf_argument st) (Some (sm_byId st))")
    (simp_all add: session_messages_def session_view_def manager_context_def manager_projection_def buildSessionProjection_def
      projection_of_path_def projected_view_def Let_def comp_def)

definition attempt_ids :: "assistant_message \<Rightarrow> session_runtime \<Rightarrow> jstr list" where
  "attempt_ids a s =
     map (\<lambda>m. the (omap_get (sr_entryIds s) m))
       (attempt_targets a (case as_content a of None \<Rightarrow> [] | Some bs \<Rightarrow> bs) (omap_get (sr_entryIds s) (Assistant a)) s)"

lemma if_error_iff: "(if b then Some (Inl x) else y) = Some (Inr z) \<longleftrightarrow> \<not> b \<and> y = Some (Inr z)"
  by simp

lemma omission_effect:
  assumes "reachable (sr_manager s)" "tracked s" "Assistant a \<in> set (ag_messages (sr_agent s))"
    and "clock_ok (Suc (length (ag_messages (sr_agent s)))) clock (sr_manager s)"
    and "omitRecoveryAttempt clock a s = Some (Inr s')"
  shows "reachable (sr_manager s') \<and> prefix (getEntries (sr_manager s)) (getEntries (sr_manager s')) \<and> in_step s' \<and>
    sr_retryAttempt s' = sr_retryAttempt s \<and>
    (\<exists>v. session_view (sr_manager s) = Some v \<and> session_messages (sr_manager s') = Some (concat (map snd (without (attempt_ids a s) v))))"
proof -
  let ?get = "omap_get (sr_entryIds s)"
  from assms(5) obtain bs where bs: "as_content a = Some bs" by (auto simp: omitRecoveryAttempt_def split: option.splits)
  let ?targets = "attempt_targets a bs (?get (Assistant a)) s"
  from assms(2,3) obtain i where i: "i \<noteq> []" "?get (Assistant a) = Some i" by (auto simp: tracked_def)
  note find = find_tracked [OF i(2,1)]
  have "\<forall>m \<in> set ?targets. \<exists>i. i \<noteq> [] \<and> ?get m = Some i"
    using attempt_targets_subset [OF assms(3), of bs "?get (Assistant a)"] assms(2) unfolding tracked_def by (meson subsetD)
  from find_targets_tracked [OF this] have targets: "find_targets ?targets s = Some (map ?get ?targets, s)"
    "truthy_ids (map ?get ?targets) = attempt_ids a s" by (simp_all add: attempt_ids_def bs)
  from assms(5) have "and_then (omit_entries clock (attempt_ids a s) s) (\<lambda>s3. map_option Inr (refreshFinalizedContext s3)) = Some (Inr s')"
    unfolding omitRecoveryAttempt_def Let_def by (simp only: bs find targets(1) targets(2) i(2) [symmetric] option.case prod.case if_error_iff)
  then obtain s3 where s3: "omit_entries clock (attempt_ids a s) s = Some (Inr s3)" "refreshFinalizedContext s3 = Some s'"
    by (auto simp: and_then_def split: option.splits sum.splits)
  have "clock_ok (length (attempt_ids a s)) clock (sr_manager s)"
    using clock_ok_mono [OF assms(4)] length_attempt_targets by (simp add: attempt_ids_def)
  from omit_entries_view [OF s3(1) assms(1) this] obtain v u where v: "reachable (sr_manager s3)"
    "prefix (getEntries (sr_manager s)) (getEntries (sr_manager s3))" "sr_retryAttempt s3 = sr_retryAttempt s"
    "session_view (sr_manager s) = Some v" "session_view (sr_manager s3) = Some (without (attempt_ids a s) v @ u)" "\<forall>x \<in> set u. snd x = []"
    by blast
  moreover have "concat (map snd u) = []" using v(6) by simp
  moreover have "sr_retryAttempt s' = sr_retryAttempt s3" using s3(2) by (auto simp: refreshFinalizedContext_def)
  ultimately show ?thesis using refresh_in_step [OF s3(2)] by (auto simp: session_messages_view)
qed


definition demo_error :: assistant_message where
  "demo_error = (demo_reply [] ErrorStop)\<lparr>as_errorMessage := Some (js ''e'')\<rparr>"

definition demo_attempt :: session_manager where
  "demo_attempt = final (appendMessage (demo_rt 1 IoOk) (Assistant demo_error) demo_mem_said)"

definition demo_failed :: session_entry where
  "demo_failed = \<lparr>se_id = take 8 (demo_uuid 1), se_parentId = Some (take 8 (demo_uuid 0)), se_timestamp = 1,
     se_data = MessageE (Assistant demo_error)\<rparr>"

definition demo_attempt_runtime :: session_runtime where
  "demo_attempt_runtime = \<lparr>sr_manager = demo_attempt,
     sr_agent = createMutableAgentState \<lparr>in_systemPrompt = None, in_tools = [],
       in_messages = [demo_user ''hi'', Assistant demo_error], in_model = None, in_thinkingLevel = None\<rparr> True False,
     sr_steeringMessages = [], sr_followUpMessages = [], sr_pendingCustomMessages = [], sr_pendingBashMessages = [],
     sr_entryIds = [(demo_user ''hi'', take 8 (demo_uuid 0)), (Assistant demo_error, take 8 (demo_uuid 1))],
     sr_overflowRecoveryAttempted = False, sr_lastAssistantMessage = None, sr_failedResponse = None, sr_retryAttempt = 0, sr_abortRequested = False,
     sr_emitted = []\<rparr>"

definition demo_retry :: retry_settings where
  "demo_retry = \<lparr>rs_policy = \<lparr>rp_enabled = True, rp_maxRetries = 1, rp_baseDelayMs = 1, rp_maxAgentDelayMs = None\<rparr>, rs_retryable = (\<lambda>a. True)\<rparr>"

lemma demo_attempt_fields:
  "sm_persist demo_attempt = False" "sm_leafId demo_attempt = Some (take 8 (demo_uuid 1))"
  "sm_byId demo_attempt = [(take 8 (demo_uuid 0), demo_first), (take 8 (demo_uuid 1), demo_failed)]"
  using demo_ids_differ
  by (simp_all add: demo_attempt_def final_def appendMessage_def append_child_def appendEntry_def persist_entry_def
      session_file_def demo_mem_said_fields demo_mem_said_leaf child_entry_def next_id_def generateId_first omap_has_def
      demo_rt_def Let_def demo_first_def demo_failed_def)

lemma demo_attempt_reachable: "reachable demo_attempt"
  unfolding demo_attempt_def
  by (intro reachable.step [OF demo_mem_said_reachable] sm_step.message)
    (simp add: uuid_ok_def demo_rt_def omap_has_def demo_mem_said_fields demo_uuid_ne)

lemma demo_attempt_branch: "getBranch demo_attempt None = Some [demo_first, demo_failed]"
  using demo_ids_differ demo_uuid_ne
  by (simp add: getBranch_def demo_attempt_fields walk_up.simps parent_entry_def demo_first_def demo_failed_def)

lemma demo_attempt_messages:
  "ag_messages (sr_agent demo_attempt_runtime) = [demo_user ''hi'', Assistant demo_error]"
  by (simp add: demo_attempt_runtime_def createMutableAgentState_def createInitialSystemMessage_def Let_def demo_user_def)

lemma demo_attempt_tracked: "tracked demo_attempt_runtime"
  using demo_uuid_ne by (simp add: tracked_def demo_attempt_messages) (simp add: demo_attempt_runtime_def demo_user_def)

lemma demo_clock_ok: "clock_ok 3 (\<lambda>k. demo_rt (2 + k) IoOk) demo_attempt"
proof -
  have "inj_on demo_uuid {2, 3, 4}" by (simp add: demo_uuid_def inj_on_def)
  then have "inj_on (\<lambda>k. demo_uuid (2 + k)) {..<3}" by (auto simp: inj_on_def numeral_eq_Suc less_Suc_eq)
  then show ?thesis
    by (simp add: clock_ok_def uuid_ok_def demo_rt_def omap_has_def demo_attempt_fields demo_uuid_ne)
qed

lemma demo_edit: "\<exists>i st. appendContextEdit (demo_rt 2 IoOk) (take 8 (demo_uuid 1)) None demo_attempt = Some (Inr (i, st))"
  using demo_ids_differ
  by (simp add: appendContextEdit_def demo_attempt_fields demo_attempt_branch demo_failed_def editable_def append_child_def
      appendEntry_def persist_entry_def session_file_def Let_def)

lemma omit_single:
  "appendContextEdit (clock 0) t None (sr_manager s) = Some (Inr (i, st)) \<Longrightarrow> \<exists>s2. omit_entries clock [t] s = Some (Inr s2) \<and> sr_manager s2 = st"
  by (auto simp: Let_def emit_session_def split: option.splits)

lemma demo_retry_goes:
  "\<exists>s'. prepareRetry demo_retry (\<lambda>k. demo_rt (2 + k) IoOk) True demo_error demo_attempt_runtime = Some (Inr (True, s'))"
proof -
  let ?clock = "\<lambda>k. demo_rt (2 + k) IoOk" and ?a = "demo_error"
  define s1 where "s1 = emit_session (AutoRetryStart (Suc 0) 1 (retryDelayMs (rs_policy demo_retry) (Suc 0)) (error_or_unknown ?a))
    (demo_attempt_runtime\<lparr>sr_retryAttempt := Suc 0\<rparr>)"
  have s1: "sr_manager s1 = demo_attempt" "ag_messages (sr_agent s1) = [demo_user ''hi'', Assistant ?a]"
    "omap_get (sr_entryIds s1) (Assistant ?a) = Some (take 8 (demo_uuid 1))"
    using demo_attempt_messages by (simp_all add: s1_def emit_session_def) (simp_all add: demo_attempt_runtime_def demo_user_def)
  obtain i st where edit: "appendContextEdit (?clock 0) (take 8 (demo_uuid 1)) None demo_attempt = Some (Inr (i, st))"
    using demo_edit by auto
  obtain s2 where s2: "omit_entries ?clock [take 8 (demo_uuid 1)] s1 = Some (Inr s2)" "sr_manager s2 = st"
    using omit_single [of ?clock _ s1] edit s1(1) by metis
  have "uuid_ok (?clock 0) demo_attempt" using demo_clock_ok unfolding clock_ok_def by (metis zero_less_numeral)
  from context_edit_view [OF demo_attempt_reachable this edit] have "reachable st" by simp
  then have inv: "sm_inv st" using reachable_ok by simp
  obtain b where "getBranch st None = Some b" using getBranch_leaf_exists [OF inv] by metis
  from manager_projection_branch [OF inv this] obtain s3 where s3: "refreshFinalizedContext s2 = Some s3"
    using s2 by (simp add: refreshFinalizedContext_def)
  have "attempt_targets ?a [] (Some (take 8 (demo_uuid 1))) s1 = [Assistant ?a]"
    by (simp add: attempt_targets_def attempt_results_def call_ids_def s1 split: option.split)
  then have "omitRecoveryAttempt ?clock ?a s1 = Some (Inr s3)"
    using s2 s3 find_tracked [OF s1(3)] demo_uuid_ne
    by (simp add: omitRecoveryAttempt_def demo_error_def demo_reply_def truthy_ids_def and_then_def Let_def)
  then show ?thesis
    by (simp add: prepareRetry_def demo_retry_def s1_def Let_def) (simp add: demo_attempt_runtime_def)
qed


end
