(* ===== verification/Agent_Recovery.thy ===== *)
theory Agent_Recovery
  imports Agent_Retry
begin

text \<open>
  What a session does after a run (packages/coding-agent/src/core/agent-session.ts, packages/ai/src/utils/overflow.ts):
  it retries a failed response, recovers from an overflow of the context by compaction, compacts a context above its
  threshold, or settles. As in \<open>Agent_Session\<close> there are no extension handlers; while the session waits, in a sleep or
  for a summary, the only call that reaches it is a request to abort. The tables of error patterns are arguments.
\<close>

section \<open>Overflow\<close>

record overflow_patterns =
  op_overflow :: "jstr \<Rightarrow> bool"
  op_nonOverflow :: "jstr \<Rightarrow> bool"
  op_cerebras :: "jstr \<Rightarrow> bool"

text \<open>\<open>None\<close>: the response has no usage and reading it throws. An absent context window is 0.\<close>

definition isContextOverflow :: "overflow_patterns \<Rightarrow> assistant_message \<Rightarrow> int \<Rightarrow> bool option" where
  "isContextOverflow pats a contextWindow =
     (if as_stopReason a = ErrorStop \<and> error_text a \<noteq> [] \<and> \<not> op_nonOverflow pats (error_text a) \<and>
         (op_overflow pats (error_text a) \<or> as_provider a = js ''cerebras'' \<and> op_cerebras pats (error_text a))
      then Some True
      else if contextWindow \<noteq> 0 \<and> as_stopReason a = Stop
      then map_option (\<lambda>u. u_input u + u_cacheRead u > contextWindow) (as_usage a)
      else if contextWindow \<noteq> 0 \<and> as_stopReason a = LengthStop
      then map_option (\<lambda>u. u_output u = 0 \<and> 100 * (u_input u + u_cacheRead u) \<ge> 99 * contextWindow) (as_usage a)
      else Some False)"

definition isRecoverableLength :: "assistant_message \<Rightarrow> int \<Rightarrow> bool option" where
  "isRecoverableLength a desiredMaxOutput =
     (if as_stopReason a = LengthStop \<and> desiredMaxOutput > 0 then map_option (\<lambda>u. u_output u < desiredMaxOutput) (as_usage a)
      else Some False)"

section \<open>Settings\<close>

record recovery_settings =
  rc_policy :: retry_policy
  rc_classify :: "jstr \<Rightarrow> retry_verdict"
  rc_patterns :: overflow_patterns
  rc_compaction :: "model \<Rightarrow> compaction_settings"
  rc_physical :: "jstr \<Rightarrow> jstr \<Rightarrow> model option"

definition isVirtualModel :: "model \<Rightarrow> bool" where
  "isVirtualModel m \<longleftrightarrow> mo_api m = js ''pi-virtual''"

abbreviation session_model :: "session_runtime \<Rightarrow> model" where
  "session_model s \<equiv> ag_model (sr_agent s)"

definition modelForMessage :: "recovery_settings \<Rightarrow> session_runtime \<Rightarrow> assistant_message \<Rightarrow> model option" where
  "modelForMessage rc s a =
     (let m = session_model s in
      if isVirtualModel m then rc_physical rc (as_provider a) (as_model a)
      else if mo_provider m = as_provider a \<and> mo_id m = as_model a then Some m else None)"

definition window_for :: "recovery_settings \<Rightarrow> session_runtime \<Rightarrow> assistant_message \<Rightarrow> int" where
  "window_for rc s a = mo_contextWindow (case modelForMessage rc s a of None \<Rightarrow> session_model s | Some m \<Rightarrow> m)"

definition isRetryableError :: "recovery_settings \<Rightarrow> session_runtime \<Rightarrow> assistant_message \<Rightarrow> bool option" where
  "isRetryableError rc s a =
     map_option (\<lambda>overflow. \<not> overflow \<and> isRetryableAssistantError (rc_classify rc) a)
       (isContextOverflow (rc_patterns rc) a (window_for rc s a))"

text \<open>The settings the event handler reads: a finished response has usage, so that the check returns.\<close>

definition retry_of :: "recovery_settings \<Rightarrow> session_runtime \<Rightarrow> retry_settings" where
  "retry_of rc s = \<lparr>rs_policy = rc_policy rc, rs_retryable = (\<lambda>a. isRetryableError rc s a = Some True)\<rparr>"

section \<open>Automatic compaction\<close>

text \<open>
  What happens while the session waits: whether the sleep before a retry completes, whether an abort of the run has been
  requested once it is over and once a compaction is over, whether the compaction is aborted when it starts and when its
  summary is there, and the request that makes the summary.
\<close>

record waits =
  wt_slept :: bool
  wt_abortedRetry :: bool
  wt_abortedCompaction :: bool
  wt_signalStart :: bool
  wt_signalSummary :: bool
  wt_request :: "jstr + summarizer"
  wt_edits :: "nat \<Rightarrow> runtime"
  wt_compaction :: runtime

definition summarize :: "waits \<Rightarrow> compaction_preparation \<Rightarrow> compaction_failure + compaction_result" where
  "summarize w prep =
     (case wt_request w of
        Inl e \<Rightarrow> Inl (RequestFailed e)
      | Inr sz \<Rightarrow> (case compact sz prep None of Inl e \<Rightarrow> Inl (SummaryFailed e) | Inr r \<Rightarrow> Inr r))"

definition estimateMessagesTokens :: "agent_message list \<Rightarrow> nat" where
  "estimateMessagesTokens ms = tokens_of ms"

definition store_compaction :: "compaction_reason \<Rightarrow> bool \<Rightarrow> runtime \<Rightarrow> compaction_result \<Rightarrow> session_runtime \<Rightarrow> (bool \<times> session_runtime) option" where
  "store_compaction reason willRetry rt r s =
     (case appendCompaction rt (ro_summary r) (Some (ro_firstKeptEntryId r)) (ro_tokensBefore r) (Some (ro_details r)) False
            (ro_usage r) (sr_manager s) of
        None \<Rightarrow> None
      | Some (Inl (err, st)) \<Rightarrow> Some (False, emit_session (CompactionEnd reason None False False (Some (StoreFailed err))) (s\<lparr>sr_manager := st\<rparr>))
      | Some (Inr (_, st)) \<Rightarrow>
          (case refreshFinalizedContext (s\<lparr>sr_manager := st\<rparr>) of
             None \<Rightarrow> None
           | Some s1 \<Rightarrow>
               (let s2 = emit_session (CompactionEnd reason (Some (r, estimateMessagesTokens (ag_messages (sr_agent s1)))) False willRetry None) s1
                in Some (willRetry \<or> hasQueuedMessages (sr_agent s2), s2))))"

definition runAutoCompaction ::
    "recovery_settings \<Rightarrow> waits \<Rightarrow> compaction_reason \<Rightarrow> bool \<Rightarrow> session_runtime \<Rightarrow> (bool \<times> session_runtime) option" where
  "runAutoCompaction rc w reason willRetry s =
     (case getBranch (sr_manager s) None of
        None \<Rightarrow> None
      | Some pathEntries \<Rightarrow>
          (case prepareCompaction pathEntries (rc_compaction rc (session_model s)) of
             None \<Rightarrow> None
           | Some None \<Rightarrow> Some (False, s)
           | Some (Some preparation) \<Rightarrow>
               (let s1 = emit_session (CompactionStart reason) s;
                    ended = (\<lambda>aborted err. Some (False, emit_session (CompactionEnd reason None aborted False (if aborted then None else err)) s1))
                in if wt_signalStart w then ended True None
                   else case summarize w preparation of
                          Inl e \<Rightarrow> ended (wt_signalSummary w) (Some e)
                        | Inr r \<Rightarrow> if wt_signalSummary w then ended True None else store_compaction reason willRetry (wt_compaction w) r s1)))"

section \<open>The check after a response\<close>

abbreviation is_edit :: "session_entry \<Rightarrow> bool" where
  "is_edit e \<equiv> (case se_data e of ContextEditE _ _ \<Rightarrow> True | _ \<Rightarrow> False)"

abbreviation edits_entry :: "jstr option \<Rightarrow> session_entry \<Rightarrow> bool" where
  "edits_entry i e \<equiv> (case se_data e of ContextEditE t _ \<Rightarrow> Some t = i | _ \<Rightarrow> False)"

definition assistant_projected :: "jstr option \<Rightarrow> session_projection \<Rightarrow> bool" where
  "assistant_projected entryId p \<longleftrightarrow>
     entryId = None \<or> list_ex (\<lambda>e. Some (se_id (pe_source e)) = entryId \<and> list_ex is_assistant (pe_messages e)) (sp_entries p)"

definition entries_after :: "jstr option \<Rightarrow> session_entry list \<Rightarrow> session_entry list" where
  "entries_after entryId b =
     (case entryId of
        None \<Rightarrow> []
      | Some i \<Rightarrow> if i = [] then [] else case find_index (\<lambda>e. se_id e = i) b of None \<Rightarrow> [] | Some k \<Rightarrow> drop (Suc k) b)"

definition retained_for_recovery :: "jstr option \<Rightarrow> session_entry list \<Rightarrow> bool" where
  "retained_for_recovery entryId after \<longleftrightarrow>
     entryId = None \<or>
     (\<not> list_ex is_compaction after \<and>
      (case find_last (edits_entry entryId) after of None \<Rightarrow> True | Some e \<Rightarrow> se_data e \<noteq> ContextEditE (the entryId) None))"

text \<open>Whether the response overflowed the context, and whether it was cut off early; \<open>None\<close>: a usage that is read is missing.\<close>

definition overflow_verdict ::
    "recovery_settings \<Rightarrow> session_runtime \<Rightarrow> assistant_message \<Rightarrow> jstr option \<Rightarrow> session_projection \<Rightarrow> session_entry list \<Rightarrow> (bool \<times> bool) option" where
  "overflow_verdict rc s a entryId p b =
     (case modelForMessage rc s a of
        None \<Rightarrow> Some (False, False)
      | Some messageModel \<Rightarrow>
          (let projected = assistant_projected entryId p;
               after = entries_after entryId b;
               usageMatches = (projected \<and> \<not> list_ex is_edit after);
               explicitOverflow = (as_stopReason a = ErrorStop \<and> isContextOverflow (rc_patterns rc) a 0 = Some True);
               contextOverflow =
                 (if explicitOverflow \<and> retained_for_recovery entryId after then Some True
                  else if usageMatches then isContextOverflow (rc_patterns rc) a (mo_contextWindow messageModel) else Some False);
               recoverableLength = (if projected then isRecoverableLength a (mo_maxTokens messageModel) else Some False)
           in case contextOverflow of None \<Rightarrow> None | Some c \<Rightarrow> map_option (Pair c) recoverableLength))"

text \<open>The size of the context, or nothing when the last usage is older than the latest compaction.\<close>

definition threshold_tokens ::
    "session_runtime \<Rightarrow> assistant_message \<Rightarrow> session_entry option \<Rightarrow> session_projection \<Rightarrow> session_entry list \<Rightarrow> int option" where
  "threshold_tokens s a compactionEntry p b =
     (let directContextTokens = (case as_usage a of None \<Rightarrow> 0 | Some u \<Rightarrow> calculateContextTokens u) in
      if list_ex (\<lambda>e. is_edit (pe_source e)) (sp_entries p) then Some (ce_tokens (estimateProjectedContextTokens p b))
      else if as_stopReason a = ErrorStop \<or> directContextTokens = 0
      then (let messages = ag_messages (sr_agent s);
                estimate = estimateContextTokens messages;
                stale = (case (ce_lastUsageIndex estimate, compactionEntry) of
                   (Some i, Some c) \<Rightarrow> (case messages ! i of Assistant u \<Rightarrow> as_timestamp u \<le> se_timestamp c | _ \<Rightarrow> False)
                 | _ \<Rightarrow> False)
            in if stale then None else Some (ce_tokens estimate))
      else Some directContextTokens)"

type_synonym decision = "((runtime_error \<times> session_runtime) + (bool \<times> session_runtime)) option"

definition recover_overflow :: "recovery_settings \<Rightarrow> waits \<Rightarrow> assistant_message \<Rightarrow> bool \<Rightarrow> session_runtime \<Rightarrow> decision" where
  "recover_overflow rc w a contextOverflow s =
     (if as_stopReason a = Stop then map_option Inr (runAutoCompaction rc w OverflowReason False s)
      else if sr_overflowRecoveryAttempted s
      then Some (Inr (False, emit_session (CompactionEnd OverflowReason None False False (Some (RecoveryExhausted contextOverflow))) s))
      else case omitRecoveryAttempt (wt_edits w) a (s\<lparr>sr_overflowRecoveryAttempted := True\<rparr>) of
             None \<Rightarrow> None
           | Some (Inl err) \<Rightarrow> Some (Inl err)
           | Some (Inr s1) \<Rightarrow>
               map_option (\<lambda>(retry, s2). Inr (retry, if retry then s2\<lparr>sr_failedResponse := Some a\<rparr> else s2))
                 (runAutoCompaction rc w OverflowReason True s1))"

definition check_threshold ::
    "recovery_settings \<Rightarrow> waits \<Rightarrow> assistant_message \<Rightarrow> session_entry option \<Rightarrow> session_projection \<Rightarrow> session_entry list \<Rightarrow> session_runtime \<Rightarrow>
     decision" where
  "check_threshold rc w a compactionEntry p b s =
     (case threshold_tokens s a compactionEntry p b of
        None \<Rightarrow> Some (Inr (False, s))
      | Some contextTokens \<Rightarrow>
          if shouldCompact contextTokens (window_for rc s a) (rc_compaction rc (session_model s))
          then map_option Inr (runAutoCompaction rc w ThresholdReason False s)
          else Some (Inr (False, s)))"

definition check_response ::
    "recovery_settings \<Rightarrow> waits \<Rightarrow> assistant_message \<Rightarrow> jstr option \<Rightarrow> session_entry option \<Rightarrow> session_projection \<Rightarrow> session_entry list \<Rightarrow>
     session_runtime \<Rightarrow> decision" where
  "check_response rc w a entryId compactionEntry p b s =
     (case overflow_verdict rc s a entryId p b of
        None \<Rightarrow> Some (Inl (ThrownError (js ''usage''), s))
      | Some (contextOverflow, recoverableLength) \<Rightarrow>
          if contextOverflow \<or> recoverableLength then recover_overflow rc w a contextOverflow s
          else check_threshold rc w a compactionEntry p b s)"

definition checkCompaction :: "recovery_settings \<Rightarrow> waits \<Rightarrow> assistant_message \<Rightarrow> bool \<Rightarrow> session_runtime \<Rightarrow> decision" where
  "checkCompaction rc w a skipAbortedCheck s =
     (let settings = rc_compaction rc (session_model s) in
      if \<not> cs_enabled settings then Some (Inr (False, s))
      else if skipAbortedCheck \<and> as_stopReason a = AbortedStop then Some (Inr (False, s))
      else case getBranch (sr_manager s) None of
             None \<Rightarrow> None
           | Some b \<Rightarrow>
               (let compactionEntry = getLatestCompactionEntry b in
                if (case compactionEntry of None \<Rightarrow> False | Some c \<Rightarrow> as_timestamp a \<le> se_timestamp c) then Some (Inr (False, s))
                else case manager_projection (sr_manager s) of
                       None \<Rightarrow> None
                     | Some p \<Rightarrow>
                         (case findPersistedMessageEntryId (Assistant a) s of
                            None \<Rightarrow> None
                          | Some (entryId, s1) \<Rightarrow> check_response rc w a entryId compactionEntry p b s1)))"

section \<open>After a run\<close>

definition note_abort :: "bool \<Rightarrow> session_runtime \<Rightarrow> session_runtime" where
  "note_abort requested s = s\<lparr>sr_abortRequested := sr_abortRequested s \<or> requested\<rparr>"

text \<open>The end of the handler, for a response that is not retried.\<close>

definition finish_post_run :: "recovery_settings \<Rightarrow> waits \<Rightarrow> assistant_message \<Rightarrow> session_runtime \<Rightarrow> decision" where
  "finish_post_run rc w a s =
     (if sr_abortRequested s then Some (Inr (False, finishCancelledRetry s))
      else
        let s1 = (if as_stopReason a = ErrorStop \<and> sr_retryAttempt s > 0
                  then (emit_session (AutoRetryEnd False (sr_retryAttempt s) (as_errorMessage a)) s)\<lparr>sr_retryAttempt := 0\<rparr> else s)
        in case checkCompaction rc w a True s1 of
             None \<Rightarrow> None
           | Some (Inl err) \<Rightarrow> Some (Inl err)
           | Some (Inr (again, s2)) \<Rightarrow>
               (let s3 = note_abort (wt_abortedCompaction w) s2
                in Some (Inr (\<not> sr_abortRequested s3 \<and> (again \<or> hasQueuedMessages (sr_agent s3)), s3))))"

definition retry_branch :: "recovery_settings \<Rightarrow> waits \<Rightarrow> assistant_message \<Rightarrow> session_runtime \<Rightarrow> decision" where
  "retry_branch rc w a s =
     (case prepareRetry (retry_of rc s) (wt_edits w) (wt_slept w) a s of
        None \<Rightarrow> None
      | Some (Inl err) \<Rightarrow> Some (Inl err)
      | Some (Inr (ok, s1)) \<Rightarrow>
          (let s2 = note_abort (wt_abortedRetry w) s1 in
           if ok
           then let s3 = (if sr_abortRequested s2 then finishCancelledRetry s2 else s2)
                in Some (Inr (\<not> sr_abortRequested s2, s3\<lparr>sr_failedResponse := Some a\<rparr>))
           else finish_post_run rc w a s2))"

definition handlePostAgentRun :: "recovery_settings \<Rightarrow> waits \<Rightarrow> session_runtime \<Rightarrow> decision" where
  "handlePostAgentRun rc w s =
     (let s0 = s\<lparr>sr_lastAssistantMessage := None\<rparr> in
      if sr_abortRequested s then Some (Inr (False, finishCancelledRetry s0))
      else case sr_lastAssistantMessage s of
             None \<Rightarrow> Some (Inr (hasQueuedMessages (sr_agent s0), s0))
           | Some a \<Rightarrow>
               (case isRetryableError rc s0 a of
                  None \<Rightarrow> Some (Inl (ThrownError (js ''usage''), s0))
                | Some retryable \<Rightarrow> if retryable then retry_branch rc w a s0 else finish_post_run rc w a s0))"

text \<open>
  One round of the loop around a run: whether the agent continues. Without handlers the boundary before settling asks
  the queues.
\<close>

definition post_run_round :: "recovery_settings \<Rightarrow> waits \<Rightarrow> session_runtime \<Rightarrow> decision" where
  "post_run_round rc w s =
     (if sr_abortRequested s then Some (Inr (False, s))
      else case handlePostAgentRun rc w s of
             Some (Inr (again, s1)) \<Rightarrow> Some (Inr (\<not> sr_abortRequested s1 \<and> (again \<or> hasQueuedMessages (sr_agent s1)), s1))
           | r \<Rightarrow> r)"

text \<open>The end of a run, whether the loop returned or failed.\<close>

definition settle_run :: "(nat \<Rightarrow> runtime) \<Rightarrow> (nat \<Rightarrow> runtime) \<Rightarrow> session_runtime \<Rightarrow> session_runtime handled" where
  "settle_run bashClock customClock s =
     (let s1 = (if sr_abortRequested s then finishCancelledRetry s else s)\<lparr>sr_failedResponse := None\<rparr>
      in and_then (flushPendingBashMessages bashClock s1) (flushPendingCustomMessages customClock))"

end
