(* ===== verification/Agent_Recovery_Correct.thy ===== *)
theory Agent_Recovery_Correct
  imports Agent_Recovery
begin

text \<open>
  What the session does after a run is safe and ends: whatever fails on the way, the store stays reachable, its history
  only grows and a round that returns leaves session and agent in step; and a chain of failed responses is followed by
  a bounded number of automatic continuations.
\<close>

section \<open>Times and ids\<close>

definition runtimes_ok :: "runtime list \<Rightarrow> session_manager \<Rightarrow> bool" where
  "runtimes_ok rts st \<longleftrightarrow> list_all (\<lambda>rt. uuid_ok rt st) rts \<and> distinct (map (\<lambda>rt. rt_uuid rt 0 100) rts)"

lemma runtimes_first: "runtimes_ok (rt # rts) st \<Longrightarrow> uuid_ok rt st"
  by (simp add: runtimes_ok_def)

lemma runtimes_next:
  assumes "runtimes_ok (rt # rts) st" "sm_inv st" "append_child rt d st = Inr (i, st')"
  shows "runtimes_ok rts st'"
proof -
  have "uuid_ok r st'" if "r \<in> set rts" for r
  proof -
    have "clock_ok 2 (\<lambda>k. if k = 0 then rt else r) st"
      using assms(1) that by (auto simp: runtimes_ok_def clock_ok_def inj_on_def list_all_iff image_iff)
    then show ?thesis
      using clock_next [of 1 "\<lambda>k. if k = 0 then rt else r" st d i st'] assms(2,3) by (simp add: clock_ok_def numeral_2_eq_2)
  qed
  with assms(1) show ?thesis by (simp add: runtimes_ok_def list_all_iff)
qed

lemma runtimes_ok_sub: "runtimes_ok (map c [0..<n] @ rts) st \<Longrightarrow> m \<le> n \<Longrightarrow> runtimes_ok (map c [0..<m] @ rts) st"
proof -
  assume "runtimes_ok (map c [0..<n] @ rts) st" "m \<le> n"
  moreover have "[0..<n] = [0..<m] @ [m..<n]" using upt_add_eq_append [of 0 m "n - m"] \<open>m \<le> n\<close> by simp
  ultimately show ?thesis by (auto simp: runtimes_ok_def)
qed

definition waits_ok :: "waits \<Rightarrow> session_runtime \<Rightarrow> bool" where
  "waits_ok w s \<longleftrightarrow> runtimes_ok (map (wt_edits w) [0..<Suc (length (ag_messages (sr_agent s)))] @ [wt_compaction w]) (sr_manager s)"

section \<open>Frames\<close>

text \<open>What an operation leaves alone when it only changes the store and the transcript, and reports it.\<close>

definition frame :: "session_runtime \<Rightarrow> session_runtime \<Rightarrow> bool" where
  "frame s s' \<longleftrightarrow> sr_retryAttempt s' = sr_retryAttempt s \<and> sr_overflowRecoveryAttempted s' = sr_overflowRecoveryAttempted s \<and>
     sr_abortRequested s' = sr_abortRequested s \<and> (\<exists>ms. sr_agent s' = (sr_agent s)\<lparr>ag_messages := ms\<rparr>)"

lemma agent_same [simp]: "\<exists>ms. a = a\<lparr>ag_messages := ms\<rparr>"
  by (rule exI [of _ "ag_messages a"]) simp

lemma frame_refl [simp]: "frame s s"
  by (simp add: frame_def)

lemma frame_trans: "frame s s1 \<Longrightarrow> frame s1 s2 \<Longrightarrow> frame s s2"
  by (auto simp: frame_def)

lemma frame_emit [simp]: "frame s (emit_session e s1) = frame s s1" "frame (emit_session e s) s1 = frame s s1"
  by (simp_all add: frame_def emit_session_def)

lemma frame_manager [simp]: "frame s (s1\<lparr>sr_manager := st\<rparr>) = frame s s1" "frame (s\<lparr>sr_manager := st\<rparr>) s1 = frame s s1"
  by (simp_all add: frame_def)

lemma frame_queue: "frame s s' \<Longrightarrow> hasQueuedMessages (sr_agent s') = hasQueuedMessages (sr_agent s)"
  by (auto simp: frame_def hasQueuedMessages_def)

lemma frame_refresh: "refreshFinalizedContext s = Some s' \<Longrightarrow> frame s s'"
  by (auto simp: refreshFinalizedContext_def frame_def)

text \<open>How the store moves: by steps of the session manager.\<close>

abbreviation stores :: "session_runtime \<Rightarrow> session_runtime \<Rightarrow> bool" where
  "stores s s' \<equiv> sm_step\<^sup>*\<^sup>* (sr_manager s) (sr_manager s')"

lemma find_frame:
  "findPersistedMessageEntryId m s = Some (i, s') \<Longrightarrow> frame s s' \<and> sr_manager s' = sr_manager s \<and> sr_agent s' = sr_agent s"
proof -
  have touch: "frame s (s\<lparr>sr_entryIds := ids\<rparr>)" for ids by (simp add: frame_def)
  assume "findPersistedMessageEntryId m s = Some (i, s')"
  then have "s' = s \<or> (\<exists>ids. s' = s\<lparr>sr_entryIds := ids\<rparr>)"
    by (auto simp: findPersistedMessageEntryId_def find_stored_def Let_def split: option.splits if_splits)
  with touch show ?thesis by auto
qed

lemma find_targets_frame:
  "find_targets ms s = Some (is, s') \<Longrightarrow>
   frame s s' \<and> sr_manager s' = sr_manager s \<and> sr_agent s' = sr_agent s \<and> length is = length ms"
proof (induction ms arbitrary: s "is")
  case (Cons m ms)
  then obtain i s1 js where "findPersistedMessageEntryId m s = Some (i, s1)" "find_targets ms s1 = Some (js, s')" "is = i # js"
    by (auto split: option.splits)
  with find_frame [of m s i s1] Cons.IH [of s1 js] show ?case by (auto intro: frame_trans)
qed simp

section \<open>Omission and compaction\<close>

definition left_state :: "(runtime_error \<times> session_runtime) + (bool \<times> session_runtime) \<Rightarrow> session_runtime" where
  "left_state r = (case r of Inl (_, s) \<Rightarrow> s | Inr (_, s) \<Rightarrow> s)"

lemma left_state_simps [simp]: "left_state (Inl (e, s)) = s" "left_state (Inr (b, s)) = s"
  by (simp_all add: left_state_def)

lemma stores_step:
  assumes "sm_inv (sr_manager s)" "sm_step (sr_manager s) st"
  shows "sm_step\<^sup>*\<^sup>* (sr_manager s) st \<and> sm_inv st"
  using assms sm_steps_extends [of "sr_manager s" st] by (auto simp: extends_def)

lemma edit_child:
  "appendContextEdit rt t None st = Some (Inr (i, st')) \<Longrightarrow> append_child rt (ContextEditE t None) st = Inr (i, st')"
  by (auto simp: appendContextEdit_def normalized_replacement_def
      split: option.splits if_splits entry_data.splits agent_message.splits message.splits)

lemma omit_entries_stores:
  "omit_entries clock ts s = Some r \<Longrightarrow> sm_inv (sr_manager s) \<Longrightarrow>
   runtimes_ok (map clock [0..<length ts] @ rts) (sr_manager s) \<Longrightarrow>
   (case r of Inl (_, s') \<Rightarrow> stores s s' | Inr s' \<Rightarrow> stores s s' \<and> frame s s' \<and> runtimes_ok rts (sr_manager s'))"
proof (induction ts arbitrary: clock s)
  case (Cons t ts)
  let ?st = "sr_manager s"
  have "map clock [0..<length (t # ts)] = clock 0 # map (\<lambda>k. clock (Suc k)) [0..<length ts]"
    by (simp add: map_upt_Suc del: upt_Suc)
  with Cons.prems(3) have rts: "runtimes_ok (clock 0 # map (\<lambda>k. clock (Suc k)) [0..<length ts] @ rts) ?st"
    by (simp del: upt_Suc)
  note ok = runtimes_first [OF rts]
  from Cons.prems(1) obtain x where x: "appendContextEdit (clock 0) t None ?st = Some x" by (auto split: option.splits)
  note step = stores_step [OF Cons.prems(2) context_edit [OF ok x]]
  show ?case
  proof (cases x)
    case (Inl p)
    with x step Cons.prems(1) show ?thesis by (cases p) (auto simp: final_def)
  next
    case (Inr p)
    obtain i st where p: "p = (i, st)" by (cases p)
    define s2 where "s2 = (case getEntry st i of None \<Rightarrow> s\<lparr>sr_manager := st\<rparr> | Some e \<Rightarrow> emit_session (EntryAppended e) (s\<lparr>sr_manager := st\<rparr>))"
    have s2: "sr_manager s2 = st" "frame s s2" by (auto simp: s2_def emit_session_def frame_def split: option.splits)
    have a: "append_child (clock 0) (ContextEditE t None) ?st = Inr (i, st)" using edit_child x Inr p by simp
    have "omit_entries (\<lambda>k. clock (Suc k)) ts s2 = Some r" using Cons.prems(1) x Inr p by (simp add: s2_def Let_def)
    moreover have st: "sm_step\<^sup>*\<^sup>* ?st st" "sm_inv st" using step Inr p by (simp_all add: final_def)
    moreover have "runtimes_ok (map (\<lambda>k. clock (Suc k)) [0..<length ts] @ rts) st"
      using runtimes_next [OF rts Cons.prems(2) a] .
    ultimately have "case r of Inl (_, s') \<Rightarrow> stores s2 s' | Inr s' \<Rightarrow> stores s2 s' \<and> frame s2 s' \<and> runtimes_ok rts (sr_manager s')"
      using Cons.IH [of "\<lambda>k. clock (Suc k)" s2] s2 by simp
    then show ?thesis using s2 st frame_trans by (auto split: sum.splits)
  qed
qed auto

lemma truthy_length: "length (truthy_ids is) \<le> length is"
  by (induction "is") (auto simp: truthy_ids_def split: option.splits)

lemma refresh_manager: "refreshFinalizedContext s = Some s' \<Longrightarrow> sr_manager s' = sr_manager s"
  by (auto simp: refreshFinalizedContext_def)

lemma omit_attempt_stores:
  assumes "omitRecoveryAttempt (wt_edits w) a s = Some r" "sm_inv (sr_manager s)" "waits_ok w s"
  shows "case r of Inl (_, s') \<Rightarrow> stores s s'
    | Inr s' \<Rightarrow> stores s s' \<and> frame s s' \<and> in_step s' \<and> runtimes_ok [wt_compaction w] (sr_manager s')"
proof (cases "as_content a")
  case None
  with assms(1) show ?thesis by (auto simp: omitRecoveryAttempt_def)
next
  case (Some bs)
  from assms(1) Some obtain entryId s1 where f: "findPersistedMessageEntryId (Assistant a) s = Some (entryId, s1)"
    by (auto simp: omitRecoveryAttempt_def split: option.splits)
  let ?targets = "attempt_targets a bs entryId s1"
  from assms(1) Some f obtain targetIds s2 where t: "find_targets ?targets s1 = Some (targetIds, s2)"
    by (auto simp: omitRecoveryAttempt_def Let_def split: option.splits)
  note s1 = find_frame [OF f] and s2 = find_targets_frame [OF t]
  have m: "sr_manager s2 = sr_manager s" "frame s s2" using s1 s2 frame_trans by auto
  show ?thesis
  proof (cases "list_ex (\<lambda>(t, i). i = None \<and> t \<in> set (ag_messages (sr_agent s2))) (zip ?targets targetIds)")
    case True
    with assms(1) Some f t m show ?thesis by (auto simp: omitRecoveryAttempt_def Let_def)
  next
    case False
    have r: "and_then (omit_entries (wt_edits w) (truthy_ids targetIds) s2) (\<lambda>s3. map_option Inr (refreshFinalizedContext s3)) = Some r"
      using assms(1) Some f t False by (simp add: omitRecoveryAttempt_def Let_def)
    have "length (truthy_ids targetIds) \<le> Suc (length (ag_messages (sr_agent s)))"
      using truthy_length [of targetIds] s1 s2 length_attempt_targets [of a bs entryId s1] by simp
    then have ok: "runtimes_ok (map (wt_edits w) [0..<length (truthy_ids targetIds)] @ [wt_compaction w]) (sr_manager s2)"
      using runtimes_ok_sub assms(3) m unfolding waits_ok_def by metis
    from r obtain q where q: "omit_entries (wt_edits w) (truthy_ids targetIds) s2 = Some q"
      by (auto simp: and_then_def split: option.splits)
    from omit_entries_stores [OF q _ ok] assms(2) m have st: "case q of Inl (_, s') \<Rightarrow> stores s s'
      | Inr s' \<Rightarrow> stores s s' \<and> frame s2 s' \<and> runtimes_ok [wt_compaction w] (sr_manager s')"
      by (auto split: sum.splits prod.splits)
    show ?thesis
    proof (cases q)
      case (Inl x)
      with r q st show ?thesis by (cases x) (auto simp: and_then_def)
    next
      case (Inr s3)
      with r q obtain s4 where s4: "refreshFinalizedContext s3 = Some s4" "r = Inr s4" by (auto simp: and_then_def)
      from st Inr have "stores s s4" "frame s s4" "runtimes_ok [wt_compaction w] (sr_manager s4)"
        using refresh_manager [OF s4(1)] frame_refresh [OF s4(1)] m(2) by (auto intro: frame_trans)
      then show ?thesis using s4 refresh_in_step [OF s4(1)] by simp
    qed
  qed
qed

lemma session_messages_files [simp]: "session_messages (st\<lparr>sm_files := x\<rparr>) = session_messages st"
  by (simp add: session_messages_def manager_context_def manager_projection_def getEntries_def leaf_argument_def)

lemma in_step_emit [simp]: "in_step (emit_session e s) = in_step s"
  by (simp add: in_step_def emit_session_def)

lemma manager_emit [simp]: "sr_manager (emit_session e s) = sr_manager s" "sr_agent (emit_session e s) = sr_agent s"
  "sr_retryAttempt (emit_session e s) = sr_retryAttempt s" "sr_abortRequested (emit_session e s) = sr_abortRequested s"
  "sr_overflowRecoveryAttempted (emit_session e s) = sr_overflowRecoveryAttempted s"
  by (simp_all add: emit_session_def)

lemma store_compaction_stores:
  assumes "store_compaction reason willRetry rt r s = Some (b, s')" "sm_inv (sr_manager s)" "uuid_ok rt (sr_manager s)"
  shows "stores s s' \<and> frame s s' \<and> (in_step s \<longrightarrow> in_step s') \<and> (b \<longrightarrow> willRetry \<or> hasQueuedMessages (sr_agent s))"
proof -
  from assms(1) obtain x where x: "appendCompaction rt (ro_summary r) (Some (ro_firstKeptEntryId r)) (ro_tokensBefore r) (Some (ro_details r))
      False (ro_usage r) (sr_manager s) = Some x" by (auto simp: store_compaction_def split: option.splits)
  note step = stores_step [OF assms(2) compaction [OF assms(3) x]]
  show ?thesis
  proof (cases x)
    case (Inl p)
    obtain err st where p: "p = (err, st)" by (cases p)
    from x Inl p obtain d where "append_child rt d (sr_manager s) = Inl (err, st)"
      by (auto simp: appendCompaction_def Let_def split: option.splits)
    then obtain f where f: "st = (sr_manager s)\<lparr>sm_files := f\<rparr>" using append_child_Inl assms(2,3) by blast
    have s': "s' = emit_session (CompactionEnd reason None False False (Some (StoreFailed err))) (s\<lparr>sr_manager := st\<rparr>)" "\<not> b"
      using assms(1) x Inl p by (auto simp: store_compaction_def)
    have "in_step s \<longrightarrow> in_step s'" by (simp add: s' f in_step_def)
    then show ?thesis using s' step Inl p by (simp add: final_def)
  next
    case (Inr p)
    obtain i st where p: "p = (i, st)" by (cases p)
    with assms(1) x Inr obtain s1 where s1: "refreshFinalizedContext (s\<lparr>sr_manager := st\<rparr>) = Some s1"
      by (auto simp: store_compaction_def split: option.splits)
    then have s': "\<exists>e. s' = emit_session e s1" "b = (willRetry \<or> hasQueuedMessages (sr_agent s1))"
      using assms(1) x Inr p by (auto simp: store_compaction_def Let_def)
    have "frame s s1" using frame_refresh [OF s1] by simp
    then show ?thesis
      using s' step Inr p refresh_in_step [OF s1] frame_queue [of s s1] by (auto simp: final_def)
  qed
qed

lemma auto_compaction_stores:
  assumes "runAutoCompaction rc w reason willRetry s = Some (b, s')" "sm_inv (sr_manager s)" "runtimes_ok [wt_compaction w] (sr_manager s)"
  shows "stores s s' \<and> frame s s' \<and> (in_step s \<longrightarrow> in_step s') \<and> (b \<longrightarrow> willRetry \<or> hasQueuedMessages (sr_agent s))"
proof -
  have idle: ?thesis if "s' = s" "\<not> b" using that by simp
  have reported: ?thesis if "\<exists>e e'. s' = emit_session e (emit_session e' s)" "\<not> b" using that by auto
  have stored: ?thesis if "store_compaction reason willRetry (wt_compaction w) r (emit_session e s) = Some (b, s')" for r e
    using store_compaction_stores [OF that] assms(2) runtimes_first [OF assms(3)] by simp
  have "s' = s \<and> \<not> b \<or> (\<exists>e e'. s' = emit_session e (emit_session e' s)) \<and> \<not> b \<or>
      (\<exists>r e. store_compaction reason willRetry (wt_compaction w) r (emit_session e s) = Some (b, s'))"
    using assms(1) unfolding runAutoCompaction_def Let_def by (auto split: option.splits if_splits sum.splits)
  then show ?thesis using idle reported stored by blast
qed

text \<open>The end of a recovery by compaction: the flag is set, so that there is no second one.\<close>

lemma recover_overflow_stores:
  assumes "recover_overflow rc w a c s = Some r" "sm_inv (sr_manager s)" "waits_ok w s"
  shows "stores s (left_state r) \<and>
    (case r of Inl _ \<Rightarrow> True
     | Inr (b, s') \<Rightarrow> (in_step s \<longrightarrow> in_step s') \<and> frame (s\<lparr>sr_overflowRecoveryAttempted := sr_overflowRecoveryAttempted s'\<rparr>) s' \<and>
         (b \<longrightarrow> hasQueuedMessages (sr_agent s) \<or> \<not> sr_overflowRecoveryAttempted s \<and> sr_overflowRecoveryAttempted s'))"
proof -
  have compaction_ok: "runtimes_ok [wt_compaction w] (sr_manager s)" using assms(3) by (auto simp: waits_ok_def runtimes_ok_def)
  have same: "frame (s\<lparr>sr_overflowRecoveryAttempted := sr_overflowRecoveryAttempted s'\<rparr>) s'" if "frame s s'" for s'
    using that by (simp add: frame_def)
  consider (finished) "as_stopReason a = Stop" | (exhausted) "as_stopReason a \<noteq> Stop" "sr_overflowRecoveryAttempted s"
    | (recovers) "as_stopReason a \<noteq> Stop" "\<not> sr_overflowRecoveryAttempted s" by blast
  then show ?thesis
  proof cases
    case finished
    with assms(1) obtain b s' where c: "runAutoCompaction rc w OverflowReason False s = Some (b, s')" and r: "r = Inr (b, s')"
      by (auto simp: recover_overflow_def)
    from auto_compaction_stores [OF c assms(2) compaction_ok] r same [of s'] show ?thesis by simp
  next
    case exhausted
    with assms(1) show ?thesis by (auto simp: recover_overflow_def frame_def)
  next
    case recovers
    let ?s = "s\<lparr>sr_overflowRecoveryAttempted := True\<rparr>"
    have w: "waits_ok w ?s" using assms(3) by (simp add: waits_ok_def)
    from assms(1) recovers obtain q where q: "omitRecoveryAttempt (wt_edits w) a ?s = Some q"
      by (auto simp: recover_overflow_def split: option.splits)
    note o = omit_attempt_stores [OF q _ w]
    show ?thesis
    proof (cases q)
      case (Inl x)
      with assms(1) recovers q o assms(2) show ?thesis by (cases x) (auto simp: recover_overflow_def)
    next
      case (Inr s1)
      with assms(1) recovers q obtain b s2 where c: "runAutoCompaction rc w OverflowReason True s1 = Some (b, s2)"
        and r: "r = Inr (b, if b then s2\<lparr>sr_failedResponse := Some a\<rparr> else s2)"
        by (auto simp: recover_overflow_def)
      from o Inr assms(2) have s1: "stores s s1" "frame ?s s1" "in_step s1" "runtimes_ok [wt_compaction w] (sr_manager s1)" by simp_all
      have "sm_inv (sr_manager s1)" using sm_steps_extends [OF s1(1) assms(2)] by (simp add: extends_def)
      from auto_compaction_stores [OF c this s1(4)] s1 have "stores s s2" "frame ?s s2" "in_step s2" by (auto intro: frame_trans)
      then show ?thesis using r recovers by (auto simp: frame_def in_step_def)
    qed
  qed
qed

section \<open>Rounds\<close>

text \<open>What one decision does: the store only moves forward, and a decision to go on without queued messages uses up recovery.\<close>

definition decided :: "(session_runtime \<Rightarrow> session_runtime \<Rightarrow> bool) \<Rightarrow> session_runtime \<Rightarrow>
    (runtime_error \<times> session_runtime) + (bool \<times> session_runtime) \<Rightarrow> bool" where
  "decided uses s r \<longleftrightarrow> stores s (left_state r) \<and>
     (case r of Inl _ \<Rightarrow> True
      | Inr (b, s') \<Rightarrow> (in_step s \<longrightarrow> in_step s') \<and> hasQueuedMessages (sr_agent s') = hasQueuedMessages (sr_agent s) \<and>
          (b \<longrightarrow> hasQueuedMessages (sr_agent s) \<or> uses s s'))"

lemma decided_Inl: "stores s s' \<Longrightarrow> decided U s (Inl (e, s'))"
  by (simp add: decided_def)

lemma decided_idle: "decided U s (Inr (False, s))"
  by (simp add: decided_def)

definition recovery_used :: "session_runtime \<Rightarrow> session_runtime \<Rightarrow> bool" where
  "recovery_used s s' \<longleftrightarrow> sr_retryAttempt s' = sr_retryAttempt s \<and> \<not> sr_overflowRecoveryAttempted s \<and> sr_overflowRecoveryAttempted s'"

text \<open>A response that can be retried did not overflow, and was not cut off.\<close>

lemma retryable_no_overflow:
  assumes "isRetryableError rc s a = Some True" "overflow_verdict rc s a i p b = Some (c, l)"
  shows "\<not> c \<and> \<not> l"
proof -
  have stop: "as_stopReason a = ErrorStop"
    using assms(1) by (auto simp: isRetryableError_def isRetryableAssistantError_def)
  then have win: "isContextOverflow (rc_patterns rc) a k = isContextOverflow (rc_patterns rc) a 0" for k
    by (simp add: isContextOverflow_def)
  have "isContextOverflow (rc_patterns rc) a k = Some False" for k
    using assms(1) win [of k] win [of "window_for rc s a"] by (auto simp: isRetryableError_def)
  with assms(2) stop show ?thesis
    by (auto simp: overflow_verdict_def isRecoverableLength_def Let_def split: option.splits if_splits)
qed

lemma retryable_model: "ag_model (sr_agent s') = ag_model (sr_agent s) \<Longrightarrow> isRetryableError rc s' a = isRetryableError rc s a"
  by (simp add: isRetryableError_def window_for_def modelForMessage_def split: option.split)

text \<open>The ids a check can need: all of them, or that of a compaction only.\<close>

definition check_ok :: "recovery_settings \<Rightarrow> waits \<Rightarrow> assistant_message \<Rightarrow> session_runtime \<Rightarrow> bool" where
  "check_ok rc w a s \<longleftrightarrow> waits_ok w s \<or> runtimes_ok [wt_compaction w] (sr_manager s) \<and> isRetryableError rc s a = Some True"

lemma check_ok_compaction: "check_ok rc w a s \<Longrightarrow> runtimes_ok [wt_compaction w] (sr_manager s)"
  by (auto simp: check_ok_def waits_ok_def runtimes_ok_def)

lemma check_ok_same: "sr_manager s' = sr_manager s \<Longrightarrow> sr_agent s' = sr_agent s \<Longrightarrow> check_ok rc w a s' = check_ok rc w a s"
  using retryable_model [of s' s] by (simp add: check_ok_def waits_ok_def)

lemma response_decided:
  assumes "check_response rc w a i c p b s = Some r" "sm_inv (sr_manager s)" "check_ok rc w a s"
  shows "decided (\<lambda>s s'. recovery_used s s' \<and> isRetryableError rc s a \<noteq> Some True) s r"
proof (cases "overflow_verdict rc s a i p b")
  case None
  with assms(1) show ?thesis by (auto simp: check_response_def decided_def)
next
  case (Some v)
  obtain contextOverflow recoverableLength where v: "v = (contextOverflow, recoverableLength)" by (cases v)
  show ?thesis
  proof (cases "contextOverflow \<or> recoverableLength")
    case True
    then have o: "recover_overflow rc w a contextOverflow s = Some r" using assms(1) Some v by (simp add: check_response_def)
    have u: "isRetryableError rc s a \<noteq> Some True" using retryable_no_overflow Some v True by blast
    then have "waits_ok w s" using assms(3) by (simp add: check_ok_def)
    from recover_overflow_stores [OF o assms(2) this] u show ?thesis
      by (cases r) (auto simp: decided_def recovery_used_def frame_def hasQueuedMessages_def)
  next
    case False
    then consider "r = Inr (False, s)" | b' s' where "r = Inr (b', s')" "runAutoCompaction rc w ThresholdReason False s = Some (b', s')"
      using assms(1) Some v by (auto simp: check_response_def check_threshold_def split: option.splits if_splits)
    then show ?thesis
    proof cases
      case (2 b' s')
      from auto_compaction_stores [OF 2(2) assms(2) check_ok_compaction [OF assms(3)]] 2(1) frame_queue [of s s']
      show ?thesis by (simp add: decided_def)
    qed (simp add: decided_idle)
  qed
qed

lemma decided_mono:
  assumes "decided U s0 r" "stores s s0" "in_step s \<longrightarrow> in_step s0" "hasQueuedMessages (sr_agent s0) = hasQueuedMessages (sr_agent s)"
    and "\<And>s'. U s0 s' \<Longrightarrow> U' s s'"
  shows "decided U' s r"
proof (cases r)
  case (Inl x)
  with assms(1,2) show ?thesis by (cases x) (auto simp: decided_def)
next
  case (Inr x)
  with assms show ?thesis by (cases x) (auto simp: decided_def)
qed

lemma check_decided:
  assumes "checkCompaction rc w a skip s = Some r" "sm_inv (sr_manager s)" "check_ok rc w a s"
  shows "decided (\<lambda>s s'. recovery_used s s' \<and> isRetryableError rc s a \<noteq> Some True) s r"
proof -
  consider "r = Inr (False, s)"
    | i s1 c p b where "findPersistedMessageEntryId (Assistant a) s = Some (i, s1)" "check_response rc w a i c p b s1 = Some r"
    using assms(1) unfolding checkCompaction_def Let_def by (auto split: option.splits if_splits)
  then show ?thesis
  proof cases
    case (2 i s1 c p b)
    note s1 = find_frame [OF 2(1)]
    then have "check_ok rc w a s1" using assms(3) check_ok_same by blast
    from response_decided [OF 2(2) _ this] assms(2) s1
    have d: "decided (\<lambda>s s'. recovery_used s s' \<and> isRetryableError rc s a \<noteq> Some True) s1 r" by simp
    show ?thesis
      by (rule decided_mono [OF d]) (use s1 retryable_model [of s1 s rc a] in \<open>auto simp: in_step_def recovery_used_def frame_def\<close>)
  qed (simp add: decided_idle)
qed

text \<open>What is left of the retries and of the one recovery.\<close>

definition recovery_rank :: "nat \<Rightarrow> session_runtime \<Rightarrow> nat" where
  "recovery_rank maxRetries s = (if sr_overflowRecoveryAttempted s then 0 else Suc maxRetries) + (maxRetries - sr_retryAttempt s)"

abbreviation spends :: "nat \<Rightarrow> session_runtime \<Rightarrow> session_runtime \<Rightarrow> bool" where
  "spends n s s' \<equiv> recovery_rank n s' < recovery_rank n s"

lemma finish_cancelled_same [simp]:
  "sr_manager (finishCancelledRetry s) = sr_manager s" "sr_agent (finishCancelledRetry s) = sr_agent s"
  "sr_abortRequested (finishCancelledRetry s) = sr_abortRequested s" "in_step (finishCancelledRetry s) = in_step s"
  by (simp_all add: finishCancelledRetry_def in_step_def emit_session_def)

lemma finish_decided:
  assumes "finish_post_run rc w a s = Some r" "sm_inv (sr_manager s)" "check_ok rc w a s"
  shows "decided (\<lambda>s s'. spends n s s' \<and> isRetryableError rc s a \<noteq> Some True) s r"
proof (cases "sr_abortRequested s")
  case True
  with assms(1) show ?thesis by (auto simp: finish_post_run_def decided_def)
next
  case False
  define s1 where "s1 = (if as_stopReason a = ErrorStop \<and> sr_retryAttempt s > 0
    then (emit_session (AutoRetryEnd False (sr_retryAttempt s) (as_errorMessage a)) s)\<lparr>sr_retryAttempt := 0\<rparr> else s)"
  have s1: "sr_manager s1 = sr_manager s" "sr_agent s1 = sr_agent s" "in_step s1 = in_step s"
    "sr_overflowRecoveryAttempted s1 = sr_overflowRecoveryAttempted s"
    by (simp_all add: s1_def emit_session_def in_step_def)
  from assms(1) False obtain q where q: "checkCompaction rc w a True s1 = Some q"
    by (auto simp: finish_post_run_def s1_def [symmetric] Let_def split: option.splits)
  have "check_ok rc w a s1" using assms(3) check_ok_same s1 by blast
  from check_decided [OF q _ this] assms(2) s1 have d: "decided (\<lambda>s s'. recovery_used s s' \<and> isRetryableError rc s a \<noteq> Some True) s1 q"
    by simp
  have same: "isRetryableError rc s1 a = isRetryableError rc s a" using retryable_model [of s1 s] s1 by simp
  show ?thesis
  proof (cases q)
    case (Inl x)
    then have "r = Inl x" using assms(1) False q by (simp add: finish_post_run_def s1_def [symmetric])
    with d Inl s1 show ?thesis by (cases x) (simp add: decided_def)
  next
    case (Inr x)
    obtain again s2 where x: "x = (again, s2)" by (cases x)
    let ?s3 = "note_abort (wt_abortedCompaction w) s2"
    have r: "r = Inr (\<not> sr_abortRequested ?s3 \<and> (again \<or> hasQueuedMessages (sr_agent ?s3)), ?s3)"
      using assms(1) False q Inr x by (simp add: finish_post_run_def s1_def [symmetric] Let_def)
    have "recovery_used s1 s2 \<Longrightarrow> spends n s ?s3"
      using s1 by (auto simp: recovery_used_def recovery_rank_def note_abort_def)
    with d Inr x r s1 same show ?thesis by (auto simp: decided_def note_abort_def in_step_def)
  qed
qed

lemma prepare_retry_decided:
  assumes "prepareRetry cfg (wt_edits w) slept a s = Some r" "sm_inv (sr_manager s)" "waits_ok w s"
  shows "stores s (left_state r) \<and>
    (case r of Inl _ \<Rightarrow> True
     | Inr (ok, s') \<Rightarrow> (in_step s \<longrightarrow> in_step s') \<and> frame (s\<lparr>sr_retryAttempt := sr_retryAttempt s'\<rparr>) s' \<and>
         (s' = s \<or> runtimes_ok [wt_compaction w] (sr_manager s')) \<and>
         (ok \<longrightarrow> sr_retryAttempt s' = Suc (sr_retryAttempt s) \<and> sr_retryAttempt s' \<le> rp_maxRetries (rs_policy cfg)))"
proof (cases "rp_enabled (rs_policy cfg) \<and> Suc (sr_retryAttempt s) \<le> rp_maxRetries (rs_policy cfg)")
  case False
  with assms(1) show ?thesis by (auto simp: prepareRetry_def split: if_splits)
next
  case True
  define s1 where "s1 = emit_session (AutoRetryStart (Suc (sr_retryAttempt s)) (rp_maxRetries (rs_policy cfg))
    (retryDelayMs (rs_policy cfg) (Suc (sr_retryAttempt s))) (error_or_unknown a)) (s\<lparr>sr_retryAttempt := Suc (sr_retryAttempt s)\<rparr>)"
  have s1: "sr_manager s1 = sr_manager s" "waits_ok w s1" "frame (s\<lparr>sr_retryAttempt := Suc (sr_retryAttempt s)\<rparr>) s1"
    using assms(3) by (simp_all add: s1_def waits_ok_def)
  from assms(1) True obtain q where q: "omitRecoveryAttempt (wt_edits w) a s1 = Some q"
    by (auto simp: prepareRetry_def s1_def [symmetric] Let_def split: option.splits)
  from omit_attempt_stores [OF q _ s1(2)] assms(2) s1(1) have o: "case q of Inl (_, s') \<Rightarrow> stores s s'
    | Inr s' \<Rightarrow> stores s s' \<and> frame s1 s' \<and> in_step s' \<and> runtimes_ok [wt_compaction w] (sr_manager s')"
    by (auto split: sum.splits prod.splits)
  show ?thesis
  proof (cases q)
    case (Inl x)
    then have "r = Inl x" using assms(1) True q by (simp add: prepareRetry_def s1_def [symmetric] Let_def)
    with o Inl show ?thesis by (cases x) simp
  next
    case (Inr s2)
    then have r: "r = (if slept then Inr (True, s2) else Inr (False, finishCancelledRetry s2))"
      using assms(1) True q by (auto simp: prepareRetry_def s1_def [symmetric] Let_def split: if_splits)
    have f: "frame (s\<lparr>sr_retryAttempt := Suc (sr_retryAttempt s)\<rparr>) s2" using o Inr s1(3) frame_trans by auto
    then have "frame (s\<lparr>sr_retryAttempt := sr_retryAttempt s2\<rparr>) s2"
      "frame (s\<lparr>sr_retryAttempt := sr_retryAttempt (finishCancelledRetry s2)\<rparr>) (finishCancelledRetry s2)"
      by (auto simp: frame_def finishCancelledRetry_def emit_session_def)
    with f o Inr r True show ?thesis by (auto simp: frame_def)
  qed
qed

lemma retry_branch_decided:
  assumes "retry_branch rc w a s = Some r" "sm_inv (sr_manager s)" "waits_ok w s" "isRetryableError rc s a = Some True"
  shows "decided (spends (rp_maxRetries (rc_policy rc))) s r"
proof -
  let ?U = "spends (rp_maxRetries (rc_policy rc))"
  from assms(1) obtain q where q: "prepareRetry (retry_of rc s) (wt_edits w) (wt_slept w) a s = Some q"
    by (auto simp: retry_branch_def split: option.splits)
  note p = prepare_retry_decided [OF q assms(2,3)]
  show ?thesis
  proof (cases q)
    case (Inl x)
    then have "r = Inl x" using assms(1) q by (simp add: retry_branch_def)
    with p Inl show ?thesis by (cases x) (simp add: decided_def)
  next
    case (Inr x)
    obtain ok s1 where x: "x = (ok, s1)" by (cases x)
    let ?s2 = "note_abort (wt_abortedRetry w) s1"
    from p Inr x have s1: "stores s s1" "in_step s \<longrightarrow> in_step s1" "frame (s\<lparr>sr_retryAttempt := sr_retryAttempt s1\<rparr>) s1"
      "s1 = s \<or> runtimes_ok [wt_compaction w] (sr_manager s1)"
      "ok \<longrightarrow> sr_retryAttempt s1 = Suc (sr_retryAttempt s) \<and> sr_retryAttempt s1 \<le> rp_maxRetries (rc_policy rc)"
      by (auto simp: retry_of_def)
    have q1: "hasQueuedMessages (sr_agent s1) = hasQueuedMessages (sr_agent s)" "ag_model (sr_agent s1) = ag_model (sr_agent s)"
      using s1(3) by (auto simp: frame_def hasQueuedMessages_def)
    have s2: "stores s ?s2" "in_step s \<longrightarrow> in_step ?s2" "hasQueuedMessages (sr_agent ?s2) = hasQueuedMessages (sr_agent s)"
      using s1 q1 by (simp_all add: note_abort_def in_step_def)
    show ?thesis
    proof (cases ok)
      case True
      let ?s3 = "(if sr_abortRequested ?s2 then finishCancelledRetry ?s2 else ?s2)\<lparr>sr_failedResponse := Some a\<rparr>"
      have r: "r = Inr (\<not> sr_abortRequested ?s2, ?s3)"
        using assms(1) q Inr x True by (simp add: retry_branch_def Let_def)
      have "\<not> sr_abortRequested ?s2 \<Longrightarrow> ?U s ?s3"
        using s1(3,5) True by (auto simp: recovery_rank_def note_abort_def frame_def)
      moreover have "sr_manager ?s3 = sr_manager ?s2" "sr_agent ?s3 = sr_agent ?s2" by simp_all
      ultimately show ?thesis using r s2 by (simp add: decided_def in_step_def)
    next
      case False
      have r: "finish_post_run rc w a ?s2 = Some r" using assms(1) q Inr x False by (simp add: retry_branch_def Let_def)
      have inv: "sm_inv (sr_manager ?s2)" using sm_steps_extends [OF s2(1) assms(2)] by (simp add: extends_def)
      have same: "isRetryableError rc ?s2 a = Some True"
        using assms(4) retryable_model [of ?s2 s] q1(2) by (simp add: note_abort_def)
      then have "check_ok rc w a ?s2" using s1(4) assms(3) by (auto simp: check_ok_def note_abort_def waits_ok_def)
      from decided_mono [OF finish_decided [OF r inv this] s2, where U' = ?U] same show ?thesis by simp
    qed
  qed
qed

lemma post_run_decided:
  assumes "handlePostAgentRun rc w s = Some r" "sm_inv (sr_manager s)" "waits_ok w s"
  shows "decided (spends (rp_maxRetries (rc_policy rc))) s r"
proof -
  let ?U = "spends (rp_maxRetries (rc_policy rc))"
  define s0 where "s0 = s\<lparr>sr_lastAssistantMessage := None\<rparr>"
  have s0: "sr_manager s0 = sr_manager s" "sr_agent s0 = sr_agent s" "waits_ok w s0" "in_step s0 = in_step s"
    "recovery_rank k s0 = recovery_rank k s" for k
    using assms(3) by (simp_all add: s0_def waits_ok_def in_step_def recovery_rank_def)
  have "decided ?U s0 r"
  proof (cases "sr_abortRequested s")
    case True
    then have "r = Inr (False, finishCancelledRetry s0)" using assms(1) by (simp add: handlePostAgentRun_def s0_def)
    then show ?thesis by (simp add: decided_def)
  next
    case False
    note unfold = handlePostAgentRun_def s0_def [symmetric] Let_def
    show ?thesis
    proof (cases "sr_lastAssistantMessage s")
      case None
      then have "r = Inr (hasQueuedMessages (sr_agent s0), s0)" using assms(1) False by (simp add: unfold)
      then show ?thesis by (simp add: decided_def)
    next
      case (Some a)
      note unfold = unfold Some
      show ?thesis
      proof (cases "isRetryableError rc s0 a")
        case None
        then have "\<exists>e. r = Inl (e, s0)" using assms(1) False by (auto simp: unfold)
        then show ?thesis by (auto simp: decided_def)
      next
        case (Some retryable)
        show ?thesis
        proof (cases retryable)
          case True
          then have r: "retry_branch rc w a s0 = Some r" using assms(1) False Some by (simp add: unfold)
          from retry_branch_decided [OF r _ s0(3)] assms(2) s0(1) Some True show ?thesis by simp
        next
          case no_retry: False
          then have r: "finish_post_run rc w a s0 = Some r" using assms(1) False Some by (simp add: unfold)
          have "check_ok rc w a s0" using s0(3) by (simp add: check_ok_def)
          from decided_mono [OF finish_decided [OF r _ this, where n = "rp_maxRetries (rc_policy rc)"], of s0, where U' = ?U] assms(2) s0(1) show ?thesis by simp
        qed
      qed
    qed
  qed
  from decided_mono [OF this, of s ?U] s0 show ?thesis by simp
qed

lemma round_decided:
  assumes "post_run_round rc w s = Some r" "sm_inv (sr_manager s)" "waits_ok w s"
  shows "decided (spends (rp_maxRetries (rc_policy rc))) s r"
proof (cases "sr_abortRequested s")
  case True
  with assms(1) show ?thesis by (auto simp: post_run_round_def decided_idle)
next
  case False
  with assms(1) obtain q where q: "handlePostAgentRun rc w s = Some q" by (auto simp: post_run_round_def split: option.splits)
  note d = post_run_decided [OF q assms(2,3)]
  show ?thesis
  proof (cases q)
    case (Inl x)
    with assms(1) False q d show ?thesis by (simp add: post_run_round_def)
  next
    case (Inr x)
    with assms(1) False q d show ?thesis by (cases x) (auto simp: post_run_round_def decided_def)
  qed
qed

text \<open>
  C32. After a run the session is safe whatever happens: the store is in a reachable state, and what it held is still there,
  also when the round fails with an error on the way. A round that returns leaves the context of the session and the transcript
  of the agent in step, whether it retried, recovered, compacted, gave up or was aborted.
\<close>

theorem post_run_safe:
  assumes "reachable (sr_manager s)" and "waits_ok w s" and "post_run_round rc w s = Some r"
  shows "reachable (sr_manager (left_state r)) \<and> prefix (getEntries (sr_manager s)) (getEntries (sr_manager (left_state r))) \<and>
    (case r of Inl _ \<Rightarrow> True | Inr (again, s') \<Rightarrow> in_step s \<longrightarrow> in_step s')"
proof -
  have inv: "sm_inv (sr_manager s)" using reachable_ok [OF assms(1)] by simp
  note d = round_decided [OF assms(3) inv assms(2)]
  then have st: "stores s (left_state r)" by (simp add: decided_def)
  have "reachable st" if "sm_step\<^sup>*\<^sup>* (sr_manager s) st" for st
    using that assms(1) by induction (auto intro: reachable.step)
  moreover have "prefix (getEntries (sr_manager s)) (getEntries (sr_manager (left_state r)))"
    using sm_steps_extends [OF st inv] by (auto simp: extends_def prefix_def)
  ultimately show ?thesis using st d by (cases r) (auto simp: decided_def)
qed

section \<open>Bounded recovery\<close>

text \<open>Events of a run with no response but failed ones, and no message of the user.\<close>

definition failing :: "agent_event list \<Rightarrow> bool" where
  "failing es = list_all (\<lambda>e. case e of MessageStart (User _) \<Rightarrow> False | MessageEnd (Assistant a) \<Rightarrow> as_stopReason a = ErrorStop | _ \<Rightarrow> True) es"

definition same_budget :: "session_runtime \<Rightarrow> session_runtime \<Rightarrow> bool" where
  "same_budget s s' \<longleftrightarrow> sr_retryAttempt s' = sr_retryAttempt s \<and> sr_overflowRecoveryAttempted s' = sr_overflowRecoveryAttempted s"

lemma append_customs_budget: "append_customs clock ms s = Some (Inr s') \<Longrightarrow> same_budget s s'"
proof (induction ms arbitrary: clock s)
  case (Cons m ms)
  then obtain s1 where s1: "appendCustomMessage (clock 0) m s = Some (Inr s1)" "append_customs (\<lambda>k. clock (Suc k)) ms s1 = Some (Inr s')"
    by (auto simp: and_then_def split: option.splits sum.splits)
  from s1(1) have "same_budget s s1"
    by (auto simp: appendCustomMessage_def same_budget_def refreshFinalizedContext_def emit_session_def split: sum.splits)
  with Cons.IH [OF s1(2)] show ?case by (simp add: same_budget_def)
qed (simp add: same_budget_def)

lemma deliver_budget:
  assumes "deliver_event cfg clock e s = Some (Inr s')" "failing [e]"
  shows "same_budget s s'"
proof (cases "\<exists>m rs. e = TurnEnd m rs")
  case True
  then obtain m rs where e: "e = TurnEnd m rs" by blast
  let ?s2 = "emit_session (Forwarded e) (s\<lparr>sr_agent := reduce_event e (sr_agent s)\<rparr>)"
  have "append_customs clock (sr_pendingCustomMessages s) (?s2\<lparr>sr_pendingCustomMessages := []\<rparr>) = Some (Inr s')"
    using assms(1) e by (simp add: deliver_event_def handleAgentEvent_def Let_def flushPendingCustomMessages_def)
  from append_customs_budget [OF this] show ?thesis by (simp add: same_budget_def)
next
  case False
  with assms show ?thesis
    by (auto simp: deliver_event_def handleAgentEvent_def failing_def same_budget_def note_response_def Let_def
        split: agent_event.splits agent_message.splits message.splits sum.splits)
qed

lemma run_budget: "run_delivered cfg s es s' \<Longrightarrow> failing es \<Longrightarrow> same_budget s s'"
  by (induction rule: run_delivered.induct) (auto simp: failing_def same_budget_def dest!: deliver_budget)

text \<open>
  Automatic continuations one after the other: each round decides to go on although nothing is queued, and the run it
  starts fails again.
\<close>

inductive recovers :: "recovery_settings \<Rightarrow> session_runtime \<Rightarrow> nat \<Rightarrow> session_runtime \<Rightarrow> bool" for rc s where
  start: "recovers rc s 0 s"
| again:
    "recovers rc s n s1 \<Longrightarrow> \<not> hasQueuedMessages (sr_agent s1) \<Longrightarrow> waits_ok w s1 \<Longrightarrow> post_run_round rc w s1 = Some (Inr (True, s2)) \<Longrightarrow>
     run_delivered (retry_of rc s2) s2 es s3 \<Longrightarrow> failing es \<Longrightarrow> \<forall>m \<in> set (completed es). persistable m \<Longrightarrow> recovers rc s (Suc n) s3"

lemma recovers_rank:
  "recovers rc s n s' \<Longrightarrow> reachable (sr_manager s) \<Longrightarrow> in_step s \<Longrightarrow>
   reachable (sr_manager s') \<and> in_step s' \<and>
   n + recovery_rank (rp_maxRetries (rc_policy rc)) s' \<le> recovery_rank (rp_maxRetries (rc_policy rc)) s"
proof (induction rule: recovers.induct)
  case (again n s1 w s2 es s3)
  then have s1: "reachable (sr_manager s1)" "in_step s1" by simp_all
  have inv: "sm_inv (sr_manager s1)" using reachable_ok [OF s1(1)] by simp
  have "reachable (sr_manager s2)" "in_step s2" using post_run_safe [OF s1(1) again.hyps(3,4)] s1(2) by auto
  from run_in_step [OF again.hyps(5) this again.hyps(7)] have "reachable (sr_manager s3) \<and> in_step s3" .
  moreover have "spends (rp_maxRetries (rc_policy rc)) s1 s2"
    using round_decided [OF again.hyps(4) inv again.hyps(3)] again.hyps(2) by (simp add: decided_def)
  moreover have "recovery_rank k s3 = recovery_rank k s2" for k
    using run_budget [OF again.hyps(5,6)] by (simp add: same_budget_def recovery_rank_def)
  ultimately show ?case using again.IH again.prems by simp
qed simp

text \<open>
  C33. Automatic recovery ends. However the responses fail, a session with nothing queued continues on its own at most once
  for every retry it is allowed, once for a recovery by compaction, and once more for every retry after that recovery; then
  it settles. In between it stays in step and its store reachable.
\<close>

theorem recovery_bounded:
  assumes "reachable (sr_manager s)" and "in_step s" and "recovers rc s n s'"
  shows "n \<le> 2 * rp_maxRetries (rc_policy rc) + 1 \<and> reachable (sr_manager s') \<and> in_step s'"
proof -
  have "recovery_rank k s \<le> 2 * k + 1" for k by (cases "sr_overflowRecoveryAttempted s") (simp_all add: recovery_rank_def)
  then show ?thesis using recovers_rank [OF assms(3,1,2)] by (meson le_add1 le_trans)
qed

definition demo_recovery :: recovery_settings where
  "demo_recovery = \<lparr>rc_policy = rs_policy demo_retry, rc_classify = (\<lambda>e. Retryable),
     rc_patterns = \<lparr>op_overflow = (\<lambda>e. False), op_nonOverflow = (\<lambda>e. False), op_cerebras = (\<lambda>e. False)\<rparr>,
     rc_compaction = (\<lambda>m. DEFAULT_COMPACTION_SETTINGS), rc_physical = (\<lambda>p m. None)\<rparr>"

definition demo_waits :: waits where
  "demo_waits = \<lparr>wt_slept = True, wt_abortedRetry = False, wt_abortedCompaction = False, wt_signalStart = False, wt_signalSummary = False,
     wt_request = Inl [], wt_edits = (\<lambda>k. demo_rt (2 + k) IoOk), wt_compaction = demo_rt 5 IoOk\<rparr>"

definition demo_after :: session_runtime where
  "demo_after = demo_attempt_runtime\<lparr>sr_lastAssistantMessage := Some demo_error\<rparr>"

lemma demo_after_fields:
  "sr_manager demo_after = demo_attempt" "ag_messages (sr_agent demo_after) = [demo_user ''hi'', Assistant demo_error]"
  "\<not> sr_abortRequested demo_after" "sr_lastAssistantMessage demo_after = Some demo_error"
  "demo_after\<lparr>sr_lastAssistantMessage := None\<rparr> = demo_attempt_runtime"
  using demo_attempt_messages by (simp_all add: demo_after_def) (simp_all add: demo_attempt_runtime_def)

lemma demo_waits_ok: "waits_ok demo_waits demo_after"
  by (simp add: waits_ok_def runtimes_ok_def demo_after_fields demo_waits_def demo_rt_def uuid_ok_def omap_has_def demo_attempt_fields
      demo_uuid_ne upt_rec) (simp add: demo_uuid_def)

lemma demo_retryable: "isRetryableError demo_recovery s demo_error = Some True"
  by (simp add: isRetryableError_def isContextOverflow_def demo_recovery_def demo_error_def demo_reply_def isRetryableAssistantError_def
      error_text_def js_def)

lemma demo_round: "\<exists>s'. post_run_round demo_recovery demo_waits demo_after = Some (Inr (True, s'))"
proof -
  have cfg: "retry_of demo_recovery demo_attempt_runtime = demo_retry\<lparr>rs_retryable := (\<lambda>a. isRetryableError demo_recovery demo_attempt_runtime a = Some True)\<rparr>"
    by (simp add: retry_of_def demo_recovery_def demo_retry_def)
  have "prepareRetry (retry_of demo_recovery demo_attempt_runtime) clock b a s = prepareRetry demo_retry clock b a s" for clock b a s
    by (simp add: prepareRetry_def cfg)
  then obtain s1 where s1: "prepareRetry (retry_of demo_recovery demo_attempt_runtime) (wt_edits demo_waits) True demo_error demo_attempt_runtime =
      Some (Inr (True, s1))" using demo_retry_goes by (auto simp: demo_waits_def)
  have "waits_ok demo_waits demo_attempt_runtime"
    using demo_waits_ok unfolding waits_ok_def demo_after_def by simp
  moreover have "sm_inv (sr_manager demo_attempt_runtime)"
    using reachable_ok [OF demo_attempt_reachable] demo_after_fields(5) demo_after_fields(1) by (simp add: demo_after_def)
  ultimately have "sr_abortRequested s1 = sr_abortRequested demo_attempt_runtime"
    using prepare_retry_decided [OF s1] by (auto simp: frame_def)
  then have "\<not> sr_abortRequested s1" by (simp add: demo_attempt_runtime_def)
  then have "retry_branch demo_recovery demo_waits demo_error demo_attempt_runtime =
      Some (Inr (True, (note_abort False s1)\<lparr>sr_failedResponse := Some demo_error\<rparr>))"
    using s1 by (simp add: retry_branch_def demo_waits_def note_abort_def)
  then show ?thesis
    using \<open>\<not> sr_abortRequested s1\<close>
    by (simp add: post_run_round_def handlePostAgentRun_def demo_after_fields demo_retryable Let_def note_abort_def)
qed

theorem post_run_safe_witness:
  "\<exists>s'. post_run_round demo_recovery demo_waits demo_after = Some (Inr (True, s')) \<and> reachable (sr_manager s') \<and>
     prefix (getEntries demo_attempt) (getEntries (sr_manager s'))"
proof -
  obtain s' where s': "post_run_round demo_recovery demo_waits demo_after = Some (Inr (True, s'))" using demo_round by blast
  from post_run_safe [OF _ demo_waits_ok s'] show ?thesis using s' demo_attempt_reachable by (simp add: demo_after_fields)
qed

lemma demo_after_in_step: "in_step demo_after"
proof -
  have "session_messages demo_attempt = Some [demo_user ''hi'', Assistant demo_error]"
    using session_messages_branch [OF _ demo_attempt_branch] reachable_ok [OF demo_attempt_reachable]
    by (simp add: context_entries_plain is_compaction_def demo_first_def demo_failed_def project_entries_def project_at_def
        context_edits_def collect_edit_def projectContextEntry_def sessionEntryToContextMessages_def demo_user_def demo_error_def demo_reply_def Let_def)
  then show ?thesis by (simp add: in_step_def demo_after_fields)
qed

theorem recovery_bounded_witness:
  "\<exists>s'. recovers demo_recovery demo_after 1 s' \<and> (1 :: nat) \<le> 2 * rp_maxRetries (rc_policy demo_recovery) + 1 \<and> in_step s'"
proof -
  obtain s' where s': "post_run_round demo_recovery demo_waits demo_after = Some (Inr (True, s'))" using demo_round by blast
  have "\<not> hasQueuedMessages (sr_agent demo_after)"
    by (simp add: demo_after_def demo_attempt_runtime_def createMutableAgentState_def hasQueuedMessages_def hasItems_def queue_new_def Let_def)
  from recovers.again [OF recovers.start this demo_waits_ok s' delivered_nil] have r: "recovers demo_recovery demo_after 1 s'"
    by (simp add: failing_def)
  have "reachable (sr_manager demo_after)" using demo_attempt_reachable by (simp add: demo_after_fields)
  from recovery_bounded [OF this demo_after_in_step r] r show ?thesis by blast
qed

end
