(* ===== verification/Utf8.thy ===== *)
theory Utf8
  imports Prelude
begin

text \<open>
  UTF-8 as the tools use it: the bytes of a string (\<open>Buffer.from\<close>, \<open>Buffer.byteLength\<close>) and the string
  of a byte sequence (\<open>Buffer.toString\<close>). A lone surrogate is encoded as U+FFFD.
\<close>

section \<open>Encoding\<close>

definition surrogate :: "unit16 \<Rightarrow> bool" where
  "surrogate c \<longleftrightarrow> is_high c \<or> is_low c"

abbreviation replacement :: nat where "replacement \<equiv> 0xFFFD"

definition lone_point :: "unit16 \<Rightarrow> nat" where
  "lone_point c = (if surrogate c then replacement else unat c)"

fun code_points :: "jstr \<Rightarrow> nat list" where
  "code_points [] = []"
| "code_points [c] = [lone_point c]"
| "code_points (c # d # cs) =
     (if is_high c \<and> is_low d
      then (0x10000 + (unat c - 0xD800) * 1024 + (unat d - 0xDC00)) # code_points cs
      else lone_point c # code_points (d # cs))"

text \<open>Bytes are natural numbers below 256.\<close>

definition utf8_char :: "nat \<Rightarrow> nat list" where
  "utf8_char p =
     (if p < 0x80 then [p]
      else if p < 0x800 then [0xC0 + p div 64, 0x80 + p mod 64]
      else if p < 0x10000 then [0xE0 + p div 4096, 0x80 + p div 64 mod 64, 0x80 + p mod 64]
      else [0xF0 + p div 262144, 0x80 + p div 4096 mod 64, 0x80 + p div 64 mod 64, 0x80 + p mod 64])"

definition utf8_points :: "nat list \<Rightarrow> nat list" where
  "utf8_points ps = concat (map utf8_char ps)"

definition utf8 :: "jstr \<Rightarrow> nat list" where
  "utf8 s = utf8_points (code_points s)"

definition byteLength :: "jstr \<Rightarrow> nat" where
  "byteLength s = length (utf8 s)"

text \<open>\<open>(b & 0xc0) === 0x80\<close> for a byte \<open>b\<close>.\<close>

definition is_continuation :: "nat \<Rightarrow> bool" where
  "is_continuation b \<longleftrightarrow> b div 64 = 2"

section \<open>Decoding\<close>

text \<open>
  The sequences decoded by the tools begin at a character boundary of an encoded string; a byte that
  does not begin a complete character is replaced.
\<close>

fun utf8_decode :: "nat list \<Rightarrow> nat list" where
  "utf8_decode [] = []"
| "utf8_decode (b # bs) =
     (if b < 0x80 then b # utf8_decode bs
      else if 0xC0 \<le> b \<and> b < 0xE0 \<and> bs \<noteq> [] \<and> is_continuation (hd bs)
      then ((b - 0xC0) * 64 + (hd bs - 0x80)) # utf8_decode (drop 1 bs)
      else if 0xE0 \<le> b \<and> b < 0xF0 \<and> length bs \<ge> 2 \<and> list_all is_continuation (take 2 bs)
      then ((b - 0xE0) * 4096 + (bs ! 0 - 0x80) * 64 + (bs ! 1 - 0x80)) # utf8_decode (drop 2 bs)
      else if 0xF0 \<le> b \<and> b < 0xF8 \<and> length bs \<ge> 3 \<and> list_all is_continuation (take 3 bs)
      then ((b - 0xF0) * 262144 + (bs ! 0 - 0x80) * 4096 + (bs ! 1 - 0x80) * 64 + (bs ! 2 - 0x80)) # utf8_decode (drop 3 bs)
      else replacement # utf8_decode bs)"

definition point_units :: "nat \<Rightarrow> jstr" where
  "point_units p =
     (if p < 0x10000 then [of_nat p]
      else [of_nat (0xD800 + (p - 0x10000) div 1024), of_nat (0xDC00 + (p - 0x10000) mod 1024)])"

definition units_of :: "nat list \<Rightarrow> jstr" where
  "units_of ps = concat (map point_units ps)"

definition buffer_string :: "nat list \<Rightarrow> jstr" where
  "buffer_string bs = units_of (utf8_decode bs)"

section \<open>Round trips\<close>

text \<open>Unicode scalar values.\<close>

definition scalar :: "nat \<Rightarrow> bool" where
  "scalar p \<longleftrightarrow> p < 0xD800 \<or> (0xE000 \<le> p \<and> p < 0x110000)"

lemma continuation_byte [simp]: "is_continuation (128 + n mod 64)"
proof -
  have "128 + n mod 64 = n mod 64 + 2 * 64" by simp
  then show ?thesis unfolding is_continuation_def by simp
qed

lemma unat_surrogates:
  "is_high c \<longleftrightarrow> 0xD800 \<le> unat c \<and> unat c \<le> 0xDBFF" "is_low c \<longleftrightarrow> 0xDC00 \<le> unat c \<and> unat c \<le> 0xDFFF"
  by (simp_all add: is_high_def is_low_def word_le_nat_alt)

lemma split_64: "(p div 4096) * 4096 + (p div 64 mod 64) * 64 + p mod 64 = (p::nat)"
proof -
  have "p div 4096 = p div 64 div 64" by (simp add: div_mult2_eq [of p 64 64, simplified])
  then show ?thesis using div_mult_mod_eq [of "p div 64" 64] div_mult_mod_eq [of p 64] by linarith
qed

lemma split_64': "(p div 262144) * 262144 + (p div 4096 mod 64) * 4096 + (p div 64 mod 64) * 64 + p mod 64 = (p::nat)"
proof -
  have "p div 262144 = p div 4096 div 64" by (simp add: div_mult2_eq [of p 4096 64, simplified])
  then show ?thesis using div_mult_mod_eq [of "p div 4096" 64] split_64 [of p] by linarith
qed

lemma decode_char:
  assumes "p < 0x110000"
  shows "utf8_decode (utf8_char p @ bs) = p # utf8_decode bs"
proof -
  consider "p < 0x80" | "0x80 \<le> p" "p < 0x800" | "0x800 \<le> p" "p < 0x10000" | "0x10000 \<le> p" by linarith
  then show ?thesis
  proof cases
    case 1
    then show ?thesis by (simp add: utf8_char_def)
  next
    case 2
    then have "p div 64 < 32" by (simp add: less_mult_imp_div_less)
    with 2 show ?thesis by (simp add: utf8_char_def)
  next
    case 3
    then have "p div 4096 < 16" by (simp add: less_mult_imp_div_less)
    with 3 show ?thesis using split_64 [of p] by (simp add: utf8_char_def)
  next
    case 4
    with assms have "p div 262144 < 5" by (simp add: less_mult_imp_div_less)
    with 4 show ?thesis using split_64' [of p] by (simp add: utf8_char_def)
  qed
qed

lemma decode_points: "list_all (\<lambda>p. p < 0x110000) ps \<Longrightarrow> utf8_decode (utf8_points ps) = ps"
  by (induction ps) (simp_all add: utf8_points_def decode_char del: utf8_decode.simps(2))

lemma code_points_Cons: "\<not> is_high c \<Longrightarrow> code_points (c # cs) = lone_point c # code_points cs"
  by (cases cs) simp_all

lemma scalar_replacement: "scalar replacement" by (simp add: scalar_def)

lemma lone_scalar: "scalar (lone_point c)"
proof -
  have "unat c < 65536" using unsigned_less [of c, where 'a = nat] by simp
  then show ?thesis by (auto simp: lone_point_def scalar_def surrogate_def unat_surrogates)
qed

lemma code_points_scalar: "list_all scalar (code_points s)"
proof (induction s rule: code_points.induct)
  case (3 c d cs)
  show ?case
  proof (cases "is_high c \<and> is_low d")
    case True
    then have "0x10000 + (unat c - 0xD800) * 1024 + (unat d - 0xDC00) < 0x110000"
      by (auto simp: unat_surrogates)
    then show ?thesis using 3 True by (simp add: scalar_def)
  qed (use 3 lone_scalar in auto)
qed (simp_all add: lone_scalar)

lemma code_points_units:
  assumes "scalar p"
  shows "code_points (point_units p @ cs) = p # code_points cs"
proof (cases "p < 0x10000")
  case True
  then have u: "unat (of_nat p :: 16 word) = p" by (simp add: unat_of_nat)
  then have "\<not> surrogate (of_nat p :: 16 word)" using assms by (auto simp: surrogate_def unat_surrogates scalar_def)
  then show ?thesis using True u by (simp add: point_units_def code_points_Cons surrogate_def lone_point_def)
next
  case False
  define k where "k = (p - 0x10000) div 1024"
  define l where "l = (p - 0x10000) mod 1024"
  have k: "k < 1024" using assms False by (simp add: k_def scalar_def less_mult_imp_div_less)
  have l: "l < 1024" by (simp add: l_def)
  have p: "p = 0x10000 + k * 1024 + l" using False by (simp add: k_def l_def)
  have u: "unat (of_nat (0xD800 + k) :: 16 word) = 0xD800 + k" "unat (of_nat (0xDC00 + l) :: 16 word) = 0xDC00 + l"
    using k l by (simp_all only: unat_of_nat len_of_numeral_defs, simp_all)
  then have "is_high (of_nat (0xD800 + k) :: 16 word)" "is_low (of_nat (0xDC00 + l) :: 16 word)"
    using k l by (simp_all only: unat_surrogates, simp_all)
  then show ?thesis
    using False u p l by (simp only: point_units_def k_def [symmetric] l_def [symmetric] if_False append_Cons append_Nil code_points.simps, simp)
qed

lemma code_points_units_of: "list_all scalar ps \<Longrightarrow> code_points (units_of ps) = ps"
  by (induction ps) (simp_all add: units_of_def code_points_units)

lemma utf8_points_append [simp]: "utf8_points (xs @ ys) = utf8_points xs @ utf8_points ys"
  by (simp add: utf8_points_def)

lemma utf8_buffer:
  assumes "list_all scalar ps"
  shows "utf8 (buffer_string (utf8_points ps)) = utf8_points ps"
proof -
  have "list_all (\<lambda>p. p < 0x110000) ps" using assms by (auto simp: list_all_iff scalar_def)
  then show ?thesis using assms by (simp add: buffer_string_def decode_points utf8_def code_points_units_of)
qed

end
