(* ===== verification/Truncate.thy ===== *)
theory Truncate
  imports Utf8
begin

text \<open>
  Truncation of tool output (packages/coding-agent/src/core/tools/truncate.ts): the first or the last
  lines of a text within a line limit and a byte limit, and single lines within a character limit.
\<close>

section \<open>Data\<close>

definition DEFAULT_MAX_LINES :: nat where "DEFAULT_MAX_LINES = 2000"
definition DEFAULT_MAX_BYTES :: nat where "DEFAULT_MAX_BYTES = 50 * 1024"
definition GREP_MAX_LINE_LENGTH :: nat where "GREP_MAX_LINE_LENGTH = 500"

datatype limit = ByLines | ByBytes

record truncation_result =
  tu_content :: jstr
  tu_truncated :: bool
  tu_truncatedBy :: "limit option"
  tu_totalLines :: nat
  tu_totalBytes :: nat
  tu_outputLines :: nat
  tu_outputBytes :: nat
  tu_lastLinePartial :: bool
  tu_firstLineExceedsLimit :: bool
  tu_maxLines :: nat
  tu_maxBytes :: nat

definition splitLinesForCounting :: "jstr \<Rightarrow> jstr list" where
  "splitLinesForCounting content =
     (if content = [] then []
      else let lines = split_on NL content in if ends_with content [NL] then butlast lines else lines)"

definition untruncated :: "jstr \<Rightarrow> nat \<Rightarrow> nat \<Rightarrow> truncation_result" where
  "untruncated content maxLines maxBytes =
     (let totalLines = length (splitLinesForCounting content); totalBytes = byteLength content
      in \<lparr>tu_content = content, tu_truncated = False, tu_truncatedBy = None, tu_totalLines = totalLines,
          tu_totalBytes = totalBytes, tu_outputLines = totalLines, tu_outputBytes = totalBytes,
          tu_lastLinePartial = False, tu_firstLineExceedsLimit = False, tu_maxLines = maxLines, tu_maxBytes = maxBytes\<rparr>)"

section \<open>Head\<close>

text \<open>
  The loop over the lines, with the lines taken and their bytes. The flag says that it stopped at the
  byte limit.
\<close>

fun collect_head :: "nat \<Rightarrow> nat \<Rightarrow> jstr list \<Rightarrow> jstr list \<Rightarrow> nat \<Rightarrow> jstr list \<times> nat \<times> bool" where
  "collect_head maxLines maxBytes [] taken bytes = (taken, bytes, False)"
| "collect_head maxLines maxBytes (line # lines) taken bytes =
     (if length taken < maxLines then
        let lineBytes = byteLength line + (if length taken > 0 then 1 else 0)
        in if bytes + lineBytes > maxBytes then (taken, bytes, True)
           else collect_head maxLines maxBytes lines (taken @ [line]) (bytes + lineBytes)
      else (taken, bytes, False))"

definition truncateHead :: "jstr \<Rightarrow> nat \<Rightarrow> nat \<Rightarrow> truncation_result" where
  "truncateHead content maxLines maxBytes =
     (let totalBytes = byteLength content;
          lines = splitLinesForCounting content;
          totalLines = length lines
      in if totalLines \<le> maxLines \<and> totalBytes \<le> maxBytes then untruncated content maxLines maxBytes
         else if byteLength (hd lines) > maxBytes
         then \<lparr>tu_content = [], tu_truncated = True, tu_truncatedBy = Some ByBytes, tu_totalLines = totalLines,
               tu_totalBytes = totalBytes, tu_outputLines = 0, tu_outputBytes = 0, tu_lastLinePartial = False,
               tu_firstLineExceedsLimit = True, tu_maxLines = maxLines, tu_maxBytes = maxBytes\<rparr>
         else
           let (taken, bytes, stopped) = collect_head maxLines maxBytes lines [] 0;
               truncatedBy = (if length taken \<ge> maxLines \<and> bytes \<le> maxBytes then ByLines
                              else if stopped then ByBytes else ByLines);
               outputContent = join [NL] taken
           in \<lparr>tu_content = outputContent, tu_truncated = True, tu_truncatedBy = Some truncatedBy, tu_totalLines = totalLines,
               tu_totalBytes = totalBytes, tu_outputLines = length taken, tu_outputBytes = byteLength outputContent,
               tu_lastLinePartial = False, tu_firstLineExceedsLimit = False, tu_maxLines = maxLines, tu_maxBytes = maxBytes\<rparr>)"

section \<open>Tail\<close>

definition truncateStringToBytesFromEnd :: "jstr \<Rightarrow> nat \<Rightarrow> jstr" where
  "truncateStringToBytesFromEnd str maxBytes =
     (let buf = utf8 str
      in if length buf \<le> maxBytes then str
         else buffer_string (dropWhile is_continuation (drop (length buf - maxBytes) buf)))"

record tail_state =
  ta_taken :: "jstr list"
  ta_bytes :: nat
  ta_stopped :: bool
  ta_partial :: bool

text \<open>The loop from the last line backwards; the argument lists the lines last one first.\<close>

fun collect_tail :: "nat \<Rightarrow> nat \<Rightarrow> jstr list \<Rightarrow> jstr list \<Rightarrow> nat \<Rightarrow> tail_state" where
  "collect_tail maxLines maxBytes [] taken bytes =
     \<lparr>ta_taken = taken, ta_bytes = bytes, ta_stopped = False, ta_partial = False\<rparr>"
| "collect_tail maxLines maxBytes (line # lines) taken bytes =
     (if length taken < maxLines then
        let lineBytes = byteLength line + (if length taken > 0 then 1 else 0)
        in if bytes + lineBytes > maxBytes then
             (if length taken = 0 then
                let truncatedLine = truncateStringToBytesFromEnd line maxBytes
                in \<lparr>ta_taken = [truncatedLine], ta_bytes = byteLength truncatedLine, ta_stopped = True, ta_partial = True\<rparr>
              else \<lparr>ta_taken = taken, ta_bytes = bytes, ta_stopped = True, ta_partial = False\<rparr>)
           else collect_tail maxLines maxBytes lines (line # taken) (bytes + lineBytes)
      else \<lparr>ta_taken = taken, ta_bytes = bytes, ta_stopped = False, ta_partial = False\<rparr>)"

definition truncateTail :: "jstr \<Rightarrow> nat \<Rightarrow> nat \<Rightarrow> truncation_result" where
  "truncateTail content maxLines maxBytes =
     (let totalBytes = byteLength content;
          lines = splitLinesForCounting content;
          totalLines = length lines
      in if totalLines \<le> maxLines \<and> totalBytes \<le> maxBytes then untruncated content maxLines maxBytes
         else
           let r = collect_tail maxLines maxBytes (rev lines) [] 0;
               truncatedBy = (if length (ta_taken r) \<ge> maxLines \<and> ta_bytes r \<le> maxBytes then ByLines
                              else if ta_stopped r then ByBytes else ByLines);
               outputContent = join [NL] (ta_taken r)
           in \<lparr>tu_content = outputContent, tu_truncated = True, tu_truncatedBy = Some truncatedBy, tu_totalLines = totalLines,
               tu_totalBytes = totalBytes, tu_outputLines = length (ta_taken r), tu_outputBytes = byteLength outputContent,
               tu_lastLinePartial = ta_partial r, tu_firstLineExceedsLimit = False, tu_maxLines = maxLines, tu_maxBytes = maxBytes\<rparr>)"

section \<open>Single lines\<close>

definition truncateLine :: "jstr \<Rightarrow> nat \<Rightarrow> jstr \<times> bool" where
  "truncateLine line maxChars =
     (if length line \<le> maxChars then (line, False) else (take maxChars line @ js ''... [truncated]'', True))"

section \<open>Sizes\<close>

text \<open>\<open>toFixed(1)\<close> of a quotient: the nearest tenth, halves rounded up.\<close>

definition to_fixed1 :: "nat \<Rightarrow> nat \<Rightarrow> jstr" where
  "to_fixed1 n d = (let tenths = (20 * n + d) div (2 * d) in nat_str (tenths div 10) @ js ''.'' @ nat_str (tenths mod 10))"

definition formatSize :: "nat \<Rightarrow> jstr" where
  "formatSize bytes =
     (if bytes < 1024 then nat_str bytes @ js ''B''
      else if bytes < 1024 * 1024 then to_fixed1 bytes 1024 @ js ''KB''
      else to_fixed1 bytes (1024 * 1024) @ js ''MB'')"

end
