(* ===== verification/Truncate_Correct.thy ===== *)
theory Truncate_Correct
  imports Truncate
begin

text \<open>
  Truncation keeps whole lines from one end of the text within both limits, as many as fit, and cuts
  only a last line that does not fit by itself, between characters.
\<close>

section \<open>Bytes of joined lines\<close>

lemma NL_point [simp]: "\<not> is_high NL" "\<not> is_low NL" "lone_point NL = 10"
  by (simp_all add: is_high_def is_low_def lone_point_def surrogate_def)

lemma code_points_NL: "code_points (a @ NL # b) = code_points a @ 10 # code_points b"
proof (induction a rule: code_points.induct)
  case (2 c)
  then show ?case by (simp add: code_points_Cons)
qed (simp_all add: code_points_Cons)

lemma byteLength_NL: "byteLength (a @ NL # b) = byteLength a + 1 + byteLength b"
  by (simp add: byteLength_def utf8_def code_points_NL utf8_points_def utf8_char_def)

lemma byteLength_Nil [simp]: "byteLength [] = 0"
  by (simp add: byteLength_def utf8_def utf8_points_def)

lemma byteLength_join: "byteLength (join [NL] ls) = sum_list (map byteLength ls) + (length ls - 1)"
  by (induction "[NL]" ls rule: join.induct) (simp_all add: byteLength_NL)

lemma byteLength_join_snoc:
  "byteLength (join [NL] (ls @ [l])) = byteLength (join [NL] ls) + (byteLength l + (if length ls > 0 then 1 else 0))"
  by (cases ls) (simp_all add: byteLength_join)

lemma byteLength_join_Cons:
  "byteLength (join [NL] (l # ls)) = byteLength (join [NL] ls) + (byteLength l + (if length ls > 0 then 1 else 0))"
  by (cases ls) (simp_all add: byteLength_NL byteLength_join)

section \<open>Head\<close>

lemma collect_head_props:
  assumes "bytes = byteLength (join [NL] taken)" and "bytes \<le> maxBytes" and "length taken \<le> maxLines"
    and "collect_head maxLines maxBytes lines taken bytes = (taken', bytes', stopped)"
  shows "\<exists>n \<le> length lines. taken' = taken @ take n lines \<and> bytes' = byteLength (join [NL] taken') \<and> bytes' \<le> maxBytes \<and>
     length taken' \<le> maxLines \<and>
     (if stopped then n < length lines \<and> byteLength (join [NL] (taken' @ [lines ! n])) > maxBytes
      else n = length lines \<or> length taken' = maxLines)"
  using assms
proof (induction lines arbitrary: taken bytes)
  case (Cons line lines)
  let ?b = "byteLength line + (if length taken > 0 then 1 else 0)"
  show ?case
  proof (cases "length taken < maxLines \<and> bytes + ?b \<le> maxBytes")
    case True
    have "bytes + ?b = byteLength (join [NL] (taken @ [line]))" using Cons.prems(1) by (simp add: byteLength_join_snoc)
    then obtain n where "n \<le> length lines" "taken' = (taken @ [line]) @ take n lines" "bytes' = byteLength (join [NL] taken')"
      "bytes' \<le> maxBytes" "length taken' \<le> maxLines"
      "if stopped then n < length lines \<and> byteLength (join [NL] (taken' @ [lines ! n])) > maxBytes
       else n = length lines \<or> length taken' = maxLines"
      using Cons.IH [of "bytes + ?b" "taken @ [line]"] Cons.prems True by (auto simp: Let_def)
    then show ?thesis by (intro exI [of _ "Suc n"]) (auto split: if_splits)
  next
    case False
    then show ?thesis
      using Cons.prems by (intro exI [of _ 0]) (auto simp: Let_def byteLength_join_snoc split: if_splits)
  qed
qed auto

lemma lines_nonempty:
  "\<not> (length (splitLinesForCounting content) \<le> maxLines \<and> byteLength content \<le> maxBytes) \<Longrightarrow> splitLinesForCounting content \<noteq> []"
proof
  assume long: "\<not> (length (splitLinesForCounting content) \<le> maxLines \<and> byteLength content \<le> maxBytes)"
    and empty: "splitLinesForCounting content = []"
  then have "content \<noteq> []" by auto
  moreover have "length (split_on NL content) \<noteq> 1" if "ends_with content [NL]"
  proof
    assume "length (split_on NL content) = 1"
    then have "split_on NL content = [content]"
      using join_split_on [of NL content] by (cases "split_on NL content") auto
    then have "NL \<notin> set content" using split_on_pieces [of NL content] by simp
    moreover have "NL \<in> set content" using that by (metis ends_with_def in_set_dropD list.set_intros(1))
    ultimately show False by simp
  qed
  ultimately show False using empty
    by (cases "split_on NL content" rule: rev_cases) (auto simp: splitLinesForCounting_def Let_def split: if_splits)
qed

text \<open>
  C23. Truncation from the head returns the text unchanged when it is within both limits. Otherwise it
  returns whole lines from the start, at most \<open>maxLines\<close> of them and at most \<open>maxBytes\<close> UTF-8 bytes,
  reports their number and size, and takes as many as fit: with one more line the byte limit is
  exceeded, unless the line limit or the end of the text is reached.
\<close>

theorem truncate_head_correct:
  "let r = truncateHead content maxLines maxBytes; lines = splitLinesForCounting content; n = tu_outputLines r
   in tu_outputBytes r = byteLength (tu_content r) \<and>
     (if length lines \<le> maxLines \<and> byteLength content \<le> maxBytes then tu_content r = content \<and> \<not> tu_truncated r
      else tu_truncated r \<and> n \<le> min maxLines (length lines) \<and> tu_content r = join [NL] (take n lines) \<and>
        tu_outputBytes r \<le> maxBytes \<and>
        (n = min maxLines (length lines) \<or> byteLength (join [NL] (take (Suc n) lines)) > maxBytes))"
proof -
  let ?lines = "splitLinesForCounting content"
  consider (fits) "length ?lines \<le> maxLines \<and> byteLength content \<le> maxBytes"
    | (long_first) "\<not> (length ?lines \<le> maxLines \<and> byteLength content \<le> maxBytes)" "byteLength (hd ?lines) > maxBytes"
    | (collected) "\<not> (length ?lines \<le> maxLines \<and> byteLength content \<le> maxBytes)" "\<not> byteLength (hd ?lines) > maxBytes"
    by blast
  then show ?thesis
  proof cases
    case fits
    then show ?thesis by (simp add: truncateHead_def untruncated_def Let_def)
  next
    case long_first
    obtain l ls where "?lines = l # ls" using lines_nonempty [OF long_first(1)] by (cases ?lines) auto
    with long_first show ?thesis by (auto simp: truncateHead_def Let_def)
  next
    case collected
    obtain taken bytes stopped where c: "collect_head maxLines maxBytes ?lines [] 0 = (taken, bytes, stopped)"
      by (metis prod_cases3)
    obtain n where n: "n \<le> length ?lines" "taken = take n ?lines" "bytes = byteLength (join [NL] taken)" "bytes \<le> maxBytes"
      "length taken \<le> maxLines"
      "if stopped then n < length ?lines \<and> byteLength (join [NL] (taken @ [?lines ! n])) > maxBytes
       else n = length ?lines \<or> length taken = maxLines"
      using collect_head_props [OF _ _ _ c] by auto
    have "stopped \<Longrightarrow> taken @ [?lines ! n] = take (Suc n) ?lines" using n by (simp add: take_Suc_conv_app_nth)
    with n c collected show ?thesis by (auto simp: truncateHead_def Let_def min_def split: if_splits)
  qed
qed

section \<open>Tail\<close>

lemma utf8_char_shape:
  assumes "scalar p"
  shows "\<exists>b bs. utf8_char p = b # bs \<and> \<not> is_continuation b \<and> list_all is_continuation bs"
proof -
  consider "p < 0x80" | "0x80 \<le> p" "p < 0x800" | "0x800 \<le> p" "p < 0x10000" | "0x10000 \<le> p" by linarith
  then show ?thesis
  proof cases
    case 1
    then have "\<not> is_continuation p" by (simp add: is_continuation_def)
    with 1 show ?thesis by (simp add: utf8_char_def)
  next
    case 2
    then have "\<not> is_continuation (0xC0 + p div 64)" by (simp add: is_continuation_def)
    with 2 show ?thesis by (simp add: utf8_char_def)
  next
    case 3
    then have "\<not> is_continuation (0xE0 + p div 4096)" by (simp add: is_continuation_def)
    with 3 show ?thesis by (simp add: utf8_char_def)
  next
    case 4
    then have "\<not> is_continuation (0xF0 + p div 262144)" by (simp add: is_continuation_def)
    with 4 show ?thesis by (simp add: utf8_char_def)
  qed
qed

lemma points_no_continuation:
  "list_all scalar ps \<Longrightarrow> dropWhile is_continuation (utf8_points ps) = utf8_points ps"
proof (cases ps)
  case (Cons p qs)
  assume "list_all scalar ps"
  then obtain b bs where "utf8_char p = b # bs" "\<not> is_continuation b" using utf8_char_shape [of p] Cons by auto
  then show ?thesis by (simp add: Cons utf8_points_def)
qed (simp add: utf8_points_def)

lemma dropWhile_all: "list_all P xs \<Longrightarrow> dropWhile P (xs @ ys) = dropWhile P ys"
  by (induction xs) simp_all

text \<open>Skipping continuation bytes from any offset arrives at the next character.\<close>

lemma next_character:
  "list_all scalar ps \<Longrightarrow>
   \<exists>j \<le> length ps. dropWhile is_continuation (drop k (utf8_points ps)) = utf8_points (drop j ps) \<and>
     (0 < j \<longrightarrow> length (utf8_points (take (j - 1) ps)) < k) \<and> (k \<le> length (utf8_points ps) \<longrightarrow> k \<le> length (utf8_points (take j ps)))"
proof (induction ps arbitrary: k)
  case (Cons p ps)
  obtain b bs where shape: "utf8_char p = b # bs" "\<not> is_continuation b" "list_all is_continuation bs"
    using utf8_char_shape [of p] Cons.prems by auto
  have scalars: "list_all scalar ps" using Cons.prems by simp
  consider (zero) "k = 0" | (inside) "0 < k" "k < length (utf8_char p)" | (beyond) "length (utf8_char p) \<le> k" by linarith
  then show ?case
  proof cases
    case zero
    then show ?thesis using points_no_continuation [OF Cons.prems] by (intro exI [of _ 0]) simp
  next
    case inside
    have "list_all is_continuation (drop k (utf8_char p))"
      using inside shape by (cases k) (auto simp: list_all_iff dest: in_set_dropD)
    then have "dropWhile is_continuation (drop k (utf8_points (p # ps))) = utf8_points ps"
      using inside points_no_continuation [OF scalars] by (simp add: utf8_points_def dropWhile_all)
    then show ?thesis using inside by (intro exI [of _ 1]) (simp add: utf8_points_def)
  next
    case beyond
    obtain j where j: "j \<le> length ps" "dropWhile is_continuation (drop (k - length (utf8_char p)) (utf8_points ps)) = utf8_points (drop j ps)"
      "0 < j \<longrightarrow> length (utf8_points (take (j - 1) ps)) < k - length (utf8_char p)"
      "k - length (utf8_char p) \<le> length (utf8_points ps) \<longrightarrow> k - length (utf8_char p) \<le> length (utf8_points (take j ps))"
      using Cons.IH [OF scalars] by blast
    have "0 < length (utf8_char p)" using shape by simp
    with j beyond show ?thesis by (intro exI [of _ "Suc j"]) (cases j; auto simp: utf8_points_def)
  qed
qed (simp add: utf8_points_def)

lemma partial_line:
  assumes "byteLength str > maxBytes"
  shows "\<exists>j. code_points (truncateStringToBytesFromEnd str maxBytes) = drop j (code_points str) \<and>
     byteLength (truncateStringToBytesFromEnd str maxBytes) \<le> maxBytes \<and>
     (0 < j \<longrightarrow> length (utf8_points (drop (j - 1) (code_points str))) > maxBytes)"
proof -
  let ?ps = "code_points str"
  let ?k = "length (utf8 str) - maxBytes"
  obtain j where j: "j \<le> length ?ps" "dropWhile is_continuation (drop ?k (utf8_points ?ps)) = utf8_points (drop j ?ps)"
    "0 < j \<longrightarrow> length (utf8_points (take (j - 1) ?ps)) < ?k"
    "?k \<le> length (utf8_points ?ps) \<longrightarrow> ?k \<le> length (utf8_points (take j ?ps))"
    using next_character [OF code_points_scalar] by blast
  have parts: "length (utf8 str) = length (utf8_points (take i ?ps)) + length (utf8_points (drop i ?ps))" for i
    by (metis append_take_drop_id length_append utf8_def utf8_points_append)
  have scalars: "list_all scalar (drop j ?ps)"
    using code_points_scalar [of str] by (auto simp: list_all_iff dest: in_set_dropD)
  have "truncateStringToBytesFromEnd str maxBytes = buffer_string (utf8_points (drop j ?ps))"
    using assms j(2) by (simp add: truncateStringToBytesFromEnd_def Let_def byteLength_def utf8_def)
  moreover have "list_all (\<lambda>p. p < 0x110000) (drop j ?ps)" using scalars by (auto simp: list_all_iff scalar_def)
  ultimately have out: "code_points (truncateStringToBytesFromEnd str maxBytes) = drop j ?ps"
    using scalars by (simp add: buffer_string_def decode_points code_points_units_of)
  moreover have "length (utf8_points (drop j ?ps)) \<le> maxBytes" using j(4) parts [of j] by (simp add: utf8_def)
  moreover have "0 < j \<longrightarrow> length (utf8_points (drop (j - 1) ?ps)) > maxBytes" using j(3) parts [of "j - 1"] assms by (auto simp: byteLength_def)
  ultimately show ?thesis by (auto simp: byteLength_def utf8_def)
qed

lemma collect_tail_props:
  assumes "bytes = byteLength (join [NL] taken)" and "bytes \<le> maxBytes" and "length taken \<le> maxLines"
    and "r = collect_tail maxLines maxBytes lines taken bytes"
  shows "length (ta_taken r) \<le> maxLines \<and>
     (if ta_partial r then taken = [] \<and> lines \<noteq> [] \<and> byteLength (hd lines) > maxBytes \<and>
          ta_taken r = [truncateStringToBytesFromEnd (hd lines) maxBytes]
      else \<exists>n \<le> length lines. ta_taken r = rev (take n lines) @ taken \<and> byteLength (join [NL] (ta_taken r)) \<le> maxBytes \<and>
        (n = length lines \<or> length (ta_taken r) = maxLines \<or> byteLength (join [NL] (lines ! n # ta_taken r)) > maxBytes))"
  using assms
proof (induction lines arbitrary: taken bytes)
  case (Cons line lines)
  let ?b = "byteLength line + (if length taken > 0 then 1 else 0)"
  show ?case
  proof (cases "length taken < maxLines \<and> bytes + ?b \<le> maxBytes")
    case True
    have "bytes + ?b = byteLength (join [NL] (line # taken))" using Cons.prems(1) by (simp add: byteLength_join_Cons)
    then have IH: "length (ta_taken r) \<le> maxLines \<and> \<not> ta_partial r \<and> (\<exists>n \<le> length lines. ta_taken r = rev (take n lines) @ line # taken \<and>
        byteLength (join [NL] (ta_taken r)) \<le> maxBytes \<and>
        (n = length lines \<or> length (ta_taken r) = maxLines \<or> byteLength (join [NL] (lines ! n # ta_taken r)) > maxBytes))"
      using Cons.IH [of "bytes + ?b" "line # taken"] Cons.prems True by (auto simp: Let_def split: if_splits)
    then obtain n where "n \<le> length lines" "ta_taken r = rev (take n lines) @ line # taken"
      "byteLength (join [NL] (ta_taken r)) \<le> maxBytes"
      "n = length lines \<or> length (ta_taken r) = maxLines \<or> byteLength (join [NL] (lines ! n # ta_taken r)) > maxBytes" by blast
    with IH show ?thesis by (auto intro!: exI [of _ "Suc n"])
  next
    case False
    then show ?thesis
      using Cons.prems by (auto simp: Let_def byteLength_join_Cons split: if_splits intro!: exI [of _ 0])
  qed
qed auto

text \<open>
  C24. Truncation from the tail returns the text unchanged when it is within both limits. Otherwise
  what it returns has at most \<open>maxLines\<close> lines and \<open>maxBytes\<close> bytes. Unless it says that the last line
  is partial it is whole lines from the end, as many as fit. It says so only when the last line alone
  exceeds the byte limit, and then returns the longest end of that line, in characters, that fits.
\<close>

theorem truncate_tail_correct:
  "let r = truncateTail content maxLines maxBytes; lines = splitLinesForCounting content; n = tu_outputLines r
   in tu_outputBytes r = byteLength (tu_content r) \<and>
     (if length lines \<le> maxLines \<and> byteLength content \<le> maxBytes then tu_content r = content \<and> \<not> tu_truncated r
      else tu_truncated r \<and> n \<le> maxLines \<and> tu_outputBytes r \<le> maxBytes \<and>
        (if tu_lastLinePartial r
         then n = 1 \<and> byteLength (last lines) > maxBytes \<and>
           (\<exists>j. code_points (tu_content r) = drop j (code_points (last lines)) \<and>
             (j = 0 \<or> length (utf8_points (drop (j - 1) (code_points (last lines)))) > maxBytes))
         else n \<le> length lines \<and> tu_content r = join [NL] (drop (length lines - n) lines) \<and>
           (n = min maxLines (length lines) \<or> byteLength (join [NL] (drop (length lines - Suc n) lines)) > maxBytes)))"
proof -
  let ?lines = "splitLinesForCounting content"
  define r where "r = collect_tail maxLines maxBytes (rev ?lines) [] 0"
  show ?thesis
  proof (cases "length ?lines \<le> maxLines \<and> byteLength content \<le> maxBytes")
    case True
    then show ?thesis by (simp add: truncateTail_def untruncated_def Let_def)
  next
    case False
    have fields: "tu_content (truncateTail content maxLines maxBytes) = join [NL] (ta_taken r)"
      "tu_outputLines (truncateTail content maxLines maxBytes) = length (ta_taken r)" "tu_truncated (truncateTail content maxLines maxBytes)"
      "tu_outputBytes (truncateTail content maxLines maxBytes) = byteLength (join [NL] (ta_taken r))"
      "tu_lastLinePartial (truncateTail content maxLines maxBytes) = ta_partial r"
      unfolding truncateTail_def Let_def if_not_P [OF False] r_def [symmetric] by simp_all
    note props = collect_tail_props [of 0 "[]" maxBytes maxLines r "rev ?lines", OF _ _ _ r_def, simplified]
    show ?thesis
    proof (cases "ta_partial r")
      case True
      then have line: "byteLength (last ?lines) > maxBytes" "ta_taken r = [truncateStringToBytesFromEnd (last ?lines) maxBytes]" "1 \<le> maxLines"
        using props by (auto simp: hd_rev)
      obtain j where "code_points (truncateStringToBytesFromEnd (last ?lines) maxBytes) = drop j (code_points (last ?lines))"
        "byteLength (truncateStringToBytesFromEnd (last ?lines) maxBytes) \<le> maxBytes"
        "0 < j \<longrightarrow> length (utf8_points (drop (j - 1) (code_points (last ?lines)))) > maxBytes"
        using partial_line [OF line(1)] by blast
      then show ?thesis using False True line by (auto simp: fields Let_def)
    next
      case whole: False
      then have "\<exists>n \<le> length ?lines. ta_taken r = rev (take n (rev ?lines)) \<and> byteLength (join [NL] (ta_taken r)) \<le> maxBytes \<and>
        (n = length ?lines \<or> length (ta_taken r) = maxLines \<or> byteLength (join [NL] (rev ?lines ! n # ta_taken r)) > maxBytes)"
        using props by simp
      then obtain n where n: "n \<le> length ?lines" "ta_taken r = rev (take n (rev ?lines))" "byteLength (join [NL] (ta_taken r)) \<le> maxBytes"
        "n = length ?lines \<or> length (ta_taken r) = maxLines \<or> byteLength (join [NL] (rev ?lines ! n # ta_taken r)) > maxBytes"
        by blast
      have taken: "ta_taken r = drop (length ?lines - n) ?lines" using n(2) by (simp add: rev_take)
      have len: "length (ta_taken r) = n" using n(1) taken by simp
      have "rev ?lines ! n # ta_taken r = drop (length ?lines - Suc n) ?lines" if "n < length ?lines"
        using that taken Cons_nth_drop_Suc [of "length ?lines - Suc n" ?lines] by (simp add: rev_nth Suc_diff_Suc)
      moreover have "length (ta_taken r) \<le> maxLines" using props by simp
      ultimately show ?thesis
        using False whole n taken len by (cases "n = length ?lines") (auto simp: fields Let_def min_def)
    qed
  qed
qed

text \<open>
  A text whose only excess is its final newline is reported as cut at the line limit, although no
  line is missing and the line limit is not reached.
\<close>

lemma final_newline_reported_as_lines:
  "let r = truncateHead (js ''abc'' @ [NL]) 10 3
   in tu_truncated r \<and> tu_truncatedBy r = Some ByLines \<and> tu_outputLines r = tu_totalLines r \<and> tu_totalLines r < 10"
  by code_simp

end
