(* ===== verification/Replay_Trim.thy ===== *)
theory Replay_Trim
  imports Transcript
begin

text \<open>
  Replay trimming (packages/coding-agent/src/core/replay-trim.ts): reasoning and long tool results of
  completed turns are dropped from a request. Arrays are unchanged where nothing is trimmed, so the
  model returns the messages of the request.
\<close>

section \<open>Settings\<close>

record replay_trim_settings =
  rs_thinking :: "bool option"
  rs_toolResults :: "bool option"
  rs_toolResultCap :: "int option"
  rs_toolResultTail :: "int option"

record replay_trim_options =
  rt_thinking :: bool
  rt_toolResults :: bool
  rt_toolResultCap :: nat
  rt_toolResultTail :: nat

definition PRUNE_MARGIN :: nat where "PRUNE_MARGIN = 200"

text \<open>\<open>Math.max(0, n)\<close> is \<open>nat\<close>; the settings are whole numbers.\<close>

definition resolveReplayTrimSettings :: "replay_trim_settings option \<Rightarrow> replay_trim_options" where
  "resolveReplayTrimSettings settings =
     (let field = (\<lambda>sel d. case settings of None \<Rightarrow> d | Some s \<Rightarrow> (case sel s of None \<Rightarrow> d | Some v \<Rightarrow> v));
          number = (\<lambda>sel d. case settings of None \<Rightarrow> d | Some s \<Rightarrow> (case sel s of None \<Rightarrow> d | Some v \<Rightarrow> v))
      in \<lparr>rt_thinking = field rs_thinking True, rt_toolResults = field rs_toolResults True,
          rt_toolResultCap = nat (number rs_toolResultCap 2000), rt_toolResultTail = nat (number rs_toolResultTail 200)\<rparr>)"

section \<open>Blocks\<close>

definition OPENAI_COMPLETIONS_REASONING_FIELDS :: "jstr list" where
  "OPENAI_COMPLETIONS_REASONING_FIELDS = [js ''reasoning'', js ''reasoning_content'', js ''reasoning_text'']"

definition isOpenAICompletionsReasoningField :: "jstr \<Rightarrow> bool" where
  "isOpenAICompletionsReasoningField field \<longleftrightarrow> field \<in> set OPENAI_COMPLETIONS_REASONING_FIELDS"

fun stripThinking :: "jstr \<Rightarrow> content \<Rightarrow> bool" where
  "stripThinking api (Thinking t signature isRedacted) =
     (if isRedacted then False
      else if api = js ''anthropic-messages'' then True
      else if api = js ''openai-completions'' then
        (case signature of
           None \<Rightarrow> True
         | Some s \<Rightarrow> length (trim s) = 0 \<or> isOpenAICompletionsReasoningField s)
      else False)"
| "stripThinking api _ = False"

definition prune_marker :: "nat \<Rightarrow> jstr" where
  "prune_marker removed =
     [NL] @ js ''[old tool result trimmed: '' @ nat_str removed @
     js '' chars cut to save context; rerun the tool if you need the full output]'' @ [NL]"

definition pruneText :: "jstr \<Rightarrow> replay_trim_options \<Rightarrow> jstr option" where
  "pruneText text options =
     (let limit = rt_toolResultCap options + rt_toolResultTail options + PRUNE_MARGIN
      in if length text \<le> limit then None
         else
           let removed = length text - rt_toolResultCap options - rt_toolResultTail options;
               tail = (if rt_toolResultTail options > 0 then drop (length text - rt_toolResultTail options) text else [])
           in Some (take (rt_toolResultCap options) text @ prune_marker removed @ tail))"

section \<open>Messages\<close>

text \<open>The index of the last user message, or -1.\<close>

fun last_user_from :: "int \<Rightarrow> int \<Rightarrow> message list \<Rightarrow> int" where
  "last_user_from i found [] = found"
| "last_user_from i found (m # ms) = last_user_from (i + 1) (case m of UserM _ \<Rightarrow> i | _ \<Rightarrow> found) ms"

text \<open>A message of a request has content; a stored \<open>null\<close> has been replaced before.\<close>

definition trim_assistant :: "jstr \<Rightarrow> assistant_message \<Rightarrow> assistant_message" where
  "trim_assistant api m =
     (case as_content m of
        None \<Rightarrow> m
      | Some bs \<Rightarrow>
          (let kept = filter (\<lambda>b. \<not> stripThinking api b) bs
           in if length kept = 0 then m else if length kept \<noteq> length bs then m\<lparr>as_content := Some kept\<rparr> else m))"

fun prune_block :: "replay_trim_options \<Rightarrow> content \<Rightarrow> content" where
  "prune_block options (Text t sig) = (case pruneText t options of None \<Rightarrow> Text t sig | Some pruned \<Rightarrow> Text pruned None)"
| "prune_block options b = b"

definition trim_tool_result :: "replay_trim_options \<Rightarrow> tool_result_message \<Rightarrow> tool_result_message" where
  "trim_tool_result options m =
     (case tr_content m of None \<Rightarrow> m | Some bs \<Rightarrow> m\<lparr>tr_content := Some (map (prune_block options) bs)\<rparr>)"

fun trim_message :: "jstr \<Rightarrow> replay_trim_options \<Rightarrow> message \<Rightarrow> message" where
  "trim_message api options (AssistantM m) = (if rt_thinking options then AssistantM (trim_assistant api m) else AssistantM m)"
| "trim_message api options (ToolResultM m) = (if rt_toolResults options then ToolResultM (trim_tool_result options m) else ToolResultM m)"
| "trim_message api options m = m"

definition trimReplayContext :: "message list \<Rightarrow> jstr \<Rightarrow> replay_trim_options \<Rightarrow> message list" where
  "trimReplayContext messages api options =
     (if \<not> rt_thinking options \<and> \<not> rt_toolResults options then messages
      else let lastUser = last_user_from 0 (-1) messages
           in if lastUser \<le> 0 then messages
              else map (trim_message api options) (take (nat lastUser) messages) @ drop (nat lastUser) messages)"

section \<open>What trimming keeps\<close>

text \<open>A trimmed message of a completed turn against the original.\<close>

fun kind :: "message \<Rightarrow> nat" where
  "kind (SystemM _) = 0" | "kind (UserM _) = 1" | "kind (AssistantM _) = 2" | "kind (ToolResultM _) = 3"

fun is_thinking :: "content \<Rightarrow> bool" where
  "is_thinking (Thinking _ _ _) = True"
| "is_thinking _ = False"

definition shortened :: "content \<Rightarrow> content \<Rightarrow> bool" where
  "shortened new old \<longleftrightarrow> new = old \<or>
     (case (new, old) of
        (Text t _, Text u _) \<Rightarrow> length t < length u \<and> (\<exists>h m e. t = h @ m @ e \<and> prefix h u \<and> suffix e u)
      | _ \<Rightarrow> False)"

fun safely_trimmed :: "message \<Rightarrow> message \<Rightarrow> bool" where
  "safely_trimmed (AssistantM new) (AssistantM old) \<longleftrightarrow>
     new\<lparr>as_content := as_content old\<rparr> = old \<and>
     (case (as_content new, as_content old) of
        (Some xs, Some ys) \<Rightarrow> (ys = [] \<or> xs \<noteq> []) \<and> subseq xs ys \<and> filter (\<lambda>b. \<not> is_thinking b) xs = filter (\<lambda>b. \<not> is_thinking b) ys
      | (a, b) \<Rightarrow> a = b)"
| "safely_trimmed (ToolResultM new) (ToolResultM old) \<longleftrightarrow>
     new\<lparr>tr_content := tr_content old\<rparr> = old \<and> rel_option (list_all2 shortened) (tr_content new) (tr_content old)"
| "safely_trimmed new old \<longleftrightarrow> new = old"

lemma length_nat_str_le: "length (nat_str n) \<le> Suc n"
proof (induction n rule: nat_str.induct)
  case (1 n)
  then show ?case by (cases "n < 10") (simp_all add: nat_str.simps [of n])
qed

lemma prune_marker_short: "200 < n \<Longrightarrow> length (prune_marker n) < n"
proof -
  assume n: "200 < n"
  have "length (nat_str n) \<le> length (nat_str (n div 10)) + 1" by (simp add: nat_str.simps [of n])
  also have "\<dots> \<le> n div 10 + 2" using length_nat_str_le [of "n div 10"] by simp
  finally show ?thesis using n by (simp add: prune_marker_def)
qed

lemma pruneText_Some:
  assumes "pruneText t options = Some u"
  shows "length u < length t \<and> (\<exists>h m e. u = h @ m @ e \<and> prefix h t \<and> suffix e t)"
proof -
  let ?c = "rt_toolResultCap options" and ?t = "rt_toolResultTail options"
  let ?e = "if ?t > 0 then drop (length t - ?t) t else []"
  have long: "length t > ?c + ?t + 200" and u: "u = take ?c t @ prune_marker (length t - ?c - ?t) @ ?e"
    using assms by (auto simp: pruneText_def PRUNE_MARGIN_def Let_def split: if_splits)
  have "length ?e = ?t" using long by simp
  moreover have "length (prune_marker (length t - ?c - ?t)) < length t - ?c - ?t" using long by (intro prune_marker_short) simp
  ultimately have "length u < length t" using long by (simp add: u)
  moreover have "prefix (take ?c t) t" by (rule take_is_prefix)
  moreover have "suffix ?e t" by (simp add: suffix_drop)
  ultimately show ?thesis using u by blast
qed

lemma prune_block_shortened: "shortened (prune_block options b) b"
  using pruneText_Some by (cases b) (auto simp: shortened_def split: option.splits)

lemma stripThinking_thinking: "stripThinking api b \<Longrightarrow> is_thinking b"
  by (cases b) simp_all

lemma filter_filter_thinking:
  "filter (\<lambda>b. \<not> stripThinking api b \<and> \<not> is_thinking b) bs = filter (\<lambda>b. \<not> is_thinking b) bs"
  using stripThinking_thinking by (intro filter_cong) auto

lemma trim_message_safe: "safely_trimmed (trim_message api options m) m"
proof (cases m)
  case (AssistantM a)
  then show ?thesis
    by (auto simp: trim_assistant_def Let_def filter_filter_thinking subseq_filter_left split: option.splits)
next
  case (ToolResultM r)
  have "list_all2 shortened (map (prune_block options) bs) bs" for bs
    by (induction bs) (simp_all add: prune_block_shortened)
  moreover have "shortened b b" for b by (simp add: shortened_def)
  ultimately show ?thesis using ToolResultM
    by (auto simp: trim_tool_result_def option.rel_refl list.rel_refl split: option.splits)
qed simp_all

fun is_user :: "message \<Rightarrow> bool" where
  "is_user (UserM _) = True"
| "is_user _ = False"

text \<open>The index found is that of a user message after which there is none.\<close>

lemma last_user_from_props:
  "0 \<le> i \<Longrightarrow> last_user_from i found ms = found \<and> list_all (\<lambda>m. \<not> is_user m) ms \<or>
   (\<exists>n < length ms. last_user_from i found ms = i + int n \<and> is_user (ms ! n) \<and> list_all (\<lambda>m. \<not> is_user m) (drop (Suc n) ms))"
proof (induction ms arbitrary: i found)
  case (Cons m ms)
  let ?f = "case m of UserM _ \<Rightarrow> i | _ \<Rightarrow> found"
  from Cons.IH [of "i + 1" ?f] Cons.prems
  consider (none) "last_user_from (i + 1) ?f ms = ?f" "list_all (\<lambda>m. \<not> is_user m) ms"
    | (some) n where "n < length ms" "last_user_from (i + 1) ?f ms = i + 1 + int n" "is_user (ms ! n)"
        "list_all (\<lambda>m. \<not> is_user m) (drop (Suc n) ms)" by auto
  then show ?case
  proof cases
    case none
    show ?thesis
    proof (cases m)
      case (UserM u)
      then show ?thesis using none by (intro disjI2 exI [of _ 0]) simp
    qed (use none in simp_all)
  next
    case some
    then show ?thesis by (intro disjI2 exI [of _ "Suc n"]) simp
  qed
qed simp

lemma safely_trimmed_refl: "safely_trimmed m m"
proof -
  have "shortened b b" for b by (simp add: shortened_def)
  then show ?thesis by (cases m) (auto simp: option.rel_refl list.rel_refl split: option.splits)
qed

text \<open>
  C25. Trimming a request keeps every message, in order and with its role. From the last user message
  on, and in requests that begin with it, nothing is changed. Before it an assistant message loses
  only thinking blocks and never its last block, text blocks of tool results are replaced only by a
  strictly shorter head, marker and tail of themselves, and system and user messages and all other
  fields stay as they are.
\<close>

theorem replay_trim_safe:
  "\<exists>n. list_all2 safely_trimmed (trimReplayContext ms api options) ms \<and>
     drop n (trimReplayContext ms api options) = drop n ms \<and>
     (n = 0 \<or> n < length ms \<and> is_user (ms ! n) \<and> list_all (\<lambda>m. \<not> is_user m) (drop (Suc n) ms))"
proof -
  have same: "list_all2 safely_trimmed xs xs" for xs by (simp add: list.rel_refl safely_trimmed_refl)
  have mapped: "list_all2 safely_trimmed (map (trim_message api options) xs) xs" for xs
    by (induction xs) (simp_all add: trim_message_safe)
  show ?thesis
  proof (cases "trimReplayContext ms api options = ms")
    case True
    then show ?thesis using same by auto
  next
    case False
    let ?u = "last_user_from 0 (-1) ms"
    have u: "?u > 0" and out: "trimReplayContext ms api options = map (trim_message api options) (take (nat ?u) ms) @ drop (nat ?u) ms"
      using False by (auto simp: trimReplayContext_def Let_def split: if_splits)
    then obtain n where n: "n < length ms" "?u = int n" "is_user (ms ! n)" "list_all (\<lambda>m. \<not> is_user m) (drop (Suc n) ms)"
      using last_user_from_props [of 0 "-1" ms] by auto
    have "list_all2 safely_trimmed (map (trim_message api options) (take n ms) @ drop n ms) (take n ms @ drop n ms)"
      by (intro list_all2_appendI mapped same)
    then show ?thesis using n by (intro exI [of _ n]) (simp add: out)
  qed
qed

end
