(* ===== verification/Edit_Text.thy ===== *)
theory Edit_Text
  imports Prelude
begin

text \<open>
  Text matching and replacement of the edit tool
  (packages/coding-agent/src/core/tools/edit-diff.ts and utils/text.ts). Unicode normalization
  (\<open>String.prototype.normalize("NFKC")\<close>) is a parameter \<open>nfkc\<close>; the line diff of the package diff is
  passed to the functions that render it. Thrown errors are their messages.
\<close>

section \<open>Line endings\<close>

definition splitBom :: "jstr \<Rightarrow> jstr \<times> jstr" where
  "splitBom content = (if starts_with content [0xFEFF] then ([0xFEFF], drop 1 content) else ([], content))"

text \<open>\<open>True\<close> is CRLF.\<close>

definition detectLineEnding :: "jstr \<Rightarrow> bool" where
  "detectLineEnding content =
     (case (index_of content [NL], index_of content [CR, NL]) of
        (Some lf, Some crlf) \<Rightarrow> crlf < lf
      | _ \<Rightarrow> False)"

fun replace_crlf :: "jstr \<Rightarrow> jstr" where
  "replace_crlf (c # d # cs) = (if c = CR \<and> d = NL then NL # replace_crlf cs else c # replace_crlf (d # cs))"
| "replace_crlf cs = cs"

definition normalizeToLF :: "jstr \<Rightarrow> jstr" where
  "normalizeToLF text = map (\<lambda>c. if c = CR then NL else c) (replace_crlf text)"

definition restoreLineEndings :: "jstr \<Rightarrow> bool \<Rightarrow> jstr" where
  "restoreLineEndings text crlf = (if crlf then concat (map (\<lambda>c. if c = NL then [CR, NL] else [c]) text) else text)"

section \<open>Normalization\<close>

definition plain_unit :: "unit16 \<Rightarrow> unit16" where
  "plain_unit c =
     (if 0x2018 \<le> c \<and> c \<le> 0x201B then 39
      else if 0x201C \<le> c \<and> c \<le> 0x201F then 34
      else if (0x2010 \<le> c \<and> c \<le> 0x2015) \<or> c = 0x2212 then 45
      else if c = 0xA0 \<or> (0x2002 \<le> c \<and> c \<le> 0x200A) \<or> c = 0x202F \<or> c = 0x205F \<or> c = 0x3000 then 32
      else c)"

definition normalizeForFuzzyMatch :: "(jstr \<Rightarrow> jstr) \<Rightarrow> jstr \<Rightarrow> jstr" where
  "normalizeForFuzzyMatch nfkc text = map plain_unit (join [NL] (map trim_end (split_on NL (nfkc text))))"

definition is_blank :: "unit16 \<Rightarrow> bool" where
  "is_blank c \<longleftrightarrow> c = 32 \<or> c = 9"

definition normalizeForFuzzyMatchSearch :: "jstr \<Rightarrow> jstr" where
  "normalizeForFuzzyMatchSearch text = join [NL] (map (dropWhile is_blank) (split_on NL text))"

record search_space_line =
  sl_searchStart :: nat
  sl_replacementStart :: nat
  sl_leading :: nat
  sl_searchLength :: nat

definition leadingWhitespace :: "jstr \<Rightarrow> jstr" where
  "leadingWhitespace line = takeWhile is_blank line"

fun search_lines_from :: "nat \<Rightarrow> nat \<Rightarrow> jstr list \<Rightarrow> search_space_line list" where
  "search_lines_from searchStart replacementStart [] = []"
| "search_lines_from searchStart replacementStart (line # lines) =
     (let leading = length (leadingWhitespace line)
      in \<lparr>sl_searchStart = searchStart, sl_replacementStart = replacementStart, sl_leading = leading,
          sl_searchLength = length line - leading\<rparr> #
         search_lines_from (searchStart + (length line - leading) + 1) (replacementStart + length line + 1) lines)"

definition buildSearchSpaceLines :: "jstr \<Rightarrow> search_space_line list" where
  "buildSearchSpaceLines replacementContent = search_lines_from 0 0 (split_on NL replacementContent)"

text \<open>The start of a range, decided at the first line it touches.\<close>

definition range_start :: "search_space_line \<Rightarrow> int \<Rightarrow> int \<Rightarrow> int" where
  "range_start line searchIndex searchEnd =
     (let lineStart = int (sl_searchStart line); lineEnd = lineStart + int (sl_searchLength line)
      in if searchIndex = lineStart - 1 then int (sl_replacementStart line) - 1
         else int (sl_replacementStart line) +
           (if searchIndex = lineStart \<and> searchEnd \<ge> lineEnd then 0 else int (sl_leading line) + (searchIndex - lineStart)))"

fun map_range :: "search_space_line list \<Rightarrow> int \<Rightarrow> int \<Rightarrow> int option \<Rightarrow> (int \<times> int) option" where
  "map_range [] searchIndex searchEnd index = None"
| "map_range (line # lines) searchIndex searchEnd index =
     (let lineEnd = int (sl_searchStart line) + int (sl_searchLength line);
          index1 = (if index = None \<and> searchIndex < lineEnd then Some (range_start line searchIndex searchEnd) else index)
      in case index1 of
           Some i \<Rightarrow>
             if searchEnd \<le> lineEnd
             then Some (i, int (sl_replacementStart line) + int (sl_leading line) + (searchEnd - int (sl_searchStart line)))
             else map_range lines searchIndex searchEnd index1
         | None \<Rightarrow> map_range lines searchIndex searchEnd None)"

definition mapSearchRangeToReplacementSpace :: "search_space_line list \<Rightarrow> int \<Rightarrow> int \<Rightarrow> int \<times> int" where
  "mapSearchRangeToReplacementSpace lines searchIndex searchLength =
     (case map_range lines searchIndex (searchIndex + searchLength) None of
        None \<Rightarrow> (searchIndex, searchLength)
      | Some (i, e) \<Rightarrow> (i, e - i))"

section \<open>Indentation\<close>

text \<open>The line of \<open>content\<close> at offset \<open>i\<close> starts after the last newline before \<open>i\<close>.\<close>

definition line_start :: "jstr \<Rightarrow> nat \<Rightarrow> nat" where
  "line_start content i = i - length (takeWhile (\<lambda>c. c \<noteq> NL) (rev (take i content)))"

definition shift_line :: "jstr \<Rightarrow> nat \<Rightarrow> jstr \<Rightarrow> jstr" where
  "shift_line added removed line =
     (let leading = leadingWhitespace line
      in if length leading = length line then line
         else if removed > 0 then drop (min removed (length leading)) leading @ drop (length leading) line
         else added @ line)"

definition adjustReplacementIndentation :: "jstr \<Rightarrow> nat \<Rightarrow> jstr \<Rightarrow> jstr \<Rightarrow> jstr" where
  "adjustReplacementIndentation baseContent matchIndex oldText newText =
     (let oldLines = split_on NL oldText;
          newLines = split_on NL newText;
          atNewline = (matchIndex < length baseContent \<and> baseContent ! matchIndex = NL);
          lineStart = (if atNewline then matchIndex + 1 else line_start baseContent matchIndex);
          aligned = (if atNewline then 1 else 0)
      in if \<not> atNewline \<and> lineStart \<noteq> matchIndex then newText
         else if atNewline \<and> (length oldLines < 2 \<or> oldLines ! 0 \<noteq> []) then newText
         else if aligned \<ge> length oldLines \<or> aligned \<ge> length newLines then newText
         else
           let oldBaseline = leadingWhitespace (oldLines ! aligned);
               newBaseline = leadingWhitespace (newLines ! aligned);
               fileBaseline = leadingWhitespace (takeWhile (\<lambda>c. c \<noteq> NL) (drop lineStart baseContent))
           in if newBaseline \<noteq> oldBaseline \<or> newBaseline = fileBaseline then newText
              else if starts_with fileBaseline newBaseline
              then join [NL] (take aligned newLines @
                map (shift_line (drop (length newBaseline) fileBaseline) 0) (drop aligned newLines))
              else if starts_with newBaseline fileBaseline
              then join [NL] (take aligned newLines @
                map (shift_line [] (length newBaseline - length fileBaseline)) (drop aligned newLines))
              else newText)"

section \<open>Replacement\<close>

text \<open>\<open>content.match(/[^\n]*\n|[^\n]+/g)\<close>.\<close>

fun splitLinesWithEndings :: "jstr \<Rightarrow> jstr list" where
  "splitLinesWithEndings [] = []"
| "splitLinesWithEndings (c # cs) =
     (if c = NL then [NL] # splitLinesWithEndings cs
      else case splitLinesWithEndings cs of
             [] \<Rightarrow> [[c]]
           | l # ls \<Rightarrow> (c # l) # ls)"

record text_replacement =
  re_matchIndex :: nat
  re_matchLength :: nat
  re_newText :: jstr

fun line_spans_from :: "nat \<Rightarrow> jstr list \<Rightarrow> (nat \<times> nat) list" where
  "line_spans_from offset [] = []"
| "line_spans_from offset (line # lines) =
     (offset, offset + length line) # line_spans_from (offset + length line) lines"

definition getLineSpans :: "jstr \<Rightarrow> (nat \<times> nat) list" where
  "getLineSpans content = line_spans_from 0 (splitLinesWithEndings content)"

definition outside_error :: jstr where
  "outside_error = js ''Replacement range is outside the base content.''"

text \<open>First touched line and the line after the last touched one.\<close>

fun end_line :: "(nat \<times> nat) list \<Rightarrow> nat \<Rightarrow> nat \<Rightarrow> nat option" where
  "end_line [] i replacementEnd = None"
| "end_line ((s, e) # spans) i replacementEnd =
     (if e < replacementEnd then end_line spans (Suc i) replacementEnd else Some i)"

definition getReplacementLineRange :: "(nat \<times> nat) list \<Rightarrow> text_replacement \<Rightarrow> jstr + nat \<times> nat" where
  "getReplacementLineRange lines replacement =
     (case find_index (\<lambda>(s, e). s \<le> re_matchIndex replacement \<and> re_matchIndex replacement < e) lines of
        None \<Rightarrow> Inl outside_error
      | Some startLine \<Rightarrow>
          (case end_line (drop startLine lines) startLine (re_matchIndex replacement + re_matchLength replacement) of
             None \<Rightarrow> Inl outside_error
           | Some endLine \<Rightarrow> Inr (startLine, endLine + 1)))"

definition apply_one :: "nat \<Rightarrow> text_replacement \<Rightarrow> jstr \<Rightarrow> jstr" where
  "apply_one offset r content =
     (let matchIndex = re_matchIndex r - offset
      in take matchIndex content @ re_newText r @ drop (matchIndex + re_matchLength r) content)"

text \<open>Applied last one first.\<close>

definition applyReplacements :: "jstr \<Rightarrow> text_replacement list \<Rightarrow> nat \<Rightarrow> jstr" where
  "applyReplacements content replacements offset = foldr (apply_one offset) replacements content"

record replacement_group =
  gr_startLine :: nat
  gr_endLine :: nat
  gr_replacements :: "text_replacement list"

text \<open>The groups, latest first while they are built.\<close>

fun group_replacements ::
    "(nat \<times> nat) list \<Rightarrow> text_replacement list \<Rightarrow> replacement_group list \<Rightarrow> jstr + replacement_group list" where
  "group_replacements spans [] groups = Inr (rev groups)"
| "group_replacements spans (r # rs) groups =
     (case getReplacementLineRange spans r of
        Inl err \<Rightarrow> Inl err
      | Inr (s, e) \<Rightarrow>
          (case groups of
             [] \<Rightarrow> group_replacements spans rs [\<lparr>gr_startLine = s, gr_endLine = e, gr_replacements = [r]\<rparr>]
           | g # gs \<Rightarrow>
               if s < gr_endLine g
               then group_replacements spans rs
                 (g\<lparr>gr_endLine := max (gr_endLine g) e, gr_replacements := gr_replacements g @ [r]\<rparr> # gs)
               else group_replacements spans rs (\<lparr>gr_startLine = s, gr_endLine = e, gr_replacements = [r]\<rparr> # g # gs)))"

fun assemble_groups :: "jstr list \<Rightarrow> jstr \<Rightarrow> (nat \<times> nat) list \<Rightarrow> nat \<Rightarrow> replacement_group list \<Rightarrow> jstr" where
  "assemble_groups originalLines baseContent spans lineIndex [] = concat (drop lineIndex originalLines)"
| "assemble_groups originalLines baseContent spans lineIndex (g # gs) =
     (let groupStart = fst (spans ! gr_startLine g); groupEnd = snd (spans ! (gr_endLine g - 1))
      in concat (drop lineIndex (take (gr_startLine g) originalLines)) @
         applyReplacements (drop groupStart (take groupEnd baseContent)) (gr_replacements g) groupStart @
         assemble_groups originalLines baseContent spans (gr_endLine g) gs)"

definition applyReplacementsPreservingUnchangedLines ::
    "jstr \<Rightarrow> jstr \<Rightarrow> text_replacement list \<Rightarrow> jstr + jstr" where
  "applyReplacementsPreservingUnchangedLines originalContent baseContent replacements =
     (let originalLines = splitLinesWithEndings originalContent; spans = getLineSpans baseContent
      in if length originalLines \<noteq> length spans
         then Inl (js ''Cannot preserve unchanged lines because the base content has a different line count.'')
         else case group_replacements spans (sort_key re_matchIndex replacements) [] of
                Inl err \<Rightarrow> Inl err
              | Inr groups \<Rightarrow> Inr (assemble_groups originalLines baseContent spans 0 groups))"

end
