(* ===== verification/Edit_Apply.thy ===== *)
theory Edit_Apply
  imports Edit_Text
begin

text \<open>
  Matching and application of edits and the rendering of their diff
  (packages/coding-agent/src/core/tools/edit-diff.ts), and the edit tool on a file
  (packages/coding-agent/src/core/tools/edit.ts).
\<close>

section \<open>Matching\<close>

record fuzzy_match_result =
  fm_found :: bool
  fm_index :: int
  fm_matchLength :: int
  fm_usedFuzzyMatch :: bool
  fm_contentForReplacement :: jstr

record edit =
  ed_oldText :: jstr
  ed_newText :: jstr

definition search_text :: "(jstr \<Rightarrow> jstr) \<Rightarrow> jstr \<Rightarrow> jstr" where
  "search_text nfkc text = normalizeForFuzzyMatchSearch (normalizeForFuzzyMatch nfkc text)"

definition fuzzyFindText :: "(jstr \<Rightarrow> jstr) \<Rightarrow> jstr \<Rightarrow> jstr \<Rightarrow> fuzzy_match_result" where
  "fuzzyFindText nfkc content oldText =
     (case index_of content oldText of
        Some i \<Rightarrow> \<lparr>fm_found = True, fm_index = int i, fm_matchLength = int (length oldText), fm_usedFuzzyMatch = False,
                   fm_contentForReplacement = content\<rparr>
      | None \<Rightarrow>
          (let fuzzyContent = normalizeForFuzzyMatch nfkc content;
               searchContent = normalizeForFuzzyMatchSearch fuzzyContent;
               searchOldText = search_text nfkc oldText
           in case index_of searchContent searchOldText of
                None \<Rightarrow> \<lparr>fm_found = False, fm_index = -1, fm_matchLength = 0, fm_usedFuzzyMatch = False,
                         fm_contentForReplacement = content\<rparr>
              | Some i \<Rightarrow>
                  (let mapped = mapSearchRangeToReplacementSpace (buildSearchSpaceLines fuzzyContent) (int i) (int (length searchOldText))
                   in \<lparr>fm_found = True, fm_index = fst mapped, fm_matchLength = snd mapped, fm_usedFuzzyMatch = True,
                       fm_contentForReplacement = fuzzyContent\<rparr>)))"

text \<open>The pieces of \<open>s.split(p)\<close> less one: non-overlapping occurrences, or units for the empty separator.\<close>

function occurrences :: "jstr \<Rightarrow> jstr \<Rightarrow> nat" where
  "occurrences s p =
     (if s = [] \<or> p = [] then 0
      else if starts_with s p then Suc (occurrences (drop (length p) s) p)
      else occurrences (tl s) p)"
  by pat_completeness auto
termination by (relation "measure (\<lambda>(s, p). length s)") auto

declare occurrences.simps [simp del]

definition countOccurrences :: "(jstr \<Rightarrow> jstr) \<Rightarrow> jstr \<Rightarrow> jstr \<Rightarrow> int" where
  "countOccurrences nfkc content oldText =
     (let searchContent = search_text nfkc content; searchOldText = search_text nfkc oldText
      in if searchOldText = [] then int (length searchContent) - 1 else int (occurrences searchContent searchOldText))"

section \<open>Near misses\<close>

definition NEAR_MISS_CONTEXT_LINES :: nat where "NEAR_MISS_CONTEXT_LINES = 3"
definition NEAR_MISS_MAX_LINE_CHARS :: nat where "NEAR_MISS_MAX_LINE_CHARS = 200"

fun bigrams :: "jstr \<Rightarrow> jstr list" where
  "bigrams (c # d # cs) = List.insert [c, d] (bigrams (d # cs))"
| "bigrams _ = []"

definition bigramSimilarity :: "jstr \<Rightarrow> jstr \<Rightarrow> rat" where
  "bigramSimilarity a b =
     (if length a < 2 \<or> length b < 2 then (if a = b \<and> length a > 0 then 1 else 0)
      else if a = b then 1
      else
        let gramsA = bigrams a; gramsB = bigrams b; overlap = length (filter (\<lambda>g. g \<in> set gramsB) gramsA)
        in Fract (int (2 * overlap)) (int (length gramsA + length gramsB)))"

fun best_line :: "jstr \<Rightarrow> jstr list \<Rightarrow> nat \<Rightarrow> rat \<Rightarrow> nat option \<Rightarrow> nat option" where
  "best_line probe [] i bestScore best = best"
| "best_line probe (line # lines) i bestScore best =
     (let t = trim line;
          score = (if index_of t probe \<noteq> None then 1 else bigramSimilarity t probe)
      in if score > bestScore then best_line probe lines (Suc i) score (Some i)
         else best_line probe lines (Suc i) bestScore best)"

definition nearestMatchContext :: "jstr \<Rightarrow> jstr \<Rightarrow> jstr \<Rightarrow> jstr option" where
  "nearestMatchContext content oldText path =
     (case find (\<lambda>line. length line > 0) (map trim (split_on NL oldText)) of
        None \<Rightarrow> None
      | Some probe \<Rightarrow>
          (let lines = split_on NL content
           in case best_line probe lines 0 0 None of
                None \<Rightarrow> None
              | Some bestIndex \<Rightarrow>
                  (let start = bestIndex - 1; snippet = take NEAR_MISS_CONTEXT_LINES (drop start lines)
                   in Some (join [NL] (map (\<lambda>(offset, line).
                        path @ js '':'' @ nat_str (start + offset + 1) @ js '': '' @
                        (if length line > NEAR_MISS_MAX_LINE_CHARS then take NEAR_MISS_MAX_LINE_CHARS line @ [0x2026] else line))
                        (List.enumerate 0 snippet))))))"

section \<open>Errors\<close>

definition with_context :: "jstr \<Rightarrow> string \<Rightarrow> jstr option \<Rightarrow> jstr" where
  "with_context base label context =
     (case context of None \<Rightarrow> base | Some c \<Rightarrow> if c = [] then base else base @ js label @ [NL, NL] @ c)"

definition getNotFoundError :: "jstr \<Rightarrow> nat \<Rightarrow> nat \<Rightarrow> jstr option \<Rightarrow> jstr" where
  "getNotFoundError path editIndex totalEdits context =
     with_context
       (if totalEdits = 1
        then js ''Could not find the exact text in '' @ path @ js ''. The old text must match exactly including all whitespace and newlines.''
        else js ''Could not find edits['' @ nat_str editIndex @ js ''] in '' @ path @ js ''. The oldText must match exactly including all whitespace and newlines.'')
       '' Closest match in the file:'' context"

definition getDuplicateError :: "jstr \<Rightarrow> nat \<Rightarrow> nat \<Rightarrow> int \<Rightarrow> jstr option \<Rightarrow> jstr" where
  "getDuplicateError path editIndex totalEdits found_count context =
     with_context
       (if totalEdits = 1
        then js ''Found '' @ int_str found_count @ js '' occurrences of the text in '' @ path @ js ''. The text must be unique. Please provide more context to make it unique.''
        else js ''Found '' @ int_str found_count @ js '' occurrences of edits['' @ nat_str editIndex @ js ''] in '' @ path @ js ''. Each oldText must be unique. Please provide more context to make it unique.'')
       '' First occurrence:'' context"

definition getEmptyOldTextError :: "jstr \<Rightarrow> nat \<Rightarrow> nat \<Rightarrow> jstr" where
  "getEmptyOldTextError path editIndex totalEdits =
     (if totalEdits = 1 then js ''oldText must not be empty in '' @ path @ js ''.''
      else js ''edits['' @ nat_str editIndex @ js ''].oldText must not be empty in '' @ path @ js ''.'')"

definition getNoChangeError :: "jstr \<Rightarrow> nat \<Rightarrow> jstr" where
  "getNoChangeError path totalEdits =
     (if totalEdits = 1
      then js ''No changes made to '' @ path @ js ''. The replacement produced identical content. This might indicate an issue with special characters or the text not existing as expected.''
      else js ''No changes made to '' @ path @ js ''. The replacements produced identical content.'')"

definition overlap_error :: "jstr \<Rightarrow> nat \<Rightarrow> nat \<Rightarrow> jstr" where
  "overlap_error path i j =
     js ''edits['' @ nat_str i @ js ''] and edits['' @ nat_str j @ js ''] overlap in '' @ path @ js ''. Merge them into one edit or target disjoint regions.''"

section \<open>Application\<close>

record matched_edit = text_replacement +
  me_editIndex :: nat

text \<open>One edit against the base content.\<close>

definition match_edit ::
    "(jstr \<Rightarrow> jstr) \<Rightarrow> jstr \<Rightarrow> jstr \<Rightarrow> jstr \<Rightarrow> nat \<Rightarrow> nat \<Rightarrow> edit \<Rightarrow> jstr + matched_edit" where
  "match_edit nfkc normalizedContent base path totalEdits i e =
     (let m = fuzzyFindText nfkc base (ed_oldText e)
      in if \<not> fm_found m
         then Inl (getNotFoundError path i totalEdits (nearestMatchContext normalizedContent (ed_oldText e) path))
         else
           let found_count = countOccurrences nfkc base (ed_oldText e)
           in if found_count > 1
              then Inl (getDuplicateError path i totalEdits found_count (nearestMatchContext normalizedContent (ed_oldText e) path))
              else Inr \<lparr>re_matchIndex = nat (fm_index m), re_matchLength = nat (fm_matchLength m),
                        re_newText = (if fm_usedFuzzyMatch m
                          then adjustReplacementIndentation base (nat (fm_index m)) (ed_oldText e) (ed_newText e)
                          else ed_newText e),
                        me_editIndex = i\<rparr>)"

fun match_edits ::
    "(jstr \<Rightarrow> jstr) \<Rightarrow> jstr \<Rightarrow> jstr \<Rightarrow> jstr \<Rightarrow> nat \<Rightarrow> nat \<Rightarrow> edit list \<Rightarrow> jstr + matched_edit list" where
  "match_edits nfkc normalizedContent base path totalEdits i [] = Inr []"
| "match_edits nfkc normalizedContent base path totalEdits i (e # es) =
     (case match_edit nfkc normalizedContent base path totalEdits i e of
        Inl err \<Rightarrow> Inl err
      | Inr m \<Rightarrow> (case match_edits nfkc normalizedContent base path totalEdits (Suc i) es of Inl err \<Rightarrow> Inl err | Inr ms \<Rightarrow> Inr (m # ms)))"

fun first_overlap :: "matched_edit list \<Rightarrow> (matched_edit \<times> matched_edit) option" where
  "first_overlap (a # b # ms) =
     (if re_matchIndex a + re_matchLength a > re_matchIndex b then Some (a, b) else first_overlap (b # ms))"
| "first_overlap _ = None"

definition plain_replacement :: "matched_edit \<Rightarrow> text_replacement" where
  "plain_replacement m = \<lparr>re_matchIndex = re_matchIndex m, re_matchLength = re_matchLength m, re_newText = re_newText m\<rparr>"

definition normalize_edit :: "edit \<Rightarrow> edit" where
  "normalize_edit e = \<lparr>ed_oldText = normalizeToLF (ed_oldText e), ed_newText = normalizeToLF (ed_newText e)\<rparr>"

definition applyEditsToNormalizedContent ::
    "(jstr \<Rightarrow> jstr) \<Rightarrow> jstr \<Rightarrow> edit list \<Rightarrow> jstr \<Rightarrow> jstr + jstr \<times> jstr" where
  "applyEditsToNormalizedContent nfkc normalizedContent edits path =
     (let es = map normalize_edit edits; totalEdits = length es
      in case find_index (\<lambda>e. length (ed_oldText e) = 0) es of
           Some i \<Rightarrow> Inl (getEmptyOldTextError path i totalEdits)
         | None \<Rightarrow>
             (let usedFuzzyMatch = list_ex (\<lambda>e. fm_usedFuzzyMatch (fuzzyFindText nfkc normalizedContent (ed_oldText e))) es;
                  base = (if usedFuzzyMatch then normalizeForFuzzyMatch nfkc normalizedContent else normalizedContent)
              in case match_edits nfkc normalizedContent base path totalEdits 0 es of
                   Inl err \<Rightarrow> Inl err
                 | Inr matched \<Rightarrow>
                     (let sorted_edits = sort_key re_matchIndex matched
                      in case first_overlap sorted_edits of
                           Some (a, b) \<Rightarrow> Inl (overlap_error path (me_editIndex a) (me_editIndex b))
                         | None \<Rightarrow>
                             (let replacements = map plain_replacement sorted_edits
                              in case (if usedFuzzyMatch
                                       then applyReplacementsPreservingUnchangedLines normalizedContent base replacements
                                       else Inr (applyReplacements base replacements 0)) of
                                   Inl err \<Rightarrow> Inl err
                                 | Inr newContent \<Rightarrow>
                                     if normalizedContent = newContent then Inl (getNoChangeError path totalEdits)
                                     else Inr (normalizedContent, newContent)))))"

section \<open>Diffs\<close>

text \<open>A part of a line diff.\<close>

record diff_part =
  df_value :: jstr
  df_added :: bool
  df_removed :: bool

definition part_lines :: "diff_part \<Rightarrow> jstr list" where
  "part_lines p = (let raw = split_on NL (df_value p) in if last raw = [] then butlast raw else raw)"

definition countLineChanges :: "diff_part list \<Rightarrow> nat \<times> nat" where
  "countLineChanges parts =
     (sum_list (map (\<lambda>p. if df_added p then length (part_lines p) else 0) parts),
      sum_list (map (\<lambda>p. if df_removed p \<and> \<not> df_added p then length (part_lines p) else 0) parts))"

definition padStart :: "nat \<Rightarrow> jstr \<Rightarrow> jstr" where
  "padStart width s = replicate (width - length s) 32 @ s"

record diff_state =
  dg_old :: nat
  dg_new :: nat
  dg_lastWasChange :: bool
  dg_first :: "nat option"
  dg_output :: "jstr list"

definition numbered :: "nat \<Rightarrow> unit16 \<Rightarrow> nat \<Rightarrow> jstr \<Rightarrow> jstr" where
  "numbered width sign n line = sign # padStart width (nat_str n) @ [32] @ line"

definition show_changed :: "nat \<Rightarrow> bool \<Rightarrow> jstr \<Rightarrow> diff_state \<Rightarrow> diff_state" where
  "show_changed width added line s =
     (if added then s\<lparr>dg_output := dg_output s @ [numbered width 43 (dg_new s) line], dg_new := dg_new s + 1\<rparr>
      else s\<lparr>dg_output := dg_output s @ [numbered width 45 (dg_old s) line], dg_old := dg_old s + 1\<rparr>)"

definition show_context :: "nat \<Rightarrow> jstr \<Rightarrow> diff_state \<Rightarrow> diff_state" where
  "show_context width line s =
     s\<lparr>dg_output := dg_output s @ [numbered width 32 (dg_old s) line], dg_old := dg_old s + 1, dg_new := dg_new s + 1\<rparr>"

definition skip_context :: "nat \<Rightarrow> nat \<Rightarrow> diff_state \<Rightarrow> diff_state" where
  "skip_context width n s =
     s\<lparr>dg_output := dg_output s @ [32 # padStart width [] @ js '' ...''], dg_old := dg_old s + n, dg_new := dg_new s + n\<rparr>"

definition context_part :: "nat \<Rightarrow> nat \<Rightarrow> bool \<Rightarrow> jstr list \<Rightarrow> diff_state \<Rightarrow> diff_state" where
  "context_part width contextLines nextIsChange raw s =
     (if dg_lastWasChange s \<and> nextIsChange then
        (if length raw \<le> contextLines * 2 then fold (show_context width) raw s
         else fold (show_context width) (drop (length raw - contextLines) raw)
           (skip_context width (length raw - contextLines - contextLines)
             (fold (show_context width) (take contextLines raw) s)))
      else if dg_lastWasChange s then
        (let s1 = fold (show_context width) (take contextLines raw) s; skipped = length raw - length (take contextLines raw)
         in if skipped > 0 then skip_context width skipped s1 else s1)
      else if nextIsChange then
        (let skipped = length raw - contextLines; s1 = (if skipped > 0 then skip_context width skipped s else s)
         in fold (show_context width) (drop skipped raw) s1)
      else s\<lparr>dg_old := dg_old s + length raw, dg_new := dg_new s + length raw\<rparr>)"

fun diff_parts :: "nat \<Rightarrow> nat \<Rightarrow> diff_part list \<Rightarrow> diff_state \<Rightarrow> diff_state" where
  "diff_parts width contextLines [] s = s"
| "diff_parts width contextLines (p # ps) s =
     (let raw = part_lines p
      in if df_added p \<or> df_removed p
         then
           let s1 = s\<lparr>dg_first := (case dg_first s of None \<Rightarrow> Some (dg_new s) | Some n \<Rightarrow> Some n)\<rparr>
           in diff_parts width contextLines ps ((fold (show_changed width (df_added p)) raw s1)\<lparr>dg_lastWasChange := True\<rparr>)
         else
           let nextIsChange = (case ps of [] \<Rightarrow> False | q # _ \<Rightarrow> df_added q \<or> df_removed q)
           in diff_parts width contextLines ps
                ((context_part width contextLines nextIsChange raw s)\<lparr>dg_lastWasChange := False\<rparr>))"

definition generateDiffString :: "diff_part list \<Rightarrow> jstr \<Rightarrow> jstr \<Rightarrow> nat \<Rightarrow> jstr \<times> nat option" where
  "generateDiffString parts oldContent newContent contextLines =
     (let maxLineNum = max (length (split_on NL oldContent)) (length (split_on NL newContent));
          width = length (nat_str maxLineNum);
          s = diff_parts width contextLines parts
                \<lparr>dg_old = 1, dg_new = 1, dg_lastWasChange = False, dg_first = None, dg_output = []\<rparr>
      in (join [NL] (dg_output s), dg_first s))"

section \<open>The edit tool\<close>

text \<open>
  The file operations the tool calls: \<open>access\<close> and \<open>readFile\<close> of a path, \<open>writeFile\<close>, and the state of
  the abort signal, all over a world. A failed read or write is a thrown error; a buffer that was read
  is given by its decoded text.
\<close>

record 'w edit_operations =
  eo_access :: "'w \<Rightarrow> jstr option \<times> 'w"
  eo_readFile :: "'w \<Rightarrow> (jstr + jstr) \<times> 'w"
  eo_writeFile :: "jstr \<Rightarrow> 'w \<Rightarrow> jstr option \<times> 'w"
  eo_aborted :: "'w \<Rightarrow> bool"

definition abort_error :: jstr where "abort_error = js ''Operation aborted''"

definition edit_execute ::
    "(jstr \<Rightarrow> jstr) \<Rightarrow> (jstr \<Rightarrow> jstr \<Rightarrow> diff_part list) \<Rightarrow> 'w edit_operations \<Rightarrow> jstr \<Rightarrow> edit list \<Rightarrow> 'w \<Rightarrow>
     (jstr + jstr \<times> jstr \<times> nat option) \<times> 'w" where
  "edit_execute nfkc diffLines ops path edits w =
     (if edits = [] then (Inl (js ''Edit tool input is invalid. edits must contain at least one replacement.''), w)
      else if eo_aborted ops w then (Inl abort_error, w)
      else case eo_access ops w of
        (Some err, w1) \<Rightarrow>
          (Inl (if eo_aborted ops w1 then abort_error else js ''Could not edit file: '' @ path @ js ''. '' @ err @ js ''.''), w1)
      | (None, w1) \<Rightarrow>
          if eo_aborted ops w1 then (Inl abort_error, w1)
          else case eo_readFile ops w1 of
            (Inl err, w2) \<Rightarrow> (Inl err, w2)
          | (Inr rawContent, w2) \<Rightarrow>
              if eo_aborted ops w2 then (Inl abort_error, w2)
              else
                let (bom, content) = splitBom rawContent
                in case applyEditsToNormalizedContent nfkc (normalizeToLF content) edits path of
                     Inl err \<Rightarrow> (Inl err, w2)
                   | Inr (baseContent, newContent) \<Rightarrow>
                       if eo_aborted ops w2 then (Inl abort_error, w2)
                       else (case eo_writeFile ops (bom @ restoreLineEndings newContent (detectLineEnding content)) w2 of
                          (Some err, w3) \<Rightarrow> (Inl err, w3)
                        | (None, w3) \<Rightarrow>
                            if eo_aborted ops w3 then (Inl abort_error, w3)
                            else
                              let (diff, firstChangedLine) = generateDiffString (diffLines baseContent newContent) baseContent newContent 4
                              in (Inr (js ''Successfully replaced '' @ nat_str (length edits) @ js '' block(s) in '' @ path @ js ''.'',
                                       diff, firstChangedLine), w3)))"

text \<open>The preview of the terminal interface: the same matching without a write.\<close>

definition computeEditsDiff ::
    "(jstr \<Rightarrow> jstr) \<Rightarrow> (jstr \<Rightarrow> jstr \<Rightarrow> diff_part list) \<Rightarrow> 'w edit_operations \<Rightarrow> jstr \<Rightarrow> edit list \<Rightarrow> 'w \<Rightarrow>
     (jstr + jstr \<times> nat option) \<times> 'w" where
  "computeEditsDiff nfkc diffLines ops path edits w =
     (case eo_access ops w of
        (Some err, w1) \<Rightarrow> (Inl (js ''Could not edit file: '' @ path @ js ''. '' @ err @ js ''.''), w1)
      | (None, w1) \<Rightarrow>
          (case eo_readFile ops w1 of
             (Inl err, w2) \<Rightarrow> (Inl err, w2)
           | (Inr rawContent, w2) \<Rightarrow>
               (case applyEditsToNormalizedContent nfkc (normalizeToLF (snd (splitBom rawContent))) edits path of
                  Inl err \<Rightarrow> (Inl err, w2)
                | Inr (baseContent, newContent) \<Rightarrow>
                    (Inr (generateDiffString (diffLines baseContent newContent) baseContent newContent 4), w2))))"

definition computeEditDiff ::
    "(jstr \<Rightarrow> jstr) \<Rightarrow> (jstr \<Rightarrow> jstr \<Rightarrow> diff_part list) \<Rightarrow> 'w edit_operations \<Rightarrow> jstr \<Rightarrow> jstr \<Rightarrow> jstr \<Rightarrow> 'w \<Rightarrow>
     (jstr + jstr \<times> nat option) \<times> 'w" where
  "computeEditDiff nfkc diffLines ops path oldText newText w =
     computeEditsDiff nfkc diffLines ops path [\<lparr>ed_oldText = oldText, ed_newText = newText\<rparr>] w"

end
