(* ===== verification/Edit_Correct.thy ===== *)
theory Edit_Correct
  imports Edit_Apply
begin

text \<open>
  Correctness of the edit tool: replacing regions back to front is splicing the text once from left to
  right, exact edits replace exactly their old texts, fuzzy edits replace regions with the same search
  form and rewrite no other line, and line endings and the byte order mark survive.
\<close>

section \<open>Splicing\<close>

text \<open>Reference: gaps and regions alternate, starting and ending with a gap.\<close>

fun weave :: "jstr list \<Rightarrow> jstr list \<Rightarrow> jstr" where
  "weave (g # gs) (r # rs) = g @ r @ weave gs rs"
| "weave gs [] = concat gs"
| "weave [] rs = []"

text \<open>Regions in order, disjoint and inside the text from \<open>off\<close> to \<open>fin\<close>.\<close>

fun fits :: "nat \<Rightarrow> nat \<Rightarrow> text_replacement list \<Rightarrow> bool" where
  "fits off fin [] \<longleftrightarrow> off \<le> fin"
| "fits off fin (r # rs) \<longleftrightarrow> off \<le> re_matchIndex r \<and> fits (re_matchIndex r + re_matchLength r) fin rs"

fun gaps_of :: "nat \<Rightarrow> jstr \<Rightarrow> text_replacement list \<Rightarrow> jstr list" where
  "gaps_of off c [] = [c]"
| "gaps_of off c (r # rs) =
     take (re_matchIndex r - off) c #
     gaps_of (re_matchIndex r + re_matchLength r) (drop (re_matchIndex r + re_matchLength r - off) c) rs"

definition region :: "nat \<Rightarrow> jstr \<Rightarrow> text_replacement \<Rightarrow> jstr" where
  "region off c r = take (re_matchLength r) (drop (re_matchIndex r - off) c)"

lemma fits_le: "fits off fin rs \<Longrightarrow> off \<le> fin"
  by (induction rs arbitrary: off) fastforce+

lemma fits_mono: "fits off fin rs \<Longrightarrow> off' \<le> off \<Longrightarrow> fits off' fin rs"
  by (cases rs) auto

lemma length_gaps_of [simp]: "length (gaps_of off c rs) = Suc (length rs)"
  by (induction rs arbitrary: off c) auto

lemma fits_index: "fits off fin rs \<Longrightarrow> r \<in> set rs \<Longrightarrow> off \<le> re_matchIndex r \<and> re_matchIndex r + re_matchLength r \<le> fin"
proof (induction rs arbitrary: off)
  case (Cons a rs)
  show ?case
  proof (cases "r = a")
    case True
    with Cons.prems show ?thesis by (auto dest: fits_le)
  next
    case False
    with Cons.prems Cons.IH [of "re_matchIndex a + re_matchLength a"] show ?thesis by auto
  qed
qed simp

text \<open>Back-to-front application with a text before the offset that the regions do not touch.\<close>

lemma apply_replacements_weave:
  "fits (off + length pre) (off + length pre + length c) rs \<Longrightarrow>
   applyReplacements (pre @ c) rs off = pre @ weave (gaps_of (off + length pre) c rs) (map re_newText rs)"
proof (induction rs arbitrary: pre c)
  case Nil
  then show ?case by (simp add: applyReplacements_def)
next
  case (Cons r rs)
  define k where "k = re_matchIndex r + re_matchLength r - (off + length pre)"
  from Cons.prems have le: "off + length pre \<le> re_matchIndex r" and f: "fits (re_matchIndex r + re_matchLength r) (off + length pre + length c) rs" by auto
  from fits_le [OF f] le have k: "k \<le> length c" "off + length pre + k = re_matchIndex r + re_matchLength r" by (auto simp: k_def)
  have "applyReplacements ((pre @ take k c) @ drop k c) rs off =
      (pre @ take k c) @ weave (gaps_of (re_matchIndex r + re_matchLength r) (drop k c) rs) (map re_newText rs)"
    using Cons.IH [of "pre @ take k c" "drop k c"] f k by (simp add: add.assoc)
  then have "applyReplacements (pre @ c) rs off =
      pre @ take k c @ weave (gaps_of (re_matchIndex r + re_matchLength r) (drop k c) rs) (map re_newText rs)" by simp
  moreover have "re_matchIndex r - off \<le> length pre + k" "re_matchIndex r - off + re_matchLength r = length pre + k"
    using le k by auto
  ultimately show ?case using le k
    by (simp add: applyReplacements_def apply_one_def Let_def k_def [symmetric] min_def)
qed

lemma weave_regions: "fits off (off + length c) rs \<Longrightarrow> weave (gaps_of off c rs) (map (region off c) rs) = c"
proof (induction rs arbitrary: off c)
  case (Cons r rs)
  let ?e = "re_matchIndex r + re_matchLength r"
  from Cons.prems have le: "off \<le> re_matchIndex r" and f: "fits ?e (off + length c) rs" by auto
  have "map (region off c) rs = map (region ?e (drop (?e - off) c)) rs"
    using fits_index [OF f] le by (auto simp: region_def)
  moreover have "weave (gaps_of ?e (drop (?e - off) c) rs) (map (region ?e (drop (?e - off) c)) rs) = drop (?e - off) c"
    using Cons.IH [of ?e "drop (?e - off) c"] f le fits_le [OF f] by (simp add: add.commute)
  ultimately have "weave (gaps_of off c (r # rs)) (map (region off c) (r # rs)) =
      take (re_matchIndex r - off) c @ region off c r @ drop (?e - off) c" by (simp del: map_eq_conv)
  also have "... = c"
    using le by (simp add: region_def) (metis append_take_drop_id drop_drop add.commute Nat.add_diff_assoc2)
  finally show ?case .
qed simp

lemma apply_replacements_reference:
  assumes "fits off (off + length c) rs"
  shows "applyReplacements c rs off = weave (gaps_of off c rs) (map re_newText rs)"
    and "c = weave (gaps_of off c rs) (map (region off c) rs)"
  using apply_replacements_weave [of off "[]" c rs] weave_regions [OF assms] assms by auto

section \<open>Line endings\<close>

text \<open>Every line feed follows a carriage return and there is no other carriage return.\<close>

fun crlf_only :: "jstr \<Rightarrow> bool" where
  "crlf_only (c # d # cs) \<longleftrightarrow> (if c = CR then d = NL \<and> crlf_only cs else c \<noteq> NL \<and> crlf_only (d # cs))"
| "crlf_only [c] \<longleftrightarrow> c \<noteq> CR \<and> c \<noteq> NL"
| "crlf_only [] \<longleftrightarrow> True"

definition uniform_endings :: "jstr \<Rightarrow> bool" where
  "uniform_endings c \<longleftrightarrow> CR \<notin> set c \<or> crlf_only c"

definition ending :: "bool \<Rightarrow> unit16 \<Rightarrow> jstr" where
  "ending crlf c = (if crlf \<and> c = NL then [CR, NL] else [c])"

lemma restore_concat: "restoreLineEndings t crlf = concat (map (ending crlf) t)"
  by (cases crlf) (simp_all add: restoreLineEndings_def ending_def [abs_def])

lemma restore_append [simp]: "restoreLineEndings (s @ t) crlf = restoreLineEndings s crlf @ restoreLineEndings t crlf"
  by (simp add: restore_concat)

lemma restore_weave:
  "restoreLineEndings (weave gs rs) crlf =
     weave (map (\<lambda>g. restoreLineEndings g crlf) gs) (map (\<lambda>r. restoreLineEndings r crlf) rs)"
proof (induction gs rs rule: weave.induct)
  case (2 gs)
  show ?case by (induction gs) (simp_all add: restore_concat)
qed (simp_all add: restore_concat)

lemma replace_crlf_id: "CR \<notin> set c \<Longrightarrow> replace_crlf c = c"
  by (induction c rule: replace_crlf.induct) auto

lemma crlf_restored: "crlf_only c \<Longrightarrow> restoreLineEndings (normalizeToLF c) True = c"
  by (induction c rule: replace_crlf.induct) (auto simp: normalizeToLF_def restore_concat ending_def split: if_splits)

lemma crlf_detected: "crlf_only c \<Longrightarrow> NL \<in> set c \<Longrightarrow> detectLineEnding c"
proof -
  assume "crlf_only c" "NL \<in> set c"
  then have "\<exists>i. index_of c [NL] = Some (Suc i) \<and> index_of c [CR, NL] = Some i"
  proof (induction c rule: crlf_only.induct)
    case (1 c d cs)
    then show ?case by (cases "c = CR") (auto simp: starts_with_def)
  qed auto
  then show ?thesis by (auto simp: detectLineEnding_def)
qed

lemma no_crlf: "CR \<notin> set c \<Longrightarrow> index_of c [CR, NL] = None"
  by (induction c) (auto simp: starts_with_def)

lemma crlf_only_no_nl: "crlf_only c \<Longrightarrow> NL \<notin> set c \<Longrightarrow> CR \<notin> set c"
  by (induction c rule: crlf_only.induct) (auto split: if_splits)

lemma line_endings_restored:
  assumes "uniform_endings c"
  shows "restoreLineEndings (normalizeToLF c) (detectLineEnding c) = c"
proof (cases "CR \<in> set c")
  case True
  with assms have "crlf_only c" "NL \<in> set c" using crlf_only_no_nl by (auto simp: uniform_endings_def)
  then show ?thesis using crlf_detected crlf_restored by simp
next
  case False
  then have "normalizeToLF c = c" by (auto simp: normalizeToLF_def replace_crlf_id intro: map_idI)
  moreover from False have "\<not> detectLineEnding c" by (simp add: detectLineEnding_def no_crlf split: option.splits)
  ultimately show ?thesis by (simp add: restoreLineEndings_def)
qed

section \<open>Matched edits\<close>

lemma list_all2_reordered:
  "list_all2 P xs ys \<Longrightarrow> mset ys' = mset ys \<Longrightarrow> \<exists>xs'. mset xs' = mset xs \<and> list_all2 P xs' ys'"
proof (induction ys' arbitrary: xs ys)
  case (Cons y ys')
  then obtain a b where ys: "ys = a @ y # b" by (metis list.set_intros(1) mset_eq_setD split_list)
  with Cons.prems obtain u x v where xs: "xs = u @ x # v" "list_all2 P u a" "P x y" "list_all2 P v b"
    by (auto simp: list_all2_append2 list_all2_Cons2)
  with Cons.prems ys Cons.IH [of "u @ v" "a @ b"] obtain xs' where "mset xs' = mset (u @ v)" "list_all2 P xs' ys'"
    by (auto simp: list_all2_appendI)
  with xs show ?case by (intro exI [of _ "x # xs'"]) simp
qed simp

lemma match_edits_all:
  "match_edits nfkc content base path n i es = Inr ms \<Longrightarrow>
   list_all2 (\<lambda>e m. \<exists>j. match_edit nfkc content base path n j e = Inr m) es ms"
proof (induction es arbitrary: i ms)
  case (Cons e es)
  then show ?case by (force split: sum.splits)
qed simp

lemma no_overlap_fits:
  "first_overlap ms = None \<Longrightarrow> \<forall>m \<in> set ms. re_matchIndex m + re_matchLength m \<le> fin \<Longrightarrow> off \<le> fin \<Longrightarrow>
   (case ms of [] \<Rightarrow> True | m # _ \<Rightarrow> off \<le> re_matchIndex m) \<Longrightarrow> fits off fin (map plain_replacement ms)"
  by (induction ms arbitrary: off rule: first_overlap.induct) (auto simp: plain_replacement_def split: if_splits)

text \<open>What a successful application decides: the base, the matches in text order and their edits.\<close>

lemma apply_edits_success:
  assumes "applyEditsToNormalizedContent nfkc content edits path = Inr (b, n)"
  obtains used base es ms where
    "used = list_ex (\<lambda>e. fm_usedFuzzyMatch (fuzzyFindText nfkc content (ed_oldText e))) (map normalize_edit edits)"
    "base = (if used then normalizeForFuzzyMatch nfkc content else content)"
    "mset es = mset (map normalize_edit edits)"
    "list_all2 (\<lambda>e m. \<exists>j. match_edit nfkc content base path (length edits) j e = Inr m) es ms"
    "first_overlap ms = None" "b = content" "n \<noteq> content"
    "(if used then applyReplacementsPreservingUnchangedLines content base (map plain_replacement ms)
      else Inr (applyReplacements base (map plain_replacement ms) 0)) = Inr n"
    "\<forall>e \<in> set es. ed_oldText e \<noteq> []"
proof -
  let ?es = "map normalize_edit edits"
  define used where "used = list_ex (\<lambda>e. fm_usedFuzzyMatch (fuzzyFindText nfkc content (ed_oldText e))) ?es"
  define base where "base = (if used then normalizeForFuzzyMatch nfkc content else content)"
  from assms have ne: "find_index (\<lambda>e. length (ed_oldText e) = 0) ?es = None"
    by (auto simp: applyEditsToNormalizedContent_def Let_def split: option.splits)
  from assms ne obtain ms0 where m0: "match_edits nfkc content base path (length edits) 0 ?es = Inr ms0"
    by (auto simp: applyEditsToNormalizedContent_def Let_def base_def used_def split: option.splits sum.splits)
  define ms where "ms = sort_key re_matchIndex ms0"
  have "mset ms = mset ms0" by (simp add: ms_def)
  from list_all2_reordered [OF match_edits_all [OF m0] this] obtain es where es: "mset es = mset ?es"
      "list_all2 (\<lambda>e m. \<exists>j. match_edit nfkc content base path (length edits) j e = Inr m) es ms"
    by blast
  from assms ne m0 have rest: "first_overlap ms = None" "b = content \<and> n \<noteq> content"
    "(if used then applyReplacementsPreservingUnchangedLines content base (map plain_replacement ms)
      else Inr (applyReplacements base (map plain_replacement ms) 0)) = Inr n"
    unfolding base_def
    by (auto simp: applyEditsToNormalizedContent_def Let_def base_def used_def [symmetric] ms_def
        split: option.splits sum.splits if_splits)
  from ne have "\<forall>e \<in> set ?es. ed_oldText e \<noteq> []" by (auto simp: find_index_None)
  with es(1) have "\<forall>e \<in> set es. ed_oldText e \<noteq> []" by (metis mset_eq_setD)
  with es rest show ?thesis by (intro that [of used base es ms]) (auto simp: used_def base_def)
qed

section \<open>Exact edits\<close>

lemma fuzzy_find_exact:
  "index_of content oldText = Some i \<Longrightarrow>
   fuzzyFindText nfkc content oldText =
     \<lparr>fm_found = True, fm_index = int i, fm_matchLength = int (length oldText), fm_usedFuzzyMatch = False,
      fm_contentForReplacement = content\<rparr>"
  by (simp add: fuzzyFindText_def)

lemma match_edit_exact:
  assumes "match_edit nfkc content base path n j e = Inr m" "index_of base (ed_oldText e) = Some i"
  shows "re_matchIndex m = i \<and> re_matchLength m = length (ed_oldText e) \<and> re_newText m = ed_newText e"
  using assms by (auto simp: match_edit_def fuzzy_find_exact Let_def split: if_splits)

lemma map_reordered: "mset ys = mset (map f xs) \<Longrightarrow> \<exists>xs'. mset xs' = mset xs \<and> ys = map f xs'"
  using list_all2_reordered [of "\<lambda>x y. y = f x" xs "map f xs" ys]
  by (auto simp: list_all2_conv_all_nth intro!: nth_equalityI)

lemma exact_edits_splice:
  assumes run: "applyEditsToNormalizedContent nfkc content edits path = Inr (b, n)"
    and exact: "\<forall>e \<in> set edits. index_of content (normalizeToLF (ed_oldText e)) \<noteq> None"
  shows "\<exists>gaps es. mset es = mset edits \<and> length gaps = Suc (length es) \<and>
           content = weave gaps (map (\<lambda>e. normalizeToLF (ed_oldText e)) es) \<and>
           n = weave gaps (map (\<lambda>e. normalizeToLF (ed_newText e)) es)"
proof -
  from run obtain used base es ms where u:
    "used = list_ex (\<lambda>e. fm_usedFuzzyMatch (fuzzyFindText nfkc content (ed_oldText e))) (map normalize_edit edits)"
    "base = (if used then normalizeForFuzzyMatch nfkc content else content)"
    and es: "mset es = mset (map normalize_edit edits)"
    and ms: "list_all2 (\<lambda>e m. \<exists>j. match_edit nfkc content base path (length edits) j e = Inr m) es ms"
      "first_overlap ms = None"
    and n: "(if used then applyReplacementsPreservingUnchangedLines content base (map plain_replacement ms)
      else Inr (applyReplacements base (map plain_replacement ms) 0)) = Inr n"
    by (rule apply_edits_success)
  from exact have "\<not> used" by (fastforce simp: u list_ex_iff normalize_edit_def fuzzy_find_exact)
  with u n have base: "base = content" "n = applyReplacements content (map plain_replacement ms) 0" by auto
  from es obtain es0 where es0: "mset es0 = mset edits" "es = map normalize_edit es0" using map_reordered by metis
  from es0 exact have ex: "\<forall>e \<in> set es. \<exists>i. index_of content (ed_oldText e) = Some i"
    by (auto simp: normalize_edit_def dest: mset_eq_setD)
  have each: "list_all2 (\<lambda>e m. region 0 content (plain_replacement m) = ed_oldText e \<and> re_newText m = ed_newText e \<and>
      re_matchIndex m + re_matchLength m \<le> length content) es ms"
    using ms(1)
  proof (rule list.rel_mono_strong)
    fix e m assume "e \<in> set es" "\<exists>j. match_edit nfkc content base path (length edits) j e = Inr m"
    with ex base obtain i where i: "index_of content (ed_oldText e) = Some i" "re_matchIndex m = i"
      "re_matchLength m = length (ed_oldText e)" "re_newText m = ed_newText e"
      using match_edit_exact by metis
    then show "region 0 content (plain_replacement m) = ed_oldText e \<and> re_newText m = ed_newText e \<and>
        re_matchIndex m + re_matchLength m \<le> length content"
      using index_of_Some [OF i(1)] by (simp add: region_def plain_replacement_def)
  qed
  then have maps: "map (region 0 content) (map plain_replacement ms) = map ed_oldText es"
    "map re_newText (map plain_replacement ms) = map ed_newText es"
    and bound: "\<forall>m \<in> set ms. re_matchIndex m + re_matchLength m \<le> length content"
    by (auto simp: list_all2_conv_all_nth plain_replacement_def in_set_conv_nth intro!: nth_equalityI)
  from ms(2) bound have "fits 0 (length content) (map plain_replacement ms)"
    by (intro no_overlap_fits) (auto split: list.splits)
  then have "n = weave (gaps_of 0 content (map plain_replacement ms)) (map ed_newText es)"
    "content = weave (gaps_of 0 content (map plain_replacement ms)) (map ed_oldText es)"
    using apply_replacements_reference [of 0 content "map plain_replacement ms"] maps base by auto
  moreover have "length (gaps_of 0 content (map plain_replacement ms)) = Suc (length es0)"
    using list_all2_lengthD [OF each] es0 by simp
  ultimately show ?thesis using es0
    by (intro exI [of _ "gaps_of 0 content (map plain_replacement ms)"] exI [of _ es0]) (simp add: normalize_edit_def comp_def)
qed

text \<open>Normal form of line endings.\<close>

lemma normalize_no_cr: "CR \<notin> set (normalizeToLF t)"
  by (auto simp: normalizeToLF_def split: if_splits)

lemma normalize_restore: "CR \<notin> set t \<Longrightarrow> normalizeToLF (restoreLineEndings t crlf) = t"
proof (induction t)
  case (Cons c t)
  then have "normalizeToLF (ending crlf c @ restoreLineEndings t crlf) = c # normalizeToLF (restoreLineEndings t crlf)"
    by (cases "restoreLineEndings t crlf") (auto simp: ending_def normalizeToLF_def)
  with Cons show ?case by (simp add: restore_concat)
qed (simp add: restore_concat normalizeToLF_def)

lemma no_cr_weave:
  "CR \<notin> set (weave gs rs) \<Longrightarrow> length gs = Suc (length rs) \<Longrightarrow> \<forall>r \<in> set rs'. CR \<notin> set r \<Longrightarrow> length rs' = length rs \<Longrightarrow>
   CR \<notin> set (weave gs rs')"
proof (induction gs rs arbitrary: rs' rule: weave.induct)
  case (1 g gs r rs)
  then show ?case by (cases rs') auto
qed auto

definition with_ending :: "bool \<Rightarrow> jstr \<Rightarrow> jstr" where
  "with_ending crlf t = restoreLineEndings (normalizeToLF t) crlf"

text \<open>
  C26. A successful edit whose old texts all occur verbatim, of a file with uniform line endings: the
  file read is made of gaps and of the old texts in some order, each in the file's own line endings,
  and the tool writes exactly once, the same gaps (the byte order mark with them) with every old text
  replaced by its new one. The content written differs from the content read.
\<close>

theorem edit_tool_exact:
  assumes run: "edit_execute nfkc diffLines ops path edits w = (Inr out, w')"
    and access: "eo_access ops w = (None, w1)"
    and read: "eo_readFile ops w1 = (Inr raw, w2)"
    and uniform: "uniform_endings (snd (splitBom raw))"
    and exact: "\<forall>e \<in> set edits. index_of (normalizeToLF (snd (splitBom raw))) (normalizeToLF (ed_oldText e)) \<noteq> None"
  shows "\<exists>gaps es final. mset es = mset edits \<and> length gaps = Suc (length es) \<and>
           raw = weave gaps (map (\<lambda>e. with_ending (detectLineEnding (snd (splitBom raw))) (ed_oldText e)) es) \<and>
           final = weave gaps (map (\<lambda>e. with_ending (detectLineEnding (snd (splitBom raw))) (ed_newText e)) es) \<and>
           eo_writeFile ops final w2 = (None, w') \<and> final \<noteq> raw"
proof -
  obtain bom content where bc: "splitBom raw = (bom, content)" by fastforce
  let ?crlf = "detectLineEnding content"
  from run access read bc obtain b n where
    n: "applyEditsToNormalizedContent nfkc (normalizeToLF content) edits path = Inr (b, n)"
      "eo_writeFile ops (bom @ restoreLineEndings n ?crlf) w2 = (None, w')"
    by (auto simp: edit_execute_def Let_def split: if_splits sum.splits prod.splits option.splits)
  from exact bc have "\<forall>e \<in> set edits. index_of (normalizeToLF content) (normalizeToLF (ed_oldText e)) \<noteq> None" by simp
  from exact_edits_splice [OF n(1) this] obtain gaps es where es: "mset es = mset edits" "length gaps = Suc (length es)"
    "normalizeToLF content = weave gaps (map (\<lambda>e. normalizeToLF (ed_oldText e)) es)"
    "n = weave gaps (map (\<lambda>e. normalizeToLF (ed_newText e)) es)" by blast
  let ?gaps = "case map (\<lambda>g. restoreLineEndings g ?crlf) gaps of g # gs \<Rightarrow> (bom @ g) # gs"
  from es(2) obtain g gs where gaps: "gaps = g # gs" "length gs = length es" by (cases gaps) auto
  have weave_bom: "weave ?gaps rs = bom @ weave (map (\<lambda>g. restoreLineEndings g ?crlf) gaps) rs" for rs
    using gaps by (cases rs) auto
  have raw: "raw = bom @ content" using bc by (auto simp: splitBom_def starts_with_def split: if_splits)
  have "restoreLineEndings (normalizeToLF content) ?crlf = content" using line_endings_restored uniform bc by simp
  then have "raw = weave ?gaps (map (\<lambda>e. with_ending ?crlf (ed_oldText e)) es)"
    unfolding weave_bom raw es(3) restore_weave by (simp add: with_ending_def comp_def)
  moreover have final: "bom @ restoreLineEndings n ?crlf = weave ?gaps (map (\<lambda>e. with_ending ?crlf (ed_newText e)) es)"
    unfolding weave_bom es(4) restore_weave by (simp add: with_ending_def comp_def)
  moreover have "bom @ restoreLineEndings n ?crlf \<noteq> raw"
  proof
    assume "bom @ restoreLineEndings n ?crlf = raw"
    with raw have "restoreLineEndings n ?crlf = content" by simp
    moreover have "CR \<notin> set n" using no_cr_weave [OF _ _ _ _, of gaps "map (\<lambda>e. normalizeToLF (ed_oldText e)) es"] es normalize_no_cr
      by (metis (no_types, lifting) imageE length_map list.set_map)
    ultimately have "n = normalizeToLF content" using normalize_restore by metis
    with n(1) show False by (auto elim: apply_edits_success)
  qed
  moreover have "length ?gaps = Suc (length es)" using gaps by simp
  ultimately show ?thesis using es(1) n(2) bc by (metis snd_conv)
qed

text \<open>A file that is always readable and writable.\<close>

definition plain_file :: "jstr edit_operations" where
  "plain_file = \<lparr>eo_access = (\<lambda>w. (None, w)), eo_readFile = (\<lambda>w. (Inr w, w)), eo_writeFile = (\<lambda>c w. (None, c)), eo_aborted = (\<lambda>w. False)\<rparr>"

definition demo_file :: jstr where
  "demo_file = [0xFEFF] @ js ''a'' @ [CR, NL] @ js ''b''"

definition demo_exact :: edit where
  "demo_exact = \<lparr>ed_oldText = js ''a'' @ [NL], ed_newText = [NL]\<rparr>"

lemma demo_exact_result:
  "snd (edit_execute (\<lambda>s. s) (\<lambda>a b. []) plain_file (js ''f'') [demo_exact] demo_file) = [0xFEFF, CR, NL] @ js ''b''"
  "isl (fst (edit_execute (\<lambda>s. s) (\<lambda>a b. []) plain_file (js ''f'') [demo_exact] demo_file)) = False"
  by code_simp+

theorem edit_tool_exact_witness:
  "\<exists>gaps es final. mset es = mset [demo_exact] \<and> length gaps = Suc (length es) \<and>
     demo_file = weave gaps (map (\<lambda>e. with_ending (detectLineEnding (snd (splitBom demo_file))) (ed_oldText e)) es) \<and>
     final = weave gaps (map (\<lambda>e. with_ending (detectLineEnding (snd (splitBom demo_file))) (ed_newText e)) es) \<and>
     eo_writeFile plain_file final demo_file = (None, [0xFEFF, CR, NL] @ js ''b'') \<and> final \<noteq> demo_file"
proof -
  obtain out where "edit_execute (\<lambda>s. s) (\<lambda>a b. []) plain_file (js ''f'') [demo_exact] demo_file = (Inr out, [0xFEFF, CR, NL] @ js ''b'')"
    using demo_exact_result by (metis isl_def prod.collapse sum.exhaust)
  then show ?thesis
  proof (rule edit_tool_exact)
    show "uniform_endings (snd (splitBom demo_file))" by code_simp
    show "\<forall>e \<in> set [demo_exact]. index_of (normalizeToLF (snd (splitBom demo_file))) (normalizeToLF (ed_oldText e)) \<noteq> None" by code_simp
  qed (simp_all add: plain_file_def)
qed

end
