(* ===== verification/Edit_Lines.thy ===== *)
theory Edit_Lines
  imports Edit_Correct
begin

text \<open>
  Replacement inside a normalized view of a file: the replacements are grouped by the lines they touch,
  every group is spliced once, and all other lines are the original ones.
\<close>

section \<open>Lines and offsets\<close>

lemma concat_lines [simp]: "concat (splitLinesWithEndings c) = c"
  by (induction c rule: splitLinesWithEndings.induct) (auto split: list.splits)

lemma line_shape: "l \<in> set (splitLinesWithEndings c) \<Longrightarrow> l \<noteq> [] \<and> NL \<notin> set (butlast l)"
proof (induction c arbitrary: l rule: splitLinesWithEndings.induct)
  case (2 c cs)
  show ?case
  proof (cases "c = NL")
    case False
    note c = False
    show ?thesis
    proof (cases "splitLinesWithEndings cs")
      case Nil
      with 2 c show ?thesis by auto
    next
      case (Cons k ks)
      with 2 c have "l = c # k \<or> l \<in> set ks" by auto
      moreover have "x \<noteq> [] \<and> NL \<notin> set (butlast x)" if "x \<in> set (k # ks)" for x
        using 2(2) [OF c] that Cons by simp
      ultimately show ?thesis using c by auto
    qed
  qed (use 2 in auto)
qed simp

definition line_offset :: "jstr list \<Rightarrow> nat \<Rightarrow> nat" where
  "line_offset ls k = length (concat (take k ls))"

definition segment :: "jstr \<Rightarrow> nat \<Rightarrow> nat \<Rightarrow> jstr" where
  "segment c a b = drop a (take b c)"

lemma length_line_spans [simp]: "length (line_spans_from off ls) = length ls"
  by (induction ls arbitrary: off) auto

lemma line_spans_nth:
  "k < length ls \<Longrightarrow> line_spans_from off ls ! k = (off + line_offset ls k, off + line_offset ls (Suc k))"
proof (induction ls arbitrary: off k)
  case (Cons l ls)
  then show ?case by (cases k) (auto simp: line_offset_def)
qed simp

lemma line_offset_Suc: "k < length ls \<Longrightarrow> line_offset ls (Suc k) = line_offset ls k + length (ls ! k)"
  by (simp add: line_offset_def take_Suc_conv_app_nth)

lemma line_offset_mono: "j \<le> k \<Longrightarrow> line_offset ls j \<le> line_offset ls k"
  unfolding line_offset_def by (metis concat_append le_add1 le_add_diff_inverse length_append take_add)

lemma line_offset_le: "line_offset ls k \<le> length (concat ls)"
  unfolding line_offset_def by (metis append_take_drop_id concat_append le_add1 length_append)

lemma slice_lines: "segment (concat ls) (line_offset ls j) (line_offset ls k) = concat (drop j (take k ls))"
proof (cases "j \<le> k")
  case True
  have "concat ls = concat (take k ls) @ concat (drop k ls)" by (metis append_take_drop_id concat_append)
  then have "take (line_offset ls k) (concat ls) = concat (take k ls)" by (simp add: line_offset_def)
  moreover have "take k ls = take j ls @ drop j (take k ls)" using True by (metis append_take_drop_id min.absorb1 take_take)
  then have "concat (take k ls) = concat (take j ls) @ concat (drop j (take k ls))" by (metis concat_append)
  ultimately show ?thesis by (simp add: segment_def line_offset_def)
next
  case False
  then have "line_offset ls k \<le> line_offset ls j" by (intro line_offset_mono) simp
  with False show ?thesis by (simp add: segment_def)
qed

lemma slice_line: "k < length ls \<Longrightarrow> segment (concat ls) (line_offset ls k) (line_offset ls (Suc k)) = ls ! k"
  by (simp add: slice_lines Cons_nth_drop_Suc [symmetric] take_Suc_conv_app_nth)

lemma slice_take: "segment c a b = take (b - a) (drop a c)"
  by (simp add: segment_def drop_take)

lemma slice_append: "a \<le> b \<Longrightarrow> b \<le> e \<Longrightarrow> segment c a e = segment c a b @ segment c b e"
  using take_add [of "b - a" "e - b" "drop a c"] by (simp add: slice_take)

lemma length_slice: "b \<le> length c \<Longrightarrow> length (segment c a b) = b - a"
  by (simp add: slice_take)

text \<open>Inside a line there is no newline but at its end.\<close>

lemma no_newline_inside:
  assumes "\<forall>l \<in> set ls. l \<noteq> [] \<and> NL \<notin> set (butlast l)" "k < length ls" "line_offset ls k \<le> a"
  shows "b < line_offset ls (Suc k) \<Longrightarrow> NL \<notin> set (segment (concat ls) a b)"
    and "NL \<notin> set (butlast (segment (concat ls) a (line_offset ls (Suc k))))"
proof -
  let ?L = "line_offset ls k" and ?U = "line_offset ls (Suc k)"
  have U: "?U = ?L + length (ls ! k)" "?U \<le> length (concat ls)" "ls ! k \<noteq> []"
    using assms line_offset_Suc [of k ls] line_offset_le [of ls "Suc k"] by auto
  have "segment (concat ls) ?L (?U - 1) = butlast (segment (concat ls) ?L ?U)"
    using U by (simp add: slice_take butlast_take)
  also have "... = butlast (ls ! k)" using assms by (simp add: slice_line)
  finally have nl: "NL \<notin> set (segment (concat ls) ?L (?U - 1))" using assms by auto
  show one: "NL \<notin> set (segment (concat ls) a b)" if "b < ?U" for b
  proof (cases "a \<le> b")
    case True
    then have "segment (concat ls) ?L (?U - 1) = segment (concat ls) ?L a @ segment (concat ls) a b @ segment (concat ls) b (?U - 1)"
      using assms(3) that slice_append [of ?L a "?U - 1" "concat ls"] slice_append [of a b "?U - 1" "concat ls"] by simp
    with nl show ?thesis by simp
  qed (simp add: slice_take)
  show "NL \<notin> set (butlast (segment (concat ls) a ?U))"
  proof (cases "a < ?U")
    case True
    then have "butlast (segment (concat ls) a ?U) = segment (concat ls) a (?U - 1)"
      using U by (simp add: slice_take butlast_take)
    with one [of "?U - 1"] True show ?thesis by simp
  qed (simp add: slice_take)
qed

section \<open>Touched lines\<close>

lemma end_line_bounds:
  "end_line sp i r = Some j \<Longrightarrow> i \<le> j \<and> j - i < length sp \<and> r \<le> snd (sp ! (j - i)) \<and> (j = i \<or> snd (sp ! (j - i - 1)) < r)"
proof (induction sp i r rule: end_line.induct)
  case (2 s e sp i r)
  show ?case
  proof (cases "e < r")
    case True
    with 2 have *: "Suc i \<le> j" "j - Suc i < length sp" "r \<le> snd (sp ! (j - Suc i))" "j = Suc i \<or> snd (sp ! (j - Suc i - 1)) < r"
      by auto
    then have "j - i = Suc (j - Suc i)" by simp
    with * True show ?thesis by (auto simp: nth_Cons' )
  next
    case False
    with 2 show ?thesis by simp
  qed
qed simp

text \<open>The lines of a replacement: its start lies in the first, its end in the last.\<close>

lemma line_range_bounds:
  assumes "getReplacementLineRange (line_spans_from 0 ls) r = Inr (s, e)"
  shows "s < e \<and> e \<le> length ls \<and> line_offset ls s \<le> re_matchIndex r \<and> re_matchIndex r < line_offset ls (Suc s) \<and>
         re_matchIndex r + re_matchLength r \<le> line_offset ls e \<and> line_offset ls (e - 1) \<le> re_matchIndex r + re_matchLength r"
proof -
  let ?sp = "line_spans_from 0 ls" and ?stop = "re_matchIndex r + re_matchLength r"
  from assms obtain j where s: "find_index (\<lambda>(s, e). s \<le> re_matchIndex r \<and> re_matchIndex r < e) ?sp = Some s"
    and j: "end_line (drop s ?sp) s ?stop = Some j" "e = j + 1"
    by (auto simp: getReplacementLineRange_def split: option.splits)
  from find_index_Some [OF s] have s: "s < length ls" "line_offset ls s \<le> re_matchIndex r" "re_matchIndex r < line_offset ls (Suc s)"
    by (auto simp: line_spans_nth)
  from end_line_bounds [OF j(1)] s(1) have b: "s \<le> j" "j < length ls" "?stop \<le> snd (?sp ! j)"
      "j = s \<or> snd (?sp ! (s + (j - s - 1))) < ?stop"
    by auto
  moreover have "j = s \<or> s + (j - s - 1) = j - 1" using b(1) by auto
  ultimately have b: "s \<le> j" "j < length ls" "?stop \<le> snd (?sp ! j)" "j = s \<or> snd (?sp ! (j - 1)) < ?stop" by auto
  then have "j = s \<or> line_offset ls j < ?stop" using s(1) by (cases j) (auto simp: line_spans_nth)
  with b s j(2) show ?thesis by (auto simp: line_spans_nth)
qed

section \<open>Groups\<close>

text \<open>The gaps of a splice as slices of the whole text.\<close>

fun gap_slices :: "jstr \<Rightarrow> nat \<Rightarrow> nat \<Rightarrow> text_replacement list \<Rightarrow> jstr list" where
  "gap_slices c off fin [] = [segment c off fin]"
| "gap_slices c off fin (r # rs) = segment c off (re_matchIndex r) # gap_slices c (re_matchIndex r + re_matchLength r) fin rs"

definition end_pos :: "nat \<Rightarrow> text_replacement list \<Rightarrow> nat" where
  "end_pos off rs = (if rs = [] then off else re_matchIndex (last rs) + re_matchLength (last rs))"

lemma gaps_of_slice: "fits off fin rs \<Longrightarrow> fin \<le> length c \<Longrightarrow> gaps_of off (segment c off fin) rs = gap_slices c off fin rs"
proof (induction rs arbitrary: off)
  case (Cons r rs)
  let ?e = "re_matchIndex r + re_matchLength r"
  from Cons.prems have le: "off \<le> re_matchIndex r" "?e \<le> fin" by (auto dest: fits_le)
  then have "take (re_matchIndex r - off) (segment c off fin) = segment c off (re_matchIndex r)"
    "drop (?e - off) (segment c off fin) = segment c ?e fin"
    by (simp_all add: slice_take drop_take min_def)
  with Cons show ?case by simp
qed simp

lemma gap_slices_ne [simp]: "gap_slices c off fin rs \<noteq> []"
  by (cases rs) auto

lemma gap_slices_snoc:
  "gap_slices c off fin (rs @ [r]) =
     butlast (gap_slices c off fin rs) @ [segment c (end_pos off rs) (re_matchIndex r), segment c (re_matchIndex r + re_matchLength r) fin]"
  by (induction rs arbitrary: off) (auto simp: end_pos_def)

lemma gap_slices_butlast: "butlast (gap_slices c off fin rs) = butlast (gap_slices c off fin' rs)"
  by (induction rs arbitrary: off) auto

lemma gap_slices_last: "last (gap_slices c off fin rs) = segment c (end_pos off rs) fin"
  by (induction rs arbitrary: off) (auto simp: end_pos_def)

lemma fits_snoc: "fits off fin (rs @ [r]) \<longleftrightarrow> fits off (re_matchIndex r) rs \<and> re_matchIndex r + re_matchLength r \<le> fin"
  by (induction rs arbitrary: off) auto

lemma fits_end: "fits off fin rs \<longleftrightarrow> fits off (end_pos off rs) rs \<and> end_pos off rs \<le> fin"
  by (induction rs rule: rev_induct) (auto simp: fits_snoc end_pos_def)

text \<open>A group covers lines \<open>s\<close> to \<open>e\<close> and every gap inside it is part of a single line.\<close>

definition group_ok :: "jstr list \<Rightarrow> replacement_group \<Rightarrow> bool" where
  "group_ok ls g \<longleftrightarrow>
     gr_startLine g < gr_endLine g \<and> gr_endLine g \<le> length ls \<and> gr_replacements g \<noteq> [] \<and>
     fits (line_offset ls (gr_startLine g)) (line_offset ls (gr_endLine g)) (gr_replacements g) \<and>
     line_offset ls (gr_endLine g - 1) \<le> end_pos (line_offset ls (gr_startLine g)) (gr_replacements g) \<and>
     (\<forall>x \<in> set (butlast (gap_slices (concat ls) (line_offset ls (gr_startLine g)) (line_offset ls (gr_endLine g)) (gr_replacements g))).
        NL \<notin> set x)"

fun groups_ok :: "jstr list \<Rightarrow> nat \<Rightarrow> replacement_group list \<Rightarrow> bool" where
  "groups_ok ls lo [] \<longleftrightarrow> lo \<le> length ls"
| "groups_ok ls lo (g # gs) \<longleftrightarrow> lo \<le> gr_startLine g \<and> group_ok ls g \<and> groups_ok ls (gr_endLine g) gs"

lemma groups_ok_snoc:
  "groups_ok ls lo (gs @ [g]) \<longleftrightarrow>
     groups_ok ls lo gs \<and> (if gs = [] then lo else gr_endLine (last gs)) \<le> gr_startLine g \<and> group_ok ls g"
  by (induction gs arbitrary: lo) (auto simp: group_ok_def)

definition well_lined :: "jstr list \<Rightarrow> bool" where
  "well_lined ls \<longleftrightarrow> (\<forall>l \<in> set ls. l \<noteq> [] \<and> NL \<notin> set (butlast l))"

lemma new_group_ok:
  assumes "well_lined ls" "getReplacementLineRange (line_spans_from 0 ls) r = Inr (s, e)"
  shows "group_ok ls \<lparr>gr_startLine = s, gr_endLine = e, gr_replacements = [r]\<rparr>"
  using line_range_bounds [OF assms(2)] no_newline_inside(1) [of ls s "line_offset ls s" "re_matchIndex r"] assms(1)
  by (auto simp: group_ok_def end_pos_def well_lined_def)

lemma grow_group_ok:
  assumes "well_lined ls" "getReplacementLineRange (line_spans_from 0 ls) r = Inr (s, e)" "group_ok ls g"
    and "end_pos (line_offset ls (gr_startLine g)) (gr_replacements g) \<le> re_matchIndex r" "s < gr_endLine g"
  shows "group_ok ls (g\<lparr>gr_endLine := max (gr_endLine g) e, gr_replacements := gr_replacements g @ [r]\<rparr>)"
proof -
  let ?E = "gr_endLine g" and ?S = "line_offset ls (gr_startLine g)" and ?rs = "gr_replacements g"
  from assms(3) have g: "gr_startLine g < ?E" "?E \<le> length ls" "fits ?S (line_offset ls ?E) ?rs"
    "line_offset ls (?E - 1) \<le> end_pos ?S ?rs"
    "\<forall>x \<in> set (butlast (gap_slices (concat ls) ?S (line_offset ls ?E) ?rs)). NL \<notin> set x" "?rs \<noteq> []"
    by (auto simp: group_ok_def)
  note r = line_range_bounds [OF assms(2)]
  have "\<not> s < ?E - 1"
  proof
    assume "s < ?E - 1"
    then have "line_offset ls (Suc s) \<le> line_offset ls (?E - 1)" by (intro line_offset_mono) simp
    with r g(4) assms(4) show False by simp
  qed
  with assms(5) have s: "?E = Suc s" by auto
  with r have e: "max ?E e = e" by simp
  have "NL \<notin> set (segment (concat ls) (end_pos ?S ?rs) (re_matchIndex r))"
    using no_newline_inside(1) [of ls s "end_pos ?S ?rs" "re_matchIndex r"] assms(1) r g(4) s by (auto simp: well_lined_def)
  moreover have "fits ?S (re_matchIndex r) ?rs" using g(3) assms(4) fits_end by blast
  moreover have "gr_startLine g < e" using g(1) s r by simp
  moreover have "butlast (gap_slices (concat ls) ?S (line_offset ls e) (?rs @ [r])) =
      butlast (gap_slices (concat ls) ?S (line_offset ls ?E) ?rs) @ [segment (concat ls) (end_pos ?S ?rs) (re_matchIndex r)]"
    unfolding gap_slices_snoc by (subst gap_slices_butlast [of _ _ _ _ "line_offset ls ?E"]) (simp add: butlast_append)
  moreover have "end_pos ?S (?rs @ [r]) = re_matchIndex r + re_matchLength r" by (simp add: end_pos_def)
  ultimately show ?thesis using r g(5) unfolding group_ok_def replacement_group.simps e by (auto simp: fits_snoc)
qed

text \<open>Grouping keeps the replacements in order and gives groups over ascending, disjoint line ranges.\<close>

definition last_end :: "jstr list \<Rightarrow> replacement_group list \<Rightarrow> nat" where
  "last_end ls groups = (case groups of [] \<Rightarrow> 0 | g # _ \<Rightarrow> end_pos (line_offset ls (gr_startLine g)) (gr_replacements g))"

lemma group_replacements_ok:
  "group_replacements (line_spans_from 0 ls) rs groups = Inr gs \<Longrightarrow> well_lined ls \<Longrightarrow> groups_ok ls 0 (rev groups) \<Longrightarrow>
   fits (last_end ls groups) fin rs \<Longrightarrow>
   groups_ok ls 0 gs \<and> concat (map gr_replacements gs) = concat (map gr_replacements (rev groups)) @ rs"
proof (induction rs arbitrary: groups)
  case (Cons r rs)
  then obtain s e where r: "getReplacementLineRange (line_spans_from 0 ls) r = Inr (s, e)"
    by (auto split: sum.splits)
  note b = line_range_bounds [OF r]
  let ?new = "\<lparr>gr_startLine = s, gr_endLine = e, gr_replacements = [r]\<rparr>"
  have new: "group_ok ls ?new" using new_group_ok Cons.prems r by blast
  show ?case
  proof (cases groups)
    case Nil
    with Cons.prems r Cons.IH [of "[?new]"] new b show ?thesis by (simp add: last_end_def end_pos_def group_ok_def)
  next
    case (Cons g gs')
    show ?thesis
    proof (cases "s < gr_endLine g")
      case True
      let ?g = "g\<lparr>gr_endLine := max (gr_endLine g) e, gr_replacements := gr_replacements g @ [r]\<rparr>"
      have "group_ok ls ?g" using grow_group_ok [OF Cons.prems(2) r _ _ True] Cons.prems Cons
        by (simp add: groups_ok_snoc last_end_def)
      with Cons.prems r True Cons Cons.IH [of "?g # gs'"] show ?thesis
        by (simp add: groups_ok_snoc last_end_def end_pos_def)
    next
      case False
      with Cons.prems(3) Cons new have "groups_ok ls 0 (rev (?new # g # gs'))"
        using groups_ok_snoc [of ls 0 "rev gs' @ [g]" ?new] by simp
      with False Cons.prems r Cons Cons.IH [of "?new # g # gs'"] show ?thesis
        by (simp add: last_end_def end_pos_def)
    qed
  qed
qed simp

section \<open>The reassembled file\<close>

text \<open>
  A file edited through a normalized view, line by line: runs of kept original lines alternate with
  blocks of rewritten lines. The text of a block in the view is a splice of the replaced regions whose
  gaps all lie within one line, so every line of a block holds part of a region, and the block is
  written with the new texts in place of the regions. The third argument lists the replaced regions with
  their replacements in order.
\<close>

inductive edited :: "jstr list \<Rightarrow> jstr list \<Rightarrow> (jstr \<times> jstr) list \<Rightarrow> jstr \<Rightarrow> bool" where
  edited_rest: "length original = length view \<Longrightarrow> edited original view [] (concat original)"
| edited_block:
    "edited original view ps out \<Longrightarrow> length kept = length kept_view \<Longrightarrow> length block = length block_view \<Longrightarrow>
     concat block_view = weave gaps (map fst qs) \<Longrightarrow> qs \<noteq> [] \<Longrightarrow> length gaps = Suc (length qs) \<Longrightarrow>
     \<forall>g \<in> set (butlast gaps). NL \<notin> set g \<Longrightarrow> NL \<notin> set (butlast (last gaps)) \<Longrightarrow>
     edited (kept @ block @ original) (kept_view @ block_view @ view) (qs @ ps)
       (concat kept @ weave gaps (map snd qs) @ out)"

lemma region_segment:
  "off \<le> re_matchIndex r \<Longrightarrow> re_matchIndex r + re_matchLength r \<le> fin \<Longrightarrow> region off (segment c off fin) r = region 0 c r"
  by (simp add: region_def segment_def drop_take min_def)

lemma drop_three: "a \<le> b \<Longrightarrow> b \<le> e \<Longrightarrow> drop a xs = drop a (take b xs) @ drop b (take e xs) @ drop e xs"
  by (metis (no_types, opaque_lifting) append.assoc append_take_drop_id drop_append drop_drop drop_take le_add_diff_inverse add.commute)

lemma assemble_edited:
  "groups_ok view lo gs \<Longrightarrow> length original = length view \<Longrightarrow> well_lined view \<Longrightarrow>
   edited (drop lo original) (drop lo view)
     (concat (map (\<lambda>g. map (\<lambda>r. (region 0 (concat view) r, re_newText r)) (gr_replacements g)) gs))
     (assemble_groups original (concat view) (line_spans_from 0 view) lo gs)"
proof (induction gs arbitrary: lo)
  case Nil
  then show ?case by (simp add: edited_rest)
next
  case (Cons g gs)
  let ?s = "gr_startLine g" and ?e = "gr_endLine g" and ?rs = "gr_replacements g" and ?c = "concat view"
  let ?S = "line_offset view ?s" and ?E = "line_offset view ?e"
  let ?seg = "segment ?c ?S ?E" and ?gaps = "gap_slices ?c ?S ?E ?rs"
  from Cons.prems have g: "lo \<le> ?s" "?s < ?e" "?e \<le> length view" "?rs \<noteq> []" "fits ?S ?E ?rs"
    "line_offset view (?e - 1) \<le> end_pos ?S ?rs" "\<forall>x \<in> set (butlast ?gaps). NL \<notin> set x" "groups_ok view ?e gs"
    by (auto simp: group_ok_def)
  have E: "?E \<le> length ?c" "?S \<le> ?E" using g(2) by (auto intro: line_offset_le line_offset_mono)
  then have fit: "fits ?S (?S + length ?seg) ?rs" using g(5) by (simp add: length_slice)
  have gaps: "gaps_of ?S ?seg ?rs = ?gaps" using gaps_of_slice [OF g(5) E(1)] .
  have regions: "map (region ?S ?seg) ?rs = map (region 0 ?c) ?rs"
    using fits_index [OF g(5)] by (auto intro: region_segment)
  have spans: "fst (line_spans_from 0 view ! ?s) = ?S" "snd (line_spans_from 0 view ! (?e - 1)) = ?E"
    using g(2,3) by (auto simp: line_spans_nth)
  have last: "NL \<notin> set (butlast (last ?gaps))"
    using no_newline_inside(2) [of view "?e - 1" "end_pos ?S ?rs"] g(2,3,6) Cons.prems(3)
    by (simp add: gap_slices_last well_lined_def)
  have "edited (drop lo (take ?s original) @ drop ?s (take ?e original) @ drop ?e original)
      (drop lo (take ?s view) @ drop ?s (take ?e view) @ drop ?e view)
      (map (\<lambda>r. (region 0 ?c r, re_newText r)) ?rs @ concat (map (\<lambda>g. map (\<lambda>r. (region 0 ?c r, re_newText r)) (gr_replacements g)) gs))
      (concat (drop lo (take ?s original)) @ weave ?gaps (map snd (map (\<lambda>r. (region 0 ?c r, re_newText r)) ?rs)) @
       assemble_groups original ?c (line_spans_from 0 view) ?e gs)"
  proof (rule edited_block [OF Cons.IH [OF g(8) Cons.prems(2,3)]])
    show "concat (drop ?s (take ?e view)) = weave ?gaps (map fst (map (\<lambda>r. (region 0 ?c r, re_newText r)) ?rs))"
      using apply_replacements_reference(2) [OF fit, unfolded gaps regions] unfolding slice_lines [symmetric] by (simp add: comp_def)
    show "length ?gaps = Suc (length (map (\<lambda>r. (region 0 ?c r, re_newText r)) ?rs))" using gaps by (metis length_gaps_of length_map)
  qed (use Cons.prems g last in auto)
  moreover have "applyReplacements ?seg ?rs ?S = weave ?gaps (map re_newText ?rs)"
    using apply_replacements_reference(1) [OF fit] gaps by simp
  ultimately show ?case using g(1,2,3) drop_three [of lo ?s ?e original] drop_three [of lo ?s ?e view] spans
    by (simp add: comp_def segment_def Let_def)
qed

lemma fits_sorted: "fits off fin rs \<Longrightarrow> sorted (map re_matchIndex rs)"
proof (induction rs arbitrary: off)
  case (Cons r rs)
  then show ?case using fits_index [of "re_matchIndex r + re_matchLength r" fin rs] by fastforce
qed simp

lemma preserving_edited:
  assumes "applyReplacementsPreservingUnchangedLines content base rs = Inr out" "fits 0 fin rs"
  shows "edited (splitLinesWithEndings content) (splitLinesWithEndings base) (map (\<lambda>r. (region 0 base r, re_newText r)) rs) out"
proof -
  let ?ls = "splitLinesWithEndings base"
  have sorted: "sort_key re_matchIndex rs = rs" using fits_sorted [OF assms(2)] by (rule sort_key_id_if_sorted)
  have lined: "well_lined ?ls" using line_shape by (auto simp: well_lined_def)
  from assms(1) obtain gs where len: "length (splitLinesWithEndings content) = length ?ls"
    and gs: "group_replacements (line_spans_from 0 ?ls) rs [] = Inr gs"
    and out: "out = assemble_groups (splitLinesWithEndings content) base (line_spans_from 0 ?ls) 0 gs"
    by (auto simp: applyReplacementsPreservingUnchangedLines_def getLineSpans_def Let_def sorted split: if_splits sum.splits)
  from group_replacements_ok [OF gs lined] assms(2) have ok: "groups_ok ?ls 0 gs" "concat (map gr_replacements gs) = rs"
    by (auto simp: last_end_def)
  have "concat (map (\<lambda>g. map (\<lambda>r. (region 0 base r, re_newText r)) (gr_replacements g)) gs) = map (\<lambda>r. (region 0 base r, re_newText r)) rs"
    unfolding ok(2) [symmetric] by (simp add: map_concat comp_def)
  with assemble_edited [OF ok(1) len lined] out show ?thesis by simp
qed

end
