(* ===== verification/Edit_Fuzzy.thy ===== *)
theory Edit_Fuzzy
  imports Edit_Lines
begin

text \<open>
  Correctness of fuzzy edits: a position found in the indentation-free search space is mapped back to a
  region with that search form, re-indentation changes leading blanks only, and only the lines that hold
  replaced text are rewritten.
\<close>

section \<open>The search space\<close>

text \<open>The search form read unit by unit: blanks at the start of a line are dropped.\<close>

fun strip :: "bool \<Rightarrow> jstr \<Rightarrow> jstr" where
  "strip b [] = []"
| "strip b (c # cs) = (if b \<and> is_blank c then strip True cs else c # strip (c = NL) cs)"

fun at_start :: "bool \<Rightarrow> jstr \<Rightarrow> bool" where
  "at_start b [] = b"
| "at_start b (c # cs) = at_start (if b \<and> is_blank c then True else c = NL) cs"

lemma strip_append: "strip b (u @ v) = strip b u @ strip (at_start b u) v"
  by (induction b u rule: strip.induct) auto

lemma at_start_append: "at_start b (u @ v) = at_start (at_start b u) v"
  by (induction b u rule: strip.induct) auto

lemma not_blank_NL [simp]: "\<not> is_blank NL"
  by (simp add: is_blank_def)

lemma strip_lines:
  "strip b t = join [NL] ((if b then dropWhile is_blank (hd (split_on NL t)) else hd (split_on NL t)) #
     map (dropWhile is_blank) (tl (split_on NL t)))"
proof (induction b t rule: strip.induct)
  case (2 b c cs)
  obtain l ls where l: "split_on NL cs = l # ls" by (cases "split_on NL cs") auto
  show ?case
  proof (cases "b \<and> is_blank c")
    case True
    with 2 l show ?thesis by (auto simp: is_blank_def)
  next
    case False
    with 2 l show ?thesis by (cases ls) auto
  qed
qed simp

lemma search_strip: "normalizeForFuzzyMatchSearch t = strip True t"
proof -
  obtain l ls where "split_on NL t = l # ls" by (cases "split_on NL t") auto
  then show ?thesis by (simp add: normalizeForFuzzyMatchSearch_def strip_lines)
qed

lemma strip_blank: "strip True (takeWhile is_blank l) = []" "at_start True (takeWhile is_blank l) = True"
  by (induction l) auto

lemma strip_in_line: "NL \<notin> set l \<Longrightarrow> strip False l = l"
  by (induction l) auto

lemma strip_line: "NL \<notin> set l \<Longrightarrow> (l \<noteq> [] \<Longrightarrow> \<not> is_blank (hd l)) \<Longrightarrow> strip True l = l"
  by (cases l) (auto simp: strip_in_line)

lemma strip_whole: "NL \<notin> set l \<Longrightarrow> strip True l = dropWhile is_blank l"
  by (induction l) (auto simp: strip_in_line)

lemma hd_strip: "strip True t \<noteq> [] \<Longrightarrow> \<not> is_blank (hd (strip True t))"
  by (induction t) auto

text \<open>The search offset of an offset of the text.\<close>

definition search_offset :: "jstr \<Rightarrow> nat \<Rightarrow> nat" where
  "search_offset F x = length (strip True (take x F))"

definition line_prefix :: "jstr \<Rightarrow> bool" where
  "line_prefix P \<longleftrightarrow> P = [] \<or> last P = NL"

lemma at_start_prefix: "line_prefix P \<Longrightarrow> at_start True P"
  by (cases P rule: rev_cases) (auto simp: line_prefix_def at_start_append)

lemma offset_in_line:
  assumes "line_prefix P" "NL \<notin> set l" "y \<le> length (dropWhile is_blank l)"
  shows "search_offset (P @ l @ R) (length P + length (takeWhile is_blank l) + y) = length (strip True P) + y"
proof -
  let ?d = "dropWhile is_blank l"
  have "take (length P + length t + y) (P @ (t @ d) @ R) = P @ t @ take y d" if "y \<le> length d" for t d
    using that by simp
  from this [OF assms(3), of "takeWhile is_blank l"]
  have "take (length P + length (takeWhile is_blank l) + y) (P @ l @ R) = P @ takeWhile is_blank l @ take y ?d"
    by simp
  moreover have "strip True (take y ?d) = take y ?d"
  proof (rule strip_line)
    show "NL \<notin> set (take y ?d)" using assms(2) by (meson in_set_takeD set_dropWhileD)
    show "\<not> is_blank (hd (take y ?d))" if "take y ?d \<noteq> []"
      using that hd_dropWhile [of is_blank l] by (cases "?d") auto
  qed
  ultimately show ?thesis using assms
    by (simp add: search_offset_def strip_append strip_blank at_start_prefix)
qed

lemma offset_at_line:
  assumes "line_prefix P"
  shows "search_offset (P @ R) (length P) = length (strip True P)"
    and "P \<noteq> [] \<Longrightarrow> search_offset (P @ R) (length P - 1) = length (strip True P) - 1"
    and "P \<noteq> [] \<Longrightarrow> 0 < length (strip True P)"
proof -
  show "search_offset (P @ R) (length P) = length (strip True P)" by (simp add: search_offset_def)
  show "search_offset (P @ R) (length P - 1) = length (strip True P) - 1" "0 < length (strip True P)" if "P \<noteq> []"
    using assms that by (cases P rule: rev_cases; auto simp: line_prefix_def search_offset_def strip_append)+
qed

lemma offset_mono: "x \<le> y \<Longrightarrow> search_offset F x \<le> search_offset F y"
proof -
  assume "x \<le> y"
  then have "take y F = take x F @ take (y - x) (drop x F)" by (metis le_add_diff_inverse take_add)
  then show ?thesis by (simp add: search_offset_def strip_append)
qed

lemma map_range_sound:
  assumes "map_range (search_lines_from (length (strip True P)) (length P) ls) i e idx = Some (a, b)"
    and "F = P @ join [NL] ls" "ls \<noteq> []" "\<forall>l \<in> set ls. NL \<notin> set l" "line_prefix P" "0 \<le> i" "i < e"
    and "idx = None \<Longrightarrow> int (length (strip True P)) - 1 \<le> i"
    and "\<And>a0. idx = Some a0 \<Longrightarrow> int (length (strip True P)) \<le> e \<and> 0 \<le> a0 \<and> int (search_offset F (nat a0)) = i"
  shows "0 \<le> a \<and> int (search_offset F (nat a)) = i \<and> 0 \<le> b \<and> int (search_offset F (nat b)) = e \<and> nat b \<le> length F"
  using assms
proof (induction ls arbitrary: P idx)
  case (Cons l ls)
  let ?ss = "length (strip True P)" and ?d = "length (takeWhile is_blank l)"
  let ?sl = "length l - ?d"
  have sl: "?sl = length (dropWhile is_blank l)" by (metis add_diff_cancel_left' length_append takeWhile_dropWhile_id)
  obtain R where F: "F = P @ l @ R" and R: "ls \<noteq> [] \<Longrightarrow> R = NL # join [NL] ls"
    using Cons.prems(2) by (cases ls) auto
  have pos: "search_offset F (length P + ?d + y) = ?ss + y" if "y \<le> ?sl" for y
    unfolding F using offset_in_line [of P l y R] that sl Cons.prems by simp
  define idx1 where "idx1 = (if idx = None \<and> i < int ?ss + int ?sl
    then Some (range_start \<lparr>sl_searchStart = ?ss, sl_replacementStart = length P, sl_leading = ?d, sl_searchLength = ?sl\<rparr> i e) else idx)"
  have step: "map_range (search_lines_from ?ss (length P) (l # ls)) i e idx =
      (case idx1 of
         Some i0 \<Rightarrow> if e \<le> int ?ss + int ?sl then Some (i0, int (length P) + int ?d + (e - int ?ss))
                    else map_range (search_lines_from (?ss + ?sl + 1) (length P + length l + 1) ls) i e idx1
       | None \<Rightarrow> map_range (search_lines_from (?ss + ?sl + 1) (length P + length l + 1) ls) i e None)"
    by (simp add: Let_def leadingWhitespace_def idx1_def split: option.split)
  have start: "0 \<le> a0 \<and> int (search_offset F (nat a0)) = i \<and> int ?ss \<le> e" if "idx1 = Some a0" for a0
  proof (cases "idx = None \<and> i < int ?ss + int ?sl")
    case False
    with that Cons.prems(9) show ?thesis by (auto simp: idx1_def split: if_splits)
  next
    case True
    then have i: "int ?ss - 1 \<le> i" "i < int ?ss + int ?sl" using Cons.prems(8) by auto
    show ?thesis
    proof (cases "i = int ?ss - 1")
      case True
      with Cons.prems(6) have P: "P \<noteq> []" by auto
      from True that \<open>idx = None \<and> _\<close> have "a0 = int (length P) - 1"
        by (auto simp: idx1_def range_start_def Let_def)
      moreover have "nat (int (length P) - 1) = length P - 1" using P by (simp add: nat_diff_distrib)
      moreover have "0 < length P" using P by simp
      ultimately show ?thesis
        using True offset_at_line(2) [OF Cons.prems(5) P, of "l @ R"] offset_at_line(3) [OF Cons.prems(5) P] Cons.prems(7)
        unfolding F by (auto simp: of_nat_diff Suc_le_eq)
    next
      case False
      with i have i: "int ?ss \<le> i" "i < int ?ss + int ?sl" by auto
      define y where "y = nat (i - int ?ss)"
      from i have y: "i = int (?ss + y)" "y \<le> ?sl" by (auto simp: y_def)
      from False True that have "a0 = int (length P) + (if i = int ?ss \<and> int ?ss + int ?sl \<le> e then 0 else int ?d + int y)"
        by (auto simp: idx1_def range_start_def Let_def y)
      with pos [OF y(2)] offset_at_line(1) [OF Cons.prems(5), of "l @ R"] F y Cons.prems(7) show ?thesis
        by (auto simp: nat_add_distrib add.assoc)
    qed
  qed
  show ?case
  proof (cases "\<exists>a0. idx1 = Some a0 \<and> e \<le> int ?ss + int ?sl")
    case True
    then obtain a0 where a0: "idx1 = Some a0" "e \<le> int ?ss + int ?sl" by blast
    define y where "y = nat (e - int ?ss)"
    from a0 start have y: "e = int (?ss + y)" "y \<le> ?sl" by (auto simp: y_def)
    from a0 Cons.prems(1) have "a = a0" "b = int (length P + ?d + y)"
      unfolding step by (auto simp: y)
    moreover have "nat b = length P + ?d + y" using \<open>b = _\<close> by (simp only: nat_int)
    moreover have "?d + y \<le> length l" using y(2) sl length_takeWhile_le [of is_blank l] by simp
    ultimately show ?thesis using start [OF a0(1)] pos [OF y(2)] y F by simp
  next
    case False
    with Cons.prems(1) have next_line: "map_range (search_lines_from (?ss + ?sl + 1) (length P + length l + 1) ls) i e idx1 = Some (a, b)"
      unfolding step by (auto split: option.splits if_splits)
    then have "ls \<noteq> []" by auto
    let ?P = "P @ l @ [NL]"
    have len: "length (strip True ?P) = ?ss + ?sl + 1" "length ?P = length P + length l + 1"
      using Cons.prems(4,5) sl by (simp_all add: strip_append at_start_prefix strip_whole)
    show ?thesis
    proof (rule Cons.IH [of ?P idx1])
      show "map_range (search_lines_from (length (strip True ?P)) (length ?P) ls) i e idx1 = Some (a, b)"
        using next_line len by simp
      show "F = ?P @ join [NL] ls" using F R [OF \<open>ls \<noteq> []\<close>] by simp
      show "line_prefix ?P" by (simp add: line_prefix_def)
      show "int (length (strip True ?P)) - 1 \<le> i" if "idx1 = None"
        using that Cons.prems(8) unfolding len by (auto simp: idx1_def split: if_splits)
      show "int (length (strip True ?P)) \<le> e \<and> 0 \<le> a0 \<and> int (search_offset F (nat a0)) = i" if "idx1 = Some a0" for a0
        using that False start [OF that] unfolding len by auto
    qed (use Cons.prems \<open>ls \<noteq> []\<close> in auto)
  qed
qed simp

text \<open>A non-empty range inside the search form is always mapped.\<close>

lemma map_range_total:
  "ls \<noteq> [] \<Longrightarrow> i < e \<Longrightarrow> e \<le> int ss + int (length (join [NL] (map (dropWhile is_blank) ls))) \<Longrightarrow>
   map_range (search_lines_from ss rs ls) i e idx \<noteq> None"
proof (induction ls arbitrary: ss rs idx)
  case (Cons l ls)
  have sl: "length l - length (takeWhile is_blank l) = length (dropWhile is_blank l)"
    by (metis add_diff_cancel_left' length_append takeWhile_dropWhile_id)
  show ?case
  proof (cases ls)
    case Nil
    with Cons.prems sl show ?thesis by (auto simp: Let_def leadingWhitespace_def split: option.splits)
  next
    case (Cons l2 ls2)
    then have "map_range (search_lines_from (ss + length (dropWhile is_blank l) + 1) (rs + length l + 1) ls) i e idx1 \<noteq> None" for idx1
      using Cons.prems by (intro Cons.IH) auto
    then show ?thesis by (simp add: Let_def leadingWhitespace_def sl split: option.splits)
  qed
qed simp

lemma search_text_strip: "search_text nfkc t = strip True (normalizeForFuzzyMatch nfkc t)"
  by (simp add: search_text_def search_strip)

lemma offset_region:
  assumes "search_offset F a = i" "search_offset F b = i + k" "a \<le> b" "b \<le> length F" "k > 0"
    and "\<not> is_blank (hd (take k (drop i (strip True F))))"
  shows "strip True (take (b - a) (drop a F)) = take k (drop i (strip True F))"
proof -
  let ?A = "take a F" and ?R = "take (b - a) (drop a F)" and ?B = "drop b F"
  have F: "F = ?A @ ?R @ ?B" using assms(3,4) by (metis append.assoc append_take_drop_id le_add_diff_inverse take_add)
  have S: "strip True F = strip True ?A @ strip (at_start True ?A) ?R @ strip (at_start True (?A @ ?R)) ?B"
    by (subst F) (simp only: strip_append at_start_append)
  have "take b F = ?A @ ?R" using assms(3) by (metis le_add_diff_inverse take_add)
  with assms(1,2) have len: "length (strip True ?A) = i" "length (strip (at_start True ?A) ?R) = k"
    by (simp_all add: search_offset_def strip_append)
  then have q: "take k (drop i (strip True F)) = strip (at_start True ?A) ?R" unfolding S by simp
  show ?thesis
  proof (cases "at_start True ?A")
    case False
    with q assms(5,6) len obtain c cs where R: "?R = c # cs" by (cases ?R) auto
    with False q assms(6) show ?thesis by simp
  qed (use q in simp)
qed

lemma fuzzy_region:
  assumes "index_of content oldText = None" "fm_found (fuzzyFindText nfkc content oldText)"
    and "search_text nfkc oldText \<noteq> []"
  defines "m \<equiv> fuzzyFindText nfkc content oldText" and "F \<equiv> normalizeForFuzzyMatch nfkc content"
  shows "nat (fm_index m) + nat (fm_matchLength m) \<le> length F"
    and "normalizeForFuzzyMatchSearch (take (nat (fm_matchLength m)) (drop (nat (fm_index m)) F)) = search_text nfkc oldText"
    and "fm_usedFuzzyMatch m"
proof -
  let ?q = "search_text nfkc oldText" and ?S = "normalizeForFuzzyMatchSearch F" and ?ls = "split_on NL F"
  from assms obtain i where i: "index_of ?S ?q = Some i"
    by (auto simp: fuzzyFindText_def Let_def split: option.splits)
  from index_of_Some [OF i] have iq: "i + length ?q \<le> length ?S" "take (length ?q) (drop i ?S) = ?q" by auto
  have q: "length ?q > 0" using assms(3) by simp
  have "map_range (search_lines_from 0 0 ?ls) (int i) (int i + int (length ?q)) None \<noteq> None"
    using map_range_total [of ?ls "int i" "int i + int (length ?q)" 0 0 None] iq(1) q
    by (simp add: normalizeForFuzzyMatchSearch_def)
  then obtain a b where ab: "map_range (search_lines_from 0 0 ?ls) (int i) (int i + int (length ?q)) None = Some (a, b)" by auto
  then have s: "0 \<le> a" "search_offset F (nat a) = i" "0 \<le> b" "search_offset F (nat b) = i + length ?q" "nat b \<le> length F"
    using map_range_sound [of "[]" ?ls "int i" "int i + int (length ?q)" None a b F] q split_on_pieces [of NL F]
    by (simp_all add: join_split_on line_prefix_def)
  have le: "nat a \<le> nat b" using offset_mono [of "nat b" "nat a" F] s q by linarith
  have m: "fm_index m = a" "fm_matchLength m = b - a" "fm_usedFuzzyMatch m"
    using assms(1) i ab
    by (simp_all add: m_def fuzzyFindText_def Let_def F_def [symmetric] mapSearchRangeToReplacementSpace_def buildSearchSpaceLines_def)
  then show "fm_usedFuzzyMatch m" by simp
  from m le s have nat_len: "nat (fm_matchLength m) = nat b - nat a" by simp
  with m le s show "nat (fm_index m) + nat (fm_matchLength m) \<le> length F" by simp
  have "\<not> is_blank (hd ?q)" using hd_strip assms(3) by (simp add: search_text_strip)
  then show "normalizeForFuzzyMatchSearch (take (nat (fm_matchLength m)) (drop (nat (fm_index m)) F)) = ?q"
    using offset_region [OF s(2) s(4) le s(5) q] iq(2) m nat_len by (simp add: search_strip)
qed

section \<open>Normalization is idempotent\<close>

text \<open>
  What is relied on of \<open>normalize("NFKC")\<close>: text in normal form whose trailing white space has been
  removed and whose typographic punctuation has become ASCII is still in normal form.
\<close>

definition nfkc_stable :: "(jstr \<Rightarrow> jstr) \<Rightarrow> bool" where
  "nfkc_stable nfkc \<longleftrightarrow> (\<forall>s. nfkc (normalizeForFuzzyMatch nfkc s) = normalizeForFuzzyMatch nfkc s)"

lemma plain_unit_idem [simp]: "plain_unit (plain_unit c) = plain_unit c"
  by (auto simp: plain_unit_def word_le_nat_alt)

lemma plain_unit_NL [simp]: "plain_unit c = NL \<longleftrightarrow> c = NL"
  by (auto simp: plain_unit_def word_le_nat_alt)

lemma plain_unit_ws [simp]: "is_ws (plain_unit c) = is_ws c"
  by (auto simp: plain_unit_def is_ws_def word_le_nat_alt)

lemma map_plain_join: "map plain_unit (join [NL] ls) = join [NL] (map (map plain_unit) ls)"
proof -
  have "plain_unit NL = NL" by simp
  then show ?thesis by (induction "[NL]" ls rule: join.induct) simp_all
qed

lemma trim_end_plain: "trim_end (map plain_unit l) = map plain_unit (trim_end l)"
  by (simp add: trim_end_def rev_map dropWhile_map comp_def)

lemma trim_end_idem [simp]: "trim_end (trim_end l) = trim_end l"
  by (simp add: trim_end_def)

lemma set_trim_end: "set (trim_end l) \<subseteq> set l"
  by (auto simp: trim_end_def dest: set_dropWhileD)

lemma normalize_idempotent:
  assumes "nfkc_stable nfkc"
  shows "normalizeForFuzzyMatch nfkc (normalizeForFuzzyMatch nfkc t) = normalizeForFuzzyMatch nfkc t"
proof -
  let ?ls = "map (map plain_unit \<circ> trim_end) (split_on NL (nfkc t))"
  have norm: "normalizeForFuzzyMatch nfkc t = join [NL] ?ls"
    by (simp add: normalizeForFuzzyMatch_def map_plain_join comp_def)
  have "\<forall>l \<in> set ?ls. NL \<notin> set l"
    using split_on_pieces [of NL "nfkc t"] set_trim_end by (fastforce simp: image_iff)
  then have "split_on NL (join [NL] ?ls) = ?ls" by (intro split_on_join) auto
  moreover have "nfkc (join [NL] ?ls) = join [NL] ?ls" using assms unfolding nfkc_stable_def norm [symmetric] by blast
  ultimately have "normalizeForFuzzyMatch nfkc (join [NL] ?ls) = join [NL] (map (map plain_unit) (map trim_end ?ls))"
    by (simp add: normalizeForFuzzyMatch_def map_plain_join)
  also have "map (map plain_unit) (map trim_end ?ls) = ?ls" by (simp add: trim_end_plain)
  finally show ?thesis by (simp add: norm comp_def)
qed

section \<open>Re-indentation\<close>

lemma shift_line_search:
  assumes "\<forall>c \<in> set added. is_blank c"
  shows "dropWhile is_blank (shift_line added removed line) = dropWhile is_blank line"
proof -
  have "dropWhile is_blank (drop k (takeWhile is_blank line) @ drop (length (takeWhile is_blank line)) line) = dropWhile is_blank line" for k
    by (subst dropWhile_append2) (auto dest: in_set_dropD set_takeWhileD simp: dropWhile_eq_drop [symmetric])
  then show ?thesis using assms by (auto simp: shift_line_def Let_def leadingWhitespace_def)
qed

lemma shift_line_newline:
  "NL \<notin> set line \<Longrightarrow> \<forall>c \<in> set added. is_blank c \<Longrightarrow> NL \<notin> set (shift_line added removed line)"
  by (auto simp: shift_line_def Let_def leadingWhitespace_def dest!: in_set_dropD set_takeWhileD)

lemma shifted_search:
  assumes "\<forall>c \<in> set added. is_blank c"
  shows "normalizeForFuzzyMatchSearch
           (join [NL] (take k (split_on NL t) @ map (shift_line added removed) (drop k (split_on NL t)))) =
         normalizeForFuzzyMatchSearch t"
proof -
  let ?ls = "split_on NL t"
  let ?new = "take k ?ls @ map (shift_line added removed) (drop k ?ls)"
  have "\<forall>l \<in> set ?new. NL \<notin> set l"
    using split_on_pieces [of NL t] assms by (auto dest: in_set_takeD in_set_dropD shift_line_newline)
  moreover have "?new \<noteq> []" by (cases "k = 0") auto
  ultimately have "split_on NL (join [NL] ?new) = ?new" by (intro split_on_join)
  moreover have "map (dropWhile is_blank) ?new = map (dropWhile is_blank) (take k ?ls @ drop k ?ls)"
    unfolding map_append using shift_line_search [OF assms] by simp
  ultimately show ?thesis by (simp add: normalizeForFuzzyMatchSearch_def)
qed

text \<open>Re-anchoring a replacement changes leading blanks only.\<close>

lemma adjust_search:
  "normalizeForFuzzyMatchSearch (adjustReplacementIndentation base i oldText newText) = normalizeForFuzzyMatchSearch newText"
proof -
  have "\<forall>c \<in> set (drop k (leadingWhitespace l)). is_blank c" for k l
    by (auto simp: leadingWhitespace_def dest: in_set_dropD set_takeWhileD)
  then show ?thesis
    by (simp add: adjustReplacementIndentation_def Let_def shifted_search [of _ 0, simplified] shifted_search [of _ 1, simplified] shifted_search)
qed

section \<open>Fuzzy edits\<close>

text \<open>What a matched edit replaces in the normalized view and by what.\<close>

definition replaces :: "(jstr \<Rightarrow> jstr) \<Rightarrow> edit \<Rightarrow> jstr \<times> jstr \<Rightarrow> bool" where
  "replaces nfkc e p \<longleftrightarrow>
     (fst p = ed_oldText e \<and> snd p = ed_newText e) \<or>
     (normalizeForFuzzyMatchSearch (fst p) = search_text nfkc (ed_oldText e) \<and>
      normalizeForFuzzyMatchSearch (snd p) = normalizeForFuzzyMatchSearch (ed_newText e))"

lemma match_edit_replaces:
  assumes "match_edit nfkc content base path n j e = Inr m" "search_text nfkc (ed_oldText e) \<noteq> []"
    and "normalizeForFuzzyMatch nfkc base = base"
  shows "replaces nfkc e (region 0 base (plain_replacement m), re_newText m) \<and> re_matchIndex m + re_matchLength m \<le> length base"
proof (cases "index_of base (ed_oldText e)")
  case (Some i)
  with match_edit_exact [OF assms(1) Some] index_of_Some [OF Some] show ?thesis
    by (simp add: replaces_def region_def plain_replacement_def)
next
  case None
  from assms(1) have f: "fm_found (fuzzyFindText nfkc base (ed_oldText e))"
    by (auto simp: match_edit_def Let_def split: if_splits)
  note region = fuzzy_region [OF None f assms(2), unfolded assms(3)]
  from assms(1) region(3) have "re_matchIndex m = nat (fm_index (fuzzyFindText nfkc base (ed_oldText e)))"
    "re_matchLength m = nat (fm_matchLength (fuzzyFindText nfkc base (ed_oldText e)))"
    "\<exists>i. re_newText m = adjustReplacementIndentation base i (ed_oldText e) (ed_newText e)"
    by (auto simp: match_edit_def Let_def split: if_splits)
  with region show ?thesis by (auto simp: replaces_def region_def plain_replacement_def adjust_search)
qed

lemma fuzzy_used:
  assumes "list_all2 (\<lambda>e m. \<exists>j. match_edit nfkc content base path n j e = Inr m) es ms" "base = (if used then normalizeForFuzzyMatch nfkc content else content)"
    and "used = list_ex (\<lambda>e. fm_usedFuzzyMatch (fuzzyFindText nfkc content (ed_oldText e))) es'" "set es' = set es"
    and "e \<in> set es" "index_of content (ed_oldText e) = None"
  shows used
proof (rule ccontr)
  assume u: "\<not> used"
  with assms(1,2,5) obtain j m where "match_edit nfkc content content path n j e = Inr m"
    by (auto simp: list_all2_conv_all_nth in_set_conv_nth)
  then have "fm_found (fuzzyFindText nfkc content (ed_oldText e))" by (auto simp: match_edit_def Let_def split: if_splits)
  with assms(6) have "fm_usedFuzzyMatch (fuzzyFindText nfkc content (ed_oldText e))"
    by (auto simp: fuzzyFindText_def Let_def split: option.splits)
  with u assms(3,4,5) show False by (auto simp: list_ex_iff)
qed

text \<open>
  C27. A successful edit that needs fuzzy matching, with old texts that are not just white space: the
  edits can be ordered so that each replaces one region of the normalized view, either its old text
  verbatim by its new text, or a region with the same indentation-free search form by its new text up to
  indentation. The new content keeps every line that holds no part of a region exactly as it was in the
  file.
\<close>

theorem fuzzy_edits_contained:
  assumes stable: "nfkc_stable nfkc"
    and run: "applyEditsToNormalizedContent nfkc content edits path = Inr (b, n)"
    and fuzzy: "\<exists>e \<in> set edits. index_of content (normalizeToLF (ed_oldText e)) = None"
    and texts: "\<forall>e \<in> set edits. search_text nfkc (normalizeToLF (ed_oldText e)) \<noteq> []"
  shows "\<exists>es ps. mset es = mset edits \<and> list_all2 (\<lambda>e p. replaces nfkc (normalize_edit e) p) es ps \<and>
           edited (splitLinesWithEndings content) (splitLinesWithEndings (normalizeForFuzzyMatch nfkc content)) ps n"
proof -
  from run obtain used base es ms where u:
    "used = list_ex (\<lambda>e. fm_usedFuzzyMatch (fuzzyFindText nfkc content (ed_oldText e))) (map normalize_edit edits)"
    "base = (if used then normalizeForFuzzyMatch nfkc content else content)"
    and es: "mset es = mset (map normalize_edit edits)"
    and ms: "list_all2 (\<lambda>e m. \<exists>j. match_edit nfkc content base path (length edits) j e = Inr m) es ms"
      "first_overlap ms = None"
    and n: "(if used then applyReplacementsPreservingUnchangedLines content base (map plain_replacement ms)
      else Inr (applyReplacements base (map plain_replacement ms) 0)) = Inr n"
    by (rule apply_edits_success)
  from es have set_es: "set (map normalize_edit edits) = set es" by (metis mset_eq_setD)
  from fuzzy obtain e0 where "e0 \<in> set edits" "index_of content (normalizeToLF (ed_oldText e0)) = None" by blast
  then have "normalize_edit e0 \<in> set es" "index_of content (ed_oldText (normalize_edit e0)) = None"
    unfolding set_es [symmetric] by (auto simp: normalize_edit_def)
  then have used using fuzzy_used [OF ms(1) u(2) u(1) set_es] by blast
  then have base: "base = normalizeForFuzzyMatch nfkc content"
    "applyReplacementsPreservingUnchangedLines content base (map plain_replacement ms) = Inr n" using u n by auto
  have idem: "normalizeForFuzzyMatch nfkc base = base" using normalize_idempotent [OF stable] base by simp
  have each: "list_all2 (\<lambda>e m. replaces nfkc e (region 0 base (plain_replacement m), re_newText m) \<and>
      re_matchIndex m + re_matchLength m \<le> length base) es ms"
    using ms(1)
  proof (rule list.rel_mono_strong)
    fix e m assume "e \<in> set es" "\<exists>j. match_edit nfkc content base path (length edits) j e = Inr m"
    moreover from this texts have "search_text nfkc (ed_oldText e) \<noteq> []"
      unfolding set_es [symmetric] by (auto simp: normalize_edit_def)
    ultimately show "replaces nfkc e (region 0 base (plain_replacement m), re_newText m) \<and> re_matchIndex m + re_matchLength m \<le> length base"
      using match_edit_replaces idem by blast
  qed
  then have "\<forall>m \<in> set ms. re_matchIndex m + re_matchLength m \<le> length base"
    by (auto simp: list_all2_conv_all_nth in_set_conv_nth)
  with ms(2) have "fits 0 (length base) (map plain_replacement ms)" by (intro no_overlap_fits) (auto split: list.splits)
  from preserving_edited [OF base(2) this]
  have ed: "edited (splitLinesWithEndings content) (splitLinesWithEndings base)
      (map (\<lambda>r. (region 0 base r, re_newText r)) (map plain_replacement ms)) n" .
  from es obtain es0 where es0: "mset es0 = mset edits" "es = map normalize_edit es0" using map_reordered by metis
  have "list_all2 (\<lambda>e p. replaces nfkc (normalize_edit e) p) es0 (map (\<lambda>r. (region 0 base r, re_newText r)) (map plain_replacement ms))"
    using each unfolding es0 by (simp add: list_all2_map1 list_all2_map2 plain_replacement_def) (auto elim: list_all2_mono)
  with ed es0(1) base(1) show ?thesis by blast
qed

definition demo_edit :: edit where
  "demo_edit = \<lparr>ed_oldText = js ''  a'' @ [NL], ed_newText = js ''  c'' @ [NL]\<rparr>"

definition demo_text :: jstr where
  "demo_text = js '' a'' @ [NL] @ js '' b''"

lemma demo_result:
  "applyEditsToNormalizedContent (\<lambda>s. s) demo_text [demo_edit] (js ''f'') = Inr (demo_text, js '' c'' @ [NL] @ js ''b'')"
  by code_simp


theorem fuzzy_edits_contained_witness:
  "\<exists>es ps. mset es = mset [demo_edit] \<and> list_all2 (\<lambda>e p. replaces (\<lambda>s. s) (normalize_edit e) p) es ps \<and>
     edited (splitLinesWithEndings demo_text) (splitLinesWithEndings (normalizeForFuzzyMatch (\<lambda>s. s) demo_text)) ps
       (js '' c'' @ [NL] @ js ''b'')"
proof (rule fuzzy_edits_contained [of "\<lambda>s. s" demo_text "[demo_edit]" "js ''f''" demo_text])
  show "applyEditsToNormalizedContent (\<lambda>s. s) demo_text [demo_edit] (js ''f'') =
      Inr (demo_text, js '' c'' @ [NL] @ js ''b'')" by (rule demo_result)
  show "\<exists>e \<in> set [demo_edit]. index_of demo_text (normalizeToLF (ed_oldText e)) = None" by code_simp
  show "\<forall>e \<in> set [demo_edit]. search_text (\<lambda>s. s) (normalizeToLF (ed_oldText e)) \<noteq> []" by code_simp
qed (simp add: nfkc_stable_def)

end
