(* ===== verification/File_Queue.thy ===== *)
theory File_Queue
  imports Prelude
begin

text \<open>
  The queue that serializes mutations of one file (packages/coding-agent/src/core/tools/file-mutation-queue.ts)
  as a transition system over its interleavings. An operation is identified by the position of its call of
  \<open>withFileMutationQueue\<close>. Calls register one after the other, because each registration is chained to the one
  before it; \<open>getMutationQueueKey\<close> asks the file system, so the key a registration gets, or its failure, is
  part of the step.
\<close>

section \<open>State\<close>

datatype phase = Waiting | Registered | Running | Settled | Rejected

text \<open>
  \<open>op_current\<close> is \<open>currentQueue\<close>: the chained promise of an earlier operation, or \<open>None\<close> for
  \<open>Promise.resolve()\<close>.
\<close>

record operation =
  op_phase :: phase
  op_key :: jstr
  op_current :: "nat option"

text \<open>\<open>fileMutationQueues\<close> maps a key to a chained promise, named by the operation that made it.\<close>

record mutation_queue =
  mq_operations :: "operation list"
  mq_queues :: "(jstr, nat) omap"

definition initial_queue :: mutation_queue where
  "initial_queue = \<lparr>mq_operations = [], mq_queues = []\<rparr>"

text \<open>
  \<open>currentQueue.then(() => nextQueue)\<close> is resolved when \<open>currentQueue\<close> is and the operation has called
  \<open>releaseNext\<close>. An operation waits for one that registered before it.
\<close>

fun chain_resolved :: "operation list \<Rightarrow> nat \<Rightarrow> bool" where
  "chain_resolved ops i \<longleftrightarrow>
     i < length ops \<and> op_phase (ops ! i) = Settled \<and>
     (case op_current (ops ! i) of None \<Rightarrow> True | Some j \<Rightarrow> if j < i then chain_resolved ops j else False)"

declare chain_resolved.simps [simp del]

definition set_phase :: "nat \<Rightarrow> phase \<Rightarrow> mutation_queue \<Rightarrow> mutation_queue" where
  "set_phase i p s = s\<lparr>mq_operations := (mq_operations s)[i := (mq_operations s ! i)\<lparr>op_phase := p\<rparr>]\<rparr>"

section \<open>Steps\<close>

definition mutation_call :: "mutation_queue \<Rightarrow> mutation_queue" where
  "mutation_call s = s\<lparr>mq_operations := mq_operations s @ [\<lparr>op_phase = Waiting, op_key = [], op_current = None\<rparr>]\<rparr>"

text \<open>The registration of an operation runs when the one before it is settled, either way.\<close>

definition can_register :: "mutation_queue \<Rightarrow> nat \<Rightarrow> bool" where
  "can_register s i \<longleftrightarrow>
     i < length (mq_operations s) \<and> op_phase (mq_operations s ! i) = Waiting \<and>
     (\<forall>j < i. op_phase (mq_operations s ! j) \<noteq> Waiting)"

definition mutation_register :: "nat \<Rightarrow> jstr option \<Rightarrow> mutation_queue \<Rightarrow> mutation_queue" where
  "mutation_register i key s =
     (case key of
        None \<Rightarrow> set_phase i Rejected s
      | Some k \<Rightarrow>
          s\<lparr>mq_operations := (mq_operations s)[i := \<lparr>op_phase = Registered, op_key = k, op_current = omap_get (mq_queues s) k\<rparr>],
            mq_queues := omap_set k i (mq_queues s)\<rparr>)"

definition can_start :: "mutation_queue \<Rightarrow> nat \<Rightarrow> bool" where
  "can_start s i \<longleftrightarrow>
     i < length (mq_operations s) \<and> op_phase (mq_operations s ! i) = Registered \<and>
     (case op_current (mq_operations s ! i) of None \<Rightarrow> True | Some j \<Rightarrow> chain_resolved (mq_operations s) j)"

definition mutation_start :: "nat \<Rightarrow> mutation_queue \<Rightarrow> mutation_queue" where
  "mutation_start i s = set_phase i Running s"

definition can_finish :: "mutation_queue \<Rightarrow> nat \<Rightarrow> bool" where
  "can_finish s i \<longleftrightarrow> i < length (mq_operations s) \<and> op_phase (mq_operations s ! i) = Running"

text \<open>The \<open>finally\<close> block: release the next operation and drop the queue if nothing was chained to it.\<close>

definition mutation_finish :: "nat \<Rightarrow> mutation_queue \<Rightarrow> mutation_queue" where
  "mutation_finish i s =
     (let s1 = set_phase i Settled s; key = op_key (mq_operations s ! i)
      in if omap_get (mq_queues s1) key = Some i then s1\<lparr>mq_queues := omap_delete key (mq_queues s1)\<rparr> else s1)"

text \<open>Progress of the operations that were called.\<close>

inductive mutation_step :: "mutation_queue \<Rightarrow> mutation_queue \<Rightarrow> bool" where
  step_register: "can_register s i \<Longrightarrow> mutation_step s (mutation_register i key s)"
| step_start: "can_start s i \<Longrightarrow> mutation_step s (mutation_start i s)"
| step_finish: "can_finish s i \<Longrightarrow> mutation_step s (mutation_finish i s)"

inductive mutation_reachable :: "mutation_queue \<Rightarrow> bool" where
  reach_initial: "mutation_reachable initial_queue"
| reach_call: "mutation_reachable s \<Longrightarrow> mutation_reachable (mutation_call s)"
| reach_step: "mutation_reachable s \<Longrightarrow> mutation_step s t \<Longrightarrow> mutation_reachable t"

section \<open>Invariant\<close>

text \<open>Operation \<open>i\<close> has the key \<open>k\<close>.\<close>

definition keyed :: "operation list \<Rightarrow> jstr \<Rightarrow> nat \<Rightarrow> bool" where
  "keyed ops k i \<longleftrightarrow> i < length ops \<and> op_phase (ops ! i) \<in> {Registered, Running, Settled} \<and> op_key (ops ! i) = k"

text \<open>Every operation of the key before \<open>i\<close> is settled.\<close>

definition cleared :: "operation list \<Rightarrow> jstr \<Rightarrow> nat \<Rightarrow> bool" where
  "cleared ops k i \<longleftrightarrow> (\<forall>j < i. keyed ops k j \<longrightarrow> op_phase (ops ! j) = Settled)"

text \<open>The last operation of a key before \<open>i\<close>.\<close>

definition previous :: "operation list \<Rightarrow> jstr \<Rightarrow> nat \<Rightarrow> nat \<Rightarrow> bool" where
  "previous ops k i j \<longleftrightarrow> j < i \<and> keyed ops k j \<and> (\<forall>l. j < l \<and> l < i \<longrightarrow> \<not> keyed ops k l)"

definition op_inv :: "operation list \<Rightarrow> nat \<Rightarrow> bool" where
  "op_inv ops i \<longleftrightarrow>
     (let k = op_key (ops ! i) in
      (case op_current (ops ! i) of None \<Rightarrow> cleared ops k i | Some j \<Rightarrow> previous ops k i j) \<and>
      (op_phase (ops ! i) \<noteq> Registered \<longrightarrow> cleared ops k i) \<and>
      (\<forall>j < i. op_phase (ops ! j) \<noteq> Waiting))"

definition map_inv :: "operation list \<Rightarrow> jstr \<Rightarrow> nat option \<Rightarrow> bool" where
  "map_inv ops k entry \<longleftrightarrow>
     (case entry of
        None \<Rightarrow> cleared ops k (length ops)
      | Some j \<Rightarrow> previous ops k (length ops) j \<and> op_phase (ops ! j) \<noteq> Settled)"

definition queue_inv :: "mutation_queue \<Rightarrow> bool" where
  "queue_inv s \<longleftrightarrow>
     (\<forall>k i. keyed (mq_operations s) k i \<longrightarrow> op_inv (mq_operations s) i) \<and>
     (\<forall>k. map_inv (mq_operations s) k (omap_get (mq_queues s) k))"

lemma inv_initial: "queue_inv initial_queue"
  by (simp add: queue_inv_def initial_queue_def keyed_def map_inv_def cleared_def)

text \<open>A new operation waits, so no key has it.\<close>

lemma keyed_waiting: "op_phase p = Waiting \<Longrightarrow> keyed (ops @ [p]) k i \<longleftrightarrow> keyed ops k i"
  by (auto simp: keyed_def nth_append less_Suc_eq)

lemma inv_call:
  assumes "queue_inv s"
  shows "queue_inv (mutation_call s)"
proof -
  let ?ops = "mq_operations s" and ?p = "\<lparr>op_phase = Waiting, op_key = [], op_current = None\<rparr>"
  let ?ops' = "?ops @ [?p]"
  have k: "keyed ?ops' k i \<longleftrightarrow> keyed ?ops k i" for k i by (rule keyed_waiting) simp
  have nth: "?ops' ! i = ?ops ! i" if "i < length ?ops" for i using that by (simp add: nth_append)
  have lt: "i < length ?ops" if "keyed ?ops k i" for k i using that by (simp add: keyed_def)
  have cl: "cleared ?ops' k i \<longleftrightarrow> cleared ?ops k i" for k i using nth lt by (auto simp: cleared_def k)
  have pr: "previous ?ops' k i = previous ?ops k i" for k i by (simp add: previous_def k fun_eq_iff)
  have "op_inv ?ops' i" if "op_inv ?ops i" "i < length ?ops" for i
    using that nth by (auto simp: op_inv_def cl pr Let_def split: option.splits)
  moreover have "map_inv ?ops' k e" if "map_inv ?ops k e" for k e
  proof (cases e)
    case None
    with that lt show ?thesis by (simp add: map_inv_def cl) (auto simp: cleared_def less_Suc_eq)
  next
    case (Some j)
    with that have "previous ?ops k (length ?ops) j" "op_phase (?ops ! j) \<noteq> Settled" by (auto simp: map_inv_def)
    moreover from this have "previous ?ops k (Suc (length ?ops)) j" using lt by (auto simp: previous_def less_Suc_eq)
    ultimately show ?thesis using Some nth by (simp add: map_inv_def pr) (simp add: previous_def)
  qed
  ultimately show ?thesis using assms lt by (auto simp: queue_inv_def mutation_call_def k)
qed

text \<open>Changing the phase of an operation that keeps its key.\<close>

definition at_phase :: "operation list \<Rightarrow> nat \<Rightarrow> phase \<Rightarrow> operation list" where
  "at_phase ops i p = ops[i := (ops ! i)\<lparr>op_phase := p\<rparr>]"

lemma at_phase_nth [simp]:
  "j < length ops \<Longrightarrow> op_key (at_phase ops i p ! j) = op_key (ops ! j)"
  "j < length ops \<Longrightarrow> op_current (at_phase ops i p ! j) = op_current (ops ! j)"
  "j < length ops \<Longrightarrow> op_phase (at_phase ops i p ! j) = (if j = i then p else op_phase (ops ! j))"
  "length (at_phase ops i p) = length ops"
  by (cases "i = j"; simp add: at_phase_def)+

lemma at_phase_same:
  assumes "op_phase (ops ! i) \<in> {Registered, Running, Settled} \<longleftrightarrow> p \<in> {Registered, Running, Settled}"
  shows "keyed (at_phase ops i p) = keyed ops" "previous (at_phase ops i p) = previous ops"
proof -
  have "keyed (at_phase ops i p) k j = keyed ops k j" for k j
    using assms by (cases "j < length ops"; cases "j = i") (simp_all add: keyed_def)
  then show "keyed (at_phase ops i p) = keyed ops" by (simp add: fun_eq_iff)
  then show "previous (at_phase ops i p) = previous ops" by (simp add: previous_def fun_eq_iff)
qed

lemma keyed_lt: "keyed ops k i \<Longrightarrow> i < length ops \<and> op_key (ops ! i) = k"
  by (simp add: keyed_def)

lemma cleared_at_phase:
  assumes "keyed (at_phase ops i p) = keyed ops" "cleared ops k j" "op_phase (ops ! i) \<noteq> Settled \<or> p = Settled"
  shows "cleared (at_phase ops i p) k j"
  using assms keyed_lt by (fastforce simp: cleared_def)

text \<open>Every operation of a key before one that waits for the previous operation is settled once that is.\<close>

lemma cleared_after_previous:
  "previous ops k i j \<Longrightarrow> cleared ops k j \<Longrightarrow> op_phase (ops ! j) = Settled \<Longrightarrow> cleared ops k i"
  unfolding previous_def cleared_def by (metis linorder_neqE_nat)

lemma can_start_cleared:
  assumes "queue_inv s" "can_start s i"
  shows "cleared (mq_operations s) (op_key (mq_operations s ! i)) i"
proof -
  let ?ops = "mq_operations s"
  let ?k = "op_key (?ops ! i)"
  from assms(2) have "keyed ?ops ?k i" by (auto simp: can_start_def keyed_def)
  with assms(1) have i: "op_inv ?ops i" by (auto simp: queue_inv_def)
  show ?thesis
  proof (cases "op_current (?ops ! i)")
    case None
    with i show ?thesis by (simp add: op_inv_def Let_def)
  next
    case (Some j)
    with assms(2) i have j: "previous ?ops ?k i j" "op_phase (?ops ! j) = Settled"
      by (auto simp: can_start_def op_inv_def Let_def chain_resolved.simps [of _ j])
    then have "keyed ?ops ?k j" by (simp add: previous_def)
    moreover from this assms(1) have "op_inv ?ops j" by (auto simp: queue_inv_def)
    ultimately have "cleared ?ops ?k j" using j(2) by (auto simp: op_inv_def Let_def keyed_def)
    with j show ?thesis using cleared_after_previous by blast
  qed
qed

lemma set_phase_at: "set_phase i p s = s\<lparr>mq_operations := at_phase (mq_operations s) i p\<rparr>"
  by (simp add: set_phase_def at_phase_def)

lemma inv_start:
  assumes "queue_inv s" "can_start s i"
  shows "queue_inv (mutation_start i s)"
proof -
  let ?ops = "mq_operations s" and ?ops' = "at_phase (mq_operations s) i Running"
  from assms(2) have i: "i < length ?ops" "op_phase (?ops ! i) = Registered" by (auto simp: can_start_def)
  then have same: "keyed ?ops' = keyed ?ops" "previous ?ops' = previous ?ops" using at_phase_same [of ?ops i Running] by auto
  have cl: "cleared ?ops' k j" if "cleared ?ops k j" for k j using cleared_at_phase [OF same(1) that] i by simp
  have "op_inv ?ops' j" if "keyed ?ops k j" for k j
  proof -
    from that assms(1) have "op_inv ?ops j" by (auto simp: queue_inv_def)
    then show ?thesis using keyed_lt [OF that] cl can_start_cleared [OF assms] same(2)
      by (auto simp: op_inv_def Let_def split: option.splits)
  qed
  moreover have "map_inv ?ops' k e" if "map_inv ?ops k e" for k e
    using that cl same by (auto simp: map_inv_def previous_def dest: keyed_lt split: option.splits)
  ultimately show ?thesis using assms(1) same by (auto simp: queue_inv_def mutation_start_def set_phase_at)
qed

lemma inv_finish:
  assumes "queue_inv s" "can_finish s i"
  shows "queue_inv (mutation_finish i s)"
proof -
  let ?ops = "mq_operations s" and ?ops' = "at_phase (mq_operations s) i Settled"
  let ?key = "op_key (?ops ! i)"
  from assms(2) have i: "i < length ?ops" "op_phase (?ops ! i) = Running" by (auto simp: can_finish_def)
  then have same: "keyed ?ops' = keyed ?ops" "previous ?ops' = previous ?ops" using at_phase_same [of ?ops i Settled] by auto
  have cl: "cleared ?ops' k j" if "cleared ?ops k j" for k j using cleared_at_phase [OF same(1) that] i by simp
  from i have ki: "keyed ?ops ?key i" by (simp add: keyed_def)
  with assms(1) i have ci: "cleared ?ops ?key i" by (auto simp: queue_inv_def op_inv_def Let_def)
  have ops: "op_inv ?ops' j" if "keyed ?ops k j" for k j
  proof -
    from that assms(1) have "op_inv ?ops j" by (auto simp: queue_inv_def)
    then show ?thesis using keyed_lt [OF that] cl ci same(2)
      by (auto simp: op_inv_def Let_def split: option.splits)
  qed
  have keep: "map_inv ?ops' k e" if "map_inv ?ops k e" "e \<noteq> Some i" for k e
    using that cl same by (auto simp: map_inv_def previous_def dest: keyed_lt split: option.splits)
  have drop: "map_inv ?ops' ?key None" if "map_inv ?ops ?key (Some i)"
    using that cl [OF ci] cleared_after_previous [of ?ops' ?key "length ?ops" i] i same by (simp add: map_inv_def)
  have other: "omap_get (mq_queues s) k \<noteq> Some i" if "k \<noteq> ?key" for k
  proof
    assume "omap_get (mq_queues s) k = Some i"
    with assms(1) have "map_inv ?ops k (Some i)" unfolding queue_inv_def by metis
    then show False using that keyed_lt by (auto simp: map_inv_def previous_def)
  qed
  have inv: "map_inv ?ops k (omap_get (mq_queues s) k)" for k using assms(1) by (simp add: queue_inv_def)
  show ?thesis
  proof (cases "omap_get (mq_queues s) ?key = Some i")
    case True
    then have "map_inv ?ops' k (omap_get (omap_delete ?key (mq_queues s)) k)" for k
      using inv [of k] True keep [of k] drop other [of k] by (auto simp: get_omap_delete)
    with True ops same show ?thesis by (auto simp: queue_inv_def mutation_finish_def set_phase_at Let_def)
  next
    case False
    then have "map_inv ?ops' k (omap_get (mq_queues s) k)" for k
      using inv [of k] keep [of k] other [of k] by (cases "k = ?key") auto
    with False ops same show ?thesis by (auto simp: queue_inv_def mutation_finish_def set_phase_at Let_def)
  qed
qed

lemma inv_register:
  assumes "queue_inv s" "can_register s i"
  shows "queue_inv (mutation_register i key s)"
proof -
  let ?ops = "mq_operations s"
  from assms(2) have i: "i < length ?ops" "op_phase (?ops ! i) = Waiting" "\<forall>j < i. op_phase (?ops ! j) \<noteq> Waiting"
    by (auto simp: can_register_def)
  have below: "l < i" if "keyed ?ops k l" for k l
  proof (rule ccontr)
    assume "\<not> l < i"
    moreover from that i have "l \<noteq> i" by (auto simp: keyed_def)
    ultimately have "i < l" by simp
    moreover from that assms(1) have "op_inv ?ops l" by (auto simp: queue_inv_def)
    ultimately show False using i by (auto simp: op_inv_def Let_def)
  qed
  show ?thesis
  proof (cases key)
    case None
    let ?ops' = "at_phase ?ops i Rejected"
    have same: "keyed ?ops' = keyed ?ops" "previous ?ops' = previous ?ops" using at_phase_same [of ?ops i Rejected] i by auto
    have cl: "cleared ?ops' k j" if "cleared ?ops k j" for k j using cleared_at_phase [OF same(1) that] i by simp
    have "op_inv ?ops' j" if "keyed ?ops k j" for k j
    proof -
      from that assms(1) have "op_inv ?ops j" by (auto simp: queue_inv_def)
      then show ?thesis using keyed_lt [OF that] below [OF that] cl same(2)
        by (auto simp: op_inv_def Let_def split: option.splits)
    qed
    moreover have "map_inv ?ops' k e" if "map_inv ?ops k e" for k e
      using that cl same below by (auto simp: map_inv_def previous_def dest: keyed_lt split: option.splits)
    ultimately show ?thesis using None assms(1) same by (auto simp: queue_inv_def mutation_register_def set_phase_at)
  next
    case (Some k)
    let ?new = "\<lparr>op_phase = Registered, op_key = k, op_current = omap_get (mq_queues s) k\<rparr>"
    define ops' where "ops' = ?ops[i := ?new]"
    have new: "ops' ! i = ?new" "length ops' = length ?ops" using i by (simp_all add: ops'_def)
    have old: "ops' ! l = ?ops ! l" if "l \<noteq> i" for l using that by (simp add: ops'_def)
    have keyed: "keyed ops' k' l \<longleftrightarrow> keyed ?ops k' l \<or> (l = i \<and> k' = k)" for k' l
      using i new old by (cases "l = i") (auto simp: keyed_def)
    have upto: "cleared ops' k' l \<longleftrightarrow> cleared ?ops k' l" "previous ops' k' l j \<longleftrightarrow> previous ?ops k' l j" if "l \<le> i" for k' l j
      using that old by (auto simp: cleared_def previous_def keyed)
    have ends: "cleared ?ops k' (length ?ops) \<longleftrightarrow> cleared ?ops k' i" "previous ?ops k' (length ?ops) j \<longleftrightarrow> previous ?ops k' i j" for k' j
      using below i(1) unfolding cleared_def previous_def by (meson less_trans)+
    have map: "map_inv ?ops k' (omap_get (mq_queues s) k')" for k' using assms(1) by (simp add: queue_inv_def)
    have "op_inv ops' i"
      using map [of k] i new old by (auto simp: op_inv_def map_inv_def ends upto split: option.splits)
    moreover have "op_inv ops' l" if "keyed ?ops k' l" for k' l
    proof -
      from that assms(1) have "op_inv ?ops l" by (auto simp: queue_inv_def)
      then show ?thesis using below [OF that] upto [of l] old by (auto simp: op_inv_def Let_def split: option.splits)
    qed
    moreover have "map_inv ops' k (Some i)"
      using i below new by (fastforce simp: map_inv_def previous_def keyed)
    moreover have "map_inv ops' k' (omap_get (mq_queues s) k')" if "k' \<noteq> k" for k'
      using map [of k'] that below old new by (fastforce simp: map_inv_def cleared_def previous_def keyed split: option.splits)
    ultimately show ?thesis using Some by (auto simp: queue_inv_def mutation_register_def get_omap_set keyed ops'_def [symmetric])
  qed
qed

lemma inv_step: "mutation_step s t \<Longrightarrow> queue_inv s \<Longrightarrow> queue_inv t"
  by (auto elim!: mutation_step.cases intro: inv_register inv_start inv_finish)

lemma inv_reachable: "mutation_reachable s \<Longrightarrow> queue_inv s"
  by (induction rule: mutation_reachable.induct) (auto intro: inv_initial inv_call inv_step)

section \<open>Serialization\<close>

text \<open>
  C29. Two operations on the same file never overlap and run in the order of their calls: when an operation has
  started, every earlier operation with its key is settled, whatever keys the file system gave the others and
  however the operations interleave.
\<close>

theorem mutation_queue_serializes:
  assumes "mutation_reachable s" "i < j"
    and "keyed (mq_operations s) k i" "keyed (mq_operations s) k j"
    and "op_phase (mq_operations s ! j) \<noteq> Registered"
  shows "op_phase (mq_operations s ! i) = Settled"
proof -
  from inv_reachable [OF assms(1)] assms(4) have "op_inv (mq_operations s) j" by (auto simp: queue_inv_def)
  with assms(5) keyed_lt [OF assms(4)] have "cleared (mq_operations s) k j" by (auto simp: op_inv_def Let_def)
  with assms(2,3) show ?thesis by (simp add: cleared_def)
qed

text \<open>The chained promise of a settled operation is resolved.\<close>

lemma settled_chain_resolved:
  "queue_inv s \<Longrightarrow> keyed (mq_operations s) k j \<Longrightarrow> op_phase (mq_operations s ! j) = Settled \<Longrightarrow>
   chain_resolved (mq_operations s) j"
proof (induction j rule: less_induct)
  case (less j)
  let ?ops = "mq_operations s"
  from less.prems have j: "op_inv ?ops j" by (auto simp: queue_inv_def)
  show ?case
  proof (cases "op_current (?ops ! j)")
    case None
    with less.prems keyed_lt show ?thesis by (simp add: chain_resolved.simps [of _ j])
  next
    case (Some l)
    with j less.prems keyed_lt [OF less.prems(2)] have l: "previous ?ops k j l" "cleared ?ops k j"
      by (auto simp: op_inv_def Let_def)
    then have "l < j" "keyed ?ops k l" "op_phase (?ops ! l) = Settled" by (auto simp: previous_def cleared_def)
    with less Some keyed_lt [OF less.prems(2)] show ?thesis by (simp add: chain_resolved.simps [of _ j])
  qed
qed

definition remaining_of :: "operation \<Rightarrow> nat" where
  "remaining_of p = (case op_phase p of Waiting \<Rightarrow> 3 | Registered \<Rightarrow> 2 | Running \<Rightarrow> 1 | _ \<Rightarrow> 0)"

text \<open>The steps the called operations still take.\<close>

definition remaining :: "mutation_queue \<Rightarrow> nat" where
  "remaining s = sum_list (map remaining_of (mq_operations s))"

lemma remaining_update:
  assumes "i < length ops" "remaining_of p < remaining_of (ops ! i)"
  shows "sum_list (map remaining_of (ops[i := p])) < sum_list (map remaining_of ops)"
proof -
  have "remaining_of (ops ! i) \<le> sum_list (map remaining_of ops)" using assms(1) by (simp add: member_le_sum_list)
  with assms show ?thesis by (simp add: map_update sum_list_update)
qed

lemma step_decreases: "mutation_step s t \<Longrightarrow> remaining t < remaining s"
proof (induction rule: mutation_step.induct)
  case (step_register s i key)
  then show ?case
    by (cases key) (auto simp: can_register_def mutation_register_def set_phase_def remaining_def remaining_of_def intro!: remaining_update)
next
  case (step_start s i)
  then show ?case by (auto simp: can_start_def mutation_start_def set_phase_def remaining_def remaining_of_def intro!: remaining_update)
next
  case (step_finish s i)
  then show ?case by (auto simp: can_finish_def mutation_finish_def set_phase_def remaining_def remaining_of_def Let_def intro!: remaining_update)
qed

definition unsettled :: "mutation_queue \<Rightarrow> phase \<Rightarrow> nat \<Rightarrow> bool" where
  "unsettled s p i \<longleftrightarrow> i < length (mq_operations s) \<and> op_phase (mq_operations s ! i) = p"

lemma stuck_settled:
  assumes "queue_inv s" "\<nexists>t. mutation_step s t"
  shows "\<not> unsettled s Waiting i" "\<not> unsettled s Running i" "\<not> unsettled s Registered i"
proof -
  let ?ops = "mq_operations s"
  show w: "\<not> unsettled s Waiting i" for i
  proof
    assume "unsettled s Waiting i"
    define m where "m = (LEAST j. unsettled s Waiting j)"
    from \<open>unsettled s Waiting i\<close> have "unsettled s Waiting m" unfolding m_def by (rule LeastI)
    moreover have "\<not> unsettled s Waiting j" if "j < m" for j using that not_less_Least unfolding m_def by blast
    ultimately have "can_register s m" by (auto simp: can_register_def unsettled_def)
    then show False using assms(2) step_register by blast
  qed
  show r: "\<not> unsettled s Running i" for i using assms(2) step_finish by (auto simp: can_finish_def unsettled_def)
  show "\<not> unsettled s Registered i"
  proof (induction i rule: less_induct)
    case (less i)
    show ?case
    proof
      assume u: "unsettled s Registered i"
      then have k: "keyed ?ops (op_key (?ops ! i)) i" by (auto simp: unsettled_def keyed_def)
      with assms(1) have "op_inv ?ops i" by (auto simp: queue_inv_def)
      moreover have "chain_resolved ?ops j" if "previous ?ops (op_key (?ops ! i)) i j" for j
      proof -
        from that have j: "j < i" "keyed ?ops (op_key (?ops ! i)) j" by (auto simp: previous_def)
        with less [OF j(1)] r [of j] have "op_phase (?ops ! j) = Settled" by (auto simp: keyed_def unsettled_def)
        with j(2) assms(1) show ?thesis using settled_chain_resolved by blast
      qed
      ultimately have "can_start s i" using u by (auto simp: can_start_def op_inv_def unsettled_def Let_def split: option.splits)
      then show False using assms(2) step_start by blast
    qed
  qed
qed

text \<open>
  C30. The queue does not block: the steps of the called operations always come to an end, and when none is
  possible every operation has settled or was rejected because its path could not be resolved, and no queue is
  left in the table.
\<close>

theorem mutation_queue_completes:
  assumes "mutation_reachable s"
  shows "(\<forall>t. mutation_step s t \<longrightarrow> remaining t < remaining s) \<and>
         ((\<nexists>t. mutation_step s t) \<longrightarrow>
            (\<forall>p \<in> set (mq_operations s). op_phase p \<in> {Settled, Rejected}) \<and> mq_queues s = [])"
proof (intro conjI impI)
  show "\<forall>t. mutation_step s t \<longrightarrow> remaining t < remaining s" using step_decreases by blast
  assume stuck: "\<nexists>t. mutation_step s t"
  note inv = inv_reachable [OF assms]
  show settled: "\<forall>p \<in> set (mq_operations s). op_phase p \<in> {Settled, Rejected}"
  proof
    fix p assume "p \<in> set (mq_operations s)"
    then obtain i where "i < length (mq_operations s)" "p = mq_operations s ! i" by (auto simp: in_set_conv_nth)
    with stuck_settled [OF inv stuck, of i] show "op_phase p \<in> {Settled, Rejected}"
      by (cases "op_phase p") (auto simp: unsettled_def)
  qed
  have "omap_get (mq_queues s) k = None" for k
  proof (cases "omap_get (mq_queues s) k")
    case (Some j)
    with inv have "map_inv (mq_operations s) k (Some j)" unfolding queue_inv_def by metis
    then have "keyed (mq_operations s) k j" "op_phase (mq_operations s ! j) \<noteq> Settled" by (auto simp: map_inv_def previous_def)
    with settled show ?thesis by (fastforce simp: keyed_def)
  qed
  then have "map_of (mq_queues s) = Map.empty" by (simp add: fun_eq_iff)
  then show "mq_queues s = []" by (simp only: map_of_eq_empty_iff)
qed

section \<open>An interleaving\<close>

text \<open>Two calls for the same file, the second one started after the first.\<close>

definition demo_registered :: mutation_queue where
  "demo_registered = mutation_register 1 (Some [1]) (mutation_register 0 (Some [1]) (mutation_call (mutation_call initial_queue)))"

definition demo_started :: mutation_queue where
  "demo_started = mutation_start 1 (mutation_finish 0 (mutation_start 0 demo_registered))"

lemma demo_steps:
  "mutation_reachable demo_registered" "mutation_reachable demo_started"
  "mutation_reachable (mutation_finish 1 demo_started)"
proof -
  note defs = demo_registered_def demo_started_def mutation_register_def mutation_start_def mutation_finish_def set_phase_def
    mutation_call_def initial_queue_def can_register_def can_start_def can_finish_def chain_resolved.simps Let_def omap_delete_def
  have "mutation_reachable (mutation_call (mutation_call initial_queue))" by (intro reach_call reach_initial)
  then have "mutation_reachable (mutation_register 0 (Some [1]) (mutation_call (mutation_call initial_queue)))"
    by (rule reach_step, intro step_register) (simp add: defs)
  then show r: "mutation_reachable demo_registered"
    unfolding demo_registered_def by (rule reach_step, intro step_register) (simp add: defs)
  then have "mutation_reachable (mutation_start 0 demo_registered)"
    by (rule reach_step, intro step_start) (simp add: defs)
  then have "mutation_reachable (mutation_finish 0 (mutation_start 0 demo_registered))"
    by (rule reach_step, intro step_finish) (simp add: defs)
  then show "mutation_reachable demo_started"
    unfolding demo_started_def by (rule reach_step, intro step_start) (simp add: defs)
  then show "mutation_reachable (mutation_finish 1 demo_started)"
    by (rule reach_step, intro step_finish) (simp add: defs)
qed

theorem mutation_queue_serializes_witness: "op_phase (mq_operations demo_started ! 0) = Settled"
  by (rule mutation_queue_serializes [OF demo_steps(2), of 0 1 "[1]"])
    (simp_all add: demo_started_def demo_registered_def mutation_register_def mutation_start_def mutation_finish_def set_phase_def
      mutation_call_def initial_queue_def Let_def keyed_def)

theorem mutation_queue_completes_witness:
  "mq_queues (mutation_finish 1 demo_started) = [] \<and> op_phase (mq_operations (mutation_finish 1 demo_started) ! 1) = Settled"
proof -
  have s: "mutation_finish 1 demo_started =
      \<lparr>mq_operations = [\<lparr>op_phase = Settled, op_key = [1], op_current = None\<rparr>, \<lparr>op_phase = Settled, op_key = [1], op_current = Some 0\<rparr>],
       mq_queues = []\<rparr>"
    by (simp add: demo_started_def demo_registered_def mutation_register_def mutation_start_def mutation_finish_def set_phase_def
      mutation_call_def initial_queue_def Let_def omap_delete_def)
  then have "\<nexists>t. mutation_step (mutation_finish 1 demo_started) t"
    by (auto elim!: mutation_step.cases simp: can_register_def can_start_def can_finish_def less_Suc_eq nth_Cons')
  with mutation_queue_completes [OF demo_steps(3)] s show ?thesis by simp
qed

end
