(* ===== verification/Streaming_Json.thy ===== *)
theory Streaming_Json
  imports Prelude
begin

text \<open>
  The incremental, tolerant JSON parser for streamed tool call arguments (packages/ai/src/utils/streaming-json.ts). A
  number is represented by the text it is read from, which determines it. The program shares an open container between
  its frame and the place it sits in; here the frame has the container, and the place gets its value when it closes:
  nothing reads the place before. Members are listed in the order they are first set.
\<close>

section \<open>Values, slots and changes\<close>

datatype slot = RootSlot | MemberSlot jstr | ElementSlot nat

datatype json_step = Key jstr | Index nat

type_synonym json_path = "json_step list"

datatype json_change = SetChange json_path json | AppendChange json_path jstr

datatype container = Members "(jstr, json) omap" | Elements "json list"

datatype phase = KeyPhase | ColonPhase | ValuePhase | CommaPhase

record json_frame =
  jf_container :: container
  jf_slot :: "slot option"
  jf_path :: "json_path option"
  jf_reportsInside :: bool
  jf_size :: nat
  jf_key :: "jstr option"
  jf_phase :: phase

text \<open>The change an open string extends is named by its position among the changes of the piece.\<close>

record open_string =
  os_isKey :: bool
  os_slot :: "slot option"
  os_text :: jstr
  os_escape :: jstr
  os_path :: "json_path option"
  os_change :: "nat option"

text \<open>The innermost frame is the first of the stack.\<close>

record json_parser =
  jp_root :: "json option"
  jp_done :: bool
  jp_stack :: "json_frame list"
  jp_string :: "open_string option"
  jp_scalar :: jstr
  jp_scalarSlot :: "slot option"
  jp_pathCost :: nat
  jp_credit :: nat
  jp_dirty :: bool
  jp_snapshot :: "json option"
  jp_changes :: "json_change list"

definition new_parser :: json_parser where
  "new_parser = \<lparr>jp_root = None, jp_done = False, jp_stack = [], jp_string = None, jp_scalar = [], jp_scalarSlot = None, jp_pathCost = 0,
     jp_credit = 0, jp_dirty = False, jp_snapshot = None, jp_changes = []\<rparr>"

definition MAX_REPORTED_DEPTH :: nat where "MAX_REPORTED_DEPTH = 32"
definition CREDIT_PER_APPEND :: nat where "CREDIT_PER_APPEND = 256"
definition CREDIT_PER_CHARACTER :: nat where "CREDIT_PER_CHARACTER = 8"
definition MAX_PENDING_SCALAR_LENGTH :: nat where "MAX_PENDING_SCALAR_LENGTH = 64"

abbreviation QUOTE :: unit16 where "QUOTE \<equiv> 34"
abbreviation BACKSLASH :: unit16 where "BACKSLASH \<equiv> 92"

section \<open>Tokens\<close>

definition isDelimiter :: "unit16 \<Rightarrow> bool" where
  "isDelimiter c \<longleftrightarrow> c \<in> {32, 9, 10, 13, 44, 58, 123, 125, 91, 93, 34}"

abbreviation is_digit :: "unit16 \<Rightarrow> bool" where
  "is_digit c \<equiv> 48 \<le> c \<and> c \<le> 57"

definition isHexDigit :: "unit16 \<Rightarrow> bool" where
  "isHexDigit c \<longleftrightarrow> 48 \<le> c \<and> c \<le> 57 \<or> 97 \<le> c \<and> c \<le> 102 \<or> 65 \<le> c \<and> c \<le> 70"

definition hex_digit_value :: "unit16 \<Rightarrow> nat" where
  "hex_digit_value c = (if c \<le> 57 then unat c - 48 else if c \<le> 70 then unat c - 55 else unat c - 87)"

definition hex_value :: "jstr \<Rightarrow> nat" where
  "hex_value ds = foldl (\<lambda>n d. 16 * n + hex_digit_value d) 0 ds"

definition SIMPLE_ESCAPES :: "(unit16 \<times> unit16) list" where
  "SIMPLE_ESCAPES = [(34, 34), (92, 92), (47, 47), (98, 8), (102, 12), (110, 10), (114, 13), (116, 9)]"

text \<open>The regular expressions of a number, piece by piece: what is left of the text behind the piece.\<close>

definition number_integer :: "jstr \<Rightarrow> jstr option" where
  "number_integer t =
     (case (case t of c # cs \<Rightarrow> if c = 45 then cs else t | [] \<Rightarrow> t) of
        [] \<Rightarrow> None
      | c # cs \<Rightarrow> if c = 48 then Some cs else if 49 \<le> c \<and> c \<le> 57 then Some (dropWhile is_digit cs) else None)"

definition number_fraction :: "jstr \<Rightarrow> jstr" where
  "number_fraction t = (case t of c # d # ds \<Rightarrow> if c = 46 \<and> is_digit d then dropWhile is_digit ds else t | _ \<Rightarrow> t)"

abbreviation is_exponent :: "unit16 \<Rightarrow> bool" where
  "is_exponent c \<equiv> c = 101 \<or> c = 69"

abbreviation is_sign :: "unit16 \<Rightarrow> bool" where
  "is_sign c \<equiv> c = 43 \<or> c = 45"

definition number_exponent :: "jstr \<Rightarrow> jstr" where
  "number_exponent t =
     (case t of
        c # cs \<Rightarrow>
          (if is_exponent c
           then case (case cs of s # ds \<Rightarrow> if is_sign s then ds else cs | [] \<Rightarrow> cs) of
                  d # ds \<Rightarrow> if is_digit d then dropWhile is_digit ds else t
                | [] \<Rightarrow> t
           else t)
      | [] \<Rightarrow> t)"

definition is_number :: "jstr \<Rightarrow> bool" where
  "is_number t \<longleftrightarrow> (case number_integer t of None \<Rightarrow> False | Some r \<Rightarrow> number_exponent (number_fraction r) = [])"

definition number_mantissa :: "jstr \<Rightarrow> jstr option" where
  "number_mantissa t =
     (case number_integer t of
        None \<Rightarrow> None
      | Some r \<Rightarrow>
          (let rest = number_fraction r in
           if (case rest of [e] \<Rightarrow> is_exponent e | [e, s] \<Rightarrow> is_exponent e \<and> is_sign s | _ \<Rightarrow> False)
           then Some (take (length t - length rest) t) else None))"

definition LITERALS :: "(jstr \<times> json) list" where
  "LITERALS = [(js ''true'', JBool True), (js ''false'', JBool False), (js ''null'', JNull)]"

definition scalarValue :: "jstr \<Rightarrow> json option" where
  "scalarValue token =
     (case map_of LITERALS token of Some v \<Rightarrow> Some v | None \<Rightarrow> if is_number token then Some (JNum token) else None)"

definition pendingScalarValue :: "jstr \<Rightarrow> json option" where
  "pendingScalarValue token =
     (case find (\<lambda>l. starts_with (fst l) token) LITERALS of
        Some l \<Rightarrow> Some (snd l)
      | None \<Rightarrow> if is_number token then Some (JNum token) else map_option JNum (number_mantissa token))"

section \<open>Containers\<close>

fun container_json :: "container \<Rightarrow> json" where
  "container_json (Members m) = JObj m"
| "container_json (Elements vs) = JArr vs"

text \<open>Assignment to a slot; an index is at most the length.\<close>

fun setSlot :: "slot \<Rightarrow> json \<Rightarrow> container \<Rightarrow> container" where
  "setSlot (MemberSlot k) v (Members m) = Members (omap_set k v m)"
| "setSlot (ElementSlot i) v (Elements vs) = Elements (if i = length vs then vs @ [v] else vs[i := v])"
| "setSlot _ v c = c"

text \<open>Whether the slot is new in the container.\<close>

fun new_slot :: "slot \<Rightarrow> container \<Rightarrow> bool" where
  "new_slot (MemberSlot k) (Members m) = (\<not> omap_has m k)"
| "new_slot (ElementSlot i) (Elements vs) = (i = length vs)"
| "new_slot _ c = False"

definition place :: "slot option \<Rightarrow> json \<Rightarrow> json_parser \<Rightarrow> json_parser" where
  "place slot v p =
     (case slot of
        None \<Rightarrow> p
      | Some RootSlot \<Rightarrow> p\<lparr>jp_dirty := True, jp_root := Some v\<rparr>
      | Some sl \<Rightarrow>
          (case jp_stack p of
             [] \<Rightarrow> p
           | f # fs \<Rightarrow>
               (let n = (if new_slot sl (jf_container f) then 1 else 0)
                in p\<lparr>jp_dirty := True, jp_pathCost := jp_pathCost p + n,
                     jp_stack := f\<lparr>jf_container := setSlot sl v (jf_container f), jf_size := jf_size f + n\<rparr> # fs\<rparr>)))"

definition is_array :: "json_frame \<Rightarrow> bool" where
  "is_array f = (case jf_container f of Elements _ \<Rightarrow> True | Members _ \<Rightarrow> False)"

definition valueSlot :: "json_parser \<Rightarrow> slot option" where
  "valueSlot p =
     (case jp_stack p of
        [] \<Rightarrow> if jp_root p = None then Some RootSlot else None
      | f # fs \<Rightarrow>
          (case jf_container f of
             Elements vs \<Rightarrow> Some (ElementSlot (length vs))
           | Members m \<Rightarrow> if jf_phase f = ValuePhase \<or> jf_phase f = ColonPhase then map_option MemberSlot (jf_key f) else None))"

fun slot_step :: "slot \<Rightarrow> json_path" where
  "slot_step RootSlot = []"
| "slot_step (MemberSlot k) = [Key k]"
| "slot_step (ElementSlot i) = [Index i]"

definition reported_path :: "slot option \<Rightarrow> json_frame list \<Rightarrow> json_path option" where
  "reported_path slot stack =
     (case slot of
        None \<Rightarrow> None
      | Some RootSlot \<Rightarrow> Some []
      | Some sl \<Rightarrow>
          (case stack of
             [] \<Rightarrow> None
           | f # fs \<Rightarrow> if jf_reportsInside f then map_option (\<lambda>q. q @ slot_step sl) (jf_path f) else None))"

abbreviation reportedPath :: "slot option \<Rightarrow> json_parser \<Rightarrow> json_path option" where
  "reportedPath slot p \<equiv> reported_path slot (jp_stack p)"

definition report :: "json_change \<Rightarrow> json_parser \<Rightarrow> json_parser" where
  "report c p = p\<lparr>jp_changes := jp_changes p @ [c]\<rparr>"

definition report_at :: "json_path option \<Rightarrow> json \<Rightarrow> json_parser \<Rightarrow> json_parser" where
  "report_at path v p = (case path of None \<Rightarrow> p | Some q \<Rightarrow> report (SetChange q v) p)"

definition set_top :: "(json_frame \<Rightarrow> json_frame) \<Rightarrow> json_parser \<Rightarrow> json_parser" where
  "set_top g p = (case jp_stack p of [] \<Rightarrow> p | f # fs \<Rightarrow> p\<lparr>jp_stack := g f # fs\<rparr>)"

definition valueEnded :: "json_parser \<Rightarrow> json_parser" where
  "valueEnded p =
     (if jp_stack p = [] then (if jp_root p \<noteq> None then p\<lparr>jp_done := True\<rparr> else p)
      else set_top (\<lambda>f. f\<lparr>jf_phase := CommaPhase\<rparr>) p)"

section \<open>Strings\<close>

fun extend_change :: "jstr \<Rightarrow> json_change \<Rightarrow> json_change" where
  "extend_change t (SetChange q (JStr s)) = SetChange q (JStr (s @ t))"
| "extend_change t (AppendChange q s) = AppendChange q (s @ t)"
| "extend_change t c = c"

definition appendString :: "open_string \<Rightarrow> jstr \<Rightarrow> json_parser \<Rightarrow> json_parser" where
  "appendString str t p =
     (let o1 = str\<lparr>os_text := os_text str @ t\<rparr> in
      if os_isKey str then p\<lparr>jp_string := Some o1\<rparr>
      else
        let p1 = place (os_slot o1) (JStr (os_text o1)) p in
        case os_path o1 of
          None \<Rightarrow> p1\<lparr>jp_string := Some o1\<rparr>
        | Some q \<Rightarrow>
            if jp_changes p1 \<noteq> [] \<and> os_change o1 = Some (length (jp_changes p1) - 1)
            then p1\<lparr>jp_changes := butlast (jp_changes p1) @ [extend_change t (last (jp_changes p1))], jp_string := Some o1\<rparr>
            else (report (AppendChange q t) p1)\<lparr>jp_string := Some (o1\<lparr>os_change := Some (length (jp_changes p1))\<rparr>)\<rparr>)"

definition start_value :: "json_parser \<Rightarrow> json_parser" where
  "start_value p =
     (let slot = valueSlot p;
          path = reportedPath slot p;
          p1 = place slot (JStr []) p
      in (report_at path (JStr []) p1)\<lparr>jp_string := Some \<lparr>os_isKey = False, os_slot = slot, os_text = [], os_escape = [], os_path = path,
           os_change = (if path = None then None else Some (length (jp_changes p1)))\<rparr>\<rparr>)"

definition startString :: "json_parser \<Rightarrow> json_parser" where
  "startString p =
     (if (case jp_stack p of f # fs \<Rightarrow> \<not> is_array f \<and> (jf_phase f = KeyPhase \<or> jf_phase f = CommaPhase) | [] \<Rightarrow> False)
      then p\<lparr>jp_string := Some \<lparr>os_isKey = True, os_slot = None, os_text = [], os_escape = [], os_path = None, os_change = None\<rparr>\<rparr>
      else start_value p)"

definition endString :: "open_string \<Rightarrow> json_parser \<Rightarrow> json_parser" where
  "endString str p =
     (let p1 = p\<lparr>jp_string := None\<rparr>
      in if os_isKey str then set_top (\<lambda>f. f\<lparr>jf_key := Some (os_text str), jf_phase := ColonPhase\<rparr>) p1 else valueEnded p1)"

text \<open>The result is whether the unit is part of the escape.\<close>

definition continueEscape :: "open_string \<Rightarrow> unit16 \<Rightarrow> json_parser \<Rightarrow> bool \<times> json_parser" where
  "continueEscape str c p =
     (let plain = str\<lparr>os_escape := []\<rparr> in
      if os_escape str = [BACKSLASH]
      then (case map_of SIMPLE_ESCAPES c of
              Some decoded \<Rightarrow> (True, appendString plain [decoded] p)
            | None \<Rightarrow>
                if c = 117 then (True, p\<lparr>jp_string := Some (str\<lparr>os_escape := [BACKSLASH, 117]\<rparr>)\<rparr>)
                else (False, appendString plain [BACKSLASH] p))
      else if isHexDigit c
      then (let escape = os_escape str @ [c]
            in if length escape < 6 then (True, p\<lparr>jp_string := Some (str\<lparr>os_escape := escape\<rparr>)\<rparr>)
               else (True, appendString plain [of_nat (hex_value (drop 2 escape))] p))
      else (False, appendString plain (os_escape str) p))"

definition flush_run :: "jstr \<Rightarrow> json_parser \<Rightarrow> json_parser" where
  "flush_run run p = (case jp_string p of None \<Rightarrow> p | Some str \<Rightarrow> if run = [] then p else appendString str run p)"

definition start_escape :: "json_parser \<Rightarrow> json_parser" where
  "start_escape p = p\<lparr>jp_string := map_option (\<lambda>str. str\<lparr>os_escape := [BACKSLASH]\<rparr>) (jp_string p)\<rparr>"

definition close_string :: "json_parser \<Rightarrow> json_parser" where
  "close_string p = (case jp_string p of None \<Rightarrow> p | Some str \<Rightarrow> endString str p)"

text \<open>Whether an open escape takes the unit, and the run of plain units before it.\<close>

definition in_escape :: "unit16 \<Rightarrow> jstr \<Rightarrow> json_parser \<Rightarrow> bool \<times> jstr \<times> json_parser" where
  "in_escape c run p =
     (case jp_string p of
        None \<Rightarrow> (False, run, p)
      | Some str \<Rightarrow> if os_escape str = [] then (False, run, p) else (let (taken, p1) = continueEscape str c p in (taken, [], p1)))"

text \<open>Units of an open string: \<open>run\<close> are the plain ones read since the last one that was not. Returns what is left of the text.\<close>

fun readString :: "jstr \<Rightarrow> jstr \<Rightarrow> json_parser \<Rightarrow> jstr \<times> json_parser" where
  "readString [] run p = ([], flush_run run p)"
| "readString (c # cs) run p =
     (let (taken, run1, p1) = in_escape c run p in
      if taken then readString cs [] p1
      else if c = QUOTE then (cs, close_string (flush_run run1 p1))
      else if c = BACKSLASH then readString cs [] (start_escape (flush_run run1 p1))
      else readString cs (run1 @ [c]) p1)"

section \<open>Structure\<close>

definition endScalar :: "json_parser \<Rightarrow> json_parser" where
  "endScalar p =
     (let token = jp_scalar p;
          slot = jp_scalarSlot p;
          p1 = p\<lparr>jp_scalar := [], jp_scalarSlot := None\<rparr>
      in valueEnded
           (case scalarValue token of
              None \<Rightarrow> p1
            | Some v \<Rightarrow> (let p2 = place slot v p1 in report_at (reportedPath slot p2) v p2)))"

definition readScalar :: "jstr \<Rightarrow> json_parser \<Rightarrow> jstr \<times> json_parser" where
  "readScalar text p =
     (let piece = takeWhile (\<lambda>c. \<not> isDelimiter c) text;
          rest = dropWhile (\<lambda>c. \<not> isDelimiter c) text;
          p1 = (if piece = [] then p
                else p\<lparr>jp_scalar := jp_scalar p @ piece, jp_dirty := jp_dirty p \<or> jp_scalarSlot p \<noteq> None\<rparr>)
      in (rest, if rest = [] then p1 else endScalar p1))"

definition openContainer :: "container \<Rightarrow> json_parser \<Rightarrow> json_parser" where
  "openContainer c p =
     (let slot = valueSlot p;
          path = reportedPath slot p;
          p1 = place slot (container_json c) p;
          f = \<lparr>jf_container = c, jf_slot = slot, jf_path = path,
               jf_reportsInside = (case path of None \<Rightarrow> False | Some q \<Rightarrow> length q < MAX_REPORTED_DEPTH), jf_size = 0, jf_key = None,
               jf_phase = (case c of Elements _ \<Rightarrow> ValuePhase | Members _ \<Rightarrow> KeyPhase)\<rparr>
      in report_at path (container_json c) (p1\<lparr>jp_stack := f # jp_stack p1, jp_pathCost := jp_pathCost p1 + 1, jp_dirty := True\<rparr>))"

text \<open>The place of a closed container gets its value: the program shares it.\<close>

definition settle_child :: "json_frame \<Rightarrow> json_parser \<Rightarrow> json_parser" where
  "settle_child f p =
     (case jf_slot f of
        None \<Rightarrow> p
      | Some RootSlot \<Rightarrow> p\<lparr>jp_root := Some (container_json (jf_container f))\<rparr>
      | Some sl \<Rightarrow> set_top (\<lambda>g. g\<lparr>jf_container := setSlot sl (container_json (jf_container f)) (jf_container g)\<rparr>) p)"

definition closeContainer :: "json_parser \<Rightarrow> json_parser" where
  "closeContainer p =
     (case jp_stack p of
        [] \<Rightarrow> p
      | f # fs \<Rightarrow>
          (let p1 = settle_child f (p\<lparr>jp_stack := fs, jp_pathCost := jp_pathCost p - (jf_size f + 1), jp_dirty := True\<rparr>)
           in valueEnded (if jf_reportsInside f then p1 else report_at (jf_path f) (container_json (jf_container f)) p1)))"

definition structural :: "unit16 \<Rightarrow> json_parser \<Rightarrow> json_parser" where
  "structural c p =
     (if c = 32 \<or> c = 9 \<or> c = 10 \<or> c = 13 then p
      else if c = QUOTE then startString p
      else if c = 123 then openContainer (Members []) p
      else if c = 91 then openContainer (Elements []) p
      else if c = 125 \<or> c = 93 then closeContainer p
      else if c = 58 then set_top (\<lambda>f. if \<not> is_array f \<and> jf_phase f = ColonPhase then f\<lparr>jf_phase := ValuePhase\<rparr> else f) p
      else if c = 44 then set_top (\<lambda>f. f\<lparr>jf_phase := (if is_array f then ValuePhase else KeyPhase)\<rparr>) p
      else p\<lparr>jp_scalar := [c], jp_scalarSlot := valueSlot p, jp_dirty := jp_dirty p \<or> valueSlot p \<noteq> None\<rparr>)"

section \<open>Pieces and snapshots\<close>

lemma readString_le: "length (fst (readString cs run p)) \<le> length cs"
  by (induction cs run p rule: readString.induct) (auto simp: Let_def split: prod.splits intro: le_SucI)

lemma readString_shorter: "length (fst (readString (c # cs) run p)) < length (c # cs)"
  using readString_le by (auto simp: Let_def less_Suc_eq_le split: prod.splits)

lemma readScalar_shorter: "length (fst (readScalar cs p)) \<le> length cs"
  by (simp add: readScalar_def Let_def length_dropWhile_le)

lemma place_scalar [simp]: "jp_scalar (place sl v p) = jp_scalar p"
  by (auto simp: place_def Let_def split: option.splits slot.splits list.splits)

lemma endScalar_scalar: "jp_scalar (endScalar p) = []"
  by (auto simp: endScalar_def valueEnded_def set_top_def report_at_def report_def Let_def split: option.splits list.splits)

function append_loop :: "jstr \<Rightarrow> json_parser \<Rightarrow> json_parser" where
  "append_loop text p =
     (case text of
        [] \<Rightarrow> p
      | c # cs \<Rightarrow>
          if jp_done p then p
          else if jp_string p \<noteq> None then (let (rest, p1) = readString (c # cs) [] p in append_loop rest p1)
          else if jp_scalar p \<noteq> [] then (let (rest, p1) = readScalar (c # cs) p in append_loop rest p1)
          else append_loop cs (structural c p))"
  by pat_completeness auto
termination
proof (relation "measure (\<lambda>(text, p). 2 * length text + (if jp_scalar p = [] then 0 else 1))", goal_cases)
  case (2 t p c cs x rest p1)
  then have "length rest < length t" using readString_shorter [of c cs "[]" p] by (metis fst_conv)
  then show ?case by auto
next
  case (3 t p c cs x rest p1)
  have "rest = dropWhile (\<lambda>c. \<not> isDelimiter c) t" "rest \<noteq> [] \<longrightarrow> jp_scalar p1 = []"
    using 3 endScalar_scalar by (auto simp: readScalar_def Let_def)
  moreover from this(1) have "length rest \<le> length t" by (simp add: length_dropWhile_le)
  ultimately have "2 * length rest + (if jp_scalar p1 = [] then 0 else 1) < 2 * length t + 1" using 3(1) by (cases "rest = []") auto
  then show ?case using 3(4) by simp
next
  case (4 t p c cs)
  then show ?case by auto
qed simp

declare append_loop.simps [simp del]

text \<open>What a new piece starts with: its credit, no changes, and an open string that extends none.\<close>

definition begin_piece :: "jstr \<Rightarrow> json_parser \<Rightarrow> json_parser" where
  "begin_piece text p =
     p\<lparr>jp_credit := jp_credit p + (CREDIT_PER_APPEND + CREDIT_PER_CHARACTER * length text), jp_changes := [],
       jp_string := map_option (\<lambda>str. str\<lparr>os_change := None\<rparr>) (jp_string p)\<rparr>"

definition append :: "jstr \<Rightarrow> json_parser \<Rightarrow> json_change list \<times> json_parser" where
  "append text p = (let p1 = append_loop text (begin_piece text p) in (jp_changes p1, p1))"

definition pendingScalar :: "json_parser \<Rightarrow> (slot \<times> json) option" where
  "pendingScalar p =
     (case jp_scalarSlot p of
        None \<Rightarrow> None
      | Some slot \<Rightarrow>
          if jp_scalar p = [] \<or> length (jp_scalar p) > MAX_PENDING_SCALAR_LENGTH then None
          else map_option (Pair slot) (pendingScalarValue (jp_scalar p)))"

text \<open>Copies of the open containers, innermost first, each with the copy of its open child.\<close>

fun copy_frames :: "json \<Rightarrow> slot option \<Rightarrow> json_frame list \<Rightarrow> json \<times> slot option" where
  "copy_frames child childSlot [] = (child, childSlot)"
| "copy_frames child childSlot (f # fs) =
     copy_frames (container_json (case childSlot of None \<Rightarrow> jf_container f | Some sl \<Rightarrow> setSlot sl child (jf_container f))) (jf_slot f) fs"

definition copyOpenPath :: "(slot \<times> json) option \<Rightarrow> json_parser \<Rightarrow> json option" where
  "copyOpenPath pending p =
     (case jp_stack p of
        [] \<Rightarrow> (case pending of Some (RootSlot, v) \<Rightarrow> Some v | _ \<Rightarrow> jp_root p)
      | f # fs \<Rightarrow>
          (let top = (case pending of None \<Rightarrow> jf_container f | Some (sl, v) \<Rightarrow> setSlot sl v (jf_container f));
               (child, childSlot) = copy_frames (container_json top) (jf_slot f) fs
           in if childSlot = Some RootSlot then Some child else jp_root p))"

definition snapshot :: "json_parser \<Rightarrow> json option \<times> json_parser" where
  "snapshot p =
     (if \<not> jp_dirty p then (jp_snapshot p, p)
      else
        let pending = pendingScalar p;
            cost = jp_pathCost p + (if pending = None then 0 else 1)
        in if cost > jp_credit p then (jp_snapshot p, p)
           else let s = copyOpenPath pending p
                in (s, p\<lparr>jp_credit := jp_credit p - cost, jp_dirty := False, jp_snapshot := s\<rparr>))"

end
