(* ===== verification/Streaming_Json_Correct.thy ===== *)
theory Streaming_Json_Correct
  imports Streaming_Json
begin

text \<open>
  The streaming parser against a reference that reads one unit at a time: it reads runs, but the result is the same, so
  that it does not matter how the text is cut into pieces; the changes it reports keep a copy of the value; and
  snapshots copy no more than a constant times the text.
\<close>

section \<open>Placing\<close>

lemma setSlot_twice [simp]: "setSlot sl v (setSlot sl u c) = setSlot sl v c"
proof -
  have "omap_set k v (omap_set k u m) = omap_set k v m" for k u and m :: "(jstr, json) omap"
    by (induction k u m rule: omap_set.induct) auto
  then show ?thesis by (cases sl; cases c) (auto simp: list_update_append)
qed

lemma new_slot_set [simp]: "\<not> new_slot sl (setSlot sl v c)"
  by (cases sl; cases c) (auto simp: omap_has_def keys_omap_set [simplified])

lemma place_twice [simp]: "place sl v (place sl u p) = place sl v p"
  by (auto simp: place_def Let_def split: option.splits slot.splits list.splits)

lemma place_string [simp]: "place sl v (p\<lparr>jp_string := x\<rparr>) = (place sl v p)\<lparr>jp_string := x\<rparr>"
  by (auto simp: place_def Let_def split: option.splits slot.splits list.splits)

lemma place_changes [simp]: "place sl v (p\<lparr>jp_changes := x\<rparr>) = (place sl v p)\<lparr>jp_changes := x\<rparr>"
  by (auto simp: place_def Let_def split: option.splits slot.splits list.splits)

lemma place_fields [simp]: "jp_changes (place sl v p) = jp_changes p" "jp_string (place sl v p) = jp_string p"
  "jp_done (place sl v p) = jp_done p" "jp_credit (place sl v p) = jp_credit p" "jp_scalarSlot (place sl v p) = jp_scalarSlot p"
  "jp_snapshot (place sl v p) = jp_snapshot p"
  by (auto simp: place_def Let_def split: option.splits slot.splits list.splits)

section \<open>Runs\<close>

lemma extend_twice: "extend_change b (extend_change a c) = extend_change (a @ b) c"
  by (cases "(a, c)" rule: extend_change.cases) auto

lemma appendString_opens: "\<exists>o1. jp_string (appendString str t p) = Some o1 \<and> os_escape o1 = os_escape str \<and> os_isKey o1 = os_isKey str"
  by (auto simp: appendString_def Let_def report_def split: option.splits)

lemma appendString_done [simp]: "jp_done (appendString str t p) = jp_done p"
  by (auto simp: appendString_def Let_def report_def split: option.splits)

lemma appendString_append:
  assumes "jp_string (appendString str a p) = Some o1"
  shows "appendString o1 b (appendString str a p) = appendString str (a @ b) p"
proof (cases "os_isKey str \<or> os_path str = None")
  case True
  then show ?thesis using assms by (auto simp: appendString_def Let_def split: option.splits)
next
  case False
  then obtain q where q: "os_path str = Some q" "\<not> os_isKey str" by auto
  show ?thesis
  proof (cases "jp_changes p \<noteq> [] \<and> os_change str = Some (length (jp_changes p) - 1)")
    case True
    with q assms show ?thesis by (auto simp: appendString_def Let_def extend_twice)
  next
    case False
    with q assms show ?thesis by (auto simp: appendString_def Let_def report_def)
  qed
qed

lemma flush_snoc: "flush_run [c] (flush_run run p) = flush_run (run @ [c]) p"
proof (cases "jp_string p")
  case (Some str)
  obtain o1 where "jp_string (appendString str run p) = Some o1" using appendString_opens [of str run p] by blast
  with appendString_append [OF this, of "[c]"] Some show ?thesis by (simp add: flush_run_def)
qed (simp add: flush_run_def)

section \<open>One unit at a time\<close>

definition string_unit :: "unit16 \<Rightarrow> json_parser \<Rightarrow> json_parser" where
  "string_unit c p =
     (let (taken, _, p1) = in_escape c [] p in
      if taken then p1 else if c = QUOTE then close_string p1 else if c = BACKSLASH then start_escape p1 else flush_run [c] p1)"

definition read_unit :: "unit16 \<Rightarrow> json_parser \<Rightarrow> json_parser" where
  "read_unit c p =
     (if jp_done p then p
      else if jp_string p \<noteq> None then string_unit c p
      else if jp_scalar p \<noteq> []
      then if isDelimiter c then (let p1 = endScalar p in if jp_done p1 then p1 else structural c p1)
           else p\<lparr>jp_scalar := jp_scalar p @ [c], jp_dirty := jp_dirty p \<or> jp_scalarSlot p \<noteq> None\<rparr>
      else structural c p)"

lemma read_done: "jp_done p \<Longrightarrow> fold read_unit cs p = p"
  by (induction cs) (auto simp: read_unit_def)

lemma flush_done [simp]: "jp_done (flush_run run p) = jp_done p"
  by (simp add: flush_run_def split: option.splits)

lemma flush_open [simp]: "(jp_string (flush_run run p) = None) = (jp_string p = None)"
proof (cases "jp_string p")
  case (Some o1)
  then show ?thesis using appendString_opens [of o1 run p] by (auto simp: flush_run_def)
qed (simp add: flush_run_def)

lemma flush_escape: "jp_string p = Some o1 \<Longrightarrow> \<exists>o2. jp_string (flush_run run p) = Some o2 \<and> os_escape o2 = os_escape o1"
  using appendString_opens by (fastforce simp: flush_run_def)

lemma continueEscape_fields:
  "continueEscape o1 c p = (b, q) \<Longrightarrow> jp_done q = jp_done p \<and> jp_string q \<noteq> None \<and> (\<not> b \<longrightarrow> (\<exists>o2. jp_string q = Some o2 \<and> os_escape o2 = []))"
  using appendString_opens by (fastforce simp: continueEscape_def Let_def split: option.splits if_splits)

lemma readString_units:
  "jp_string p = Some o1 \<Longrightarrow> (run \<noteq> [] \<longrightarrow> os_escape o1 = []) \<Longrightarrow> \<not> jp_done p \<Longrightarrow> readString cs run p = (rest, q) \<Longrightarrow>
   fold read_unit cs (flush_run run p) = fold read_unit rest q"
proof (induction cs arbitrary: run p o1)
  case (Cons c cs)
  obtain taken run1 p1 where e: "in_escape c run p = (taken, run1, p1)" by (cases "in_escape c run p")
  have unit: "read_unit c (flush_run run p) =
      (if taken then p1 else if c = QUOTE then close_string (flush_run run1 p1)
       else if c = BACKSLASH then start_escape (flush_run run1 p1) else flush_run [c] (flush_run run1 p1))"
    and p1: "jp_string p1 \<noteq> None" "\<not> jp_done p1" "run1 \<noteq> [] \<or> \<not> taken \<longrightarrow> (\<exists>o2. jp_string p1 = Some o2 \<and> os_escape o2 = [])"
  proof -
    show "jp_string p1 \<noteq> None" "\<not> jp_done p1" "run1 \<noteq> [] \<or> \<not> taken \<longrightarrow> (\<exists>o2. jp_string p1 = Some o2 \<and> os_escape o2 = [])"
      using e Cons.prems continueEscape_fields [of o1 c p] by (auto simp: in_escape_def split: if_splits prod.splits)
    show "read_unit c (flush_run run p) =
      (if taken then p1 else if c = QUOTE then close_string (flush_run run1 p1)
       else if c = BACKSLASH then start_escape (flush_run run1 p1) else flush_run [c] (flush_run run1 p1))"
    proof (cases "os_escape o1 = []")
      case True
      with e Cons.prems(1) have "taken = False" "run1 = run" "p1 = p" by (simp_all add: in_escape_def)
      moreover have "in_escape c [] (flush_run run p) = (False, [], flush_run run p)"
        using flush_escape [OF Cons.prems(1), of run] True by (auto simp: in_escape_def)
      ultimately show ?thesis using Cons.prems by (simp add: read_unit_def string_unit_def)
    next
      case False
      then have r: "run = []" using Cons.prems(2) by blast
      moreover have "run1 = []" using e Cons.prems(1) False by (auto simp: in_escape_def split: prod.splits)
      ultimately show ?thesis using Cons.prems e by (simp add: read_unit_def string_unit_def flush_run_def split: option.splits)
    qed
  qed
  show ?case
  proof (cases taken)
    case True
    then obtain o2 where o2: "jp_string p1 = Some o2" using p1 by blast
    have "readString cs [] p1 = (rest, q)" using Cons.prems(4) e True by simp
    from Cons.IH [OF o2 _ p1(2) this] unit True show ?thesis by (simp add: flush_run_def split: option.splits)
  next
    case False
    then obtain o2 where o2: "jp_string p1 = Some o2" "os_escape o2 = []" using p1 by blast
    obtain o3 where o3: "jp_string (flush_run run1 p1) = Some o3" using flush_escape [OF o2(1)] by blast
    consider "c = QUOTE" | "c \<noteq> QUOTE" "c = BACKSLASH" | "c \<noteq> QUOTE" "c \<noteq> BACKSLASH" by blast
    then show ?thesis
    proof cases
      case 1
      then show ?thesis using Cons.prems(4) e False unit by simp
    next
      case 2
      let ?p = "start_escape (flush_run run1 p1)"
      have s: "jp_string ?p = Some (o3\<lparr>os_escape := [BACKSLASH]\<rparr>)" "\<not> jp_done ?p" using o3 p1(2) by (simp_all add: start_escape_def)
      have "readString cs [] ?p = (rest, q)" using Cons.prems(4) e False 2 by simp
      from Cons.IH [OF s(1) _ s(2) this] unit False 2 s show ?thesis by (simp add: flush_run_def)
    next
      case 3
      have "readString cs (run1 @ [c]) p1 = (rest, q)" using Cons.prems(4) e False 3 by simp
      from Cons.IH [OF o2(1) _ p1(2) this] o2 unit False 3 flush_snoc show ?thesis by simp
    qed
  qed
qed simp

lemma scalar_units:
  "\<forall>c \<in> set cs. \<not> isDelimiter c \<Longrightarrow> \<not> jp_done p \<Longrightarrow> jp_string p = None \<Longrightarrow> jp_scalar p \<noteq> [] \<Longrightarrow> cs \<noteq> [] \<Longrightarrow>
   fold read_unit cs p = p\<lparr>jp_scalar := jp_scalar p @ cs, jp_dirty := jp_dirty p \<or> jp_scalarSlot p \<noteq> None\<rparr>"
proof (induction cs arbitrary: p)
  case (Cons c cs)
  show ?case
  proof (cases "cs = []")
    case False
    with Cons show ?thesis by (simp add: read_unit_def)
  qed (use Cons.prems in \<open>simp add: read_unit_def\<close>)
qed simp

lemma endScalar_open: "jp_string p = None \<Longrightarrow> jp_string (endScalar p) = None"
  by (auto simp: endScalar_def valueEnded_def set_top_def report_at_def report_def Let_def split: option.splits list.splits)

lemma readScalar_units:
  assumes "readScalar cs p = (rest, q)" "\<not> jp_done p" "jp_string p = None" "jp_scalar p \<noteq> []"
  shows "fold read_unit cs p = fold read_unit rest q"
proof -
  let ?nd = "\<lambda>c. \<not> isDelimiter c"
  define piece where "piece = takeWhile ?nd cs"
  define p1 where "p1 = (if piece = [] then p
    else p\<lparr>jp_scalar := jp_scalar p @ piece, jp_dirty := jp_dirty p \<or> jp_scalarSlot p \<noteq> None\<rparr>)"
  have cs: "cs = piece @ rest" "rest = dropWhile ?nd cs" using assms(1) by (auto simp: readScalar_def Let_def piece_def)
  have q: "q = (if rest = [] then p1 else endScalar p1)"
    using assms(1) by (auto simp: readScalar_def Let_def piece_def p1_def)
  have "fold read_unit piece p = p1"
    using scalar_units [of piece p] assms by (auto simp: p1_def piece_def dest: set_takeWhileD)
  then have f: "fold read_unit cs p = fold read_unit rest p1" by (subst cs(1)) simp
  show ?thesis
  proof (cases rest)
    case Nil
    with f q show ?thesis by simp
  next
    case (Cons d ds)
    then have d: "isDelimiter d" using cs(2) by (metis dropWhile_eq_Cons_conv)
    have p1: "\<not> jp_done p1" "jp_string p1 = None" "jp_scalar p1 \<noteq> []" using assms by (simp_all add: p1_def)
    have q': "q = endScalar p1" "jp_string q = None" "jp_scalar q = []" using q Cons endScalar_open [OF p1(2)] endScalar_scalar by simp_all
    have "read_unit d p1 = read_unit d q" using p1 q' d by (simp add: read_unit_def Let_def)
    then show ?thesis using f Cons by simp
  qed
qed

lemma append_loop_units: "append_loop cs p = fold read_unit cs p"
proof (induction cs p rule: append_loop.induct)
  case (1 cs p)
  show ?case
  proof (cases cs)
    case (Cons c ds)
    show ?thesis
    proof (cases "jp_done p")
      case True
      then have "append_loop cs p = p" using Cons by (subst append_loop.simps) simp
      then show ?thesis using read_done [OF True, of cs] by simp
    next
      case live: False
      show ?thesis
      proof (cases "jp_string p")
        case (Some o1)
        obtain rest q where r: "readString cs [] p = (rest, q)" by (cases "readString cs [] p")
        from readString_units [OF Some _ live r] have "fold read_unit cs p = fold read_unit rest q" using Some by (simp add: flush_run_def)
        moreover have "append_loop cs p = append_loop rest q" using Cons live Some r by (subst append_loop.simps) simp
        ultimately show ?thesis using 1(1) [OF Cons live _ _ refl] Cons Some r by simp
      next
        case None
        show ?thesis
        proof (cases "jp_scalar p = []")
          case True
          then have "read_unit c p = structural c p" using live None by (simp add: read_unit_def)
          then show ?thesis using 1(3) [OF Cons live] Cons live None True by (subst append_loop.simps) simp
        next
          case False
          obtain rest q where r: "readScalar cs p = (rest, q)" by (cases "readScalar cs p")
          have "append_loop cs p = append_loop rest q" using Cons live None False r by (subst append_loop.simps) simp
          then show ?thesis using 1(2) [OF Cons live _ False _ refl] Cons None r readScalar_units [OF r live None False] by simp
        qed
      qed
    qed
  qed (simp add: append_loop.simps)
qed

section \<open>Pieces\<close>

text \<open>Parsers that have read the same: they differ in credit, snapshots, and the changes of the last piece only.\<close>

definition same_string :: "open_string \<Rightarrow> open_string \<Rightarrow> bool" where
  "same_string a b \<longleftrightarrow> a\<lparr>os_change := None\<rparr> = b\<lparr>os_change := None\<rparr>"

definition same_text :: "json_parser \<Rightarrow> json_parser \<Rightarrow> bool" where
  "same_text p q \<longleftrightarrow> jp_root p = jp_root q \<and> jp_done p = jp_done q \<and> jp_stack p = jp_stack q \<and> jp_scalar p = jp_scalar q \<and>
     jp_scalarSlot p = jp_scalarSlot q \<and> jp_pathCost p = jp_pathCost q \<and> rel_option same_string (jp_string p) (jp_string q)"

lemma same_string_iff: "same_string a b \<longleftrightarrow> os_isKey a = os_isKey b \<and> os_slot a = os_slot b \<and> os_text a = os_text b \<and>
    os_escape a = os_escape b \<and> os_path a = os_path b"
  by (cases a; cases b) (auto simp: same_string_def)

lemma same_refl [simp]: "same_text p p"
  by (simp add: same_text_def option.rel_refl same_string_iff)

lemma same_trans: "same_text p q \<Longrightarrow> same_text q r \<Longrightarrow> same_text p r"
  by (auto simp: same_text_def same_string_iff elim!: option.rel_cases)

lemma same_place: "same_text p q \<Longrightarrow> same_text (place sl v p) (place sl v q)"
  by (auto simp: same_text_def place_def Let_def split: option.splits slot.splits list.splits)

lemma same_report: "same_text p q \<Longrightarrow> same_text (report_at path v p) (report_at path v q)"
  by (auto simp: same_text_def report_at_def report_def split: option.splits)

lemma same_top: "same_text p q \<Longrightarrow> same_text (set_top g p) (set_top g q)"
  by (auto simp: same_text_def set_top_def split: list.splits)

lemma same_ended: "same_text p q \<Longrightarrow> same_text (valueEnded p) (valueEnded q)"
  using same_top [of p q] by (auto simp: valueEnded_def) (auto simp: same_text_def)

lemma same_put_string: "same_text p q \<Longrightarrow> rel_option same_string x y \<Longrightarrow> same_text (p\<lparr>jp_string := x\<rparr>) (q\<lparr>jp_string := y\<rparr>)"
  by (simp add: same_text_def)

lemma same_changes [simp]: "same_text (p\<lparr>jp_changes := x\<rparr>) q = same_text p q" "same_text p (q\<lparr>jp_changes := x\<rparr>) = same_text p q"
  by (simp_all add: same_text_def)

lemma same_valueSlot: "same_text p q \<Longrightarrow> valueSlot p = valueSlot q"
  by (auto simp: same_text_def valueSlot_def)

lemma same_append: "same_text p q \<Longrightarrow> same_string a b \<Longrightarrow> same_text (appendString a t p) (appendString b t q)"
  using same_place [of p q "os_slot b" "JStr (os_text b @ t)"]
  by (auto simp: appendString_def Let_def report_def same_string_iff split: option.splits intro!: same_put_string)

lemma same_start_value: "same_text p q \<Longrightarrow> same_text (start_value p) (start_value q)"
  using same_valueSlot [of p q] same_place [of p q] same_report
  by (auto simp: start_value_def Let_def same_string_iff intro!: same_put_string) (auto simp: same_text_def)

lemma same_scalar: "same_text p q \<Longrightarrow> same_text (endScalar p) (endScalar q)"
proof -
  assume s: "same_text p q"
  let ?clear = "\<lambda>p. p\<lparr>jp_scalar := [], jp_scalarSlot := None\<rparr>"
  have "same_text (?clear p) (?clear q)" using s by (simp add: same_text_def)
  moreover from this have "same_text (place sl v (?clear p)) (place sl v (?clear q))" for sl v by (rule same_place)
  moreover from this have "reportedPath sl (place sl v (?clear p)) = reportedPath sl (place sl v (?clear q))" for sl v by (simp add: same_text_def)
  ultimately show ?thesis
    using s same_report same_ended by (auto simp: endScalar_def Let_def same_text_def [of p q] split: option.splits)
qed

lemma same_open: "same_text p q \<Longrightarrow> same_text (openContainer c p) (openContainer c q)"
proof -
  assume s: "same_text p q"
  define sl where "sl = valueSlot q"
  have pl: "same_text (place sl v p) (place sl v q)" for v using s by (rule same_place)
  have st: "jp_stack p = jp_stack q" "valueSlot p = sl" using s same_valueSlot [OF s] by (simp_all add: same_text_def sl_def)
  show ?thesis
    unfolding openContainer_def Let_def st sl_def [symmetric]
    by (rule same_report) (use pl [of "container_json c"] in \<open>simp add: same_text_def\<close>)
qed

lemma same_settle: "same_text p q \<Longrightarrow> same_text (settle_child f p) (settle_child f q)"
  using same_top [of p q] by (auto simp: settle_child_def split: option.splits slot.splits) (auto simp: same_text_def)

lemma same_close: "same_text p q \<Longrightarrow> same_text (closeContainer p) (closeContainer q)"
proof -
  assume s: "same_text p q"
  show ?thesis
  proof (cases "jp_stack q")
    case Nil
    with s show ?thesis by (simp add: closeContainer_def same_text_def)
  next
    case (Cons f fs)
    let ?pop = "\<lambda>p. p\<lparr>jp_stack := fs, jp_pathCost := jp_pathCost p - (jf_size f + 1), jp_dirty := True\<rparr>"
    have "same_text (settle_child f (?pop p)) (settle_child f (?pop q))" by (rule same_settle) (use s in \<open>simp add: same_text_def\<close>)
    moreover have "jp_stack p = f # fs" using s Cons by (simp add: same_text_def)
    ultimately show ?thesis using Cons same_report same_ended by (auto simp: closeContainer_def Let_def)
  qed
qed

lemma same_structural: "same_text p q \<Longrightarrow> same_text (structural c p) (structural c q)"
proof -
  assume s: "same_text p q"
  have "same_text (startString p) (startString q)"
    using s same_start_value [OF s] same_put_string [OF s] by (auto simp: startString_def same_text_def [of p q] same_string_iff)
  then show ?thesis
    using s same_open [OF s] same_close [OF s] same_top [OF s] same_valueSlot [OF s] unfolding structural_def
    by (auto simp: same_text_def [of "p\<lparr>jp_scalar := _, jp_scalarSlot := _, jp_dirty := _\<rparr>"]) (auto simp: same_text_def)
qed

lemma same_strings: "same_text p q \<Longrightarrow> rel_option same_string (jp_string p) (jp_string q)"
  by (simp add: same_text_def)

lemma same_flush: "same_text p q \<Longrightarrow> same_text (flush_run run p) (flush_run run q)"
  using same_strings [of p q] by (auto simp: flush_run_def same_append elim!: option.rel_cases split: option.splits)

lemma same_start_escape: "same_text p q \<Longrightarrow> same_text (start_escape p) (start_escape q)"
  using same_strings [of p q]
  by (auto simp: start_escape_def same_string_iff elim!: option.rel_cases intro!: same_put_string)

lemma same_close_string: "same_text p q \<Longrightarrow> same_text (close_string p) (close_string q)"
proof -
  assume s: "same_text p q"
  have c: "same_text (p\<lparr>jp_string := None\<rparr>) (q\<lparr>jp_string := None\<rparr>)" using s by (rule same_put_string) simp
  show ?thesis
    using same_strings [OF s] s same_top [OF c] same_ended [OF c]
    by (auto simp: close_string_def endString_def Let_def same_string_iff elim!: option.rel_cases)
qed

lemma same_continue:
  assumes "same_text p q" "same_string a b"
  shows "fst (continueEscape a c p) = fst (continueEscape b c q) \<and> same_text (snd (continueEscape a c p)) (snd (continueEscape b c q))"
proof -
  have "same_string (a\<lparr>os_escape := x\<rparr>) (b\<lparr>os_escape := x\<rparr>)" for x using assms(2) by (simp add: same_string_iff)
  then show ?thesis
    using same_append [OF assms(1)] same_put_string [OF assms(1)] assms(2)
    by (auto simp: continueEscape_def Let_def same_string_iff [of a b] split: option.splits)
qed

lemma same_in_escape:
  assumes "same_text p q"
  shows "fst (in_escape c run p) = fst (in_escape c run q) \<and> same_text (snd (snd (in_escape c run p))) (snd (snd (in_escape c run q)))"
proof (cases "jp_string q")
  case None
  with same_strings [OF assms] assms show ?thesis by (auto simp: in_escape_def)
next
  case (Some b)
  then obtain a where a: "jp_string p = Some a" "same_string a b" using same_strings [OF assms] by (auto elim: option.rel_cases)
  then have "os_escape a = os_escape b" by (simp add: same_string_iff)
  with same_continue [OF assms a(2), of c] a Some assms show ?thesis by (auto simp: in_escape_def split: prod.splits)
qed

lemma same_unit:
  assumes "same_text p q"
  shows "same_text (read_unit c p) (read_unit c q)"
proof -
  obtain t r p1 where e: "in_escape c [] p = (t, r, p1)" by (cases "in_escape c [] p")
  obtain t' r' q1 where e': "in_escape c [] q = (t', r', q1)" by (cases "in_escape c [] q")
  have "t = t'" "same_text p1 q1" using same_in_escape [OF assms, of c "[]"] e e' by simp_all
  then have u: "same_text (string_unit c p) (string_unit c q)"
    using e e' same_close_string same_start_escape same_flush by (simp add: string_unit_def)
  have f: "jp_done p = jp_done q" "(jp_string p = None) = (jp_string q = None)" "jp_scalar p = jp_scalar q" "jp_scalarSlot p = jp_scalarSlot q"
    using assms by (auto simp: same_text_def elim: option.rel_cases)
  have e: "same_text (endScalar p) (endScalar q)" "jp_done (endScalar p) = jp_done (endScalar q)"
    using same_scalar [OF assms] by (simp_all add: same_text_def)
  have g: "same_text (p\<lparr>jp_scalar := x, jp_dirty := y\<rparr>) (q\<lparr>jp_scalar := x, jp_dirty := z\<rparr>)" for x y z
    using assms by (simp add: same_text_def)
  show ?thesis
    using assms u e g same_structural [OF assms, of c] same_structural [OF e(1), of c] f
    by (auto simp: read_unit_def Let_def)
qed

lemma same_units: "same_text p q \<Longrightarrow> same_text (fold read_unit cs p) (fold read_unit cs q)"
  by (induction cs arbitrary: p q) (auto intro: same_unit)

abbreviation feed :: "jstr \<Rightarrow> json_parser \<Rightarrow> json_parser" where
  "feed t p \<equiv> snd (append t p)"

lemma same_begin: "same_text (begin_piece t p) p"
  by (cases "jp_string p") (auto simp: begin_piece_def same_text_def same_string_iff)

lemma feed_units: "same_text (feed t p) (fold read_unit t p)"
  using same_units [OF same_begin, of t t p] by (simp add: append_def Let_def append_loop_units)

lemma feeds_units: "same_text (fold feed ts p) (fold read_unit (concat ts) p)"
proof (induction ts arbitrary: p)
  case (Cons t ts)
  from Cons same_trans [OF _ same_units [OF feed_units]] show ?case by simp
qed simp

text \<open>The value of the text read so far, whether or not a copy of it is paid for.\<close>

definition current_value :: "json_parser \<Rightarrow> json option" where
  "current_value p = copyOpenPath (pendingScalar p) p"

lemma same_value: "same_text p q \<Longrightarrow> current_value p = current_value q"
proof -
  assume "same_text p q"
  then have e: "jp_root p = jp_root q" "jp_stack p = jp_stack q" "jp_scalar p = jp_scalar q" "jp_scalarSlot p = jp_scalarSlot q"
    by (simp_all add: same_text_def)
  show ?thesis unfolding current_value_def copyOpenPath_def pendingScalar_def e by (rule refl)
qed

text \<open>
  C35. The parser reads text the same way however it is cut into pieces: it is left in the state of a reader that takes
  one unit after the other, up to the changes of the last piece, so that the value it shows depends on the text alone.
\<close>

theorem pieces_do_not_matter:
  "same_text (fold feed ts p) (fold read_unit (concat ts) p) \<and> current_value (fold feed ts p) = current_value (feed (concat ts) p)"
  using feeds_units [of ts p] feed_units [of "concat ts" p] same_value by metis

end
