(* ===== verification/Streaming_Json_Changes.thy ===== *)
theory Streaming_Json_Changes
  imports Streaming_Json_Correct
begin

text \<open>
  A writer that keeps its own copy of a streamed value and applies the changes the parser reports, as
  packages/durable/src/harness/partial-changes.ts does: the copy is the value read so far.
\<close>

section \<open>The writer\<close>

text \<open>
  A change at a path: \<open>None\<close> is a value that is not there, and a change that cannot be made. A container on the path must be
  there; its slot may be new.
\<close>

fun update_at :: "json_path \<Rightarrow> (json option \<Rightarrow> json option) \<Rightarrow> json option \<Rightarrow> json option" where
  "update_at [] g w = g w"
| "update_at (Key k # q) g (Some (JObj m)) = map_option (\<lambda>x. JObj (omap_set k x m)) (update_at q g (omap_get m k))"
| "update_at (Index i # q) g (Some (JArr vs)) =
     (if i \<le> length vs
      then map_option (\<lambda>x. JArr (if i = length vs then vs @ [x] else vs[i := x])) (update_at q g (if i < length vs then Some (vs ! i) else None))
      else None)"
| "update_at (_ # q) g w = None"

definition extend_json :: "jstr \<Rightarrow> json option \<Rightarrow> json option" where
  "extend_json t w = (case w of Some (JStr s) \<Rightarrow> Some (JStr (s @ t)) | _ \<Rightarrow> None)"

fun apply_change :: "json_change \<Rightarrow> json option \<Rightarrow> json option" where
  "apply_change (SetChange q v) w = update_at q (\<lambda>_. Some v) w"
| "apply_change (AppendChange q t) w = update_at q (extend_json t) w"

abbreviation apply_changes :: "json_change list \<Rightarrow> json option \<Rightarrow> json option" where
  "apply_changes cs w \<equiv> fold apply_change cs w"

lemma extend_none [simp]: "extend_json t None = None" "extend_json t (Some (JStr s)) = Some (JStr (s @ t))"
  by (simp_all add: extend_json_def)

lemma omap_set_set: "omap_set k v (omap_set k u m) = omap_set k v m"
  by (induction k u m rule: omap_set.induct) auto

lemma omap_set_same: "omap_get m k = Some v \<Longrightarrow> omap_set k v m = m"
  by (induction m) (auto split: if_splits)

lemma update_append: "update_at (q @ r) g w = update_at q (update_at r g) w"
  by (induction q g w rule: update_at.induct) auto

lemma update_none: "g None = None \<Longrightarrow> update_at q g None = None"
  by (cases q) auto

lemma update_update:
  assumes "g None = None"
  shows "update_at q g (update_at q h w) = update_at q (\<lambda>x. g (h x)) w"
proof (induction q h w rule: update_at.induct)
  case (2 k q h m)
  show ?case
  proof (cases "update_at q h (omap_get m k)")
    case None
    then show ?thesis using 2 update_none [where g = g and q = q] assms by simp
  next
    case (Some y)
    then show ?thesis using 2 by (simp add: get_omap_set option.map_comp comp_def omap_set_set)
  qed
next
  case (3 i q h vs)
  show ?case
  proof (cases "i \<le> length vs")
    case True
    show ?thesis
    proof (cases "update_at q h (if i < length vs then Some (vs ! i) else None)")
      case None
      then show ?thesis using 3 True update_none [where g = g and q = q] assms by (auto split: if_splits)
    next
      case (Some y)
      then show ?thesis using 3 True by (cases "i = length vs") (auto simp: option.map_comp comp_def list_update_append)
    qed
  qed simp
qed auto

lemma extend_last:
  assumes "c = SetChange q (JStr s) \<or> c = AppendChange q s"
  shows "apply_change (extend_change t c) w = update_at q (extend_json t) (apply_change c w)"
proof -
  have ext: "extend_json t (extend_json s x) = extend_json (s @ t) x" for x by (auto simp: extend_json_def split: option.splits json.splits)
  show ?thesis using assms by (auto simp: update_update ext)
qed

section \<open>Slots\<close>

fun slot_fits :: "slot \<Rightarrow> container \<Rightarrow> bool" where
  "slot_fits (MemberSlot k) (Members m) = True"
| "slot_fits (ElementSlot i) (Elements vs) = (i \<le> length vs)"
| "slot_fits _ c = False"

fun slot_value :: "slot \<Rightarrow> container \<Rightarrow> json option" where
  "slot_value (MemberSlot k) (Members m) = omap_get m k"
| "slot_value (ElementSlot i) (Elements vs) = (if i < length vs then Some (vs ! i) else None)"
| "slot_value _ c = None"

lemma value_fits: "slot_value sl c = Some v \<Longrightarrow> slot_fits sl c"
  by (cases "(sl, c)" rule: slot_value.cases) (auto split: if_splits)

lemma value_set [simp]: "slot_fits sl c \<Longrightarrow> slot_value sl (setSlot sl v c) = Some v"
  by (cases "(sl, c)" rule: slot_value.cases) (auto simp: get_omap_set nth_append)

lemma fits_set [simp]: "slot_fits sl c \<Longrightarrow> slot_fits sl (setSlot sl' v c)"
  by (cases "(sl, c)" rule: slot_fits.cases; cases sl') auto

lemma update_slot:
  "slot_fits sl c \<Longrightarrow> update_at (slot_step sl) g (Some (container_json c)) = map_option (\<lambda>x. container_json (setSlot sl x c)) (g (slot_value sl c))"
  by (cases "(sl, c)" rule: slot_fits.cases) (auto simp: option.map_comp comp_def)

section \<open>Open containers\<close>

text \<open>The place of a value among the open containers: the root, a slot of the innermost one, or none.\<close>

definition in_place :: "slot option \<Rightarrow> json_frame list \<Rightarrow> bool" where
  "in_place slot fs =
     (case slot of
        None \<Rightarrow> fs \<noteq> []
      | Some RootSlot \<Rightarrow> fs = []
      | Some sl \<Rightarrow> (case fs of [] \<Rightarrow> False | g # gs \<Rightarrow> slot_value sl (jf_container g) \<noteq> None))"

fun frames_ok :: "json_frame list \<Rightarrow> bool" where
  "frames_ok [] = True"
| "frames_ok (f # fs) =
     (jf_path f = reported_path (jf_slot f) fs \<and>
      jf_reportsInside f = (case jf_path f of None \<Rightarrow> False | Some q \<Rightarrow> length q < MAX_REPORTED_DEPTH) \<and>
      in_place (jf_slot f) fs \<and> frames_ok fs)"

lemma copy_update:
  assumes "frames_ok fs" "in_place (Some sl) fs" "reported_path (Some sl) fs = Some q"
  shows "update_at q g (Some (fst (copy_frames v (Some sl) fs))) = map_option (\<lambda>u. fst (copy_frames u (Some sl) fs)) (g (Some v))"
  using assms
proof (induction fs arbitrary: sl v q g)
  case Nil
  then show ?case by (cases sl) (simp_all add: option.map_ident reported_path_def in_place_def)
next
  case (Cons f fs)
  then obtain q0 where q0: "jf_path f = Some q0" "q = q0 @ slot_step sl"
    by (cases sl) (auto simp: reported_path_def in_place_def split: if_splits)
  then have "reported_path (jf_slot f) fs = Some q0" using Cons.prems(1) by simp
  moreover then obtain slf where slf: "jf_slot f = Some slf" by (auto simp: reported_path_def split: option.splits)
  ultimately have "update_at q0 h (Some (fst (copy_frames u (Some slf) fs))) = map_option (\<lambda>u. fst (copy_frames u (Some slf) fs)) (h (Some u))" for h u
    using Cons.IH [of slf q0 h u] Cons.prems(1) by simp
  moreover have "slot_fits sl (jf_container f)"
    using Cons.prems(2) value_fits by (cases sl) (auto simp: in_place_def)
  then have "update_at (slot_step sl) g (Some (container_json (setSlot sl v (jf_container f)))) =
      map_option (\<lambda>x. container_json (setSlot sl x (jf_container f))) (g (Some v))"
    using update_slot [of sl "setSlot sl v (jf_container f)"] by simp
  ultimately show ?case using q0 slf by (simp add: update_append option.map_comp comp_def)
qed

text \<open>The part of the value that is reported: what is inside a container nested too deep is not.\<close>

definition reporting :: "json_frame list \<Rightarrow> json_frame list" where
  "reporting stack = dropWhile (\<lambda>f. \<not> jf_reportsInside f) stack"

definition shown :: "json option \<Rightarrow> json_frame list \<Rightarrow> json option" where
  "shown r0 stack =
     (case reporting stack of [] \<Rightarrow> r0 | f # fs \<Rightarrow> Some (fst (copy_frames (container_json (jf_container f)) (jf_slot f) fs)))"

abbreviation reported_value :: "json_parser \<Rightarrow> json option" where
  "reported_value p \<equiv> shown (jp_root p) (jp_stack p)"

lemma reported_top: "frames_ok (f # fs) \<Longrightarrow> jf_reportsInside f \<Longrightarrow> \<exists>slf q. jf_slot f = Some slf \<and> jf_path f = Some q \<and> reported_path (Some slf) fs = Some q"
  by (auto simp: reported_path_def split: option.splits)

lemma shown_set:
  assumes "frames_ok (f # fs)" "jf_reportsInside f" "slot_fits sl (jf_container f)" "reported_path (Some sl) (f # fs) = Some q"
    and "g (slot_value sl (jf_container f)) = Some v"
  shows "update_at q g (shown r0 (f # fs)) = shown r0 (f\<lparr>jf_container := setSlot sl v (jf_container f), jf_size := n\<rparr> # fs)"
proof -
  obtain slf q0 where s: "jf_slot f = Some slf" "jf_path f = Some q0" "reported_path (Some slf) fs = Some q0"
    using reported_top [OF assms(1,2)] by blast
  have "sl \<noteq> RootSlot" using assms(3) by (cases sl) auto
  then have q: "q = q0 @ slot_step sl" using assms(2,4) s by (cases sl) (auto simp: reported_path_def)
  have "in_place (Some slf) fs" "frames_ok fs" using assms(1) s by auto
  from copy_update [OF this(2,1) s(3), of "update_at (slot_step sl) g"] update_slot [OF assms(3), of g] assms(2,5) s q show ?thesis
    by (simp add: shown_def reporting_def update_append)
qed

lemma reporting_hidden: "\<not> jf_reportsInside f \<Longrightarrow> \<not> jf_reportsInside g \<Longrightarrow> shown r0 (f # fs) = shown r0 (g # fs)"
  by (simp add: shown_def reporting_def)

section \<open>The invariant\<close>

text \<open>An open string of a value shows its text in its place, and the change it extends is its own.\<close>

definition string_value :: "slot option \<Rightarrow> json_parser \<Rightarrow> json option" where
  "string_value slot p =
     (case slot of
        None \<Rightarrow> None
      | Some RootSlot \<Rightarrow> jp_root p
      | Some sl \<Rightarrow> (case jp_stack p of [] \<Rightarrow> None | f # fs \<Rightarrow> slot_value sl (jf_container f)))"

definition string_ok :: "json_parser \<Rightarrow> bool" where
  "string_ok p \<longleftrightarrow>
     (case jp_string p of
        None \<Rightarrow> True
      | Some str \<Rightarrow> os_isKey str \<and> jp_stack p \<noteq> [] \<or>
          (\<not> os_isKey str \<and> os_path str = reportedPath (os_slot str) p \<and>
           in_place (os_slot str) (jp_stack p) \<and>
           (os_slot str \<noteq> None \<longrightarrow> string_value (os_slot str) p = Some (JStr (os_text str))) \<and>
           (jp_changes p \<noteq> [] \<and> os_change str = Some (length (jp_changes p) - 1) \<longrightarrow>
             (\<exists>q s. os_path str = Some q \<and> (last (jp_changes p) = SetChange q (JStr s) \<or> last (jp_changes p) = AppendChange q s)))))"

text \<open>A root value is finished, or open as a string or container; a pending scalar goes where a value can.\<close>

definition root_ok :: "json_parser \<Rightarrow> bool" where
  "root_ok p \<longleftrightarrow> (jp_stack p = [] \<and> jp_root p \<noteq> None \<longrightarrow> jp_done p \<or> jp_string p \<noteq> None)"

definition scalar_ok :: "json_parser \<Rightarrow> bool" where
  "scalar_ok p \<longleftrightarrow> jp_scalar p \<noteq> [] \<and> \<not> jp_done p \<longrightarrow> jp_string p = None \<and> jp_scalarSlot p = valueSlot p"

definition mirrors :: "json option \<Rightarrow> json_parser \<Rightarrow> bool" where
  "mirrors w p \<longleftrightarrow> frames_ok (jp_stack p) \<and> apply_changes (jp_changes p) w = reported_value p"

definition parser_ok :: "json option \<Rightarrow> json_parser \<Rightarrow> bool" where
  "parser_ok w p \<longleftrightarrow> mirrors w p \<and> string_ok p \<and> root_ok p \<and> scalar_ok p"

text \<open>A place for a value that starts.\<close>

definition open_place :: "slot option \<Rightarrow> json_frame list \<Rightarrow> bool" where
  "open_place slot fs =
     (case slot of
        None \<Rightarrow> fs \<noteq> []
      | Some RootSlot \<Rightarrow> fs = []
      | Some sl \<Rightarrow> (case fs of [] \<Rightarrow> False | g # gs \<Rightarrow> slot_fits sl (jf_container g)))"

lemma in_place_open: "in_place slot fs \<Longrightarrow> open_place slot fs"
  using value_fits by (auto simp: in_place_def open_place_def split: option.splits slot.splits list.splits)

lemma value_slot_open:
  assumes "root_ok p" "\<not> jp_done p" "jp_string p = None"
  shows "open_place (valueSlot p) (jp_stack p)"
  using assms by (auto simp: open_place_def valueSlot_def root_ok_def split: list.splits container.splits option.splits)

text \<open>Placing a value is what a reported change does to the copy.\<close>

lemma place_none [simp]: "place None v p = p"
  by (simp add: place_def)

lemma place_root [simp]: "place (Some RootSlot) v p = p\<lparr>jp_dirty := True, jp_root := Some v\<rparr>"
  by (simp add: place_def)

definition with_slot :: "slot \<Rightarrow> json \<Rightarrow> json_frame \<Rightarrow> json_frame" where
  "with_slot sl v f = f\<lparr>jf_container := setSlot sl v (jf_container f), jf_size := jf_size f + (if new_slot sl (jf_container f) then 1 else 0)\<rparr>"

lemma with_slot_fields [simp]: "jf_container (with_slot sl v f) = setSlot sl v (jf_container f)" "jf_slot (with_slot sl v f) = jf_slot f"
  "jf_path (with_slot sl v f) = jf_path f" "jf_reportsInside (with_slot sl v f) = jf_reportsInside f"
  by (simp_all add: with_slot_def)

lemma place_inner:
  assumes "sl \<noteq> RootSlot" "jp_stack p = f # fs"
  shows "jp_stack (place (Some sl) v p) = with_slot sl v f # fs" "jp_root (place (Some sl) v p) = jp_root p"
  using assms by (cases sl; simp add: place_def with_slot_def Let_def)+

lemma open_place_cases:
  assumes "open_place slot fs"
  obtains "slot = None" "fs \<noteq> []" | "slot = Some RootSlot" "fs = []"
    | sl f gs where "slot = Some sl" "sl \<noteq> RootSlot" "fs = f # gs" "slot_fits sl (jf_container f)"
  using assms by (auto simp: open_place_def split: option.splits slot.splits list.splits)

lemma reported_inner: "sl \<noteq> RootSlot \<Longrightarrow>
    reported_path (Some sl) (f # fs) = (if jf_reportsInside f then map_option (\<lambda>q. q @ slot_step sl) (jf_path f) else None)"
  by (cases sl) (simp_all add: reported_path_def)

lemma in_place_inner: "sl \<noteq> RootSlot \<Longrightarrow> in_place (Some sl) (f # fs) \<longleftrightarrow> slot_value sl (jf_container f) \<noteq> None"
  by (cases sl) (simp_all add: in_place_def)

lemma string_value_inner: "sl \<noteq> RootSlot \<Longrightarrow> jp_stack p = f # fs \<Longrightarrow> string_value (Some sl) p = slot_value sl (jf_container f)"
  by (cases sl) (simp_all add: string_value_def)

lemma reported_with: "reported_path s (with_slot sl v f # fs) = reported_path s (f # fs)"
  by (simp add: reported_path_def split: option.splits slot.splits)

lemma place_stack:
  assumes "open_place slot (jp_stack p)"
  shows "in_place slot (jp_stack (place slot v p))" and "slot \<noteq> None \<Longrightarrow> string_value slot (place slot v p) = Some v"
    and "reportedPath s (place slot v p) = reportedPath s p" and "(jp_stack (place slot v p) = []) = (jp_stack p = [])"
    and "frames_ok (jp_stack p) \<Longrightarrow> frames_ok (jp_stack (place slot v p))"
proof -
  from assms have "in_place slot (jp_stack (place slot v p)) \<and> (slot \<noteq> None \<longrightarrow> string_value slot (place slot v p) = Some v) \<and>
      reportedPath s (place slot v p) = reportedPath s p \<and> (jp_stack (place slot v p) = []) = (jp_stack p = []) \<and>
      (frames_ok (jp_stack p) \<longrightarrow> frames_ok (jp_stack (place slot v p)))"
  proof (cases rule: open_place_cases)
    case (3 sl f gs)
    then show ?thesis
      using place_inner [OF 3(2,3)] string_value_inner [OF 3(2), of "place slot v p"] in_place_inner [OF 3(2)] reported_with
      by simp
  qed (auto simp: in_place_def string_value_def)
  then show "in_place slot (jp_stack (place slot v p))" and "slot \<noteq> None \<Longrightarrow> string_value slot (place slot v p) = Some v"
    and "reportedPath s (place slot v p) = reportedPath s p" and "(jp_stack (place slot v p) = []) = (jp_stack p = [])"
    and "frames_ok (jp_stack p) \<Longrightarrow> frames_ok (jp_stack (place slot v p))"
    by simp_all
qed

lemma place_shown:
  assumes "frames_ok (jp_stack p)" "open_place slot (jp_stack p)" "slot \<noteq> None" "g (string_value slot p) = Some v"
  shows "reported_value (place slot v p) = (case reportedPath slot p of None \<Rightarrow> reported_value p | Some q \<Rightarrow> update_at q g (reported_value p))"
  using assms(2)
proof (cases rule: open_place_cases)
  case 2
  with assms(4) show ?thesis by (auto simp: reported_path_def shown_def reporting_def string_value_def)
next
  case (3 sl f fs)
  note pl = place_inner [OF 3(2,3), of v] and r = reported_inner [OF 3(2), of f fs]
  show ?thesis
  proof (cases "jf_reportsInside f")
    case True
    then obtain q where q: "jf_path f = Some q" using assms(1) 3(3) by (auto split: option.splits)
    then have path: "reported_path (Some sl) (f # fs) = Some (q @ slot_step sl)" using r True by simp
    have "g (slot_value sl (jf_container f)) = Some v" using assms(4) 3(1) string_value_inner [OF 3(2,3)] by simp
    with shown_set [OF _ True 3(4) path, of g v "jp_root p"] assms(1) pl path 3 show ?thesis
      by (auto simp: with_slot_def)
  next
    case False
    with r pl 3 reporting_hidden [of f "with_slot sl v f" "jp_root p" fs] show ?thesis by simp
  qed
qed (use assms(3) in simp)

section \<open>Steps\<close>

lemma mirrors_fields [simp]: "mirrors w (p\<lparr>jp_string := a\<rparr>) = mirrors w p" "mirrors w (p\<lparr>jp_scalar := b\<rparr>) = mirrors w p"
  "mirrors w (p\<lparr>jp_scalarSlot := c\<rparr>) = mirrors w p" "mirrors w (p\<lparr>jp_dirty := d\<rparr>) = mirrors w p" "mirrors w (p\<lparr>jp_done := e\<rparr>) = mirrors w p"
  by (simp_all add: mirrors_def)

lemma mirrors_top:
  assumes "mirrors w p" "\<And>f. jf_container (g f) = jf_container f" "\<And>f. jf_slot (g f) = jf_slot f" "\<And>f. jf_path (g f) = jf_path f"
    "\<And>f. jf_reportsInside (g f) = jf_reportsInside f"
  shows "mirrors w (set_top g p)"
proof (cases "jp_stack p")
  case (Cons f fs)
  have "shown r0 (g f # fs) = shown r0 (f # fs)" for r0
    using assms(2-5) by (cases "jf_reportsInside f") (simp_all add: shown_def reporting_def)
  with Cons assms show ?thesis by (simp add: mirrors_def set_top_def)
qed (use assms(1) in \<open>simp add: set_top_def\<close>)

lemma mirrors_ended: "mirrors w p \<Longrightarrow> mirrors w (valueEnded p)"
  by (simp add: valueEnded_def mirrors_top)

lemma ended_ok: "string_ok p \<Longrightarrow> jp_string p = None \<Longrightarrow> string_ok (valueEnded p) \<and> root_ok (valueEnded p) \<and> jp_string (valueEnded p) = None \<and>
    jp_scalar (valueEnded p) = jp_scalar p"
  by (auto simp: string_ok_def root_ok_def valueEnded_def set_top_def split: list.splits)

lemma report_at_fields [simp]: "jp_stack (report_at q v p) = jp_stack p" "jp_root (report_at q v p) = jp_root p" "jp_string (report_at q v p) = jp_string p"
  "jp_scalar (report_at q v p) = jp_scalar p" "jp_done (report_at q v p) = jp_done p" "jp_scalarSlot (report_at q v p) = jp_scalarSlot p"
  by (auto simp: report_at_def report_def split: option.splits)

text \<open>A value that is placed and reported.\<close>

lemma mirrors_place:
  assumes "mirrors w p" "open_place slot (jp_stack p)"
  shows "mirrors w (report_at (reportedPath slot p) v (place slot v p))"
proof (cases slot)
  case None
  with assms show ?thesis by (simp add: report_at_def reported_path_def)
next
  case (Some sl)
  have f: "frames_ok (jp_stack p)" "apply_changes (jp_changes p) w = reported_value p" using assms(1) by (simp_all add: mirrors_def)
  have s: "reported_value (place slot v p) = (case reportedPath slot p of None \<Rightarrow> reported_value p | Some q \<Rightarrow> update_at q (\<lambda>_. Some v) (reported_value p))"
    using place_shown [OF f(1) assms(2), of "\<lambda>_. Some v" v] Some by simp
  then show ?thesis using f place_stack(5) [OF assms(2) f(1)] by (simp add: mirrors_def report_at_def report_def split: option.splits)
qed

lemma string_value_fields [simp]: "string_value s (p\<lparr>jp_string := a\<rparr>) = string_value s p" "string_value s (p\<lparr>jp_changes := b\<rparr>) = string_value s p"
  "string_value s (report_at q v p) = string_value s p"
  by (auto simp: string_value_def report_at_def report_def split: option.splits slot.splits list.splits)

lemma start_value_ok:
  assumes "parser_ok w p" "\<not> jp_done p" "jp_string p = None" "jp_scalar p = []"
  shows "parser_ok w (start_value p)"
proof -
  let ?slot = "valueSlot p"
  have o: "open_place ?slot (jp_stack p)" using value_slot_open assms by (simp add: parser_ok_def)
  have "mirrors w p" using assms(1) by (simp add: parser_ok_def)
  note m = mirrors_place [OF this o, of "JStr []"] and pl = place_stack(1-4) [OF o, where v = "JStr []"]
  show ?thesis
    using m pl assms(4) by (auto simp: parser_ok_def start_value_def string_ok_def root_ok_def scalar_ok_def report_at_def report_def Let_def
        split: option.splits)
qed

lemma escape_ok: "parser_ok w p \<Longrightarrow> jp_string p = Some str \<Longrightarrow> parser_ok w (p\<lparr>jp_string := Some (str\<lparr>os_escape := e\<rparr>)\<rparr>)"
  by (auto simp: parser_ok_def string_ok_def root_ok_def scalar_ok_def)

lemma in_place_some: "os_slot str \<noteq> None \<Longrightarrow> in_place (os_slot str) fs \<Longrightarrow> open_place (os_slot str) fs"
  using in_place_open by blast

text \<open>Text added to an open string of a value.\<close>

lemma extend_shown:
  assumes "mirrors w p" "in_place slot (jp_stack p)" "slot \<noteq> None" "string_value slot p = Some (JStr s)"
  shows "reported_value (place slot (JStr (s @ t)) p) =
    (case reportedPath slot p of None \<Rightarrow> reported_value p | Some q \<Rightarrow> update_at q (extend_json t) (reported_value p))"
  using place_shown [OF _ in_place_open [OF assms(2)] assms(3), of "extend_json t"] assms(1,4) by (simp add: mirrors_def)

lemma append_value_ok:
  assumes "mirrors w p" "in_place (os_slot str) (jp_stack p)" "os_path str = reportedPath (os_slot str) p" "\<not> os_isKey str"
    and "os_slot str \<noteq> None" "string_value (os_slot str) p = Some (JStr (os_text str))"
    and "jp_changes p \<noteq> [] \<and> os_change str = Some (length (jp_changes p) - 1) \<longrightarrow>
      (\<exists>q s. os_path str = Some q \<and> (last (jp_changes p) = SetChange q (JStr s) \<or> last (jp_changes p) = AppendChange q s))"
  shows "mirrors w (appendString str t p) \<and> string_ok (appendString str t p)"
proof -
  let ?slot = "os_slot str" and ?v = "JStr (os_text str @ t)"
  define p1 where "p1 = place ?slot ?v p"
  have o: "open_place ?slot (jp_stack p)" using in_place_open assms(2) by blast
  have f: "frames_ok (jp_stack p)" "apply_changes (jp_changes p) w = reported_value p" using assms(1) by (simp_all add: mirrors_def)
  note pl = place_stack(1-4) [OF o, where v = ?v] place_stack(5) [OF o f(1), of ?v]
  note e = extend_shown [OF assms(1,2,5,6), of t]
  have p1: "jp_changes p1 = jp_changes p" "in_place ?slot (jp_stack p1)" "string_value ?slot p1 = Some ?v" "reportedPath ?slot p1 = os_path str"
    "frames_ok (jp_stack p1)" using pl assms(3,5) by (simp_all add: p1_def)
  show ?thesis
  proof (cases "os_path str")
    case None
    then have a: "appendString str t p = p1\<lparr>jp_string := Some (str\<lparr>os_text := os_text str @ t\<rparr>)\<rparr>"
      using assms(4) by (simp add: appendString_def Let_def p1_def)
    have "reported_value p1 = reported_value p" using e None assms(3) by (simp add: p1_def)
    with a p1 f None assms(4,5,7) show ?thesis by (simp add: mirrors_def string_ok_def)
  next
    case (Some q)
    have r: "reported_value p1 = update_at q (extend_json t) (reported_value p)" using e Some assms(3) by (simp add: p1_def)
    show ?thesis
    proof (cases "jp_changes p \<noteq> [] \<and> os_change str = Some (length (jp_changes p) - 1)")
      case True
      then have a: "appendString str t p = p1\<lparr>jp_changes := butlast (jp_changes p) @ [extend_change t (last (jp_changes p))],
          jp_string := Some (str\<lparr>os_text := os_text str @ t\<rparr>)\<rparr>"
        using assms(4) Some p1 by (simp add: appendString_def Let_def p1_def [symmetric])
      from assms(7) True Some obtain s where s: "last (jp_changes p) = SetChange q (JStr s) \<or> last (jp_changes p) = AppendChange q s" by auto
      from True obtain cs c where cs: "jp_changes p = cs @ [c]" by (meson rev_exhaust)
      then have "apply_changes (jp_changes p) w = apply_change (last (jp_changes p)) (apply_changes (butlast (jp_changes p)) w)" by simp
      then have "apply_changes (butlast (jp_changes p) @ [extend_change t (last (jp_changes p))]) w = reported_value p1"
        using extend_last [OF s] r f by simp
      with a p1 s cs True Some assms(4,5) show ?thesis by (auto simp: mirrors_def string_ok_def)
    next
      case False
      then have a: "appendString str t p = (report (AppendChange q t) p1)\<lparr>jp_string := Some (str\<lparr>os_text := os_text str @ t, os_change := Some (length (jp_changes p))\<rparr>)\<rparr>"
        using assms(4) Some p1 by (auto simp: appendString_def Let_def p1_def [symmetric])
      have "apply_changes (jp_changes p @ [AppendChange q t]) w = reported_value p1" using r f by simp
      with a p1 Some assms(4,5) show ?thesis by (simp add: mirrors_def string_ok_def report_def)
    qed
  qed
qed

lemma append_string_ok:
  assumes "parser_ok w p" "jp_string p = Some o1" "str = o1\<lparr>os_escape := e\<rparr>"
  shows "parser_ok w (appendString str t p)"
proof -
  have s: "string_ok p" "mirrors w p" and rest: "root_ok (appendString str t p) \<and> scalar_ok (appendString str t p)"
    using assms appendString_opens [of str t p] unfolding parser_ok_def
    by (auto simp: root_ok_def scalar_ok_def appendString_def Let_def report_def split: option.splits)
  have "mirrors w (appendString str t p) \<and> string_ok (appendString str t p)"
  proof (cases "os_isKey str \<or> os_slot str = None")
    case True
    then show ?thesis
      using s assms(2,3) by (auto simp: string_ok_def appendString_def Let_def reported_path_def)
  next
    case False
    then show ?thesis using s assms(2,3) by (intro append_value_ok) (auto simp: string_ok_def)
  qed
  with rest show ?thesis by (simp add: parser_ok_def)
qed

lemma flush_ok: "parser_ok w p \<Longrightarrow> parser_ok w (flush_run run p)"
  using append_string_ok [of w p _ _ _ run] by (auto simp: flush_run_def split: option.splits) (metis open_string.surjective open_string.update_convs(4))

lemma continue_ok:
  assumes "parser_ok w p" "jp_string p = Some str"
  shows "parser_ok w (snd (continueEscape str c p))"
  using append_string_ok [OF assms refl] escape_ok [OF assms] by (auto simp: continueEscape_def Let_def split: option.splits)

lemma close_string_ok:
  assumes "parser_ok w p" "\<not> jp_done p"
  shows "parser_ok w (close_string p)"
proof (cases "jp_string p")
  case (Some str)
  have sc: "jp_scalar p = []" using assms Some by (auto simp: parser_ok_def scalar_ok_def)
  have m: "mirrors w (p\<lparr>jp_string := None\<rparr>)" using assms(1) by (simp add: parser_ok_def)
  show ?thesis
  proof (cases "os_isKey str")
    case True
    let ?g = "\<lambda>f. f\<lparr>jf_key := Some (os_text str), jf_phase := ColonPhase\<rparr>"
    have "jp_stack p \<noteq> []" using assms(1) Some True by (auto simp: parser_ok_def string_ok_def)
    with mirrors_top [OF m, of ?g] Some True sc show ?thesis
      by (auto simp: close_string_def endString_def parser_ok_def string_ok_def root_ok_def scalar_ok_def set_top_def Let_def split: list.splits)
  next
    case False
    have "string_ok (p\<lparr>jp_string := None\<rparr>)" by (simp add: string_ok_def)
    from ended_ok [OF this] mirrors_ended [OF m] Some False sc show ?thesis
      by (simp add: close_string_def endString_def parser_ok_def scalar_ok_def Let_def)
  qed
qed (use assms in \<open>simp add: close_string_def\<close>)

lemma string_unit_ok:
  assumes "parser_ok w p" "\<not> jp_done p"
  shows "parser_ok w (string_unit c p)"
proof -
  obtain taken run p1 where e: "in_escape c [] p = (taken, run, p1)" by (cases "in_escape c [] p")
  have p1: "parser_ok w p1" "\<not> jp_done p1"
  proof -
    have "parser_ok w p1 \<and> \<not> jp_done p1"
    proof (cases "\<exists>str. jp_string p = Some str \<and> os_escape str \<noteq> []")
      case True
      then obtain str where str: "jp_string p = Some str" "os_escape str \<noteq> []" by blast
      then have "continueEscape str c p = (taken, p1)" using e by (auto simp: in_escape_def split: prod.splits)
      then show ?thesis using continue_ok [OF assms(1) str(1), of c] continueEscape_fields [of str c p] assms(2) by simp
    next
      case False
      then have "p1 = p" using e by (auto simp: in_escape_def split: option.splits)
      then show ?thesis using assms by simp
    qed
    then show "parser_ok w p1" "\<not> jp_done p1" by simp_all
  qed
  moreover have "parser_ok w (start_escape p1)"
  proof (cases "jp_string p1")
    case None
    then have "start_escape p1 = p1" by (cases p1) (simp add: start_escape_def)
    then show ?thesis using p1(1) by simp
  qed (use escape_ok [OF p1(1)] in \<open>simp add: start_escape_def\<close>)
  ultimately show ?thesis using e close_string_ok flush_ok by (auto simp: string_unit_def)
qed

lemma end_scalar_ok:
  assumes "parser_ok w p" "\<not> jp_done p" "jp_string p = None" "jp_scalar p \<noteq> []"
  shows "parser_ok w (endScalar p) \<and> jp_string (endScalar p) = None \<and> jp_scalar (endScalar p) = []"
proof -
  let ?p1 = "p\<lparr>jp_scalar := [], jp_scalarSlot := None\<rparr>" and ?slot = "jp_scalarSlot p"
  have slot: "?slot = valueSlot p" using assms by (auto simp: parser_ok_def scalar_ok_def)
  have o: "open_place ?slot (jp_stack ?p1)" using value_slot_open [of p] assms slot by (simp add: parser_ok_def)
  have m: "mirrors w ?p1" using assms(1) by (simp add: parser_ok_def)
  let ?p2 = "case scalarValue (jp_scalar p) of None \<Rightarrow> ?p1 | Some v \<Rightarrow> (let p2 = place ?slot v ?p1 in report_at (reportedPath ?slot p2) v p2)"
  have "mirrors w ?p2" using m mirrors_place [OF m o] place_stack(3) [OF o] by (auto simp: Let_def split: option.splits)
  moreover have "string_ok ?p2" "jp_string ?p2 = None" "jp_scalar ?p2 = []"
    using assms(3) by (auto simp: string_ok_def Let_def split: option.splits)
  ultimately show ?thesis
    using mirrors_ended ended_ok [of ?p2] by (simp add: endScalar_def parser_ok_def scalar_ok_def Let_def)
qed

lemma open_ok:
  assumes "parser_ok w p" "\<not> jp_done p" "jp_string p = None" "jp_scalar p = []" "c = Members [] \<or> c = Elements []"
  shows "parser_ok w (openContainer c p)"
proof -
  let ?slot = "valueSlot p" and ?v = "container_json c"
  have o: "open_place ?slot (jp_stack p)" using value_slot_open assms by (simp add: parser_ok_def)
  have m: "mirrors w p" using assms(1) by (simp add: parser_ok_def)
  define p1 where "p1 = place ?slot ?v p"
  define p2 where "p2 = report_at (reportedPath ?slot p) ?v p1"
  have m2: "mirrors w p2" using mirrors_place [OF m o, of ?v] by (simp add: p1_def p2_def)
  have pl: "in_place ?slot (jp_stack p1)" "reportedPath ?slot p1 = reportedPath ?slot p" "?slot \<noteq> None \<Longrightarrow> string_value ?slot p1 = Some ?v"
    using place_stack(1,3) [OF o, where v = ?v] place_stack(2) [OF o, of ?v] by (simp_all add: p1_def)
  define f where "f = \<lparr>jf_container = c, jf_slot = ?slot, jf_path = reportedPath ?slot p,
    jf_reportsInside = (case reportedPath ?slot p of None \<Rightarrow> False | Some q \<Rightarrow> length q < MAX_REPORTED_DEPTH), jf_size = 0, jf_key = None,
    jf_phase = (case c of Elements _ \<Rightarrow> ValuePhase | Members _ \<Rightarrow> KeyPhase)\<rparr>"
  have same: "shown (jp_root p1) (f # jp_stack p1) = shown (jp_root p1) (jp_stack p1)"
  proof (cases "jf_reportsInside f")
    case True
    then obtain q sl where q: "reportedPath ?slot p1 = Some q" "?slot = Some sl"
      using pl(2) by (auto simp: f_def reported_path_def split: option.splits)
    show ?thesis
    proof (cases "sl = RootSlot")
      case True
      then have "jp_stack p1 = []" "jp_root p1 = Some ?v" using pl q by (simp_all add: in_place_def string_value_def)
      with \<open>jf_reportsInside f\<close> show ?thesis by (simp add: shown_def reporting_def f_def)
    next
      case False
      then obtain g gs where g: "jp_stack p1 = g # gs" using pl(1) q(2) by (auto simp: in_place_def split: slot.splits list.splits)
      have "jf_reportsInside g" using q g reported_inner [OF False, of g gs] by (auto split: if_splits)
      moreover have "slot_value sl (jf_container g) = Some ?v" using pl(3) q(2) string_value_inner [OF False g] by simp
      then have "setSlot sl ?v (jf_container g) = jf_container g"
        by (cases "(sl, jf_container g)" rule: slot_value.cases) (auto simp: omap_set_same list_update_same_conv split: if_splits)
      ultimately show ?thesis using True g q by (simp add: shown_def reporting_def f_def)
    qed
  next
    case False
    then show ?thesis by (simp add: shown_def reporting_def)
  qed
  have "openContainer c p = (p2\<lparr>jp_stack := f # jp_stack p1, jp_pathCost := jp_pathCost p1 + 1, jp_dirty := True\<rparr>)"
    by (auto simp: openContainer_def p1_def p2_def f_def report_at_def report_def Let_def split: option.splits)
  moreover have "frames_ok (f # jp_stack p1)" using m2 pl by (simp add: mirrors_def p2_def f_def)
  moreover have "apply_changes (jp_changes p2) w = shown (jp_root p1) (jp_stack p1)" using m2 by (simp add: mirrors_def p2_def)
  ultimately show ?thesis
    using same assms(3,4) by (simp add: parser_ok_def mirrors_def string_ok_def root_ok_def scalar_ok_def p2_def p1_def)
qed

lemma close_ok:
  assumes "parser_ok w p" "\<not> jp_done p" "jp_string p = None" "jp_scalar p = []"
  shows "parser_ok w (closeContainer p)"
proof (cases "jp_stack p")
  case (Cons f fs)
  let ?v = "container_json (jf_container f)"
  have m: "frames_ok (f # fs)" "apply_changes (jp_changes p) w = shown (jp_root p) (f # fs)"
    using assms(1) Cons by (simp_all add: parser_ok_def mirrors_def)
  define p0 where "p0 = p\<lparr>jp_stack := fs, jp_pathCost := jp_pathCost p - (jf_size f + 1), jp_dirty := True\<rparr>"
  define p1 where "p1 = settle_child f p0"
  define p2 where "p2 = (if jf_reportsInside f then p1 else report_at (jf_path f) ?v p1)"
  have str: "jp_string p2 = None" "jp_scalar p2 = []"
    using assms(3,4) by (auto simp: p2_def p1_def p0_def settle_child_def set_top_def split: option.splits slot.splits list.splits)
  have "mirrors w p2"
  proof (cases "jf_slot f")
    case None
    then have "jf_path f = None" "\<not> jf_reportsInside f" using m(1) by (auto simp: reported_path_def)
    with None m show ?thesis by (simp add: p2_def p1_def p0_def settle_child_def report_at_def mirrors_def shown_def reporting_def)
  next
    case (Some sl)
    show ?thesis
    proof (cases "sl = RootSlot")
      case True
      then have "fs = []" "jf_reportsInside f" using m(1) Some by (auto simp: in_place_def reported_path_def MAX_REPORTED_DEPTH_def)
      with True Some m show ?thesis by (simp add: p2_def p1_def p0_def settle_child_def mirrors_def shown_def reporting_def)
    next
      case False
      then obtain g gs where g: "fs = g # gs" "slot_value sl (jf_container g) \<noteq> None"
        using m(1) Some by (auto simp: in_place_def split: slot.splits list.splits)
      let ?g = "g\<lparr>jf_container := setSlot sl ?v (jf_container g)\<rparr>"
      have p1: "jp_stack p1 = ?g # gs" "jp_root p1 = jp_root p" "jp_changes p1 = jp_changes p"
        using False Some g by (auto simp: p1_def p0_def settle_child_def set_top_def split: slot.splits)
      obtain x where x: "slot_value sl (jf_container g) = Some x" using g by blast
      have fits: "slot_fits sl (jf_container g)" using value_fits x by blast
      have fok: "frames_ok (g # gs)" using m(1) g by simp
      then have fok': "frames_ok (?g # gs)" by simp
      show ?thesis
      proof (cases "jf_reportsInside f")
        case True
        then have "jf_reportsInside g"
          using m(1) Some g reported_inner [OF False, of g gs] by (auto split: option.splits if_splits)
        with True m(2) Some g p1 fok' show ?thesis
          by (simp add: p2_def mirrors_def shown_def reporting_def del: frames_ok.simps)
      next
        case hidden: False
        show ?thesis
        proof (cases "jf_path f")
          case None
          then have "\<not> jf_reportsInside g"
            using m(1) Some g reported_inner [OF False, of g gs] by (auto split: if_splits option.splits)
          with hidden None m(2) g p1 fok' show ?thesis
            by (simp add: p2_def mirrors_def report_at_def shown_def reporting_def del: frames_ok.simps)
        next
          case (Some q)
          then have "reported_path (Some sl) (g # gs) = Some q" using m(1) \<open>jf_slot f = Some sl\<close> g by simp
          moreover from this have "jf_reportsInside g" using reported_inner [OF False, of g gs] by (auto split: if_splits)
          ultimately have "update_at q (\<lambda>_. Some ?v) (shown (jp_root p) (g # gs)) =
              shown (jp_root p) (g\<lparr>jf_container := setSlot sl ?v (jf_container g), jf_size := jf_size g\<rparr> # gs)"
            by (intro shown_set [OF fok _ fits]) simp_all
          moreover have "shown (jp_root p) (f # fs) = shown (jp_root p) (g # gs)" using hidden g by (simp add: shown_def reporting_def)
          ultimately have "apply_change (SetChange q ?v) (apply_changes (jp_changes p) w) = shown (jp_root p) (?g # gs)"
            using m(2) by simp
          with Some hidden p1 fok' show ?thesis by (simp add: p2_def mirrors_def report_at_def report_def del: frames_ok.simps)
        qed
      qed
    qed
  qed
  moreover have "closeContainer p = valueEnded p2" using Cons by (simp add: closeContainer_def p2_def p1_def p0_def Let_def)
  moreover have "string_ok p2" using str by (simp add: string_ok_def)
  ultimately show ?thesis using str ended_ok [of p2] mirrors_ended by (simp add: parser_ok_def scalar_ok_def)
qed (use assms in \<open>simp add: closeContainer_def\<close>)

lemma structural_ok:
  assumes "parser_ok w p" "\<not> jp_done p" "jp_string p = None" "jp_scalar p = []"
  shows "parser_ok w (structural c p)"
proof -
  have m: "mirrors w p" using assms(1) by (simp add: parser_ok_def)
  have start: "parser_ok w (startString p)"
    using start_value_ok [OF assms] assms m
    by (auto simp: startString_def parser_ok_def string_ok_def root_ok_def scalar_ok_def split: list.splits)
  have top: "parser_ok w (set_top g p)" if "mirrors w (set_top g p)" for g
    using that assms by (auto simp: parser_ok_def string_ok_def root_ok_def scalar_ok_def set_top_def split: list.splits)
  have scalar: "parser_ok w (p\<lparr>jp_scalar := [c], jp_scalarSlot := valueSlot p, jp_dirty := d\<rparr>)" for d
    using assms m by (auto simp: parser_ok_def string_ok_def root_ok_def scalar_ok_def valueSlot_def)
  have colon: "parser_ok w (set_top (\<lambda>f. if \<not> is_array f \<and> jf_phase f = ColonPhase then f\<lparr>jf_phase := ValuePhase\<rparr> else f) p)"
    by (rule top, rule mirrors_top [OF m]) simp_all
  have comma: "parser_ok w (set_top (\<lambda>f. f\<lparr>jf_phase := (if is_array f then ValuePhase else KeyPhase)\<rparr>) p)"
    by (rule top, rule mirrors_top [OF m]) simp_all
  show ?thesis
    using assms start scalar colon comma open_ok [OF assms] close_ok [OF assms] unfolding structural_def by simp
qed

lemma unit_ok: "parser_ok w p \<Longrightarrow> parser_ok w (read_unit c p)"
proof -
  assume p: "parser_ok w p"
  have scalar: "parser_ok w (p\<lparr>jp_scalar := jp_scalar p @ [c], jp_dirty := d\<rparr>)"
    if "jp_string p = None" "jp_scalar p \<noteq> []" "\<not> jp_done p" for d
    using p that by (auto simp: parser_ok_def string_ok_def root_ok_def scalar_ok_def valueSlot_def)
  show ?thesis
    using p string_unit_ok [OF p] end_scalar_ok [OF p] structural_ok [OF p] structural_ok scalar
    by (auto simp: read_unit_def Let_def)
qed

lemma units_ok: "parser_ok w p \<Longrightarrow> parser_ok w (fold read_unit cs p)"
  by (induction cs arbitrary: p) (auto intro: unit_ok)

section \<open>Streams\<close>

text \<open>Pieces fed one after the other, with all the changes they report.\<close>

fun stream :: "jstr list \<Rightarrow> json_parser \<Rightarrow> json_change list \<times> json_parser" where
  "stream [] p = ([], p)"
| "stream (t # ts) p = (let (cs, p1) = append t p; (ds, p2) = stream ts p1 in (cs @ ds, p2))"

lemma begin_fields [simp]: "jp_stack (begin_piece t p) = jp_stack p" "jp_root (begin_piece t p) = jp_root p" "jp_done (begin_piece t p) = jp_done p"
  "jp_changes (begin_piece t p) = []" "jp_scalar (begin_piece t p) = jp_scalar p" "jp_scalarSlot (begin_piece t p) = jp_scalarSlot p"
  "jp_string (begin_piece t p) = map_option (\<lambda>str. str\<lparr>os_change := None\<rparr>) (jp_string p)" "valueSlot (begin_piece t p) = valueSlot p"
  by (cases "jp_root p"; simp add: begin_piece_def valueSlot_def)+

lemma begin_string_value [simp]: "string_value s (begin_piece t p) = string_value s p"
  by (auto simp: string_value_def split: option.splits slot.splits)

lemma begin_ok: "parser_ok w p \<Longrightarrow> parser_ok (reported_value p) (begin_piece t p)"
  by (cases "jp_string p") (auto simp: parser_ok_def mirrors_def string_ok_def root_ok_def scalar_ok_def)

lemma append_ok: "parser_ok w p \<Longrightarrow> append t p = (cs, p1) \<Longrightarrow> parser_ok (reported_value p) p1 \<and> apply_changes cs (reported_value p) = reported_value p1"
  using units_ok [OF begin_ok, of w p t t] by (auto simp: append_def Let_def append_loop_units parser_ok_def mirrors_def)

lemma stream_ok: "parser_ok w p \<Longrightarrow> stream ts p = (cs, p1) \<Longrightarrow> (\<exists>v. parser_ok v p1) \<and> apply_changes cs (reported_value p) = reported_value p1"
proof (induction ts arbitrary: w p cs)
  case (Cons t ts)
  obtain as pa where a: "append t p = (as, pa)" by (cases "append t p")
  obtain bs where b: "stream ts pa = (bs, p1)" "cs = as @ bs" using Cons.prems(2) a by (auto simp: Let_def split: prod.splits)
  from append_ok [OF Cons.prems(1) a] Cons.IH [OF _ b(1)] b(2) show ?case by auto
qed auto

lemma new_ok: "parser_ok None new_parser"
  by (simp add: new_parser_def parser_ok_def mirrors_def string_ok_def root_ok_def scalar_ok_def shown_def reporting_def)

lemma copy_frames_slot: "frames_ok (f # fs) \<Longrightarrow> \<forall>g \<in> set (f # fs). jf_slot g \<noteq> None \<Longrightarrow> snd (copy_frames v (jf_slot f) fs) = Some RootSlot"
proof (induction fs arbitrary: f v)
  case Nil
  then show ?case by (auto simp: in_place_def split: option.splits slot.splits)
qed simp

text \<open>What is reported is the whole value, unless something open is nested too deep or has no place.\<close>

lemma reported_whole:
  assumes "frames_ok (jp_stack p)" "\<forall>f \<in> set (jp_stack p). jf_reportsInside f"
  shows "reported_value p = copyOpenPath None p"
proof (cases "jp_stack p")
  case (Cons f fs)
  have "jf_slot g \<noteq> None" if "g \<in> set gs" "frames_ok gs" "jf_reportsInside g" for g gs
    using that by (induction gs) (auto simp: reported_path_def split: option.splits)
  then have "snd (copy_frames v (jf_slot f) fs) = Some RootSlot" for v
    using assms unfolding Cons by (intro copy_frames_slot) blast+
  with assms(2) Cons show ?thesis by (simp add: shown_def reporting_def copyOpenPath_def case_prod_beta)
qed (simp add: shown_def reporting_def copyOpenPath_def)

text \<open>
  C34. Whoever starts with nothing and applies the changes the parser reports for every piece, in order, has a copy of
  the value: all of it when no container is open that is nested below the reported depth or that belongs nowhere, in
  particular once the text is complete, and otherwise all but what is inside such a container.
\<close>

theorem changes_build_value:
  assumes "stream ts new_parser = (cs, p)"
  shows "apply_changes cs None = reported_value p \<and>
    ((\<forall>f \<in> set (jp_stack p). jf_reportsInside f) \<longrightarrow> apply_changes cs None = copyOpenPath None p)"
proof -
  have n: "reported_value new_parser = None" by (simp add: new_parser_def shown_def reporting_def)
  with stream_ok [OF new_ok assms] obtain v where "parser_ok v p" "apply_changes cs None = reported_value p" by auto
  then show ?thesis using reported_whole [of p] by (simp add: parser_ok_def mirrors_def)
qed

definition demo_pieces :: "jstr list" where
  "demo_pieces = [js ''[\"a'', js ''b'']"

lemma demo_stream: "fst (stream demo_pieces new_parser) = [SetChange [] (JArr []), SetChange [Index 0] (JStr (js ''a'')), AppendChange [Index 0] (js ''b'')]"
  "list_all jf_reportsInside (jp_stack (snd (stream demo_pieces new_parser)))"
  by code_simp+

theorem changes_build_value_witness:
  "apply_changes (fst (stream demo_pieces new_parser)) None = copyOpenPath None (snd (stream demo_pieces new_parser)) \<and>
   copyOpenPath None (snd (stream demo_pieces new_parser)) = Some (JArr [JStr (js ''ab'')])"
proof -
  have "apply_changes (fst (stream demo_pieces new_parser)) None = copyOpenPath None (snd (stream demo_pieces new_parser))"
    using changes_build_value [of demo_pieces "fst (stream demo_pieces new_parser)" "snd (stream demo_pieces new_parser)"] demo_stream(2)
    unfolding list_all_iff by (metis prod.collapse)
  moreover have "apply_changes (fst (stream demo_pieces new_parser)) None = Some (JArr [JStr (js ''ab'')])"
    unfolding demo_stream(1) by code_simp
  ultimately show ?thesis by simp
qed

end
