(* ===== verification/Streaming_Json_Roundtrip.thy ===== *)
theory Streaming_Json_Roundtrip
  imports Streaming_Json_Snapshots
begin

text \<open>
  The streaming parser reads back what \<open>JSON.stringify\<close> prints, in whatever pieces it arrives.
\<close>

section \<open>Strings\<close>

definition opens :: "open_string \<Rightarrow> json_parser \<Rightarrow> bool" where
  "opens str p \<longleftrightarrow> jp_string p = Some str \<and> os_escape str = [] \<and> \<not> jp_done p"

lemma append_ignores_string [simp]: "appendString str t (p\<lparr>jp_string := x\<rparr>) = appendString str t p"
  by (auto simp: appendString_def Let_def report_def split: option.splits)

lemma plain_unit: "opens str p \<Longrightarrow> c \<noteq> QUOTE \<Longrightarrow> c \<noteq> BACKSLASH \<Longrightarrow> read_unit c p = appendString str [c] p"
  by (simp add: opens_def read_unit_def string_unit_def in_escape_def flush_run_def)

abbreviation escaping :: "jstr \<Rightarrow> open_string \<Rightarrow> json_parser \<Rightarrow> json_parser" where
  "escaping e str p \<equiv> p\<lparr>jp_string := Some (str\<lparr>os_escape := e\<rparr>)\<rparr>"

lemma backslash_unit: "opens str p \<Longrightarrow> read_unit BACKSLASH p = escaping [BACKSLASH] str p"
  by (simp add: opens_def read_unit_def string_unit_def in_escape_def start_escape_def)

lemma opens_plain: "opens str p \<Longrightarrow> str\<lparr>os_escape := []\<rparr> = str"
  by (cases str) (simp add: opens_def)

lemma simple_escape: "opens str p \<Longrightarrow> map_of SIMPLE_ESCAPES c = Some d \<Longrightarrow> fold read_unit [BACKSLASH, c] p = appendString str [d] p"
  using opens_plain [of str p] backslash_unit [of str p]
  by (simp add: read_unit_def [of c] string_unit_def in_escape_def continueEscape_def Let_def) (simp add: opens_def)

lemma hex_unit:
  assumes "opens str p" "isHexDigit c" "e = BACKSLASH # 117 # ds" "length ds < 3"
  shows "read_unit c (escaping e str p) = escaping (e @ [c]) str p"
  using assms by (simp add: read_unit_def string_unit_def in_escape_def continueEscape_def Let_def opens_def)

lemma last_hex_unit:
  assumes "opens str p" "isHexDigit c" "e = BACKSLASH # 117 # ds" "length ds = 3"
  shows "read_unit c (escaping e str p) = appendString str [of_nat (hex_value (ds @ [c]))] p"
proof -
  have "read_unit c (escaping e str p) = appendString (str\<lparr>os_escape := []\<rparr>) [of_nat (hex_value (ds @ [c]))] p"
    using assms by (simp add: read_unit_def string_unit_def in_escape_def continueEscape_def Let_def opens_def)
  then show ?thesis unfolding opens_plain [OF assms(1)] .
qed

lemma u_unit: "opens str p \<Longrightarrow> read_unit 117 (escaping [BACKSLASH] str p) = escaping [BACKSLASH, 117] str p"
  by (simp add: read_unit_def string_unit_def in_escape_def continueEscape_def SIMPLE_ESCAPES_def Let_def opens_def)

lemma hex_digit_reads: "n < 16 \<Longrightarrow> isHexDigit (hex_digit n) \<and> hex_digit_value (hex_digit n) = n"
proof -
  have "\<forall>k \<in> set [0..<16]. isHexDigit (hex_digit k) \<and> hex_digit_value (hex_digit k) = k" by code_simp
  then show "n < 16 \<Longrightarrow> isHexDigit (hex_digit n) \<and> hex_digit_value (hex_digit n) = n" by simp
qed

lemma unicode_unit: "opens str p \<Longrightarrow> fold read_unit (unicode_escape c) p = appendString str [c] p"
proof -
  assume p: "opens str p"
  let ?n = "unat c"
  define a b d e where abde: "a = ?n div 4096" "b = ?n div 256 mod 16" "d = ?n div 16 mod 16" "e = ?n mod 16"
  have lt: "?n < 65536" using unsigned_less [of c] by simp
  then have small: "a < 16" "b < 16" "d < 16" "e < 16" by (simp_all add: abde less_mult_imp_div_less)
  have "?n div 256 = ?n div 16 div 16" "?n div 4096 = ?n div 16 div 16 div 16" by (simp_all add: div_mult2_eq [symmetric])
  then have "16 * (16 * (16 * a + b) + d) + e = ?n" unfolding abde by (simp only: mult_div_mod_eq)
  then have v: "hex_value [hex_digit a, hex_digit b, hex_digit d, hex_digit e] = ?n"
    using hex_digit_reads small by (simp add: hex_value_def algebra_simps)
  note h = hex_digit_reads [THEN conjunct1]
  have "fold read_unit [BACKSLASH, 117, hex_digit a, hex_digit b, hex_digit d, hex_digit e] p = appendString str [of_nat ?n] p"
    using backslash_unit [OF p] u_unit [OF p] hex_unit [OF p h [OF small(1)], of _ "[]"] hex_unit [OF p h [OF small(2)], of _ "[hex_digit a]"]
      hex_unit [OF p h [OF small(3)], of _ "[hex_digit a, hex_digit b]"]
      last_hex_unit [OF p h [OF small(4)], of _ "[hex_digit a, hex_digit b, hex_digit d]"] v by simp
  then show ?thesis by (simp add: unicode_escape_def Let_def js_def abde)
qed

lemma flush_opens: "opens str p \<Longrightarrow> \<exists>o1. opens o1 (flush_run s p)"
  using flush_escape [of p str s] by (fastforce simp: opens_def)

lemma flush_append: "flush_run b (flush_run a p) = flush_run (a @ b) p"
proof (cases "jp_string p")
  case (Some str)
  obtain o1 where "jp_string (appendString str a p) = Some o1" using appendString_opens [of str a p] by blast
  with appendString_append [OF this, of b] Some show ?thesis by (simp add: flush_run_def)
qed (simp add: flush_run_def)

text \<open>A spelling of a string: what is between its quotes.\<close>

definition spells :: "jstr \<Rightarrow> jstr \<Rightarrow> bool" where
  "spells u s \<longleftrightarrow> (\<forall>str p. opens str p \<longrightarrow> fold read_unit u p = flush_run s p)"

lemma spells_Nil: "spells [] []"
  by (simp add: spells_def flush_run_def split: option.splits)

lemma spells_append: "spells u s \<Longrightarrow> spells v t \<Longrightarrow> spells (u @ v) (s @ t)"
  using flush_opens by (fastforce simp: spells_def flush_append)

lemma flush_one: "opens str p \<Longrightarrow> flush_run [c] p = appendString str [c] p"
  by (simp add: flush_run_def opens_def)

lemma spells_plain: "c \<noteq> QUOTE \<Longrightarrow> c \<noteq> BACKSLASH \<Longrightarrow> spells [c] [c]"
  by (simp add: spells_def flush_one plain_unit)

lemma spells_simple: "map_of SIMPLE_ESCAPES c = Some d \<Longrightarrow> spells [BACKSLASH, c] [d]"
  using simple_escape by (simp add: spells_def flush_one)

lemma spells_unicode: "spells (unicode_escape c) [c]"
  by (simp add: spells_def flush_one unicode_unit)

lemma spells_escaped: "spells (escape_unit c) [c]"
  using spells_simple [of 98 8] spells_simple [of 116 9] spells_simple [of 110 10] spells_simple [of 102 12] spells_simple [of 114 13]
    spells_simple [of 34 34] spells_simple [of 92 92] spells_unicode spells_plain
  by (auto simp: escape_unit_def js_def SIMPLE_ESCAPES_def)

lemma surrogates_plain: "is_high c \<or> is_low c \<Longrightarrow> c \<noteq> QUOTE \<and> c \<noteq> BACKSLASH"
  by (auto simp: is_high_def is_low_def)

lemma spells_printed: "spells (escape_units s) s"
proof (induction s rule: escape_units.induct)
  case (3 c d cs)
  show ?case
  proof (cases "is_high c \<and> is_low d")
    case True
    then have "spells ([c] @ [d]) ([c] @ [d])" using surrogates_plain by (intro spells_append spells_plain) blast+
    from spells_append [OF this 3(1) [OF True]] True show ?thesis by simp
  next
    case False
    from spells_append [OF spells_escaped 3(2) [OF False]] False show ?thesis by auto
  qed
qed (simp_all add: spells_Nil spells_escaped)

lemma quoted_body:
  assumes "opens str p" "spells u s"
  shows "fold read_unit (u @ [QUOTE]) p = close_string (flush_run s p)"
proof -
  obtain o1 where "opens o1 (flush_run s p)" using flush_opens [OF assms(1)] by blast
  then have "read_unit QUOTE (flush_run s p) = close_string (flush_run s p)"
    by (simp add: opens_def read_unit_def string_unit_def in_escape_def)
  then show ?thesis using assms by (simp add: spells_def)
qed

section \<open>Values in an open container\<close>

text \<open>
  A parser between values of an open container, and what reading on inside that container changes of it: the content of
  the container alone.
\<close>

definition inside :: "container \<Rightarrow> json_parser \<Rightarrow> bool" where
  "inside c p \<longleftrightarrow> \<not> jp_done p \<and> jp_string p = None \<and> jp_scalar p = [] \<and> (\<exists>f fs. jp_stack p = f # fs \<and> jf_container f = c)"

definition same_outside :: "json_parser \<Rightarrow> json_parser \<Rightarrow> bool" where
  "same_outside p q \<longleftrightarrow> jp_root q = jp_root p \<and> tl (jp_stack q) = tl (jp_stack p) \<and> jf_slot (hd (jp_stack q)) = jf_slot (hd (jp_stack p))"

lemma outside_trans: "same_outside p q \<Longrightarrow> same_outside q r \<Longrightarrow> same_outside p r"
  by (simp add: same_outside_def)

lemma inside_top: "inside c p \<Longrightarrow> (\<And>f. jf_container (g f) = jf_container f \<and> jf_slot (g f) = jf_slot f) \<Longrightarrow>
    inside c (set_top g p) \<and> same_outside p (set_top g p)"
  by (auto simp: inside_def same_outside_def set_top_def)

lemma inside_ended: "inside c p \<Longrightarrow> inside c (valueEnded p) \<and> same_outside p (valueEnded p)"
  using inside_top [of c p] by (auto simp: valueEnded_def inside_def)

lemma inside_string [simp]: "same_outside p (q\<lparr>jp_string := x\<rparr>) = same_outside p q"
  by (simp add: same_outside_def)

lemma inside_report [simp]: "inside c (report_at path v p) = inside c p" "same_outside p (report_at path v q) = same_outside p q"
  by (simp_all add: inside_def same_outside_def)

lemma ended_report:
  assumes "inside c q" "same_outside p q"
  shows "inside c (valueEnded (report_at path v q)) \<and> same_outside p (valueEnded (report_at path v q))"
  using inside_ended [of c "report_at path v q"] outside_trans [of p "report_at path v q"] assms by simp

lemma inside_place: "inside c p \<Longrightarrow> sl \<noteq> RootSlot \<Longrightarrow> inside (setSlot sl v c) (place (Some sl) v p) \<and> same_outside p (place (Some sl) v p)"
  using place_inner [of sl p] by (auto simp: inside_def same_outside_def)

lemma value_slot_inner: "inside c p \<Longrightarrow> valueSlot p = Some sl \<Longrightarrow> sl \<noteq> RootSlot"
  by (auto simp: inside_def valueSlot_def split: list.splits container.splits if_splits)

abbreviation closers :: "unit16 set" where
  "closers \<equiv> {32, 9, 10, 13, 44, 93, 125}"

text \<open>A text of a value and a unit that ends it: the value is read, and then the unit.\<close>

definition reads_text :: "jstr \<Rightarrow> json \<Rightarrow> bool" where
  "reads_text t v \<longleftrightarrow> (\<forall>c sl p x. inside c p \<longrightarrow> valueSlot p = Some sl \<longrightarrow> x \<in> closers \<longrightarrow>
     (\<exists>q. inside (setSlot sl v c) q \<and> same_outside p q \<and> fold read_unit (t @ [x]) p = structural x q))"

abbreviation value_text :: "json \<Rightarrow> bool" where
  "value_text v \<equiv> reads_text (stringify v) v"

lemma reads_textD: "reads_text t v \<Longrightarrow> inside c p \<Longrightarrow> valueSlot p = Some sl \<Longrightarrow> x \<in> closers \<Longrightarrow>
    \<exists>q. inside (setSlot sl v c) q \<and> same_outside p q \<and> fold read_unit (t @ [x]) p = structural x q"
  unfolding reads_text_def by blast

lemma structural_unit: "inside c p \<Longrightarrow> read_unit x p = structural x p"
  by (simp add: inside_def read_unit_def)

lemma token_units:
  assumes "\<forall>u \<in> set t. \<not> isDelimiter u" "\<not> jp_done p" "jp_string p = None" "jp_scalar p \<noteq> []"
  shows "\<exists>d. fold read_unit t p = p\<lparr>jp_scalar := jp_scalar p @ t, jp_dirty := d\<rparr>"
  using assms
proof (induction t arbitrary: p)
  case Nil
  have "p = p\<lparr>jp_scalar := jp_scalar p, jp_dirty := jp_dirty p\<rparr>" by simp
  then show ?case by (intro exI [of _ "jp_dirty p"]) simp
next
  case (Cons u t)
  let ?p1 = "p\<lparr>jp_scalar := jp_scalar p @ [u], jp_dirty := jp_dirty p \<or> jp_scalarSlot p \<noteq> None\<rparr>"
  have r: "read_unit u p = ?p1" using Cons.prems by (simp add: read_unit_def)
  have "\<exists>d. fold read_unit t ?p1 = ?p1\<lparr>jp_scalar := jp_scalar ?p1 @ t, jp_dirty := d\<rparr>" using Cons.prems by (intro Cons.IH) simp_all
  then obtain d where "fold read_unit t ?p1 = ?p1\<lparr>jp_scalar := jp_scalar ?p1 @ t, jp_dirty := d\<rparr>" by blast
  then show ?case using r by (intro exI [of _ d]) simp
qed

lemma structural_default: "\<not> isDelimiter u \<Longrightarrow>
    structural u p = p\<lparr>jp_scalar := [u], jp_scalarSlot := valueSlot p, jp_dirty := jp_dirty p \<or> valueSlot p \<noteq> None\<rparr>"
  by (simp add: structural_def isDelimiter_def)

lemma scalar_text:
  assumes "t \<noteq> []" "\<forall>u \<in> set t. \<not> isDelimiter u" "scalarValue t = Some v"
  shows "reads_text t v"
  unfolding reads_text_def
proof (intro allI impI)
  fix c sl p x
  assume p: "inside c p" "valueSlot p = Some sl" "x \<in> closers"
  obtain u us where t: "t = u # us" using assms(1) by (cases t) auto
  let ?p0 = "p\<lparr>jp_scalar := [u], jp_scalarSlot := valueSlot p, jp_dirty := jp_dirty p \<or> valueSlot p \<noteq> None\<rparr>"
  have "read_unit u p = ?p0" using structural_unit [OF p(1)] structural_default assms(2) t by simp
  moreover obtain d where "fold read_unit us ?p0 = ?p0\<lparr>jp_scalar := jp_scalar ?p0 @ us, jp_dirty := d\<rparr>"
    using token_units [of us ?p0] assms(2) t p(1) by (auto simp: inside_def)
  ultimately have d: "fold read_unit t p = p\<lparr>jp_scalar := t, jp_scalarSlot := Some sl, jp_dirty := d\<rparr>" using t p(2) by simp
  let ?p1 = "p\<lparr>jp_scalar := t, jp_scalarSlot := Some sl, jp_dirty := d\<rparr>"
  let ?p2 = "p\<lparr>jp_dirty := d, jp_scalar := [], jp_scalarSlot := None\<rparr>"
  have i2: "inside c ?p2" "same_outside p ?p2" using p(1) by (simp_all add: inside_def same_outside_def)
  have e: "endScalar ?p1 = valueEnded (report_at (reportedPath (Some sl) (place (Some sl) v ?p2)) v (place (Some sl) v ?p2))"
    using assms(3) by (simp add: endScalar_def Let_def)
  let ?p3 = "place (Some sl) v ?p2"
  have "inside (setSlot sl v c) ?p3" "same_outside p ?p3"
    using inside_place [OF i2(1) value_slot_inner [OF p(1,2)], of v] outside_trans [OF i2(2)] by blast+
  then have q: "inside (setSlot sl v c) (endScalar ?p1)" "same_outside p (endScalar ?p1)"
    unfolding e using ended_report by blast+
  have "read_unit x ?p1 = structural x (endScalar ?p1)"
    using p(1,3) q(1) assms(1) by (auto simp: read_unit_def isDelimiter_def inside_def Let_def)
  with q d show "\<exists>q. inside (setSlot sl v c) q \<and> same_outside p q \<and> fold read_unit (t @ [x]) p = structural x q"
    by auto
qed

lemma append_inside:
  assumes "inside c (p\<lparr>jp_string := None\<rparr>)" "\<not> os_isKey str" "os_slot str = Some sl" "sl \<noteq> RootSlot"
  shows "inside (setSlot sl (JStr (os_text str @ t)) c) ((appendString str t p)\<lparr>jp_string := None\<rparr>)" "same_outside p (appendString str t p)"
proof -
  have "inside (setSlot sl (JStr (os_text str @ t)) c) (place (Some sl) (JStr (os_text str @ t)) (p\<lparr>jp_string := None\<rparr>))"
    "same_outside (p\<lparr>jp_string := None\<rparr>) (place (Some sl) (JStr (os_text str @ t)) (p\<lparr>jp_string := None\<rparr>))"
    using inside_place [OF assms(1,4)] by blast+
  then show "inside (setSlot sl (JStr (os_text str @ t)) c) ((appendString str t p)\<lparr>jp_string := None\<rparr>)" "same_outside p (appendString str t p)"
    using assms(2,3) by (auto simp: appendString_def Let_def report_def inside_def same_outside_def split: option.splits)
qed

lemma string_text:
  assumes "spells u s"
  shows "reads_text ([QUOTE] @ u @ [QUOTE]) (JStr s)"
  unfolding reads_text_def
proof (intro allI impI)
  fix c sl p x
  assume p: "inside c p" "valueSlot p = Some sl" "x \<in> closers"
  note sl = value_slot_inner [OF p(1,2)]
  define str where "str = \<lparr>os_isKey = False, os_slot = Some sl, os_text = [], os_escape = [], os_path = reportedPath (Some sl) p,
    os_change = (if reportedPath (Some sl) p = None then None else Some (length (jp_changes p)))\<rparr>"
  define p1 where "p1 = (report_at (reportedPath (Some sl) p) (JStr []) (place (Some sl) (JStr []) p))\<lparr>jp_string := Some str\<rparr>"
  have "\<not> (case jp_stack p of f # fs \<Rightarrow> \<not> is_array f \<and> (jf_phase f = KeyPhase \<or> jf_phase f = CommaPhase) | [] \<Rightarrow> False)"
    using p(1,2) by (auto simp: inside_def valueSlot_def is_array_def split: list.splits container.splits if_splits)
  then have start: "read_unit QUOTE p = p1"
    using structural_unit [OF p(1)] p(2) by (simp add: structural_def startString_def start_value_def Let_def p1_def str_def)
  have placed: "inside (setSlot sl (JStr []) c) (place (Some sl) (JStr []) p)" "same_outside p (place (Some sl) (JStr []) p)"
    using inside_place [OF p(1) sl] by blast+
  then have p1: "opens str p1" "inside (setSlot sl (JStr []) c) (p1\<lparr>jp_string := None\<rparr>)" "same_outside p p1"
    by (simp_all add: p1_def opens_def str_def) (auto simp: inside_def)
  define q where "q = flush_run s p1"
  have q: "inside (setSlot sl (JStr s) c) (q\<lparr>jp_string := None\<rparr>)" "same_outside p q"
    using p1 append_inside [OF p1(2) _ _ sl, of str s] outside_trans [of p p1] by (auto simp: q_def str_def flush_run_def opens_def)
  have "\<exists>o1. jp_string q = Some o1 \<and> \<not> os_isKey o1"
    using p1(1) appendString_opens [of str s p1] by (auto simp: q_def flush_run_def opens_def str_def)
  then have e: "fold read_unit ([QUOTE] @ u @ [QUOTE]) p = valueEnded (q\<lparr>jp_string := None\<rparr>)"
    using quoted_body [OF p1(1) assms] start by (auto simp: q_def close_string_def endString_def Let_def)
  have r: "inside (setSlot sl (JStr s) c) (valueEnded (q\<lparr>jp_string := None\<rparr>))" "same_outside p (valueEnded (q\<lparr>jp_string := None\<rparr>))"
    using inside_ended [OF q(1)] q(2) outside_trans [of p "q\<lparr>jp_string := None\<rparr>"] by simp_all
  then show "\<exists>q. inside (setSlot sl (JStr s) c) q \<and> same_outside p q \<and> fold read_unit (([QUOTE] @ u @ [QUOTE]) @ [x]) p = structural x q"
    using e structural_unit [OF r(1)] by (intro exI [of _ "valueEnded (q\<lparr>jp_string := None\<rparr>)"]) simp
qed

section \<open>Numbers and literals\<close>

abbreviation number_unit :: "unit16 \<Rightarrow> bool" where
  "number_unit u \<equiv> is_digit u \<or> u \<in> {43, 45, 46, 69, 101}"

lemma number_unit_plain: "number_unit u \<Longrightarrow> \<not> isDelimiter u"
  by (auto simp: isDelimiter_def)

lemma digits_split: "\<exists>a. t = a @ dropWhile is_digit t \<and> (\<forall>u \<in> set a. number_unit u)"
  by (intro exI [of _ "takeWhile is_digit t"]) (auto dest: set_takeWhileD)

lemma integer_split: "number_integer t = Some r \<Longrightarrow> \<exists>a. t = a @ r \<and> a \<noteq> [] \<and> (\<forall>u \<in> set a. number_unit u)"
proof -
  assume r: "number_integer t = Some r"
  define m where "m = (case t of c # cs \<Rightarrow> if c = 45 then cs else t | [] \<Rightarrow> t)"
  have m: "\<exists>a. t = a @ m \<and> (\<forall>u \<in> set a. number_unit u)"
    by (cases t) (auto simp: m_def intro: exI [of _ "[]"] exI [of _ "[45]"])
  obtain c cs where c: "m = c # cs" and k: "c = 48 \<and> r = cs \<or> 49 \<le> c \<and> c \<le> 57 \<and> r = dropWhile is_digit cs"
    using r unfolding number_integer_def m_def [symmetric] by (cases m) (auto split: if_splits)
  have u: "number_unit c" using k order_trans [of "48 :: unit16" 49 c] by auto
  obtain b where b: "cs = b @ r" "\<forall>u \<in> set b. number_unit u" using k digits_split [of cs] by auto
  obtain a where a: "t = a @ m" "\<forall>u \<in> set a. number_unit u" using m by blast
  show ?thesis using a b c u by (intro exI [of _ "a @ c # b"]) (simp add: ball_Un)
qed

lemma fraction_split: "\<exists>a. t = a @ number_fraction t \<and> (\<forall>u \<in> set a. number_unit u)"
proof (cases "\<exists>d ds. t = 46 # d # ds \<and> is_digit d")
  case True
  then obtain d ds where t: "t = 46 # d # ds" "is_digit d" by blast
  obtain b where "ds = b @ dropWhile is_digit ds" "\<forall>u \<in> set b. number_unit u" using digits_split by blast
  then show ?thesis using t by (intro exI [of _ "46 # d # b"]) (auto simp: number_fraction_def)
next
  case False
  then have "number_fraction t = t" by (auto simp: number_fraction_def split: list.splits)
  then show ?thesis by simp
qed

lemma exponent_units: "number_exponent t = [] \<Longrightarrow> u \<in> set t \<Longrightarrow> number_unit u"
proof -
  assume e: "number_exponent t = []" "u \<in> set t"
  then obtain c cs where t: "t = c # cs" by (cases t) auto
  define ds where "ds = (case cs of s # ds \<Rightarrow> if is_sign s then ds else cs | [] \<Rightarrow> cs)"
  obtain d es where d: "is_exponent c" "ds = d # es" "is_digit d" "dropWhile is_digit es = []"
    using e(1) t by (auto simp: number_exponent_def ds_def [symmetric] split: if_splits list.splits)
  have "\<forall>x \<in> set es. is_digit x" using d(4) by (auto simp: dropWhile_eq_Nil_conv)
  moreover have "set cs \<subseteq> {43, 45} \<union> set ds" by (auto simp: ds_def split: list.splits)
  ultimately show ?thesis using e(2) t d by auto
qed

lemma number_units: "is_number t \<Longrightarrow> t \<noteq> [] \<and> (\<forall>u \<in> set t. number_unit u)"
proof -
  assume "is_number t"
  then obtain r where r: "number_integer t = Some r" "number_exponent (number_fraction r) = []"
    by (auto simp: is_number_def split: option.splits)
  obtain a b where "t = a @ r" "a \<noteq> []" "\<forall>u \<in> set a. number_unit u" "r = b @ number_fraction r" "\<forall>u \<in> set b. number_unit u"
    using integer_split [OF r(1)] fraction_split [of r] by blast
  moreover from this have "set t = set a \<union> set b \<union> set (number_fraction r)" by (metis set_append sup_assoc)
  ultimately show ?thesis using exponent_units [OF r(2)] by blast
qed

lemma number_text: "is_number t \<Longrightarrow> value_text (JNum t)"
proof -
  assume n: "is_number t"
  have "\<not> is_number (js ''true'')" "\<not> is_number (js ''false'')" "\<not> is_number (js ''null'')" by code_simp+
  then have "map_of LITERALS t = None" using n by (auto simp: LITERALS_def)
  then show ?thesis using n number_units [OF n] number_unit_plain using scalar_text [of t "JNum t"] by (auto simp: scalarValue_def)
qed

lemma literal_texts: "value_text JNull" "value_text (JBool b)"
proof -
  have "\<forall>u \<in> set (js ''null'' @ js ''true'' @ js ''false''). \<not> isDelimiter u" by code_simp
  moreover have "scalarValue (js ''null'') = Some JNull" "scalarValue (js ''true'') = Some (JBool True)"
    "scalarValue (js ''false'') = Some (JBool False)" by code_simp+
  moreover have "js ''null'' \<noteq> []" "js ''true'' \<noteq> []" "js ''false'' \<noteq> []" by (simp_all add: js_def)
  ultimately show "value_text JNull" "value_text (JBool b)"
    by (auto intro!: scalar_text split: if_splits)
qed

section \<open>Containers\<close>

lemma js_units: "js '','' = [44]" "js ''['' = [91]" "js '']'' = [93]" "js ''{'' = [123]" "js ''}'' = [125]" "js '':'' = [58]"
  by (simp_all add: js_def)

text \<open>Opening a container where a value is due, and closing it with its content.\<close>

lemma open_inside:
  assumes "d = Members [] \<or> d = Elements []" "\<not> jp_done p" "jp_string p = None" "jp_scalar p = []"
  shows "inside d (openContainer d p)"
  using assms by (auto simp: openContainer_def Let_def inside_def)

lemma nested:
  assumes "inside c p" "valueSlot p = Some sl" "inside d' q" "same_outside (openContainer d p) q"
  shows "inside (setSlot sl (container_json d') c) (closeContainer q) \<and> same_outside p (closeContainer q)"
proof -
  obtain f fs where f: "jp_stack p = f # fs" "jf_container f = c" using assms(1) by (auto simp: inside_def)
  note sl = value_slot_inner [OF assms(1,2)]
  have o: "tl (jp_stack (openContainer d p)) = with_slot sl (container_json d) f # fs"
    "jf_slot (hd (jp_stack (openContainer d p))) = Some sl" "jp_root (openContainer d p) = jp_root p"
    using place_inner [OF sl f(1)] assms(2) by (simp_all add: openContainer_def Let_def)
  obtain h where h: "jp_stack q = h # with_slot sl (container_json d) f # fs" "jf_container h = d'" "jf_slot h = Some sl" "jp_root q = jp_root p"
    using assms(3,4) o by (auto simp: inside_def same_outside_def)
  let ?q0 = "settle_child h (q\<lparr>jp_stack := tl (jp_stack q), jp_pathCost := jp_pathCost q - (jf_size h + 1), jp_dirty := True\<rparr>)"
  have "inside (setSlot sl (container_json d') c) ?q0 \<and> same_outside p ?q0"
    using h f sl assms(3) by (cases sl) (auto simp: settle_child_def set_top_def inside_def same_outside_def)
  then have i: "inside (setSlot sl (container_json d') c) ?q0" "same_outside p ?q0" by simp_all
  show ?thesis
  proof (cases "jf_reportsInside h")
    case True
    then show ?thesis using h inside_ended [OF i(1)] outside_trans [OF i(2)] by (simp add: closeContainer_def Let_def)
  next
    case False
    then show ?thesis using h ended_report [OF i] by (simp add: closeContainer_def Let_def)
  qed
qed

lemma inside_unit: "inside c p \<Longrightarrow> fold read_unit (x # ys) p = fold read_unit ys (structural x p)"
  using structural_unit by simp

lemma comma_inside: "inside c p \<Longrightarrow> inside c (structural 44 p) \<and> same_outside p (structural 44 p)"
  using inside_top [of c p] by (simp add: structural_def)

lemma element_slot: "inside (Elements vs) p \<Longrightarrow> valueSlot p = Some (ElementSlot (length vs))"
  by (auto simp: inside_def valueSlot_def)

lemma join_step: "vs \<noteq> [] \<Longrightarrow> join [44] (map h (v # vs)) @ [e] = (h v @ [44]) @ (join [44] (map h vs) @ [e])"
  by (simp add: join_Cons_ne)

lemma read_step: "fold read_unit a p = p1 \<Longrightarrow> fold read_unit b p1 = p2 \<Longrightarrow> fold read_unit (a @ b) p = p2"
  by simp

lemma elements_text:
  assumes "\<forall>v \<in> set vs. value_text v" "inside (Elements us) p"
  shows "\<exists>q. inside (Elements (us @ vs)) q \<and> same_outside p q \<and> fold read_unit (join [44] (map stringify vs) @ [93]) p = closeContainer q"
  using assms
proof (induction vs arbitrary: us p)
  case Nil
  then show ?case using structural_unit [OF Nil(2), of 93] by (intro exI [of _ p]) (simp add: structural_def same_outside_def)
next
  case (Cons v vs)
  let ?x = "if vs = [] then 93 else 44 :: unit16"
  have x: "?x \<in> closers" by simp
  obtain q where q: "inside (Elements (us @ [v])) q" "same_outside p q" "fold read_unit (stringify v @ [?x]) p = structural ?x q"
    using reads_textD [OF _ Cons.prems(2) element_slot [OF Cons.prems(2)] x, of "stringify v" v] Cons.prems(1) by auto
  show ?case
  proof (cases "vs = []")
    case True
    then show ?thesis using q by (auto simp: structural_def)
  next
    case False
    obtain r where r: "inside (Elements ((us @ [v]) @ vs)) r" "same_outside (structural 44 q) r"
      "fold read_unit (join [44] (map stringify vs) @ [93]) (structural 44 q) = closeContainer r"
      using Cons.IH [of "us @ [v]" "structural 44 q"] Cons.prems(1) comma_inside [OF q(1)] by auto
    have "same_outside p r" using comma_inside [OF q(1)] outside_trans [OF outside_trans [OF q(2)] r(2)] by blast
    moreover have "fold read_unit (join [44] (map stringify (v # vs)) @ [93]) p = closeContainer r"
      unfolding join_step [OF False] by (rule read_step [OF _ r(3)]) (use q(3) False in simp)
    ultimately show ?thesis using r(1) by auto
  qed
qed

text \<open>The key of a member is due.\<close>

definition key_due :: "json_parser \<Rightarrow> bool" where
  "key_due p \<longleftrightarrow> (case jp_stack p of f # fs \<Rightarrow> \<not> is_array f \<and> (jf_phase f = KeyPhase \<or> jf_phase f = CommaPhase) | [] \<Rightarrow> False)"

abbreviation keyed :: "jstr \<Rightarrow> json_parser \<Rightarrow> json_parser" where
  "keyed k p \<equiv> set_top (\<lambda>f. f\<lparr>jf_key := Some k, jf_phase := ColonPhase\<rparr>) p"

lemma key_read:
  assumes "inside (Members m) p" "key_due p" "spells u k"
  shows "fold read_unit ([QUOTE] @ u @ [QUOTE]) p = keyed k p"
proof -
  define str where "str = \<lparr>os_isKey = True, os_slot = None, os_text = [], os_escape = [], os_path = None, os_change = None\<rparr>"
  let ?p1 = "p\<lparr>jp_string := Some str\<rparr>"
  have start: "read_unit QUOTE p = ?p1"
    using structural_unit [OF assms(1)] assms(2) by (simp add: structural_def startString_def key_due_def str_def)
  have o: "opens str ?p1" using assms(1) by (simp add: opens_def str_def inside_def)
  have "jp_string p = None" using assms(1) by (simp add: inside_def)
  then have same: "p\<lparr>jp_string := None\<rparr> = p" by simp
  have "close_string (flush_run k ?p1) = keyed k (p\<lparr>jp_string := None\<rparr>)"
    by (simp add: flush_run_def appendString_def str_def close_string_def endString_def Let_def)
  then show ?thesis using start quoted_body [OF o assms(3)] same by simp
qed

lemma key_colon:
  assumes "inside (Members m) p"
  shows "inside (Members m) (keyed k p)" "inside (Members m) (structural 58 (keyed k p))" "same_outside p (structural 58 (keyed k p))"
    "valueSlot (structural 58 (keyed k p)) = Some (MemberSlot k)"
  using assms by (auto simp: inside_def same_outside_def valueSlot_def structural_def set_top_def is_array_def)

lemma key_text:
  assumes "inside (Members m) p" "key_due p"
  shows "\<exists>q. inside (Members m) q \<and> same_outside p q \<and> valueSlot q = Some (MemberSlot k) \<and> fold read_unit (json_quote k @ [58]) p = q"
  using key_read [OF assms spells_printed, of k] key_colon [OF assms(1), of k] structural_unit [OF key_colon(1) [OF assms(1)], of 58 k]
  by (simp add: json_quote_def)

lemma comma_key: "inside (Members m) p \<Longrightarrow> key_due (structural 44 p)"
  by (auto simp: inside_def key_due_def structural_def set_top_def is_array_def)

abbreviation member_text :: "jstr \<times> json \<Rightarrow> jstr" where
  "member_text kv \<equiv> json_quote (fst kv) @ [58] @ stringify (snd kv)"

lemma members_text:
  assumes "\<forall>kv \<in> set kvs. value_text (snd kv)" "distinct (map fst (m @ kvs))" "inside (Members m) p" "key_due p"
  shows "\<exists>q. inside (Members (m @ kvs)) q \<and> same_outside p q \<and> fold read_unit (join [44] (map member_text kvs) @ [125]) p = closeContainer q"
  using assms
proof (induction kvs arbitrary: m p)
  case Nil
  then show ?case using structural_unit [OF Nil(3), of 125] by (intro exI [of _ p]) (simp add: structural_def same_outside_def)
next
  case (Cons kv kvs)
  obtain k v where kv: "kv = (k, v)" by (cases kv)
  let ?x = "if kvs = [] then 125 else 44 :: unit16"
  have x: "?x \<in> closers" by simp
  obtain p1 where p1: "inside (Members m) p1" "same_outside p p1" "valueSlot p1 = Some (MemberSlot k)" "fold read_unit (json_quote k @ [58]) p = p1"
    using key_text [OF Cons.prems(3,4)] by blast
  obtain q where q: "inside (setSlot (MemberSlot k) v (Members m)) q" "same_outside p1 q" "fold read_unit (stringify v @ [?x]) p1 = structural ?x q"
    using reads_textD [OF _ p1(1,3) x, of "stringify v" v] Cons.prems(1) kv by auto
  have "k \<notin> set (map fst m)" using Cons.prems(2) kv by auto
  then have qi: "inside (Members (m @ [kv])) q" using q(1) omap_set_new [of k m v] kv by simp
  have qo: "same_outside p q" using outside_trans p1(2) q(2) by blast
  have t: "fold read_unit (member_text kv @ [?x]) p = structural ?x q" using p1(4) q(3) kv by simp
  show ?case
  proof (cases "kvs = []")
    case True
    then show ?thesis using qi qo t by (auto simp: structural_def)
  next
    case False
    obtain r where r: "inside (Members ((m @ [kv]) @ kvs)) r" "same_outside (structural 44 q) r"
      "fold read_unit (join [44] (map member_text kvs) @ [125]) (structural 44 q) = closeContainer r"
      using Cons.IH [of "m @ [kv]" "structural 44 q"] Cons.prems(1,2) comma_inside [OF qi] comma_key [OF qi] by auto
    have "same_outside p r" using comma_inside [OF qi] outside_trans [OF outside_trans [OF qo] r(2)] by blast
    moreover have "fold read_unit (join [44] (map member_text (kv # kvs)) @ [125]) p = closeContainer r"
      unfolding join_step [OF False] by (rule read_step [OF _ r(3)]) (use t False in simp)
    ultimately show ?thesis using r(1) by auto
  qed
qed

text \<open>JSON values: numbers are spelled as numbers, and no object has a member twice.\<close>

fun json_valid :: "json \<Rightarrow> bool" where
  "json_valid (JNum t) = is_number t"
| "json_valid (JArr vs) = (\<forall>v \<in> set vs. json_valid v)"
| "json_valid (JObj kvs) = (distinct (map fst kvs) \<and> (\<forall>kv \<in> set kvs. json_valid (snd kv)))"
| "json_valid _ = True"

fun content :: "json \<Rightarrow> container option" where
  "content (JArr vs) = Some (Elements vs)"
| "content (JObj kvs) = Some (Members kvs)"
| "content _ = None"

definition blank :: "container \<Rightarrow> container" where
  "blank c = (case c of Elements _ \<Rightarrow> Elements [] | Members _ \<Rightarrow> Members [])"

text \<open>A text of a container, read where a container can be opened.\<close>

definition reads_container :: "jstr \<Rightarrow> container \<Rightarrow> bool" where
  "reads_container t d \<longleftrightarrow> (\<forall>p. \<not> jp_done p \<and> jp_string p = None \<and> jp_scalar p = [] \<longrightarrow>
     (\<exists>q. inside d q \<and> same_outside (openContainer (blank d) p) q \<and> fold read_unit t p = closeContainer q))"

lemma blank_inside: "\<not> jp_done p \<Longrightarrow> jp_string p = None \<Longrightarrow> jp_scalar p = [] \<Longrightarrow> inside (blank d) (openContainer (blank d) p)"
  using open_inside [of "blank d"] by (auto simp: blank_def split: container.splits)

lemma blank_key: "key_due (openContainer (Members []) p)"
  by (simp add: openContainer_def key_due_def is_array_def Let_def)

lemma container_text:
  assumes "content v = Some d" "\<forall>kv \<in> set (case v of JArr vs \<Rightarrow> map (Pair []) vs | JObj kvs \<Rightarrow> kvs | _ \<Rightarrow> []). value_text (snd kv)" "json_valid v"
  shows "reads_container (stringify v) d"
  unfolding reads_container_def
proof (intro allI impI)
  fix p :: json_parser
  assume p: "\<not> jp_done p \<and> jp_string p = None \<and> jp_scalar p = []"
  have i: "inside (blank d) (openContainer (blank d) p)" using blank_inside p by blast
  have r: "read_unit x p = structural x p" for x using p by (simp add: read_unit_def)
  show "\<exists>q. inside d q \<and> same_outside (openContainer (blank d) p) q \<and> fold read_unit (stringify v) p = closeContainer q"
  proof (cases v)
    case (JArr vs)
    then show ?thesis
      using assms(1,2) i elements_text [of vs "[]" "openContainer (blank d) p"] r [of 91] by (auto simp: blank_def js_units structural_def)
  next
    case (JObj kvs)
    then show ?thesis
      using assms(1-3) i blank_key members_text [of kvs "[]" "openContainer (blank d) p"] r [of 123] by (auto simp: blank_def js_units structural_def)
  qed (use assms(1) in auto)
qed

lemma reads_nested:
  assumes "reads_container t d"
  shows "reads_text t (container_json d)"
  unfolding reads_text_def
proof (intro allI impI)
  fix c sl p x
  assume p: "inside c p" "valueSlot p = Some sl" "x \<in> closers"
  have "\<not> jp_done p \<and> jp_string p = None \<and> jp_scalar p = []" using p(1) by (simp add: inside_def)
  with assms obtain q where
    q: "inside d q" "same_outside (openContainer (blank d) p) q" "fold read_unit t p = closeContainer q" unfolding reads_container_def by blast
  have n: "inside (setSlot sl (container_json d) c) (closeContainer q)" "same_outside p (closeContainer q)" using nested [OF p(1,2) q(1,2)] by simp_all
  then show "\<exists>q. inside (setSlot sl (container_json d) c) q \<and> same_outside p q \<and> fold read_unit (t @ [x]) p = structural x q"
    using q(3) structural_unit [OF n(1), of x] by (intro exI [of _ "closeContainer q"]) simp
qed

lemma content_json: "content v = Some d \<Longrightarrow> container_json d = v"
  by (cases v) auto

lemma valid_text: "json_valid v \<Longrightarrow> value_text v"
proof (induction v rule: stringify.induct)
  case (5 vs)
  then have "\<forall>kv \<in> set (map (Pair ([] :: jstr)) vs). value_text (snd kv)" by auto
  with container_text [of "JArr vs"] reads_nested 5 show ?case by fastforce
next
  case (6 kvs)
  then show ?case using container_text [of "JObj kvs"] reads_nested by fastforce
next
  case (4 s)
  then show ?case using string_text [OF spells_printed, of s] by (simp add: json_quote_def)
qed (use number_text literal_texts in auto)

section \<open>The whole text\<close>

lemma root_text:
  assumes "reads_container t d"
  shows "\<exists>q. fold read_unit t new_parser = q \<and> jp_done q \<and> jp_stack q = [] \<and> jp_root q = Some (container_json d) \<and> jp_scalar q = []"
proof -
  have new: "\<not> jp_done new_parser" "jp_string new_parser = None" "jp_scalar new_parser = []" "valueSlot new_parser = Some RootSlot" "jp_stack new_parser = []"
    by (simp_all add: new_parser_def valueSlot_def)
  obtain q where q: "inside d q" "same_outside (openContainer (blank d) new_parser) q" "fold read_unit t new_parser = closeContainer q"
    using assms new unfolding reads_container_def by blast
  obtain h where "jp_stack q = [h]" "jf_slot h = Some RootSlot" "jf_container h = d"
    using q(1,2) new(4,5) by (auto simp: inside_def same_outside_def openContainer_def Let_def)
  then show ?thesis
    using q(1,3) by (simp add: closeContainer_def settle_child_def valueEnded_def inside_def Let_def)
qed

lemma valid_container: "content v = Some d \<Longrightarrow> json_valid v \<Longrightarrow> reads_container (stringify v) d"
proof -
  assume v: "content v = Some d" "json_valid v"
  then have "\<forall>kv \<in> set (case v of JArr vs \<Rightarrow> map (Pair []) vs | JObj kvs \<Rightarrow> kvs | _ \<Rightarrow> []). value_text (snd kv)"
    using valid_text by (cases v) auto
  with container_text v show ?thesis by blast
qed

lemma stream_feeds: "snd (stream ts p) = fold feed ts p"
  by (induction ts arbitrary: p) (simp_all add: Let_def case_prod_beta)

text \<open>Once the text of a container is read, whatever follows it, the parser is finished with its value.\<close>

lemma container_streams:
  assumes "reads_container t d" "concat ts = t @ rest"
  shows "jp_done (fold feed ts new_parser)" "jp_stack (fold feed ts new_parser) = []" "jp_root (fold feed ts new_parser) = Some (container_json d)"
    "current_value (fold feed ts new_parser) = Some (container_json d)"
proof -
  let ?p = "fold feed ts new_parser"
  obtain q where q: "fold read_unit t new_parser = q" "jp_done q" "jp_stack q = []" "jp_root q = Some (container_json d)" "jp_scalar q = []"
    using root_text assms(1) by blast
  have "same_text ?p q" using feeds_units [of ts new_parser] q(1) read_done [OF q(2), of rest] assms(2) by simp
  then show p: "jp_done ?p" "jp_stack ?p = []" "jp_root ?p = Some (container_json d)" using q by (simp_all add: same_text_def)
  have "jp_scalar ?p = []" using \<open>same_text ?p q\<close> q(5) by (simp add: same_text_def)
  then show "current_value ?p = Some (container_json d)" using p by (simp add: current_value_def copyOpenPath_def no_pending)
qed

text \<open>
  C36. The parser reads back what \<open>JSON.stringify\<close> prints. However the text of an object or array is cut into pieces, and
  whatever text follows it, the parser is finished, shows exactly that value, and the changes it reported build exactly
  that value, however deep it is nested.
\<close>

theorem stringify_streams:
  assumes "content v \<noteq> None" "json_valid v" "concat ts = stringify v @ rest"
  shows "jp_done (fold feed ts new_parser) \<and> current_value (fold feed ts new_parser) = Some v \<and>
    apply_changes (fst (stream ts new_parser)) None = Some v"
proof -
  let ?p = "fold feed ts new_parser"
  obtain d where d: "content v = Some d" using assms(1) by blast
  note p = container_streams [OF valid_container [OF d assms(2)] assms(3), unfolded content_json [OF d]]
  have "apply_changes (fst (stream ts new_parser)) None = reported_value ?p"
    using stream_ok [OF new_ok, of ts "fst (stream ts new_parser)" ?p] stream_feeds [of ts new_parser]
    by (simp add: new_parser_def shown_def reporting_def) (metis prod.collapse)
  then show ?thesis using p by (simp add: shown_def reporting_def)
qed

definition demo_value :: json where
  "demo_value = JObj [(js ''a'', JArr [JNum (js ''-1.5e3''), JStr [34, 10], JNull]), (js ''b'', JObj [])]"

theorem stringify_streams_witness:
  "current_value (fold feed [take 5 (stringify demo_value), drop 5 (stringify demo_value)] new_parser) = Some demo_value"
proof -
  have "is_number (js ''-1.5e3'')" by code_simp
  then have "json_valid demo_value" by (simp add: demo_value_def js_def)
  moreover have "content demo_value \<noteq> None" by (simp add: demo_value_def)
  moreover have "concat [take 5 (stringify demo_value), drop 5 (stringify demo_value)] = stringify demo_value @ []" by simp
  ultimately show ?thesis using stringify_streams by blast
qed

end
