(* ===== verification/Json_Parse.thy ===== *)
theory Json_Parse
  imports Streaming_Json
begin

text \<open>
  The final parse of tool call arguments (packages/ai/src/utils/json-parse.ts): \<open>JSON.parse\<close>, the repair of malformed
  string literals, and the functions built on both. The message of a syntax error is an argument, as it depends on the
  engine; so is the parser of the package partial-json.
\<close>

section \<open>\<open>JSON.parse\<close>\<close>

abbreviation json_space :: "unit16 \<Rightarrow> bool" where
  "json_space c \<equiv> c = 32 \<or> c = 9 \<or> c = 10 \<or> c = 13"

definition skip_space :: "jstr \<Rightarrow> jstr" where
  "skip_space t = dropWhile json_space t"

definition hex4 :: "jstr \<Rightarrow> bool" where
  "hex4 ds \<longleftrightarrow> length ds = 4 \<and> list_all isHexDigit ds"

text \<open>The content of a string literal behind its opening quote, and what follows the literal.\<close>

fun parse_chars :: "jstr \<Rightarrow> (jstr \<times> jstr) option" where
  "parse_chars [] = None"
| "parse_chars (c # cs) =
     (if c = QUOTE then Some ([], cs)
      else if c = BACKSLASH
      then (case cs of
              [] \<Rightarrow> None
            | e # es \<Rightarrow>
                (case map_of SIMPLE_ESCAPES e of
                   Some d \<Rightarrow> map_option (apfst (Cons d)) (parse_chars es)
                 | None \<Rightarrow>
                     if e = 117 \<and> hex4 (take 4 es)
                     then map_option (apfst (Cons (of_nat (hex_value (take 4 es))))) (parse_chars (drop 4 es))
                     else None))
      else if c < 32 then None
      else map_option (apfst (Cons c)) (parse_chars cs))"

text \<open>
  A number or literal ends at a delimiter: anything else behind it is a syntax error. The first argument bounds the depth
  of the recursion; twice the length of the text is enough (\<open>parse_fuel\<close>). A repeated member replaces the earlier one.
\<close>

fun parse_value :: "nat \<Rightarrow> jstr \<Rightarrow> (json \<times> jstr) option"
and parse_elements :: "nat \<Rightarrow> json list \<Rightarrow> jstr \<Rightarrow> (json \<times> jstr) option"
and parse_members :: "nat \<Rightarrow> (jstr, json) omap \<Rightarrow> jstr \<Rightarrow> (json \<times> jstr) option" where
  "parse_value 0 t = None"
| "parse_value (Suc n) t =
     (case skip_space t of
        [] \<Rightarrow> None
      | c # cs \<Rightarrow>
          if c = 91
          then (case skip_space cs of [] \<Rightarrow> None | d # ds \<Rightarrow> if d = 93 then Some (JArr [], ds) else parse_elements n [] cs)
          else if c = 123
          then (case skip_space cs of [] \<Rightarrow> None | d # ds \<Rightarrow> if d = 125 then Some (JObj [], ds) else parse_members n [] cs)
          else if c = QUOTE then map_option (apfst JStr) (parse_chars cs)
          else map_option (\<lambda>v. (v, dropWhile (\<lambda>u. \<not> isDelimiter u) (c # cs))) (scalarValue (takeWhile (\<lambda>u. \<not> isDelimiter u) (c # cs))))"
| "parse_elements 0 vs t = None"
| "parse_elements (Suc n) vs t =
     (case parse_value n t of
        None \<Rightarrow> None
      | Some (v, r) \<Rightarrow>
          (case skip_space r of
             [] \<Rightarrow> None
           | d # ds \<Rightarrow> if d = 44 then parse_elements n (vs @ [v]) ds else if d = 93 then Some (JArr (vs @ [v]), ds) else None))"
| "parse_members 0 m t = None"
| "parse_members (Suc n) m t =
     (case skip_space t of
        [] \<Rightarrow> None
      | q # cs \<Rightarrow>
          if q \<noteq> QUOTE then None
          else (case parse_chars cs of
                  None \<Rightarrow> None
                | Some (k, r) \<Rightarrow>
                    (case skip_space r of
                       [] \<Rightarrow> None
                     | d # ds \<Rightarrow>
                         if d \<noteq> 58 then None
                         else (case parse_value n ds of
                                 None \<Rightarrow> None
                               | Some (v, r2) \<Rightarrow>
                                   (case skip_space r2 of
                                      [] \<Rightarrow> None
                                    | e # es \<Rightarrow>
                                        if e = 44 then parse_members n (omap_set k v m) es
                                        else if e = 125 then Some (JObj (omap_set k v m), es) else None)))))"

definition JSON_parse :: "jstr \<Rightarrow> json option" where
  "JSON_parse t = (case parse_value (Suc (2 * length t)) t of Some (v, r) \<Rightarrow> if skip_space r = [] then Some v else None | None \<Rightarrow> None)"

section \<open>Repair\<close>

definition escapeControlCharacter :: "unit16 \<Rightarrow> jstr" where
  "escapeControlCharacter c =
     (if c = 8 then [BACKSLASH, 98] else if c = 12 then [BACKSLASH, 102] else if c = 10 then [BACKSLASH, 110]
      else if c = 13 then [BACKSLASH, 114] else if c = 9 then [BACKSLASH, 116] else unicode_escape c)"

definition VALID_JSON_ESCAPES :: "unit16 list" where
  "VALID_JSON_ESCAPES = [34, 92, 47, 98, 102, 110, 114, 116]"

fun repair :: "bool \<Rightarrow> jstr \<Rightarrow> jstr" where
  "repair inString [] = []"
| "repair inString (c # cs) =
     (if \<not> inString then c # repair (c = QUOTE) cs
      else if c = QUOTE then c # repair False cs
      else if c = BACKSLASH
      then (case cs of
              [] \<Rightarrow> [BACKSLASH, BACKSLASH]
            | n # ns \<Rightarrow>
                if n = 117 \<and> hex4 (take 4 ns) then [BACKSLASH, 117] @ take 4 ns @ repair True (drop 4 ns)
                else if n \<in> set VALID_JSON_ESCAPES then [BACKSLASH, n] @ repair True ns
                else [BACKSLASH, BACKSLASH] @ repair True cs)
      else (if c \<le> 31 then escapeControlCharacter c else [c]) @ repair True cs)"

definition repairJson :: "jstr \<Rightarrow> jstr" where
  "repairJson json = repair False json"

definition parse_or_throw :: "(jstr \<Rightarrow> jstr) \<Rightarrow> jstr \<Rightarrow> jstr + json" where
  "parse_or_throw message t = (case JSON_parse t of None \<Rightarrow> Inl (message t) | Some v \<Rightarrow> Inr v)"

definition parseJsonWithRepair :: "(jstr \<Rightarrow> jstr) \<Rightarrow> jstr \<Rightarrow> jstr + json" where
  "parseJsonWithRepair message json =
     (case parse_or_throw message json of
        Inr v \<Rightarrow> Inr v
      | Inl error \<Rightarrow> (let repairedJson = repairJson json in if repairedJson \<noteq> json then parse_or_throw message repairedJson else Inl error))"

section \<open>Arguments\<close>

record parsed_arguments =
  pa_arguments :: "(jstr, json) omap"
  pa_argumentsError :: "jstr option"

definition no_object :: jstr where
  "no_object = js ''Tool arguments must be a JSON object''"

definition arguments_error :: "jstr \<Rightarrow> jstr \<Rightarrow> parsed_arguments" where
  "arguments_error message json =
     \<lparr>pa_arguments = [], pa_argumentsError = Some (message @ [NL, NL] @ js ''Received arguments:'' @ [NL] @ json)\<rparr>"

definition parseToolCallArguments :: "(jstr \<Rightarrow> jstr) \<Rightarrow> jstr option \<Rightarrow> parsed_arguments" where
  "parseToolCallArguments message text =
     (case text of
        None \<Rightarrow> \<lparr>pa_arguments = [], pa_argumentsError = None\<rparr>
      | Some json \<Rightarrow>
          if trim json = [] then \<lparr>pa_arguments = [], pa_argumentsError = None\<rparr>
          else (case parseJsonWithRepair message json of
                  Inl error \<Rightarrow> arguments_error error json
                | Inr (JObj m) \<Rightarrow> \<lparr>pa_arguments = m, pa_argumentsError = None\<rparr>
                | Inr _ \<Rightarrow> arguments_error no_object json))"

definition or_empty :: "json option \<Rightarrow> json" where
  "or_empty v = (case v of None \<Rightarrow> JObj [] | Some JNull \<Rightarrow> JObj [] | Some w \<Rightarrow> w)"

definition parseStreamingJson :: "(jstr \<Rightarrow> jstr) \<Rightarrow> (jstr \<Rightarrow> unit + json option) \<Rightarrow> jstr option \<Rightarrow> json" where
  "parseStreamingJson message partialParse text =
     (case text of
        None \<Rightarrow> JObj []
      | Some partialJson \<Rightarrow>
          if partialJson = [] \<or> trim partialJson = [] then JObj []
          else (case parseJsonWithRepair message partialJson of
                  Inr v \<Rightarrow> v
                | Inl _ \<Rightarrow>
                    (case partialParse partialJson of
                       Inr r \<Rightarrow> or_empty r
                     | Inl _ \<Rightarrow> (case partialParse (repairJson partialJson) of Inr r \<Rightarrow> or_empty r | Inl _ \<Rightarrow> JObj []))))"

section \<open>Enough depth\<close>

lemma skip_space_le: "length (skip_space t) \<le> length t"
  by (simp add: skip_space_def length_dropWhile_le)

lemma skip_space_Cons: "skip_space t = c # cs \<Longrightarrow> length cs < length t"
  using skip_space_le [of t] by simp

lemma parse_chars_rest: "parse_chars cs = Some (s, r) \<Longrightarrow> length r < length cs"
proof (induction cs arbitrary: s r rule: parse_chars.induct)
  case (2 c cs)
  then show ?case by (fastforce split: if_splits list.splits option.splits)
qed simp

lemma scalar_empty [simp]: "scalarValue [] = None"
  by (simp add: scalarValue_def LITERALS_def js_def is_number_def number_integer_def)

lemma token_rest:
  assumes "scalarValue (takeWhile P (c # cs)) = Some v"
  shows "length (dropWhile P (c # cs)) \<le> length cs"
  using assms by (cases "P c") (simp_all add: length_dropWhile_le)

lemma parse_rest:
  "parse_value n t = Some (v, r) \<Longrightarrow> length r < length t"
  "parse_elements n vs t = Some (v, r) \<Longrightarrow> length r < length t"
  "parse_members n m t = Some (v, r) \<Longrightarrow> length r < length t"
proof (induction n t and n vs t and n m t arbitrary: v r and v r and v r rule: parse_value_parse_elements_parse_members.induct)
  case (2 n t)
  then obtain c cs where c: "skip_space t = c # cs" by (auto split: list.splits)
  have "length r \<le> length cs"
    using 2 c token_rest [of "\<lambda>u. \<not> isDelimiter u" c cs]
    by (auto split: if_splits list.splits dest!: skip_space_Cons parse_chars_rest simp del: dropWhile.simps takeWhile.simps) (fastforce)+
  then show ?case using skip_space_Cons [OF c] by simp
next
  case (4 n vs t)
  then obtain v1 r1 d ds where "parse_value n t = Some (v1, r1)" "skip_space r1 = d # ds" "length r \<le> length ds"
    by (fastforce split: option.splits list.splits if_splits)
  then show ?case using 4(1) skip_space_Cons [of r1] by fastforce
next
  case (6 n m t)
  then obtain q cs k r1 d ds v1 r2 e es where "skip_space t = q # cs" "parse_chars cs = Some (k, r1)" "skip_space r1 = d # ds"
    "parse_value n ds = Some (v1, r2)" "skip_space r2 = e # es" "r = es \<or> parse_members n (omap_set k v1 m) es = Some (v, r)" "q = QUOTE" "d = 58"
    by (auto split: option.splits list.splits if_splits)
  moreover from this 6 have "length r2 < length ds" "r = es \<or> length r < length es" by (auto split: if_splits)
  ultimately show ?case by (auto dest!: skip_space_Cons parse_chars_rest)
qed simp_all

text \<open>More depth changes nothing.\<close>

lemma parse_fuel:
  "(2 * length t < n \<longrightarrow> parse_value (Suc n) t = parse_value n t) \<and> (2 * length t + 1 < n \<longrightarrow> parse_elements (Suc n) vs t = parse_elements n vs t) \<and>
   (2 * length t + 1 < n \<longrightarrow> parse_members (Suc n) m t = parse_members n m t)"
proof (induction n arbitrary: t vs m)
  case (Suc n)
  have v: "parse_value (Suc n) t = parse_value n t" if "2 * length t < n" for t using Suc.IH that by blast
  have e: "parse_elements (Suc n) vs t = parse_elements n vs t" if "2 * length t + 1 < n" for vs t using Suc.IH that by blast
  have m: "parse_members (Suc n) m t = parse_members n m t" if "2 * length t + 1 < n" for m t using Suc.IH that by blast
  have "parse_value (Suc (Suc n)) t = parse_value (Suc n) t" if t: "2 * length t < Suc n"
  proof (cases "skip_space t")
    case (Cons c cs)
    then have "2 * length cs + 1 < n" using t skip_space_Cons by fastforce
    with Cons e m show ?thesis by (simp only: parse_value.simps(2) [of _ t] list.case)
  qed simp
  moreover have "parse_elements (Suc (Suc n)) vs t = parse_elements (Suc n) vs t" if t: "2 * length t + 1 < Suc n"
  proof (cases "parse_value n t")
    case (Some vr)
    obtain v1 r where r: "parse_value n t = Some (v1, r)" using Some by (cases vr) auto
    have "2 * length t < n" using t by simp
    from v [OF this] have s: "parse_value (Suc n) t = Some (v1, r)" using r by (simp only:)
    have ds: "2 * length ds + 1 < n" if "skip_space r = d # ds" for d ds using that t parse_rest(1) [OF r] skip_space_Cons by fastforce
    show ?thesis by (cases "skip_space r") (simp_all only: parse_elements.simps(2) [of _ vs t] r s option.case prod.case list.case e [OF ds])
  qed (use t v [of t] in \<open>simp only: parse_elements.simps(2) [of _ vs t] option.case\<close>)
  moreover have "parse_members (Suc (Suc n)) m t = parse_members (Suc n) m t" if t: "2 * length t + 1 < Suc n"
  proof -
    have ds: "parse_value (Suc n) ds = parse_value n ds"
      if "skip_space t = q # cs" "parse_chars cs = Some (k, r)" "skip_space r = d # ds" for q cs k r d ds
      using that t by (intro v) (auto dest!: skip_space_Cons parse_chars_rest)
    have es: "parse_members (Suc n) m' es = parse_members n m' es"
      if "skip_space t = q # cs" "parse_chars cs = Some (k, r)" "skip_space r = d # ds" "parse_value n ds = Some (v, r2)" "skip_space r2 = x # es"
      for q cs k r d ds v r2 x es m'
      using that t by (intro m) (auto dest!: skip_space_Cons parse_chars_rest parse_rest(1))
    note unfold = parse_members.simps(2) [of _ m t] list.case option.case prod.case
    show ?thesis
    proof (cases "skip_space t")
      case (Cons q cs)
      note t = this
      show ?thesis
      proof (cases "parse_chars cs")
        case (Some kr)
        obtain k r where k: "parse_chars cs = Some (k, r)" using Some by (cases kr) auto
        show ?thesis
        proof (cases "skip_space r")
          case (Cons d ds)
          note d = this ds [OF t k Cons]
          show ?thesis
          proof (cases "parse_value n ds")
            case (Some vr)
            obtain v r2 where v: "parse_value n ds = Some (v, r2)" using Some by (cases vr) auto
            show ?thesis by (cases "skip_space r2") (simp_all only: unfold t k d v es [OF t k d(1) v])
          qed (simp only: unfold t k d)
        qed (simp only: unfold t k)
      qed (simp only: unfold t)
    qed (simp only: unfold)
  qed
  ultimately show ?case by blast
qed simp

end
