(* ===== verification/Json_Agreement.thy ===== *)
theory Json_Agreement
  imports Streaming_Json_Roundtrip Json_Parse
begin

text \<open>
  The streaming parser and the final parse agree: on a text that \<open>JSON.parse\<close> accepts both read the same object or array,
  and the streaming parser reads a malformed text as \<open>repairJson\<close> repairs it.
\<close>

section \<open>String literals\<close>

lemma spells_hex:
  assumes "hex4 ds"
  shows "spells ([BACKSLASH, 117] @ ds) [of_nat (hex_value ds)]"
  unfolding spells_def
proof (intro allI impI)
  fix str p
  assume p: "opens str p"
  obtain a b d e where ds: "ds = [a, b, d, e]" and h: "isHexDigit a" "isHexDigit b" "isHexDigit d" "isHexDigit e"
    using assms by (auto simp: hex4_def numeral_eq_Suc length_Suc_conv)
  have "fold read_unit [BACKSLASH, 117, a, b, d, e] p = appendString str [of_nat (hex_value ds)] p"
    using backslash_unit [OF p] u_unit [OF p] hex_unit [OF p h(1), of _ "[]"] hex_unit [OF p h(2), of _ "[a]"]
      hex_unit [OF p h(3), of _ "[a, b]"] last_hex_unit [OF p h(4), of _ "[a, b, d]"] ds by simp
  then show "fold read_unit ([BACKSLASH, 117] @ ds) p = flush_run [of_nat (hex_value ds)] p" using ds flush_one [OF p] by simp
qed

lemma chars_spell: "parse_chars cs = Some (s, r) \<Longrightarrow> \<exists>u. cs = u @ [QUOTE] @ r \<and> spells u s"
proof (induction cs arbitrary: s r rule: parse_chars.induct)
  case (2 c cs)
  consider "c = QUOTE" | (escape) "c = BACKSLASH" | (plain) "c \<noteq> QUOTE" "c \<noteq> BACKSLASH" by blast
  then show ?case
  proof cases
    case 1
    then show ?thesis using 2(4) spells_Nil by auto
  next
    case escape
    then obtain e es where cs: "cs = e # es" using 2(4) by (auto split: list.splits)
    show ?thesis
    proof (cases "map_of SIMPLE_ESCAPES e")
      case (Some d)
      then obtain s1 where s1: "s = d # s1" "parse_chars es = Some (s1, r)" using 2(4) escape cs by auto
      obtain u where "es = u @ [QUOTE] @ r" "spells u s1" using 2(2) [OF _ _ cs Some s1(2)] escape by auto
      then show ?thesis using escape cs s1(1) spells_append [OF spells_simple [OF Some]] by (intro exI [of _ "[BACKSLASH, e] @ u"]) fastforce
    next
      case None
      then obtain s1 where s1: "e = 117" "hex4 (take 4 es)" "s = of_nat (hex_value (take 4 es)) # s1" "parse_chars (drop 4 es) = Some (s1, r)"
        using 2(4) escape cs by (auto split: if_splits)
      obtain u where u: "drop 4 es = u @ [QUOTE] @ r" "spells u s1" using 2(1) [OF _ _ cs None _ s1(4)] s1(1,2) escape by auto
      have "c # cs = ([BACKSLASH, 117] @ take 4 es @ u) @ [QUOTE] @ r" using escape cs s1(1) u(1) by (metis append.assoc append_Cons append_Nil append_take_drop_id)
      then show ?thesis using spells_append [OF spells_hex [OF s1(2)] u(2)] s1(3) by auto
    qed
  next
    case plain
    then obtain s1 where s1: "s = c # s1" "parse_chars cs = Some (s1, r)" using 2(4) by (auto split: if_splits)
    obtain u where "cs = u @ [QUOTE] @ r" "spells u s1" using 2(3) plain s1(2) 2(4) by (auto split: if_splits)
    then show ?thesis using s1(1) spells_append [OF spells_plain [OF plain]] by (intro exI [of _ "[c] @ u"]) fastforce
  qed
qed simp

section \<open>Valid texts\<close>

lemma space_split: "\<exists>w. t = w @ skip_space t \<and> list_all json_space w"
  by (intro exI [of _ "takeWhile json_space t"]) (auto simp: skip_space_def list_all_iff dest: set_takeWhileD)

lemma space_unit: "json_space x \<Longrightarrow> structural x p = p"
  by (simp add: structural_def)

lemma spaces_ready: "list_all json_space w \<Longrightarrow> \<not> jp_done p \<Longrightarrow> jp_string p = None \<Longrightarrow> jp_scalar p = [] \<Longrightarrow> fold read_unit w p = p"
  by (induction w) (auto simp: read_unit_def space_unit)

lemma spaces_inside: "list_all json_space w \<Longrightarrow> inside c p \<Longrightarrow> fold read_unit w p = p"
  using spaces_ready by (auto simp: inside_def)

lemma reads_then:
  assumes "reads_text t v" "inside c p" "valueSlot p = Some sl" "list_all json_space w" "d \<in> {44, 93, 125}"
  shows "\<exists>q. inside (setSlot sl v c) q \<and> same_outside p q \<and> fold read_unit (t @ w @ [d]) p = structural d q"
proof (cases w)
  case Nil
  then show ?thesis using reads_textD [OF assms(1-3), of d] assms(5) by auto
next
  case (Cons x xs)
  then have x: "x \<in> closers" "structural x q = q" "list_all json_space xs" for q using assms(4) space_unit by auto
  obtain q where q: "inside (setSlot sl v c) q" "same_outside p q" "fold read_unit (t @ [x]) p = structural x q"
    using reads_textD [OF assms(1-3) x(1)] by blast
  have "fold read_unit ((t @ [x]) @ xs @ [d]) p = structural d q"
    using q x(2) spaces_inside [OF x(3) q(1)] structural_unit [OF q(1)] by (simp only: fold_append comp_def) simp
  then show ?thesis using q Cons by auto
qed

lemma reads_spaces: "reads_text t v \<Longrightarrow> list_all json_space w \<Longrightarrow> reads_text (w @ t) v"
  unfolding reads_text_def using spaces_inside by fastforce

lemma container_spaces: "reads_container t d \<Longrightarrow> list_all json_space w \<Longrightarrow> reads_container (w @ t) d"
  unfolding reads_container_def using spaces_ready by fastforce

text \<open>The rest of an open container.\<close>

definition reads_rest :: "(json_parser \<Rightarrow> bool) \<Rightarrow> jstr \<Rightarrow> container \<Rightarrow> bool" where
  "reads_rest P w d \<longleftrightarrow> (\<forall>p. P p \<longrightarrow> (\<exists>q. inside d q \<and> same_outside p q \<and> fold read_unit w p = closeContainer q))"

lemma rest_container:
  assumes "reads_rest P w d" "\<And>p. \<not> jp_done p \<Longrightarrow> jp_string p = None \<Longrightarrow> jp_scalar p = [] \<Longrightarrow> P (openContainer (blank d) p)"
    and "x = (case d of Elements _ \<Rightarrow> 91 | Members _ \<Rightarrow> 123)"
  shows "reads_container ([x] @ w) d"
  unfolding reads_container_def
proof (intro allI impI)
  fix p :: json_parser
  assume p: "\<not> jp_done p \<and> jp_string p = None \<and> jp_scalar p = []"
  then have "read_unit x p = openContainer (blank d) p"
    using assms(3) by (auto simp: read_unit_def structural_def blank_def split: container.splits)
  then show "\<exists>q. inside d q \<and> same_outside (openContainer (blank d) p) q \<and> fold read_unit ([x] @ w) p = closeContainer q"
    using assms(1,2) p unfolding reads_rest_def by fastforce
qed

abbreviation in_members :: "(jstr, json) omap \<Rightarrow> json_parser \<Rightarrow> bool" where
  "in_members m p \<equiv> inside (Members m) p \<and> key_due p"

text \<open>What each parse function accepts, the streaming parser reads.\<close>

definition value_ok :: "nat \<Rightarrow> bool" where
  "value_ok n \<longleftrightarrow> (\<forall>t v r. parse_value n t = Some (v, r) \<longrightarrow>
     (\<exists>w. t = w @ r \<and> reads_text w v \<and> (\<forall>d. content v = Some d \<longrightarrow> reads_container w d)))"

definition elements_ok :: "nat \<Rightarrow> bool" where
  "elements_ok n \<longleftrightarrow> (\<forall>us t v r. parse_elements n us t = Some (v, r) \<longrightarrow>
     (\<exists>w vs. t = w @ r \<and> v = JArr vs \<and> reads_rest (inside (Elements us)) w (Elements vs)))"

definition members_ok :: "nat \<Rightarrow> bool" where
  "members_ok n \<longleftrightarrow> (\<forall>m t v r. parse_members n m t = Some (v, r) \<longrightarrow>
     (\<exists>w kvs. t = w @ r \<and> v = JObj kvs \<and> reads_rest (in_members m) w (Members kvs)))"

lemma close_rest:
  assumes "\<And>p. P p \<Longrightarrow> inside d p" "list_all json_space w" "x = 93 \<or> x = 125"
  shows "reads_rest P (w @ [x]) d"
  unfolding reads_rest_def
proof (intro allI impI)
  fix p
  assume "P p"
  then have i: "inside d p" using assms(1) by blast
  have "fold read_unit (w @ [x]) p = closeContainer p"
    using spaces_inside [OF assms(2) i] structural_unit [OF i, of x] assms(3) by (auto simp: structural_def)
  then show "\<exists>q. inside d q \<and> same_outside p q \<and> fold read_unit (w @ [x]) p = closeContainer q"
    using i by (intro exI [of _ p]) (simp add: same_outside_def)
qed

lemma blank_rest:
  assumes "skip_space cs = x # r" "x = (case d of Elements _ \<Rightarrow> 93 | Members _ \<Rightarrow> 125)" "blank d = d"
  shows "\<exists>w. cs = w @ r \<and> reads_rest (inside d) w d"
proof -
  obtain w where w: "cs = w @ x # r" "list_all json_space w" using space_split [of cs] assms(1) by auto
  have "reads_rest (inside d) (w @ [x]) d" using w(2) assms(2) by (intro close_rest) (auto split: container.splits)
  then show ?thesis using w(1) by (intro exI [of _ "w @ [x]"]) simp
qed

text \<open>A text that starts with an opening bracket.\<close>

lemma container_step:
  assumes "skip_space t = x # cs" "x = (case d of Elements _ \<Rightarrow> 91 | Members _ \<Rightarrow> 123)" "cs = w @ r" "reads_rest P w d"
    and "\<And>p. \<not> jp_done p \<Longrightarrow> jp_string p = None \<Longrightarrow> jp_scalar p = [] \<Longrightarrow> P (openContainer (blank d) p)"
  shows "\<exists>w. t = w @ r \<and> reads_text w (container_json d) \<and> reads_container w d"
proof -
  obtain s where s: "t = s @ x # cs" "list_all json_space s" using space_split [of t] assms(1) by auto
  have "reads_container (s @ [x] @ w) d" using container_spaces [OF rest_container [OF assms(4,5,2)] s(2)] by blast
  then show ?thesis using s(1) assms(3) reads_nested by (intro exI [of _ "s @ [x] @ w"]) auto
qed

lemma value_step:
  assumes "elements_ok n" "members_ok n"
  shows "value_ok (Suc n)"
  unfolding value_ok_def
proof (intro allI impI)
  fix t v r
  assume parsed: "parse_value (Suc n) t = Some (v, r)"
  then obtain c cs where c: "skip_space t = c # cs" by (auto split: list.splits)
  obtain s where s: "t = s @ c # cs" "list_all json_space s" using space_split [of t] c by auto
  consider (array) "c = 91" | (object) "c = 123" | (str) "c = QUOTE" | (scalar) "c \<notin> {91, 123, QUOTE}" by blast
  then show "\<exists>w. t = w @ r \<and> reads_text w v \<and> (\<forall>d. content v = Some d \<longrightarrow> reads_container w d)"
  proof cases
    case array
    obtain w vs where "cs = w @ r" "v = JArr vs" "reads_rest (inside (Elements [])) w (Elements vs)"
      using parsed c array blank_rest [of cs 93 r "Elements []"] assms(1) unfolding elements_ok_def
      by (fastforce simp: blank_def split: list.splits if_splits)
    with container_step [of t 91 cs "Elements vs" w r] c array blank_inside [of _ "Elements []"] show ?thesis by (fastforce simp: blank_def)
  next
    case object
    obtain w kvs where "cs = w @ r" "v = JObj kvs" "reads_rest (in_members []) w (Members kvs)"
      using parsed c object blank_rest [of cs 125 r "Members []"] assms(2) unfolding members_ok_def
      by (fastforce simp: blank_def reads_rest_def split: list.splits if_splits)
    with container_step [of t 123 cs "Members kvs" w r] c object blank_inside [of _ "Members []"] blank_key show ?thesis by (fastforce simp: blank_def)
  next
    case str
    then obtain k where k: "v = JStr k" "parse_chars cs = Some (k, r)" using parsed c by auto
    obtain u where u: "cs = u @ [QUOTE] @ r" "spells u k" using chars_spell [OF k(2)] by blast
    then show ?thesis using reads_spaces [OF string_text [OF u(2)] s(2)] s(1) str k(1) by (intro exI [of _ "s @ [QUOTE] @ u @ [QUOTE]"]) simp
  next
    case scalar
    let ?P = "\<lambda>u. \<not> isDelimiter u"
    have k: "scalarValue (takeWhile ?P (c # cs)) = Some v" "r = dropWhile ?P (c # cs)" using parsed c scalar by (auto split: if_splits)
    have "takeWhile ?P (c # cs) \<noteq> []" using k(1) by (metis option.distinct(1) scalar_empty)
    then have "reads_text (takeWhile ?P (c # cs)) v" using k(1) by (intro scalar_text) (auto dest: set_takeWhileD simp del: takeWhile.simps)
    moreover have "content v = None" using k(1) by (auto simp: scalarValue_def LITERALS_def split: option.splits if_splits)
    ultimately show ?thesis using reads_spaces [OF _ s(2)] s(1) k(2) takeWhile_dropWhile_id [of ?P "c # cs"]
      by (intro exI [of _ "s @ takeWhile ?P (c # cs)"]) (simp del: takeWhile.simps dropWhile.simps)
  qed
qed

text \<open>A value and the unit behind it, inside a container: the container is closed, or read on.\<close>

lemma rest_close:
  assumes "\<And>p. P p \<Longrightarrow> \<exists>q. inside d q \<and> same_outside p q \<and> fold read_unit (w @ [x]) p = structural x q" "x = 93 \<or> x = 125"
  shows "reads_rest P (w @ [x]) d"
  unfolding reads_rest_def using assms by (fastforce simp: structural_def)

lemma rest_comma:
  assumes "\<And>p. P p \<Longrightarrow> \<exists>q. inside d q \<and> same_outside p q \<and> fold read_unit (w @ [44]) p = structural 44 q"
    and "reads_rest Q w2 d2" "\<And>q. inside d q \<Longrightarrow> Q (structural 44 q)"
  shows "reads_rest P ((w @ [44]) @ w2) d2"
  unfolding reads_rest_def
proof (intro allI impI)
  fix p
  assume "P p"
  then obtain q where q: "inside d q" "same_outside p q" "fold read_unit (w @ [44]) p = structural 44 q" using assms(1) by blast
  obtain r where r: "inside d2 r" "same_outside (structural 44 q) r" "fold read_unit w2 (structural 44 q) = closeContainer r"
    using assms(2,3) q(1) unfolding reads_rest_def by blast
  have "same_outside p r" using comma_inside [OF q(1)] outside_trans [OF outside_trans [OF q(2)] r(2)] by blast
  then show "\<exists>r. inside d2 r \<and> same_outside p r \<and> fold read_unit ((w @ [44]) @ w2) p = closeContainer r"
    using r read_step [OF q(3) r(3)] by blast
qed

lemma elements_step:
  assumes "value_ok n" "elements_ok n"
  shows "elements_ok (Suc n)"
  unfolding elements_ok_def
proof (intro allI impI)
  fix us t v r
  assume "parse_elements (Suc n) us t = Some (v, r)"
  then obtain v1 r1 x ds where p: "parse_value n t = Some (v1, r1)" "skip_space r1 = x # ds"
    and k: "x = 44 \<and> parse_elements n (us @ [v1]) ds = Some (v, r) \<or> x = 93 \<and> v = JArr (us @ [v1]) \<and> r = ds"
    by (auto split: option.splits list.splits if_splits)
  obtain w1 where w1: "t = w1 @ r1" "reads_text w1 v1" using assms(1) p(1) unfolding value_ok_def by blast
  obtain s where s: "r1 = s @ x # ds" "list_all json_space s" using space_split [of r1] p(2) by auto
  have step: "\<exists>q. inside (Elements (us @ [v1])) q \<and> same_outside p q \<and> fold read_unit ((w1 @ s) @ [x]) p = structural x q"
    if "inside (Elements us) p" for p
    using reads_then [OF w1(2) that element_slot [OF that] s(2), of x] k by auto
  show "\<exists>w vs. t = w @ r \<and> v = JArr vs \<and> reads_rest (inside (Elements us)) w (Elements vs)"
  proof (cases "x = 93")
    case True
    then show ?thesis using rest_close [OF step] w1(1) s(1) k by (intro exI [of _ "(w1 @ s) @ [x]"]) auto
  next
    case False
    then obtain w2 vs where w2: "ds = w2 @ r" "v = JArr vs" "reads_rest (inside (Elements (us @ [v1]))) w2 (Elements vs)"
      using k assms(2) unfolding elements_ok_def by blast
    have x: "x = 44" using False k by blast
    have "reads_rest (inside (Elements us)) (((w1 @ s) @ [44]) @ w2) (Elements vs)"
      using rest_comma [OF step [unfolded x] w2(3)] comma_inside by blast
    then show ?thesis using w1(1) s(1) x w2(1,2) by (intro exI [of _ "((w1 @ s) @ [44]) @ w2"]) simp
  qed
qed

lemma member_reads:
  assumes "in_members m p" "list_all json_space s0" "spells u k" "list_all json_space s1" "reads_text w v" "list_all json_space s2" "x = 44 \<or> x = 125"
  shows "\<exists>q. inside (Members (omap_set k v m)) q \<and> same_outside p q \<and>
    fold read_unit (s0 @ ([QUOTE] @ u @ [QUOTE]) @ s1 @ [58] @ w @ s2 @ [x]) p = structural x q"
proof -
  let ?p1 = "structural 58 (keyed k p)"
  have i: "inside (Members m) p" "key_due p" using assms(1) by simp_all
  note c = key_colon [OF i(1), of k]
  have a: "fold read_unit (s0 @ ([QUOTE] @ u @ [QUOTE])) p = keyed k p"
    by (rule read_step [OF spaces_inside [OF assms(2) i(1)] key_read [OF i assms(3)]])
  have b: "fold read_unit (s1 @ [58]) (keyed k p) = ?p1"
    using spaces_inside [OF assms(4) c(1)] structural_unit [OF c(1)] by simp
  obtain q where q: "inside (setSlot (MemberSlot k) v (Members m)) q" "same_outside ?p1 q" "fold read_unit (w @ s2 @ [x]) ?p1 = structural x q"
    using reads_then [OF assms(5) c(2,4) assms(6), of x] assms(7) by auto
  from read_step [OF read_step [OF a b] q(3)] q(1) outside_trans [OF c(3) q(2)] show ?thesis by auto
qed

lemma members_step:
  assumes "value_ok n" "members_ok n"
  shows "members_ok (Suc n)"
  unfolding members_ok_def
proof (intro allI impI)
  fix m t v r
  assume "parse_members (Suc n) m t = Some (v, r)"
  then obtain cs k r0 ds v1 r1 x es where p: "skip_space t = QUOTE # cs" "parse_chars cs = Some (k, r0)" "skip_space r0 = 58 # ds"
    "parse_value n ds = Some (v1, r1)" "skip_space r1 = x # es"
    and j: "x = 44 \<and> parse_members n (omap_set k v1 m) es = Some (v, r) \<or> x = 125 \<and> v = JObj (omap_set k v1 m) \<and> r = es"
    by (auto split: option.splits list.splits if_splits)
  obtain s0 where s0: "t = s0 @ QUOTE # cs" "list_all json_space s0" using space_split [of t] p(1) by auto
  obtain u where u: "cs = u @ [QUOTE] @ r0" "spells u k" using chars_spell [OF p(2)] by blast
  obtain s1 where s1: "r0 = s1 @ 58 # ds" "list_all json_space s1" using space_split [of r0] p(3) by auto
  obtain w1 where w1: "ds = w1 @ r1" "reads_text w1 v1" using assms(1) p(4) unfolding value_ok_def by blast
  obtain s2 where s2: "r1 = s2 @ x # es" "list_all json_space s2" using space_split [of r1] p(5) by auto
  define w where "w = s0 @ ([QUOTE] @ u @ [QUOTE]) @ s1 @ [58] @ w1 @ s2"
  have t: "t = (w @ [x]) @ es" using s0(1) u(1) s1(1) w1(1) s2(1) by (simp add: w_def)
  have step: "\<exists>q. inside (Members (omap_set k v1 m)) q \<and> same_outside p q \<and> fold read_unit (w @ [x]) p = structural x q" if "in_members m p" for p
    using member_reads [OF that s0(2) u(2) s1(2) w1(2) s2(2), of x] j by (auto simp: w_def)
  show "\<exists>w kvs. t = w @ r \<and> v = JObj kvs \<and> reads_rest (in_members m) w (Members kvs)"
  proof (cases "x = 125")
    case True
    then show ?thesis using rest_close [OF step] t j by (intro exI [of _ "w @ [x]"]) auto
  next
    case False
    then obtain w2 kvs where w2: "es = w2 @ r" "v = JObj kvs" "reads_rest (in_members (omap_set k v1 m)) w2 (Members kvs)"
      using j assms(2) unfolding members_ok_def by blast
    have x: "x = 44" using False j by blast
    have "reads_rest (in_members m) ((w @ [44]) @ w2) (Members kvs)"
      by (rule rest_comma [OF step [unfolded x] w2(3)]) (use comma_inside comma_key in auto)
    then show ?thesis using t x w2(1,2) by (intro exI [of _ "(w @ [44]) @ w2"]) simp
  qed
qed

lemma all_ok: "value_ok n \<and> elements_ok n \<and> members_ok n"
proof (induction n)
  case (Suc n)
  then show ?case using value_step elements_step members_step by blast
qed (simp add: value_ok_def elements_ok_def members_ok_def)

lemma parsed_container:
  assumes "JSON_parse t = Some v" "content v = Some d"
  shows "\<exists>w r. t = w @ r \<and> reads_container w d"
proof -
  obtain n r where "parse_value n t = Some (v, r)" using assms(1) by (auto simp: JSON_parse_def split: option.splits if_splits simp del: parse_value.simps)
  then show ?thesis using all_ok [of n] assms(2) unfolding value_ok_def by blast
qed

section \<open>Repaired texts\<close>

text \<open>No escape is open.\<close>

definition between_escapes :: "json_parser \<Rightarrow> bool" where
  "between_escapes p \<longleftrightarrow> (case jp_string p of None \<Rightarrow> True | Some str \<Rightarrow> os_escape str = [])"

lemma outside_unit:
  assumes "jp_string p = None" "\<not> jp_done p"
  shows "jp_done (read_unit c p) \<or> between_escapes (read_unit c p) \<and> (jp_string (read_unit c p) \<noteq> None) = (c = QUOTE)"
proof -
  have s: "between_escapes (structural c q) \<and> (jp_string (structural c q) \<noteq> None) = (c = QUOTE)" if "jp_string q = None" for q
    using that by (auto simp: structural_def startString_def start_value_def openContainer_def closeContainer_def settle_child_def valueEnded_def
        set_top_def between_escapes_def Let_def split: list.splits option.splits slot.splits)
  moreover have "jp_string (endScalar p) = None"
    using assms(1) by (auto simp: endScalar_def valueEnded_def set_top_def Let_def split: option.splits list.splits)
  moreover have "between_escapes (p\<lparr>jp_scalar := x, jp_dirty := y\<rparr>)" for x y using assms(1) by (simp add: between_escapes_def)
  moreover have "isDelimiter QUOTE" by (simp add: isDelimiter_def)
  ultimately show ?thesis using assms by (auto simp: read_unit_def Let_def)
qed

lemma spelled: "opens str p \<Longrightarrow> spells u s \<Longrightarrow> spells u' s \<Longrightarrow> fold read_unit (u @ cs) p = fold read_unit cs (flush_run s p) \<and>
    fold read_unit (u' @ ds) p = fold read_unit ds (flush_run s p)"
  by (simp add: spells_def)

lemma escapes_agree: "n \<in> set VALID_JSON_ESCAPES \<longleftrightarrow> map_of SIMPLE_ESCAPES n \<noteq> None"
  by (auto simp: VALID_JSON_ESCAPES_def SIMPLE_ESCAPES_def)

lemma escaped_control: "c \<le> 31 \<Longrightarrow> spells (escapeControlCharacter c) [c]"
  using spells_simple [of 98 8] spells_simple [of 102 12] spells_simple [of 110 10] spells_simple [of 114 13] spells_simple [of 116 9] spells_unicode
  by (auto simp: escapeControlCharacter_def SIMPLE_ESCAPES_def)

lemma hex_units:
  assumes "opens str p" "list_all isHexDigit hs" "length ds + length hs < 4"
  shows "fold read_unit hs (escaping (BACKSLASH # 117 # ds) str p) = escaping (BACKSLASH # 117 # ds @ hs) str p"
  using assms(2,3)
proof (induction hs arbitrary: ds)
  case (Cons h hs)
  have "read_unit h (escaping (BACKSLASH # 117 # ds) str p) = escaping (BACKSLASH # 117 # (ds @ [h])) str p"
    using hex_unit [OF assms(1), of h _ ds] Cons.prems by simp
  with Cons.IH [of "ds @ [h]"] Cons.prems show ?case by simp
qed simp

text \<open>A unit that does not continue an escape is read as if the escape had been text.\<close>

lemma broken_escape:
  assumes "opens str p" "e = [BACKSLASH] \<and> map_of SIMPLE_ESCAPES x = None \<and> x \<noteq> 117 \<or> (\<exists>ds. e = BACKSLASH # 117 # ds) \<and> \<not> isHexDigit x"
  shows "read_unit x (escaping e str p) = read_unit x (flush_run e p)"
proof -
  have e: "e \<noteq> []" using assms(2) by auto
  have f: "flush_run e p = appendString str e p" using assms(1) e by (simp add: flush_run_def opens_def)
  obtain o1 where o1: "opens o1 (appendString str e p)" using flush_opens [OF assms(1)] f by metis
  have "continueEscape (str\<lparr>os_escape := e\<rparr>) x (escaping e str p) = (False, appendString (str\<lparr>os_escape := []\<rparr>) e p)"
    using assms(2) by (auto simp: continueEscape_def Let_def)
  then have i: "in_escape x [] (escaping e str p) = (False, [], appendString str e p)"
    using e unfolding opens_plain [OF assms(1)] by (simp add: in_escape_def)
  moreover have "in_escape x [] (appendString str e p) = (False, [], appendString str e p)" using o1 by (simp add: opens_def in_escape_def)
  ultimately have "string_unit x (escaping e str p) = string_unit x (appendString str e p)" by (simp add: string_unit_def)
  then show ?thesis using assms(1) o1 f by (simp add: read_unit_def opens_def)
qed

lemma spells_same: "list_all (\<lambda>u. u \<noteq> QUOTE \<and> u \<noteq> BACKSLASH) u \<Longrightarrow> spells u u"
proof (induction u)
  case (Cons c u)
  then show ?case using spells_append [OF spells_plain, of c u u] by simp
qed (simp add: spells_Nil)

lemma lone_backslash:
  assumes "opens str p" "map_of SIMPLE_ESCAPES n = None" "\<not> (n = 117 \<and> hex4 (take 4 ns))" "between_escapes (fold read_unit (BACKSLASH # n # ns) p)"
  shows "fold read_unit (BACKSLASH # n # ns) p = fold read_unit (n # ns) (flush_run [BACKSLASH] p)"
proof (cases "n = 117")
  case False
  then show ?thesis using backslash_unit [OF assms(1)] broken_escape [OF assms(1), of "[BACKSLASH]" n] assms(2) by simp
next
  case True
  define hs where "hs = takeWhile isHexDigit ns"
  obtain xs where xs: "ns = hs @ xs" "xs = [] \<or> \<not> isHexDigit (hd xs)"
    using takeWhile_dropWhile_id [of isHexDigit ns] hd_dropWhile [of isHexDigit ns] unfolding hs_def by metis
  have h: "list_all isHexDigit hs" by (auto simp: hs_def list_all_iff dest: set_takeWhileD)
  have short: "length hs < 4"
  proof (rule ccontr)
    assume "\<not> length hs < 4"
    then have "hex4 (take 4 ns)" using h xs(1) by (auto simp: hex4_def list_all_iff dest: in_set_takeD)
    then show False using assms(3) True by blast
  qed
  let ?e = "BACKSLASH # 117 # hs"
  have raw: "fold read_unit (BACKSLASH # n # hs) p = escaping ?e str p"
    using backslash_unit [OF assms(1)] u_unit [OF assms(1)] hex_units [OF assms(1) h, of "[]"] short True by simp
  have "u \<noteq> QUOTE \<and> u \<noteq> BACKSLASH" if "isHexDigit u" for u using that by (auto simp: isHexDigit_def)
  then have "spells hs hs" using h by (intro spells_same) (simp add: list_all_iff)
  then have "spells ([117] @ hs) ([117] @ hs)" using spells_append [OF spells_plain [of 117]] by simp
  moreover obtain o1 where "opens o1 (flush_run [BACKSLASH] p)" using flush_opens [OF assms(1)] by blast
  ultimately have plain: "fold read_unit (n # hs) (flush_run [BACKSLASH] p) = flush_run ?e p"
    using True by (simp add: spells_def flush_append)
  show ?thesis
  proof (cases xs)
    case Nil
    then show ?thesis using raw xs(1) assms(4) by (simp add: between_escapes_def)
  next
    case (Cons x ys)
    then have "read_unit x (escaping ?e str p) = read_unit x (flush_run ?e p)" using broken_escape [OF assms(1), of ?e x] xs(2) by simp
    moreover have "BACKSLASH # n # ns = (BACKSLASH # n # hs) @ x # ys" "n # ns = (n # hs) @ x # ys" using xs(1) Cons by simp_all
    ultimately show ?thesis using raw plain by (simp only: fold_append comp_def fold.simps(2))
  qed
qed

lemma opens_between: "jp_string p \<noteq> None \<Longrightarrow> between_escapes p \<Longrightarrow> \<not> jp_done p \<Longrightarrow> \<exists>str. opens str p"
  by (auto simp: opens_def between_escapes_def)

lemma between_opens: "opens str p \<Longrightarrow> between_escapes p \<and> jp_string p \<noteq> None"
  by (auto simp: opens_def between_escapes_def)

lemma closed_string: "opens str p \<Longrightarrow> jp_string (read_unit QUOTE p) = None"
  by (auto simp: opens_def read_unit_def string_unit_def in_escape_def close_string_def endString_def valueEnded_def set_top_def Let_def split: list.splits)

lemma repair_alike:
  assumes "between_escapes p" "inString = (jp_string p \<noteq> None)" "between_escapes (fold read_unit t p)"
  shows "fold read_unit (repair inString t) p = fold read_unit t p"
  using assms
proof (induction inString t arbitrary: p rule: repair.induct)
  case (2 inString c cs)
  show ?case
  proof (cases "jp_done p")
    case True
    then show ?thesis using read_done by metis
  next
    case live: False
    show ?thesis
    proof (cases inString)
      case out: False
      then have o: "jp_string p = None" using 2(8) by simp
      have "fold read_unit (repair (c = QUOTE) cs) (read_unit c p) = fold read_unit cs (read_unit c p)"
      proof (cases "jp_done (read_unit c p)")
        case True
        then show ?thesis using read_done by metis
      next
        case False
        then have "between_escapes (read_unit c p)" "(c = QUOTE) = (jp_string (read_unit c p) \<noteq> None)" using outside_unit [OF o live, of c] by auto
        then show ?thesis using 2(1) [OF out, of "read_unit c p"] 2(9) by simp
      qed
      then show ?thesis using out by simp
    next
      case within: True
      have "jp_string p \<noteq> None" using 2(8) within by simp
      then obtain o1 where o1: "opens o1 p" using opens_between [OF _ 2(7) live] by blast
      have spelled: "fold read_unit (u @ repair True ds) p = fold read_unit (u' @ ds) p"
        if "spells u w" "spells u' w" "c # cs = u' @ ds"
          and IH: "\<And>q. between_escapes q \<Longrightarrow> True = (jp_string q \<noteq> None) \<Longrightarrow> between_escapes (fold read_unit ds q) \<Longrightarrow>
            fold read_unit (repair True ds) q = fold read_unit ds q" for u u' w ds
      proof -
        obtain o2 where "opens o2 (flush_run w p)" using flush_opens [OF o1] by blast
        from IH [of "flush_run w p"] between_opens [OF this] spelled [OF o1 that(1,2), of "repair True ds" ds] 2(9) that(3) show ?thesis by simp
      qed
      consider (quote) "c = QUOTE" | (escape) "c = BACKSLASH" | (plain) "c \<noteq> QUOTE" "c \<noteq> BACKSLASH" by blast
      then show ?thesis
      proof cases
        case quote
        have "between_escapes (read_unit c p)" "jp_string (read_unit c p) = None" using closed_string [OF o1] quote by (simp_all add: between_escapes_def)
        then show ?thesis using 2(2) [of "read_unit c p"] 2(9) within quote by simp
      next
        case escape
        show ?thesis
        proof (cases cs)
          case Nil
          then show ?thesis using 2(9) backslash_unit [OF o1] escape by (simp add: between_escapes_def)
        next
          case (Cons n ns)
          consider (unicode) "n = 117 \<and> hex4 (take 4 ns)" | (simple) "\<not> (n = 117 \<and> hex4 (take 4 ns))" "n \<in> set VALID_JSON_ESCAPES"
            | (lone) "\<not> (n = 117 \<and> hex4 (take 4 ns))" "n \<notin> set VALID_JSON_ESCAPES" by blast
          then show ?thesis
          proof cases
            case unicode
            then have h: "hex4 (take 4 ns)" by simp
            have eq: "c # cs = ([BACKSLASH, 117] @ take 4 ns) @ drop 4 ns" using escape Cons unicode by simp
            have "fold read_unit (([BACKSLASH, 117] @ take 4 ns) @ repair True (drop 4 ns)) p = fold read_unit (([BACKSLASH, 117] @ take 4 ns) @ drop 4 ns) p"
              by (rule spelled [OF spells_hex [OF h] spells_hex [OF h] eq 2(3) [OF _ _ escape Cons unicode]]) (use within escape in auto)
            moreover have "repair inString (c # cs) = ([BACKSLASH, 117] @ take 4 ns) @ repair True (drop 4 ns)" using unicode escape within Cons by simp
            ultimately show ?thesis using eq by (simp only:)
          next
            case simple
            then obtain d where "map_of SIMPLE_ESCAPES n = Some d" using escapes_agree by blast
            note d = spells_simple [OF this]
            have eq: "c # cs = [BACKSLASH, n] @ ns" using escape Cons by simp
            have "fold read_unit ([BACKSLASH, n] @ repair True ns) p = fold read_unit ([BACKSLASH, n] @ ns) p"
              by (rule spelled [OF d d eq 2(4) [OF _ _ escape Cons simple]]) (use within escape in auto)
            moreover have "repair inString (c # cs) = [BACKSLASH, n] @ repair True ns" using simple escape within Cons by auto
            ultimately show ?thesis using eq by (simp only:)
          next
            case lone
            then have raw: "fold read_unit (c # cs) p = fold read_unit cs (flush_run [BACKSLASH] p)"
              using lone_backslash [OF o1, of n ns] escapes_agree 2(9) escape Cons by simp
            obtain o2 where o2: "opens o2 (flush_run [BACKSLASH] p)" using flush_opens [OF o1] by blast
            have "fold read_unit [BACKSLASH, BACKSLASH] p = flush_run [BACKSLASH] p"
              using spells_simple [of BACKSLASH BACKSLASH] o1 by (simp add: spells_def SIMPLE_ESCAPES_def)
            moreover have "fold read_unit (repair True cs) (flush_run [BACKSLASH] p) = fold read_unit cs (flush_run [BACKSLASH] p)"
              by (rule 2(5) [OF _ _ escape Cons lone]) (use within escape between_opens [OF o2] 2(9) raw in simp_all)
            moreover have "repair inString (c # cs) = [BACKSLASH, BACKSLASH] @ repair True cs" using lone escape within Cons by auto
            ultimately show ?thesis using raw by simp
          qed
        qed
      next
        case plain
        let ?u = "if c \<le> 31 then escapeControlCharacter c else [c]"
        have "spells ?u [c]" "spells [c] [c]" using spells_plain [OF plain] escaped_control by simp_all
        moreover have "repair inString (c # cs) = ?u @ repair True cs" using plain within by simp
        ultimately show ?thesis using spelled [of ?u "[c]" "[c]" cs] 2(6) plain within by simp
      qed
    qed
  qed
qed simp

lemma same_sym: "same_text p q \<Longrightarrow> same_text q p"
  by (auto simp: same_text_def same_string_iff elim!: option.rel_cases)

text \<open>
  C40. The streaming parser reads a malformed text as \<open>repairJson\<close> repairs it: raw control characters are kept and
  backslashes before invalid escapes are text, so that the text and the repaired text leave it in the same state, however
  each is cut into pieces, unless the text ends inside an escape, which the parser still waits for.
\<close>

theorem repair_streams_alike:
  assumes "between_escapes (fold feed ts new_parser)" "concat us = repairJson (concat ts)"
  shows "same_text (fold feed us new_parser) (fold feed ts new_parser)"
proof -
  have ts: "same_text (fold feed ts new_parser) (fold read_unit (concat ts) new_parser)" using feeds_units .
  then have "between_escapes (fold read_unit (concat ts) new_parser)" using assms(1)
    by (auto simp: same_text_def same_string_iff between_escapes_def elim!: option.rel_cases split: option.splits)
  then have "fold read_unit (concat us) new_parser = fold read_unit (concat ts) new_parser"
    using repair_alike [of new_parser False "concat ts"] assms(2) by (simp add: repairJson_def new_parser_def between_escapes_def)
  then show ?thesis using same_trans [OF feeds_units [of us new_parser]] same_sym [OF ts] by simp
qed

definition demo_broken :: jstr where
  "demo_broken = [34, 92, 100, 10, 34]"

theorem repair_streams_alike_witness:
  "repairJson demo_broken = [34, 92, 92, 100, 92, 110, 34] \<and>
   same_text (fold feed [[34, 92, 92, 100], [92, 110, 34]] new_parser) (fold feed [demo_broken] new_parser)"
proof -
  have r: "repairJson demo_broken = [34, 92, 92, 100, 92, 110, 34]" by code_simp
  moreover have "between_escapes (fold feed [demo_broken] new_parser)" by code_simp
  ultimately show ?thesis using repair_streams_alike [of "[demo_broken]" "[[34, 92, 92, 100], [92, 110, 34]]"] by simp
qed

text \<open>A repaired text that is complete is read as the text itself, which then does not end inside an escape.\<close>

lemma repair_snoc: "repair b (t @ [120]) = repair b t @ [120]"
proof (induction b t rule: repair.induct)
  case (2 b c cs)
  show ?case
  proof (cases cs)
    case Nil
    then show ?thesis by (simp add: hex4_def VALID_JSON_ESCAPES_def)
  next
    case (Cons n ns)
    have h: "hex4 (take 4 (ns @ [120])) = hex4 (take 4 ns)" "hex4 (take 4 ns) \<Longrightarrow> 4 \<le> length ns"
      by (cases "4 \<le> length ns"; simp add: hex4_def isHexDigit_def)+
    show ?thesis using 2 Cons h by (auto split: if_splits)
  qed
qed (simp add: hex4_def)

lemma ended_closed: "jp_string p = None \<Longrightarrow> jp_string (valueEnded p) = None"
  by (simp add: valueEnded_def set_top_def split: list.splits)

definition done_closed :: "json_parser \<Rightarrow> bool" where
  "done_closed p \<longleftrightarrow> (jp_done p \<longrightarrow> jp_string p = None)"

lemma done_closed_unit: "done_closed p \<Longrightarrow> done_closed (read_unit c p)"
proof -
  assume p: "done_closed p"
  have str: "done_closed (string_unit c p)" if "\<not> jp_done p"
  proof -
    obtain taken run p1 where e: "in_escape c [] p = (taken, run, p1)" by (cases "in_escape c [] p")
    have "\<not> jp_done p1"
      using that e by (auto simp: in_escape_def continueEscape_def Let_def split: option.splits if_splits prod.splits)
    then show ?thesis using e ended_closed
      by (auto simp: string_unit_def done_closed_def close_string_def endString_def start_escape_def set_top_def Let_def split: option.splits list.splits)
  qed
  have s: "done_closed (structural c q)" if "\<not> jp_done q" "jp_string q = None" for q
    using that ended_closed by (auto simp: structural_def startString_def start_value_def openContainer_def closeContainer_def settle_child_def
        set_top_def done_closed_def Let_def split: list.splits option.splits slot.splits)
  have "jp_string (endScalar p) = None" if "jp_string p = None"
    using that ended_closed by (auto simp: endScalar_def Let_def split: option.splits)
  then show ?thesis using p str s by (auto simp: read_unit_def Let_def done_closed_def)
qed

lemma done_closed_units: "done_closed p \<Longrightarrow> done_closed (fold read_unit cs p)"
  by (induction cs arbitrary: p) (auto intro: done_closed_unit)

lemma escape_broken_off:
  assumes "jp_string p = Some str" "os_escape str \<noteq> []" "\<not> jp_done p"
  shows "between_escapes (read_unit 120 p)" "\<not> jp_done (read_unit 120 p)"
proof -
  have "\<exists>e. continueEscape str 120 p = (False, appendString (str\<lparr>os_escape := []\<rparr>) e p)"
    by (auto simp: continueEscape_def SIMPLE_ESCAPES_def isHexDigit_def Let_def)
  then obtain e where e: "continueEscape str 120 p = (False, appendString (str\<lparr>os_escape := []\<rparr>) e p)" by blast
  let ?q = "appendString (str\<lparr>os_escape := []\<rparr>) e p"
  obtain o1 where o1: "opens o1 ?q" using appendString_opens [of "str\<lparr>os_escape := []\<rparr>" e p] assms(3) by (auto simp: opens_def)
  have "read_unit 120 p = flush_run [120] ?q" using assms e by (simp add: read_unit_def string_unit_def in_escape_def)
  then show "between_escapes (read_unit 120 p)" "\<not> jp_done (read_unit 120 p)"
    using flush_opens [OF o1, of "[120]"] between_opens by (auto simp: opens_def)
qed

lemma repaired_done:
  assumes "jp_done (fold read_unit (repairJson t) new_parser)"
  shows "fold read_unit (repairJson t) new_parser = fold read_unit t new_parser"
proof (rule ccontr)
  assume ne: "fold read_unit (repairJson t) new_parser \<noteq> fold read_unit t new_parser"
  let ?q = "fold read_unit t new_parser" and ?r = "fold read_unit (repairJson t) new_parser"
  have new: "between_escapes new_parser" "False = (jp_string new_parser \<noteq> None)" "done_closed new_parser"
    by (simp_all add: new_parser_def between_escapes_def done_closed_def)
  have "\<not> between_escapes ?q" using ne repair_alike [OF new(1,2)] by (auto simp: repairJson_def)
  then obtain str where str: "jp_string ?q = Some str" "os_escape str \<noteq> []" by (auto simp: between_escapes_def split: option.splits)
  then have "\<not> jp_done ?q" using done_closed_units [OF new(3), of t] by (auto simp: done_closed_def)
  from escape_broken_off [OF str this] have q: "between_escapes (fold read_unit (t @ [120]) new_parser)" "\<not> jp_done (fold read_unit (t @ [120]) new_parser)"
    by simp_all
  have "fold read_unit (repairJson t @ [120]) new_parser = fold read_unit (t @ [120]) new_parser"
    using repair_alike [OF new(1,2) q(1)] repair_snoc by (simp add: repairJson_def)
  moreover have "fold read_unit (repairJson t @ [120]) new_parser = ?r" using read_done [OF assms, of "[120]"] by simp
  ultimately show False using q(2) assms by simp
qed

end
