(* ===== verification/Tool_Arguments.thy ===== *)
theory Tool_Arguments
  imports Json_Agreement
begin

text \<open>
  The arguments of one streaming tool call (the class \<open>ToolCallArgumentsStream\<close> of
  packages/ai/src/utils/streaming-json.ts): partial arguments from the streaming parser while the text arrives, and one
  full parse when it is complete. Both agree in the end. The program compares snapshots by identity; equal snapshots give
  equal arguments, so a comparison by value is the same.
\<close>

section \<open>The stream\<close>

record arguments_stream =
  ta_text :: jstr
  ta_parser :: json_parser
  ta_snapshot :: "json option"
  ta_arguments :: "(jstr, json) omap"

definition new_arguments_stream :: arguments_stream where
  "new_arguments_stream = \<lparr>ta_text = [], ta_parser = new_parser, ta_snapshot = None, ta_arguments = []\<rparr>"

definition object_members :: "json option \<Rightarrow> (jstr, json) omap" where
  "object_members v = (case v of Some (JObj m) \<Rightarrow> m | _ \<Rightarrow> [])"

definition partial :: "arguments_stream \<Rightarrow> (jstr, json) omap \<times> arguments_stream" where
  "partial s =
     (let (shot, p) = snapshot (ta_parser s);
          s1 = s\<lparr>ta_parser := p\<rparr>
      in if shot = ta_snapshot s then (ta_arguments s, s1)
         else (object_members shot, s1\<lparr>ta_snapshot := shot, ta_arguments := object_members shot\<rparr>))"

definition append_delta :: "jstr \<Rightarrow> arguments_stream \<Rightarrow> (jstr, json) omap \<times> arguments_stream" where
  "append_delta delta s = partial (s\<lparr>ta_text := ta_text s @ delta, ta_parser := snd (append delta (ta_parser s))\<rparr>)"

definition replace_text :: "jstr \<Rightarrow> arguments_stream \<Rightarrow> (jstr option \<times> (jstr, json) omap) \<times> arguments_stream" where
  "replace_text text s =
     (if starts_with text (ta_text s)
      then let delta = drop (length (ta_text s)) text;
               (arguments, s1) = (if delta = [] then partial s else append_delta delta s)
           in ((Some delta, arguments), s1)
      else let (arguments, s1) = append_delta text (s\<lparr>ta_text := [], ta_parser := new_parser\<rparr>)
           in ((None, arguments), s1))"

definition finish :: "(jstr \<Rightarrow> jstr) \<Rightarrow> arguments_stream \<Rightarrow> parsed_arguments" where
  "finish message s = parseToolCallArguments message (Some (ta_text s))"

text \<open>What a provider does with a stream.\<close>

datatype stream_use = Delta jstr | Complete jstr

fun use_stream :: "stream_use \<Rightarrow> arguments_stream \<Rightarrow> arguments_stream" where
  "use_stream (Delta t) s = snd (append_delta t s)"
| "use_stream (Complete t) s = snd (replace_text t s)"

section \<open>Finished parsers are up to date\<close>

definition settled :: "json_parser \<Rightarrow> bool" where
  "settled p \<longleftrightarrow> (jp_done p \<or> jp_stack p = [] \<and> jp_string p \<noteq> None \<longrightarrow> up_to_date p)"

lemma up_dirty: "jp_dirty p \<Longrightarrow> up_to_date p"
  by (simp add: up_to_date_def)

lemma string_unit_stack: "(jp_stack (string_unit c p) = []) = (jp_stack p = [])"
  by (rule string_unit_keeps [where P = "\<lambda>q. (jp_stack q = []) = (jp_stack p = [])"])
    (auto simp: appendString_def place_def valueEnded_def set_top_def report_def Let_def split: option.splits slot.splits list.splits)

lemma string_unit_live: "jp_stack p \<noteq> [] \<Longrightarrow> \<not> jp_done p \<Longrightarrow> \<not> jp_done (string_unit c p)"
  by (rule conjunct1, rule string_unit_keeps [where P = "\<lambda>q. \<not> jp_done q \<and> jp_stack q \<noteq> []"])
    (auto simp: appendString_def place_def valueEnded_def set_top_def report_def Let_def split: option.splits slot.splits list.splits)

lemma settled_string:
  assumes "settled p" "\<not> jp_done p" "jp_string p \<noteq> None"
  shows "settled (string_unit c p)"
proof (cases "jp_stack p = []")
  case True
  have "quiet p (string_unit c p)" by (rule string_unit_keeps) (simp_all add: quiet_append quiet_string quiet_ended quiet_top)
  then show ?thesis using assms True quiet_up_to_date by (auto simp: settled_def)
next
  case False
  then show ?thesis using string_unit_stack string_unit_live assms(2) by (simp add: settled_def)
qed

lemma settled_structural:
  assumes "root_ok p" "\<not> jp_done p" "jp_string p = None"
  shows "settled (structural c p)"
proof -
  have idle: "settled q" if "\<not> jp_done q" "jp_string q = None" for q using that by (simp add: settled_def)
  have str: "settled (startString p)"
  proof (cases "jp_stack p")
    case Nil
    then have "valueSlot p = Some RootSlot" using assms by (auto simp: valueSlot_def root_ok_def)
    then show ?thesis using Nil by (auto simp: settled_def startString_def start_value_def report_at_def report_def Let_def split: option.splits intro: up_dirty)
  next
    case (Cons f fs)
    then show ?thesis using assms(2)
      by (auto simp: settled_def startString_def start_value_def report_at_def report_def place_def Let_def split: option.splits slot.splits)
  qed
  have close: "settled (closeContainer p)"
  proof (cases "jp_stack p")
    case (Cons f fs)
    then have "jp_dirty (closeContainer p)"
      by (auto simp: closeContainer_def settle_child_def valueEnded_def set_top_def report_at_def report_def Let_def split: option.splits slot.splits list.splits)
    then show ?thesis using up_dirty by (simp add: settled_def)
  qed (use idle assms in \<open>simp add: closeContainer_def\<close>)
  have "settled (openContainer d p)" "settled (set_top g p)" for d g
    using assms by (auto intro!: idle simp: openContainer_def set_top_def Let_def split: list.splits)
  then show ?thesis using str close idle assms by (simp add: structural_def)
qed

lemma settled_scalar:
  assumes "parser_ok w p" "\<not> jp_done p" "jp_string p = None" "jp_scalar p \<noteq> []"
  shows "settled (endScalar p)"
proof -
  have e: "jp_string (endScalar p) = None" using end_scalar_ok [OF assms] by blast
  show ?thesis
  proof (cases "jp_done (endScalar p)")
    case True
    have slot: "jp_scalarSlot p = valueSlot p" and root: "root_ok p" using assms by (auto simp: parser_ok_def scalar_ok_def)
    have "jp_dirty (endScalar p)"
    proof (cases "jp_stack p")
      case Nil
      then have "valueSlot p = Some RootSlot" "jp_root p = None" using root assms(2,3) by (auto simp: root_ok_def valueSlot_def)
      then show ?thesis using True Nil slot assms(2)
        by (auto simp: endScalar_def valueEnded_def report_at_def report_def Let_def split: option.splits if_splits)
    next
      case (Cons f fs)
      then have "\<not> jp_done (endScalar p)" using assms(2)
        by (auto simp: endScalar_def valueEnded_def set_top_def place_def report_at_def report_def Let_def split: option.splits slot.splits list.splits)
      then show ?thesis using True by blast
    qed
    then show ?thesis using up_dirty by (simp add: settled_def)
  qed (use e in \<open>simp add: settled_def\<close>)
qed

lemma settled_unit:
  assumes "parser_ok w p" "settled p"
  shows "settled (read_unit c p)"
proof -
  have r: "root_ok p" using assms(1) by (simp add: parser_ok_def)
  have "settled (p\<lparr>jp_scalar := x, jp_dirty := y\<rparr>)" if "\<not> jp_done p" "jp_string p = None" for x y using that by (simp add: settled_def)
  moreover have "root_ok (endScalar p) \<and> jp_string (endScalar p) = None" if "\<not> jp_done p" "jp_string p = None" "jp_scalar p \<noteq> []"
    using end_scalar_ok [OF assms(1) that] by (simp add: parser_ok_def)
  ultimately show ?thesis
    using assms settled_string settled_structural [OF r] settled_structural [of "endScalar p"] settled_scalar [OF assms(1)]
    by (auto simp: read_unit_def Let_def)
qed

lemma settled_feed:
  assumes "parser_ok w p" "settled p"
  shows "settled (feed t p)"
proof -
  have u: "settled (fold read_unit cs q)" if "parser_ok v q" "settled q" for cs q v
    using that by (induction cs arbitrary: q) (auto intro: settled_unit unit_ok)
  have "quiet p (begin_piece t p)" by (rule quiet_same) (simp_all add: begin_piece_def pendingScalar_def split: option.splits)
  then have "settled (begin_piece t p)" using assms(2) quiet_up_to_date by (auto simp: settled_def)
  from u [OF begin_ok [OF assms(1)] this] show ?thesis by (simp add: append_def Let_def append_loop_units)
qed

lemma settled_snapshot: "settled p \<Longrightarrow> settled (snd (snapshot p))"
proof -
  assume "settled p"
  moreover have "jp_done (snd (snapshot p)) = jp_done p" "jp_stack (snd (snapshot p)) = jp_stack p" "jp_string (snd (snapshot p)) = jp_string p"
    by (simp_all add: snapshot_def Let_def)
  ultimately show ?thesis using snapshot_up_to_date by (auto simp: settled_def)
qed

section \<open>Blank texts\<close>

lemma space_unlike_number: "is_ws c \<Longrightarrow> \<not> number_unit c"
  by (auto simp: is_ws_def word_le_nat_alt)

lemma blank_token:
  assumes "t \<noteq> []" "\<forall>c \<in> set t. is_ws c"
  shows "scalarValue t = None" "pendingScalarValue t = None"
proof -
  obtain c cs where t: "t = c # cs" "is_ws c" using assms by (cases t) auto
  have n: "number_integer t = None"
  proof (rule ccontr)
    assume "number_integer t \<noteq> None"
    then obtain a r where "t = a @ r" "a \<noteq> []" "\<forall>u \<in> set a. number_unit u" using integer_split by blast
    then have "number_unit c" using t(1) by (cases a) auto
    then show False using t(2) space_unlike_number by blast
  qed
  have "c \<noteq> 116" "c \<noteq> 102" "c \<noteq> 110" using t(2) by (auto simp: is_ws_def)
  then show "scalarValue t = None" "pendingScalarValue t = None"
    using n t(1) by (auto simp: scalarValue_def pendingScalarValue_def LITERALS_def js_def is_number_def number_mantissa_def starts_with_def)
qed

definition blank_parser :: "json_parser \<Rightarrow> bool" where
  "blank_parser p \<longleftrightarrow> jp_root p = None \<and> jp_stack p = [] \<and> jp_string p = None \<and> \<not> jp_done p \<and> jp_snapshot p = None \<and> (\<forall>c \<in> set (jp_scalar p). is_ws c)"

lemma blank_unit:
  assumes "blank_parser p" "is_ws c"
  shows "blank_parser (read_unit c p)"
proof -
  have c: "c \<notin> {34, 123, 91, 125, 93, 58, 44}" using assms(2) by (auto simp: is_ws_def)
  have s: "blank_parser (structural c q)" if "blank_parser q" for q
    using that c assms(2) by (auto simp: structural_def blank_parser_def)
  have "blank_parser (endScalar p)" if "jp_scalar p \<noteq> []"
    using that assms(1) blank_token(1) [OF that] by (simp add: blank_parser_def endScalar_def valueEnded_def Let_def)
  then show ?thesis using assms s by (auto simp: read_unit_def Let_def) (auto simp: blank_parser_def)
qed

lemma blank_units: "blank_parser p \<Longrightarrow> \<forall>c \<in> set cs. is_ws c \<Longrightarrow> blank_parser (fold read_unit cs p)"
  by (induction cs arbitrary: p) (auto intro: blank_unit)

lemma blank_snapshot: "blank_parser p \<Longrightarrow> blank_parser (snd (snapshot p))"
proof -
  assume p: "blank_parser p"
  then have "pendingScalar p = None" using blank_token(2) [of "jp_scalar p"] by (auto simp: blank_parser_def pendingScalar_def split: option.splits)
  then show ?thesis using p by (auto simp: snapshot_def Let_def blank_parser_def copyOpenPath_def)
qed

lemma blank_use: "blank_parser p \<Longrightarrow> \<forall>c \<in> set (used_text us). is_ws c \<Longrightarrow> blank_parser (snd (use_parser us p))"
proof (induction us arbitrary: p)
  case (Cons u us)
  show ?case
  proof (cases u)
    case (Piece t)
    have "blank_parser (begin_piece t p)" using Cons.prems(1) by (simp add: begin_piece_def blank_parser_def)
    then have "blank_parser (feed t p)" using blank_units Cons.prems(2) Piece by (simp add: append_def Let_def append_loop_units)
    then show ?thesis using Cons Piece by simp
  next
    case Snapshot
    then show ?thesis using Cons blank_snapshot by (simp add: Let_def case_prod_beta)
  qed
qed simp

lemma trimmed_blank: "trim t = [] \<Longrightarrow> \<forall>c \<in> set t. is_ws c"
proof -
  assume "trim t = []"
  then have "\<forall>c \<in> set (trim_end t). is_ws c" by (simp add: trim_def trim_start_def dropWhile_eq_Nil_conv)
  moreover have "\<forall>c \<in> set (takeWhile is_ws (rev t)). is_ws c" by (auto dest: set_takeWhileD)
  moreover have "set t = set (takeWhile is_ws (rev t)) \<union> set (trim_end t)"
    by (metis set_append set_rev takeWhile_dropWhile_id trim_end_def)
  ultimately show ?thesis by blast
qed

section \<open>Partial and final arguments\<close>

text \<open>The state of a stream: its parser has read its text, and its arguments are those of the last snapshot.\<close>

definition stream_reads :: "arguments_stream \<Rightarrow> bool" where
  "stream_reads s \<longleftrightarrow> (\<exists>us. ta_parser s = snd (use_parser us new_parser) \<and> used_text us = ta_text s) \<and> ta_arguments s = object_members (ta_snapshot s)"

definition stream_shows :: "arguments_stream \<Rightarrow> bool" where
  "stream_shows s \<longleftrightarrow> stream_reads s \<and> ta_snapshot s = jp_snapshot (ta_parser s) \<and>
     (jp_dirty (ta_parser s) \<longrightarrow> jp_credit (ta_parser s) < copy_work (ta_parser s))"

lemma use_snoc: "snd (use_parser (us @ [u]) p) = (case u of Piece t \<Rightarrow> feed t (snd (use_parser us p)) | Snapshot \<Rightarrow> snd (snapshot (snd (use_parser us p))))"
  by (induction us p rule: use_parser.induct) (auto simp: Let_def case_prod_beta split: parser_use.splits)

lemma used_text_snoc: "used_text (us @ [u]) = used_text us @ (case u of Piece t \<Rightarrow> t | Snapshot \<Rightarrow> [])"
  by (induction us rule: used_text.induct) (auto split: parser_use.splits)

lemma use_ok: "\<exists>w. parser_ok w (snd (use_parser us new_parser)) \<and> cost_ok (snd (use_parser us new_parser)) \<and> settled (snd (use_parser us new_parser))"
proof (induction us rule: rev_induct)
  case Nil
  have "cost_ok new_parser" "settled new_parser" by (simp_all add: cost_ok_def settled_def new_parser_def)
  then show ?case using new_ok by auto
next
  case (snoc u us)
  then show ?case
    using cost_feed feed_ok settled_feed snapshot_ok snapshot_cost settled_snapshot by (cases u) (fastforce simp: use_snoc)+
qed

lemma partial_shows:
  assumes "stream_reads s"
  shows "stream_shows (snd (partial s))" "ta_text (snd (partial s)) = ta_text s"
proof -
  let ?p = "ta_parser s"
  obtain us where us: "?p = snd (use_parser us new_parser)" "used_text us = ta_text s" using assms by (auto simp: stream_reads_def)
  have "snd (snapshot ?p) = snd (use_parser (us @ [Snapshot]) new_parser)" "used_text (us @ [Snapshot]) = ta_text s"
    using us by (simp_all add: use_snoc used_text_snoc)
  then have r: "\<exists>vs. snd (snapshot ?p) = snd (use_parser vs new_parser) \<and> used_text vs = ta_text s" by blast
  have shot: "fst (snapshot ?p) = jp_snapshot (snd (snapshot ?p))" by (simp add: snapshot_def Let_def)
  have "copy_work (snd (snapshot ?p)) = copy_work ?p"
    by (simp add: snapshot_def Let_def copy_work_def pendingScalar_def split: option.splits)
  moreover have "cost_ok ?p" using use_ok [of us] us(1) by auto
  ultimately have d: "jp_dirty (snd (snapshot ?p)) \<longrightarrow> jp_credit (snd (snapshot ?p)) < copy_work (snd (snapshot ?p))"
    using cost_work [of ?p] by (auto simp: snapshot_def Let_def)
  show "stream_shows (snd (partial s))" "ta_text (snd (partial s)) = ta_text s"
    using assms r shot d by (auto simp: partial_def stream_shows_def stream_reads_def case_prod_beta Let_def)
qed

lemma append_shows:
  assumes "stream_reads s"
  shows "stream_shows (snd (append_delta t s))" "ta_text (snd (append_delta t s)) = ta_text s @ t"
proof -
  let ?s = "s\<lparr>ta_text := ta_text s @ t, ta_parser := snd (append t (ta_parser s))\<rparr>"
  obtain us where us: "ta_parser s = snd (use_parser us new_parser)" "used_text us = ta_text s" using assms by (auto simp: stream_reads_def)
  then have "feed t (ta_parser s) = snd (use_parser (us @ [Piece t]) new_parser)" "used_text (us @ [Piece t]) = ta_text s @ t"
    by (simp_all add: use_snoc used_text_snoc)
  then have "stream_reads ?s" using assms by (auto simp: stream_reads_def)
  from partial_shows [OF this] show "stream_shows (snd (append_delta t s))" "ta_text (snd (append_delta t s)) = ta_text s @ t"
    by (simp_all add: append_delta_def)
qed

lemma use_shows: "stream_shows s \<Longrightarrow> stream_shows (use_stream u s)"
proof (cases u)
  case (Complete t)
  assume s: "stream_shows s"
  then have r: "stream_reads s" by (simp add: stream_shows_def)
  have "stream_reads (s\<lparr>ta_text := [], ta_parser := new_parser\<rparr>)"
    using r by (auto simp: stream_reads_def intro!: exI [of _ "[]"])
  then show ?thesis using Complete partial_shows(1) [OF r] append_shows(1) [OF r] append_shows(1)
    by (auto simp: replace_text_def Let_def case_prod_beta)
next
  case (Delta t)
  assume "stream_shows s"
  then have "stream_reads s" by (simp add: stream_shows_def)
  then show ?thesis using Delta append_shows(1) by simp
qed

lemma uses_show: "stream_shows (fold use_stream us new_arguments_stream)"
proof -
  have new: "stream_shows new_arguments_stream"
    by (auto simp: stream_shows_def stream_reads_def new_arguments_stream_def object_members_def new_parser_def intro!: exI [of _ "[]"])
  have "stream_shows s \<Longrightarrow> stream_shows (fold use_stream us s)" for s by (induction us arbitrary: s) (simp_all add: use_shows)
  then show ?thesis using new .
qed

text \<open>What a text that the final parse accepts leaves in the streaming parser.\<close>

lemma parsed_root:
  assumes "JSON_parse t = Some (JObj m)"
  shows "jp_done (fold read_unit t new_parser)" "jp_stack (fold read_unit t new_parser) = []" "jp_root (fold read_unit t new_parser) = Some (JObj m)"
    "jp_scalar (fold read_unit t new_parser) = []"
proof -
  obtain w r where w: "t = w @ r" "reads_container w (Members m)" using parsed_container [OF assms] by auto
  obtain q where "fold read_unit w new_parser = q" "jp_done q" "jp_stack q = []" "jp_root q = Some (JObj m)" "jp_scalar q = []"
    using root_text [OF w(2)] by auto
  then show "jp_done (fold read_unit t new_parser)" "jp_stack (fold read_unit t new_parser) = []" "jp_root (fold read_unit t new_parser) = Some (JObj m)"
    "jp_scalar (fold read_unit t new_parser) = []" using w(1) read_done by auto
qed

lemma accepted_root:
  assumes "parseJsonWithRepair message t = Inr (JObj m)"
  shows "\<exists>q. fold read_unit t new_parser = q \<and> jp_done q \<and> jp_stack q = [] \<and> jp_root q = Some (JObj m) \<and> jp_scalar q = []"
proof (cases "JSON_parse t")
  case (Some v)
  then show ?thesis using assms parsed_root [of t m] by (simp add: parseJsonWithRepair_def parse_or_throw_def)
next
  case None
  then have "JSON_parse (repairJson t) = Some (JObj m)"
    using assms by (auto simp: parseJsonWithRepair_def parse_or_throw_def Let_def split: if_splits option.splits)
  from parsed_root [OF this] repaired_done [of t] show ?thesis by auto
qed

lemma shown_arguments:
  assumes "stream_shows s" "parseJsonWithRepair message (ta_text s) = Inr (JObj m)"
  shows "ta_arguments s = m"
proof -
  let ?p = "ta_parser s"
  obtain us where us: "?p = snd (use_parser us new_parser)" "used_text us = ta_text s" using assms(1) by (auto simp: stream_shows_def stream_reads_def)
  obtain q where q: "fold read_unit (ta_text s) new_parser = q" "jp_done q" "jp_stack q = []" "jp_root q = Some (JObj m)" "jp_scalar q = []"
    using accepted_root [OF assms(2)] by blast
  have "same_text ?p q" using use_text [of us new_parser] us q(1) by simp
  then have p: "jp_done ?p" "jp_stack ?p = []" "jp_root ?p = Some (JObj m)" "jp_scalar ?p = []" using q by (simp_all add: same_text_def)
  have "pendingScalar ?p = None" using no_pending p(4) by blast
  then have "copy_work ?p = 0" "current_value ?p = Some (JObj m)" using p by (simp_all add: copy_work_def current_value_def copyOpenPath_def)
  moreover have "up_to_date ?p" using use_ok [of us] us(1) p(1) by (auto simp: settled_def)
  ultimately show ?thesis using assms(1) by (auto simp: stream_shows_def stream_reads_def up_to_date_def object_members_def)
qed

text \<open>
  C39. The partial arguments of a streaming tool call end in the final ones. Whatever deltas and complete texts a provider
  delivers, when the full parse of the text reports no error, its arguments, from the text or the repaired text, are
  exactly the partial arguments shown last.
\<close>

theorem partial_arguments_final:
  assumes "s = fold use_stream us new_arguments_stream" "pa_argumentsError (finish message s) = None"
  shows "ta_arguments s = pa_arguments (finish message s)"
proof (cases "trim (ta_text s) = []")
  case True
  have s: "stream_shows s" using uses_show assms(1) by simp
  then obtain vs where vs: "ta_parser s = snd (use_parser vs new_parser)" "used_text vs = ta_text s" by (auto simp: stream_shows_def stream_reads_def)
  have "blank_parser new_parser" by (simp add: blank_parser_def new_parser_def)
  then have "blank_parser (ta_parser s)" using blank_use [of new_parser vs] vs trimmed_blank [OF True] by simp
  then have "ta_arguments s = []" using s by (simp add: blank_parser_def stream_shows_def stream_reads_def object_members_def)
  then show ?thesis using True by (simp add: finish_def parseToolCallArguments_def)
next
  case False
  then obtain m where m: "parseJsonWithRepair message (ta_text s) = Inr (JObj m)"
    using assms(2) by (auto simp: finish_def parseToolCallArguments_def arguments_error_def split: sum.splits json.splits)
  have "ta_arguments s = m" using shown_arguments [OF _ m] uses_show assms(1) by blast
  then show ?thesis using False m by (simp add: finish_def parseToolCallArguments_def)
qed

definition demo_arguments :: arguments_stream where
  "demo_arguments = fold use_stream [Delta [123], Complete [123, 34, 97, 34, 58, 49, 125]] new_arguments_stream"

theorem partial_arguments_final_witness:
  "ta_arguments demo_arguments = [([97], JNum [49])]"
proof -
  have "finish (\<lambda>t. t) demo_arguments = \<lparr>pa_arguments = [([97], JNum [49])], pa_argumentsError = None\<rparr>" by code_simp
  then show ?thesis using partial_arguments_final [OF demo_arguments_def, of "\<lambda>t. t"] by simp
qed

end
