(* ===== verification/Spec2Isabelle.thy ===== *)
theory Spec2Isabelle
  imports Compaction_Correct Branch_Summary Agent_Correct Agent_Recovery_Correct Truncate_Correct Replay_Trim Edit_Fuzzy File_Queue
    Tool_Arguments
begin

text \<open>
  A verification library for the coding agent hummin: the packages ai, agent and coding-agent under
  src/packages.

  \<^bold>\<open>The program.\<close> A user talks to an agent that calls a language model and runs tools. The package ai has the
  message types and the rules that turn a transcript of messages, with system messages that add and remove tools,
  into the request a provider gets. The package agent runs the loop: it streams a response, runs the tool calls in it,
  adds the results to the transcript, and repeats, polling queues of steering and follow-up messages. The package
  coding-agent stores the transcript as a tree of entries in an append-only file, projects the active branch of the
  tree to the context of the next request, compacts and summarizes it when it grows too long, and has the tools that
  read and edit files.

  \<^bold>\<open>Theories and sources.\<close> Paths are relative to src/packages; every definition has the name of the function it
  models where Isabelle allows it, and an object is a record with the fields of its class.

  \<^item> \<open>Prelude\<close>: JavaScript strings as 16-bit code units, splitting and searching, JSON values, insertion-ordered maps
    with their interface as the locale \<open>ordered_map\<close>.
  \<^item> \<open>Transcript\<close> (ai/src/types.ts, utils/transcript.ts, utils/text.ts): message types, the prompt and the tools a
    transcript stands for, collapse of system messages, resolution of tool changes. \<open>Messages\<close>
    (coding-agent/src/core/messages.ts): agent messages and their conversion for the model.
  \<^item> \<open>Session\<close>, \<open>Session_Manager\<close>, \<open>Session_History\<close>, \<open>Session_Branch\<close> (coding-agent/src/core/session-manager.ts):
    entries, root paths, projection with context edits and compactions; the manager with every operation that changes
    a session and writes that may fail; its histories as the step relation \<open>sm_step\<close>; extraction of a branch and
    migration of old files.
  \<^item> \<open>Compaction\<close>, \<open>Compaction_Correct\<close>, \<open>Summary_Text\<close>, \<open>Summarization\<close>, \<open>Branch_Summary\<close>
    (core/compaction/compaction.ts, utils.ts, branch-summarization.ts, core/usage-totals.ts): token estimates, cut
    points, preparation, prompts, summary calls and the summary of an abandoned branch. \<open>Retry\<close> (ai/src/utils/retry.ts):
    the retry loop.
  \<^item> \<open>Event_Stream\<close> (ai/src/utils/event-stream.ts): the two-stack queue behind the locale \<open>fifo\<close> and the streams over
    it. \<open>Agent_Tools\<close>, \<open>Agent_Loop\<close> (agent/src/agent-loop.ts, types.ts): tool calls in sequential and scheduled
    parallel batches, tool declarations, response streaming, turns and runs. \<open>Agent\<close> (agent/src/agent.ts): queues,
    reduction of events and the lifecycle of a run. \<open>Agent_Tools_Correct\<close>, \<open>Agent_Loop_Correct\<close>, \<open>Agent_Budget\<close>,
    \<open>Agent_Correct\<close>: their theorems.
  \<^item> \<open>Agent_Session\<close>, \<open>Agent_Session_Correct\<close> (core/agent-session.ts): the handler that stores the events of a run.
  \<^item> \<open>Replay_Trim\<close> (core/replay-trim.ts): what old requests leave out. \<open>Utf8\<close>, \<open>Truncate\<close>, \<open>Truncate_Correct\<close>
    (core/tools/truncate.ts): limits on tool output in lines and bytes.
  \<^item> \<open>Edit_Text\<close>, \<open>Edit_Apply\<close>, \<open>Edit_Correct\<close>, \<open>Edit_Lines\<close>, \<open>Edit_Fuzzy\<close> (core/tools/edit-diff.ts, edit.ts,
    utils/text.ts): exact and fuzzy matching, replacement, diffs, and the edit tool on a file. \<open>File_Queue\<close>
    (core/tools/file-mutation-queue.ts): the queue that serializes mutations, as a transition system.

  \<^bold>\<open>What the theorems show.\<close> Sessions: every reachable state is well formed, history is append-only, an append is
  durable or leaves memory as it was, reopening a file restores the session, an extracted branch has the context of its
  path, compaction partitions the context and keeps what it promises. Runs: events follow the lifecycle protocol, tool
  results answer the calls in order under every schedule, declared tools replay to the executable ones, runs within a
  budget return, queues lose and reorder nothing, streams refine their list specification; storing a run keeps session
  and transcript in step (below). Text: truncation keeps the longest prefix or suffix within its limits, edits replace
  exactly the regions they match and no other line, mutations of a file never overlap and never block. Some theorems
  record behaviour the code does not intend: diverging walks on self-parented entries, colliding ids in old files, null
  content in branch summaries, and a fuzzy edit that takes the indentation of the next line.

  \<^bold>\<open>Parameters.\<close> The provider, hooks and tools of a run are functions over an explicit world; clocks, random ids and
  the outcome of each write are arguments (\<open>runtime\<close>); Unicode normalization, the line diff and file operations are
  arguments of the edit tool; tables of error patterns are arguments of the retry policy. What is required of them is
  stated in the theorems that need it: \<open>stream_protocol\<close> (at most one start event per response), \<open>within_budget\<close> (a
  bound on the responses a provider grants), \<open>uuid_ok\<close> and \<open>clock_ok\<close> (random ids have their length and the last of 101
  candidates is unused), \<open>nfkc_stable\<close> (normal forms stay normal).

  \<^bold>\<open>Loops and bounds.\<close> Walks over stored parents and the agent loop may not end, and are partial functions into
  options; that they return is a theorem where it holds. All other loops are total. Text offsets, counts and token
  numbers are unbounded; code units have 16 bits.

  \<^bold>\<open>Not modelled.\<close> Provider adapters, terminal and RPC front ends, settings, credentials and extensions are input and
  output around this core, or configuration; listing of session files only reads directories; the compaction and retry
  loops around a run in agent-session.ts, the shell and search tools, and the packages durable, chord, codemode, mcp,
  tui, env, schema, telemetry and evals are not modelled yet. Streaming listeners of the terminal and telemetry see
  events that are modelled but have no state here.
\<close>

section \<open>Runs and sessions\<close>

text \<open>
  C7. Storing a run keeps the session and the agent in step. Whatever events are delivered to a session whose
  context is the transcript of its agent, when none of the writes fails the context is the transcript again
  afterwards, messages deferred to the end of a turn included; the only difference allowed is the time of a custom
  message. When nothing was deferred, the context has grown by exactly the messages the events finished, and for the
  events of a run of the agent loop these are the messages the run returns.
\<close>

theorem session_mirrors_run:
  assumes "reachable (sr_manager s)" and "in_step s" and "run_delivered cfg s es s'"
    and "\<forall>m \<in> set (completed es). persistable m"
  shows "reachable (sr_manager s') \<and> in_step s' \<and>
    (sr_pendingCustomMessages s = [] \<longrightarrow>
      (\<exists>ms ms'. session_messages (sr_manager s) = Some ms \<and> session_messages (sr_manager s') = Some ms' \<and>
         map stamped ms' = map stamped (ms @ completed es) \<and>
         (\<forall>hk config prompts ctx (w :: 'w) ls. runAgentLoop hk config prompts ctx w = Some (ls, es) \<longrightarrow>
            map stamped ms' = map stamped (ms @ ls_new ls))))"
proof (intro conjI impI)
  from run_in_step [OF assms(3,1,2,4)] show r: "reachable (sr_manager s')" and i: "in_step s'" by simp_all
  assume plain: "sr_pendingCustomMessages s = []"
  from assms(2) obtain ms where ms: "session_messages (sr_manager s) = Some ms" "map stamped ms = map stamped (ag_messages (sr_agent s))"
    by (auto simp: in_step_def)
  from i obtain ms' where ms': "session_messages (sr_manager s') = Some ms'" "map stamped ms' = map stamped (ag_messages (sr_agent s'))"
    by (auto simp: in_step_def)
  have "map stamped ms' = map stamped (ms @ completed es)" using ms ms' run_plain [OF assms(3) plain] by simp
  moreover have "completed es = ls_new ls" if "runAgentLoop hk config prompts ctx w = Some (ls, es)"
    for hk config prompts ctx and w :: 'w and ls using runAgentLoop_completed [OF that] .
  ultimately show "\<exists>ms ms'. session_messages (sr_manager s) = Some ms \<and> session_messages (sr_manager s') = Some ms' \<and>
      map stamped ms' = map stamped (ms @ completed es) \<and>
      (\<forall>hk config prompts ctx (w :: 'w) ls. runAgentLoop hk config prompts ctx w = Some (ls, es) \<longrightarrow>
         map stamped ms' = map stamped (ms @ ls_new ls))"
    using ms ms' by metis
qed

definition demo_runtime :: session_runtime where
  "demo_runtime = \<lparr>sr_manager = demo_open,
     sr_agent = createMutableAgentState \<lparr>in_systemPrompt = None, in_tools = [], in_messages = [], in_model = None,
       in_thinkingLevel = None\<rparr> True False,
     sr_steeringMessages = [], sr_followUpMessages = [], sr_pendingCustomMessages = [], sr_pendingBashMessages = [], sr_entryIds = [],
     sr_overflowRecoveryAttempted = False, sr_lastAssistantMessage = None, sr_failedResponse = None, sr_retryAttempt = 0, sr_abortRequested = False,
     sr_emitted = []\<rparr>"

definition demo_settings :: retry_settings where
  "demo_settings = \<lparr>rs_policy = default_policy, rs_retryable = (\<lambda>a. False)\<rparr>"

lemma demo_runtime_in_step: "in_step demo_runtime"
proof -
  have "getBranch demo_open None = Some []"
    by (simp add: demo_open_def newSession_def create_file_def demo_blank_def final_def Let_def assertValidSessionId_def
      is_alnum_def js_def demo_rt_def getBranch_None_leaf)
  then have "session_messages demo_open = Some []"
    using session_messages_branch [of demo_open "[]"] reachable_ok [OF demo_open_reachable]
    by (simp add: context_entries_of_path_def project_entries_def)
  then show ?thesis
    by (simp add: in_step_def demo_runtime_def createMutableAgentState_def createInitialSystemMessage_def Let_def)
qed

lemma demo_delivered: "\<exists>s'. run_delivered demo_settings demo_runtime [MessageEnd (demo_user ''hi'')] s'"
proof -
  have "\<exists>q. appendMessage (demo_rt 0 IoOk) (demo_user ''hi'') demo_open = Inr q"
    by (auto simp: appendMessage_def append_child_def appendEntry_def persist_entry_def write_lines_def demo_rt_def Let_def
        split: option.splits)
  then obtain i st where "appendMessage (demo_rt 0 IoOk) (demo_user ''hi'') demo_open = Inr (i, st)" by auto
  then have "\<exists>s1. deliver_event demo_settings (\<lambda>k. demo_rt 0 IoOk) (MessageEnd (demo_user ''hi'')) demo_runtime = Some (Inr s1)"
    by (simp add: deliver_event_def handleAgentEvent_def persist_message_def demo_runtime_def demo_user_def Let_def emit_session_def)
  moreover have "clock_ok 1 (\<lambda>k. demo_rt 0 IoOk) demo_open" using demo_uuid_ok by (simp add: clock_ok_def inj_on_def)
  ultimately show ?thesis
    using delivered_cons [of demo_runtime "\<lambda>k. demo_rt 0 IoOk" demo_settings] delivered_nil
    by (fastforce simp: demo_runtime_def)
qed

theorem session_mirrors_run_witness:
  "\<exists>s' ms'. run_delivered demo_settings demo_runtime [MessageEnd (demo_user ''hi'')] s' \<and>
     session_messages (sr_manager s') = Some ms' \<and> map stamped ms' = [demo_user ''hi'']"
proof -
  obtain s' where s': "run_delivered demo_settings demo_runtime [MessageEnd (demo_user ''hi'')] s'" using demo_delivered by blast
  have "reachable (sr_manager demo_runtime)" using demo_open_reachable by (simp add: demo_runtime_def)
  from session_mirrors_run [OF this demo_runtime_in_step s'] have
    "\<exists>ms ms'. session_messages (sr_manager demo_runtime) = Some ms \<and> session_messages (sr_manager s') = Some ms' \<and>
      map stamped ms' = map stamped (ms @ [demo_user ''hi''])"
    by (auto simp: demo_user_def demo_runtime_def)
  moreover have "session_messages (sr_manager demo_runtime) = Some []"
    using demo_runtime_in_step
    by (auto simp: in_step_def demo_runtime_def createMutableAgentState_def createInitialSystemMessage_def Let_def)
  ultimately show ?thesis using s' by (auto simp: demo_user_def)
qed

end
